(* ===== verification/Prelude.thy ===== *)
theory Prelude
  imports Main
begin

text \<open>
  Shared vocabulary of the development: the errors a service call can end with, the result
  type, sequencing of fallible steps, the collections of rewrite rules the component proofs use,
  and the generic facts on lists and results that more than one component needs.
  Also the contract of a machine that keeps an invariant, stated once as a locale: every
  component with a sequence of operations interprets it on its own step function.
\<close>

section \<open>Errors and results\<close>

text \<open>
  \<^item> \<open>HttpError\<close> is the class of \<^verbatim>\<open>server/src/utils/http-error.ts\<close>: a status and a message.
  \<^item> \<open>PlainError\<close> is a JavaScript \<^verbatim>\<open>Error\<close> with a message.
  \<^item> \<open>PrismaError\<close> is a rejected database request, with the documented error code: \<open>P2002\<close>
    (unique constraint), \<open>P2020\<close> (value out of range), \<open>P2025\<close> (record to change not found).
\<close>

datatype error = HttpError nat string | PlainError string | PrismaError string

type_synonym 'a result = "error + 'a"

definition bind_res :: "'a result \<Rightarrow> ('a \<Rightarrow> 'b result) \<Rightarrow> 'b result" where
  "bind_res m f = (case m of Inl e \<Rightarrow> Inl e | Inr x \<Rightarrow> f x)"

text \<open>
  The state left by a database transaction: a body that throws is rolled back, so the caller
  sees the state it started from.
\<close>

definition commit :: "('a \<times> 's) result \<Rightarrow> 's \<Rightarrow> 's" where
  "commit r s = (case r of Inl e \<Rightarrow> s | Inr (x, s') \<Rightarrow> s')"

named_theorems op_defs \<open>definitions of the operations of a component\<close>
named_theorems inv_defs \<open>definitions of the invariants of a component\<close>

lemma bind_res_simps [simp]:
  "bind_res (Inl e) f = Inl e"
  "bind_res (Inr x) f = f x"
  by (simp_all add: bind_res_def)

lemma bind_res_InrE:
  assumes "bind_res m f = Inr y"
  obtains x where "m = Inr x" and "f x = Inr y"
  using assms by (cases m) auto

lemma bind_res_Inr_iff: "bind_res m f = Inr y \<longleftrightarrow> (\<exists>x. m = Inr x \<and> f x = Inr y)"
  by (cases m) auto

lemma commit_simps [simp]:
  "commit (Inl e) s = s"
  "commit (Inr (x, s')) s = s'"
  by (simp_all add: commit_def)

lemma if_Inr_iff [simp]:
  "(if b then Inl e else m) = Inr y \<longleftrightarrow> \<not> b \<and> m = Inr y"
  "(if b then m else Inl e) = Inr y \<longleftrightarrow> b \<and> m = Inr y"
  by auto

section \<open>Machines that keep an invariant\<close>

text \<open>
  A component is a start state, a function that performs one operation, the operations a caller
  may issue in a state, and a predicate on states. The contract is that the predicate holds at the
  start and that every allowed operation keeps it. It then holds after every run all of whose
  operations are allowed when they are issued.
\<close>

fun allowed_run :: "('s \<Rightarrow> 'e \<Rightarrow> 's) \<Rightarrow> ('s \<Rightarrow> 'e \<Rightarrow> bool) \<Rightarrow> 's \<Rightarrow> 'e list \<Rightarrow> bool" where
  "allowed_run exec ok s [] = True"
| "allowed_run exec ok s (e # es) = (ok s e \<and> allowed_run exec ok (exec s e) es)"

lemma allowed_run_append:
  "allowed_run exec ok s (es @ fs) \<longleftrightarrow>
     allowed_run exec ok s es \<and> allowed_run exec ok (foldl exec s es) fs"
  by (induction es arbitrary: s) auto

lemma allowed_run_all:
  "(\<And>s e. e \<in> set es \<Longrightarrow> ok s e) \<Longrightarrow> allowed_run exec ok s es"
  by (induction es arbitrary: s) auto

locale invariant_machine =
  fixes start :: 's
    and exec :: "'s \<Rightarrow> 'e \<Rightarrow> 's"
    and ok :: "'s \<Rightarrow> 'e \<Rightarrow> bool"
    and inv :: "'s \<Rightarrow> bool"
  assumes inv_start: "inv start"
    and inv_exec: "inv s \<Longrightarrow> ok s e \<Longrightarrow> inv (exec s e)"
begin

lemma inv_run: "inv s \<Longrightarrow> allowed_run exec ok s es \<Longrightarrow> inv (foldl exec s es)"
proof (induction es arbitrary: s)
  case Nil
  then show ?case by simp
next
  case (Cons e es)
  then have "inv (exec s e)" by (auto intro: inv_exec)
  with Cons.prems show ?case by (auto intro: Cons.IH)
qed

lemma inv_reachable: "allowed_run exec ok start es \<Longrightarrow> inv (foldl exec start es)"
  by (rule inv_run [OF inv_start])

end

section \<open>Generic facts\<close>

lemma fst_True_pair: "fst p \<Longrightarrow> p = (True, snd p)"
  by (cases p) simp

lemma sum_list_filter_le:
  fixes f :: "'a \<Rightarrow> int"
  assumes "\<And>x. x \<in> set xs \<Longrightarrow> 0 \<le> f x"
  shows "sum_list (map f (filter P xs)) \<le> sum_list (map f xs)"
  using assms by (induction xs) (auto intro: add_increasing)

lemma sum_list_int_nonneg:
  fixes f :: "'a \<Rightarrow> int"
  shows "(\<And>x. x \<in> set xs \<Longrightarrow> 0 \<le> f x) \<Longrightarrow> 0 \<le> sum_list (map f xs)"
  by (induction xs) auto

lemma find_SomeD: "List.find P xs = Some x \<Longrightarrow> x \<in> set xs \<and> P x"
  by (induction xs) (auto split: if_splits)

section \<open>Library functions of JavaScript\<close>

text \<open>\<^verbatim>\<open>Array.prototype.join\<close>, \<^verbatim>\<open>[...new Set(xs)]\<close> and \<^verbatim>\<open>xs.slice(0, n)\<close>.\<close>

fun js_join :: "string \<Rightarrow> string list \<Rightarrow> string" where
  "js_join sep [] = []"
| "js_join sep [x] = x"
| "js_join sep (x # y # xs) = x @ sep @ js_join sep (y # xs)"

definition js_uniq :: "'a list \<Rightarrow> 'a list" where
  "js_uniq xs = foldl (\<lambda>acc x. if x \<in> set acc then acc else acc @ [x]) [] xs"

definition js_slice0 :: "int \<Rightarrow> 'a list \<Rightarrow> 'a list" where
  "js_slice0 n xs = (if n \<ge> 0 then take (nat n) xs else take (length xs - nat (- n)) xs)"

lemma js_uniq_fold:
  "set (foldl (\<lambda>acc x. if x \<in> set acc then acc else acc @ [x]) acc xs) = set acc \<union> set xs"
  "distinct acc \<Longrightarrow> distinct (foldl (\<lambda>acc x. if x \<in> set acc then acc else acc @ [x]) acc xs)"
  by (induction xs arbitrary: acc) auto

lemma set_js_uniq [simp]: "set (js_uniq xs) = set xs"
  and distinct_js_uniq [simp]: "distinct (js_uniq xs)"
  by (simp_all add: js_uniq_def js_uniq_fold)

text \<open>The last entries of a list, \<^verbatim>\<open>xs.slice(-n)\<close>.\<close>

definition latest :: "nat \<Rightarrow> 'a list \<Rightarrow> 'a list" where
  "latest n xs = drop (length xs - n) xs"

lemma latest_snoc:
  "latest n (xs @ [x]) = (if n = 0 then [] else if length xs < n then xs @ [x] else tl (latest n xs) @ [x])"
  by (auto simp: latest_def Suc_diff_le drop_Suc tl_drop)

lemma length_latest: "length (latest n xs) = min n (length xs)"
  by (simp add: latest_def)

lemma set_latest: "set (latest n xs) \<subseteq> set xs"
  by (simp add: latest_def set_drop_subset)

lemma sorted_latest: "sorted (map f xs) \<Longrightarrow> sorted (map f (latest n xs))"
  by (simp add: latest_def sorted_wrt_drop flip: drop_map)

lemma js_slice0_subset: "set (js_slice0 n xs) \<subseteq> set xs"
  by (auto simp: js_slice0_def dest: in_set_takeD)

text \<open>Numbers in template strings.\<close>

fun show_nat :: "nat \<Rightarrow> string" where
  "show_nat n = (if n < 10 then [char_of (48 + n)] else show_nat (n div 10) @ [char_of (48 + n mod 10)])"

declare show_nat.simps [simp del]

definition show_int :: "int \<Rightarrow> string" where
  "show_int i = (if i < 0 then ''-'' @ show_nat (nat (- i)) else show_nat (nat i))"

text \<open>\<^verbatim>\<open>xs[i] || null\<close> on a list of objects.\<close>

definition nth_opt :: "'a list \<Rightarrow> nat \<Rightarrow> 'a option" where
  "nth_opt xs i = (if i < length xs then Some (xs ! i) else None)"

lemma nth_opt_simps [simp]:
  "nth_opt [] i = None" "nth_opt (x # xs) 0 = Some x" "nth_opt (x # xs) (Suc i) = nth_opt xs i"
  by (simp_all add: nth_opt_def)

section \<open>Handlers without a transaction\<close>

text \<open>
  A handler that writes step by step keeps what it has written when a later step fails: its outcome
  and the state travel together.
\<close>

definition and_then :: "'a result \<times> 's \<Rightarrow> ('a \<Rightarrow> 's \<Rightarrow> 'b result \<times> 's) \<Rightarrow> 'b result \<times> 's" where
  "and_then r f = (case r of (Inl e, s) \<Rightarrow> (Inl e, s) | (Inr x, s) \<Rightarrow> f x s)"

lemma and_then_simps [simp]: "and_then (Inl e, s) f = (Inl e, s)" "and_then (Inr x, s) f = f x s"
  by (simp_all add: and_then_def)

lemma and_then_Inr_iff:
  "and_then r f = (Inr y, s') \<longleftrightarrow> (\<exists>x s. r = (Inr x, s) \<and> f x s = (Inr y, s'))"
  by (auto simp: and_then_def split: prod.splits sum.splits)

text \<open>What every step keeps, the whole handler keeps, whether it fails or not.\<close>

lemma and_then_keeps:
  assumes "P (snd r)" and "\<And>x s. r = (Inr x, s) \<Longrightarrow> P s \<Longrightarrow> P (snd (f x s))"
  shows "P (snd (and_then r f))"
  using assms by (cases r) (auto simp: and_then_def split: sum.splits)

section \<open>Step relations\<close>

text \<open>The same for components whose steps are a relation: what every step keeps holds wherever steps lead.\<close>

locale step_invariant =
  fixes init :: 'c
    and step :: "'c \<Rightarrow> 'c \<Rightarrow> bool"
    and inv :: "'c \<Rightarrow> bool"
  assumes inv_init: "inv init"
    and inv_step: "step s s' \<Longrightarrow> inv s \<Longrightarrow> inv s'"
begin

lemma inv_steps: "step\<^sup>*\<^sup>* s s' \<Longrightarrow> inv s \<Longrightarrow> inv s'"
  by (induction rule: rtranclp_induct) (auto intro: inv_step)

lemma inv_all_reachable: "step\<^sup>*\<^sup>* init s \<Longrightarrow> inv s"
  by (rule inv_steps [OF _ inv_init])

end

section \<open>Status machines\<close>

text \<open>
  A status that only climbs: every step raises a rank. Then no status comes back, and a path is no
  longer than the rank of its end.
\<close>

locale ranked_steps =
  fixes step :: "'a \<Rightarrow> 'a \<Rightarrow> bool"
    and rank :: "'a \<Rightarrow> nat"
  assumes climbs: "step a b \<Longrightarrow> rank a < rank b"
begin

lemma path_climbs: "step\<^sup>+\<^sup>+ a b \<Longrightarrow> rank a < rank b"
  by (induction rule: tranclp_induct) (auto dest: climbs)

lemma no_return: "\<not> step\<^sup>+\<^sup>+ a a"
  using path_climbs by fastforce

lemma star_climbs: "step\<^sup>*\<^sup>* a b \<Longrightarrow> rank a \<le> rank b"
  by (induction rule: rtranclp_induct) (auto dest: climbs)

lemma final_stays: "step\<^sup>*\<^sup>* a b \<Longrightarrow> (\<And>c. \<not> step a c) \<Longrightarrow> b = a"
  by (auto elim: converse_rtranclpE)

lemma path_bounded: "successively step xs \<Longrightarrow> xs \<noteq> [] \<Longrightarrow> length xs \<le> Suc (rank (last xs))"
proof (induction xs rule: rev_induct)
  case (snoc x xs)
  then show ?case
    by (cases "xs = []") (auto simp: successively_append_iff dest!: climbs)
qed simp

end

end
