(* ===== verification/Stores.thy ===== *)
theory Stores
  imports Prelude "HOL-Library.AList"
begin

text \<open>
  Keyed stores. A JavaScript \<^verbatim>\<open>Map\<close> iterates its entries in the order of first insertion:
  setting a present key keeps its place, setting a new key appends it, deleting removes it.
  A database table with a unique column is the same thing read by that column, with its rows in
  the order of creation. Both are association lists here.

  The theory states what the services rely on as two locales (a keyed store, and a keyed store
  whose entries can be summed up), proves the clients' lemmas once inside them, and interprets
  both on the association lists.
\<close>

section \<open>The model of a store\<close>

type_synonym ('k, 'v) jsmap = "('k \<times> 'v) list"

definition jm_empty :: "('k, 'v) jsmap" where
  "jm_empty = []"

definition jm_get :: "('k, 'v) jsmap \<Rightarrow> 'k \<Rightarrow> 'v option" where
  "jm_get m k = map_of m k"

definition jm_set :: "('k, 'v) jsmap \<Rightarrow> 'k \<Rightarrow> 'v \<Rightarrow> ('k, 'v) jsmap" where
  "jm_set m k v = AList.update k v m"

definition jm_delete :: "('k, 'v) jsmap \<Rightarrow> 'k \<Rightarrow> ('k, 'v) jsmap" where
  "jm_delete m k = AList.delete k m"

definition jm_values :: "('k, 'v) jsmap \<Rightarrow> 'v list" where
  "jm_values m = map snd m"

definition jm_wf :: "('k, 'v) jsmap \<Rightarrow> bool" where
  "jm_wf m \<longleftrightarrow> distinct (map fst m)"

definition jm_total :: "('k \<Rightarrow> 'v \<Rightarrow> int) \<Rightarrow> ('k, 'v) jsmap \<Rightarrow> int" where
  "jm_total f m = sum_list (map (\<lambda>(k, v). f k v) m)"

text \<open>
  The database calls on a table read by a unique column. \<open>create\<close> rejects a duplicate,
  \<open>update\<close> rejects a missing row.
\<close>

definition row_create :: "('k, 'v) jsmap \<Rightarrow> 'k \<Rightarrow> 'v \<Rightarrow> ('k, 'v) jsmap result" where
  "row_create t k v =
     (case jm_get t k of Some _ \<Rightarrow> Inl (PrismaError ''P2002'') | None \<Rightarrow> Inr (jm_set t k v))"

definition row_update :: "('k, 'v) jsmap \<Rightarrow> 'k \<Rightarrow> ('v \<Rightarrow> 'v) \<Rightarrow> ('k, 'v) jsmap result" where
  "row_update t k f =
     (case jm_get t k of None \<Rightarrow> Inl (PrismaError ''P2025'') | Some v \<Rightarrow> Inr (jm_set t k (f v)))"

text \<open>\<open>updateMany\<close>: every row that satisfies the filter is changed, in place.\<close>

definition row_update_many :: "('k, 'v) jsmap \<Rightarrow> ('v \<Rightarrow> bool) \<Rightarrow> ('v \<Rightarrow> 'v) \<Rightarrow> ('k, 'v) jsmap" where
  "row_update_many t p f = map (\<lambda>(k, v). (k, if p v then f v else v)) t"

section \<open>The contract of a keyed store\<close>

locale kv_store =
  fixes empty :: 's
    and get :: "'s \<Rightarrow> 'k \<Rightarrow> 'v option"
    and put :: "'s \<Rightarrow> 'k \<Rightarrow> 'v \<Rightarrow> 's"
    and del :: "'s \<Rightarrow> 'k \<Rightarrow> 's"
    and wf :: "'s \<Rightarrow> bool"
  assumes get_empty: "get empty k = None"
    and get_put: "get (put s k v) k' = (if k' = k then Some v else get s k')"
    and get_del: "wf s \<Longrightarrow> get (del s k) k' = (if k' = k then None else get s k')"
    and wf_empty: "wf empty"
    and wf_put: "wf s \<Longrightarrow> wf (put s k v)"
    and wf_del: "wf s \<Longrightarrow> wf (del s k)"
begin

lemma get_put_same: "get (put s k v) k = Some v"
  by (simp add: get_put)

lemma get_put_other: "k' \<noteq> k \<Longrightarrow> get (put s k v) k' = get s k'"
  by (simp add: get_put)

lemma all_put:
  assumes "\<And>k v. get s k = Some v \<Longrightarrow> P k v" and "P k v" and "get (put s k v) k' = Some v'"
  shows "P k' v'"
  using assms by (auto simp: get_put split: if_splits)

lemma all_del:
  assumes "wf s" and "\<And>k v. get s k = Some v \<Longrightarrow> P k v" and "get (del s k) k' = Some v'"
  shows "P k' v'"
  using assms by (auto simp: get_del split: if_splits)

end

text \<open>
  A store of quantities: the entries can be summed under a measure. The laws say how the sum
  changes when one entry does, and the client lemmas are about moving a quantity between entries.
\<close>

locale kv_total = kv_store +
  fixes total :: "('k \<Rightarrow> 'v \<Rightarrow> int) \<Rightarrow> 's \<Rightarrow> int"
  assumes total_empty: "total f empty = 0"
    and total_put: "wf s \<Longrightarrow>
      total f (put s k v) = total f s - (case get s k of None \<Rightarrow> 0 | Some w \<Rightarrow> f k w) + f k v"
    and total_del: "wf s \<Longrightarrow>
      total f (del s k) = total f s - (case get s k of None \<Rightarrow> 0 | Some w \<Rightarrow> f k w)"
begin

lemma total_put_Some:
  "wf s \<Longrightarrow> get s k = Some w \<Longrightarrow> total f (put s k v) = total f s - f k w + f k v"
  by (simp add: total_put)

lemma total_put_None:
  "wf s \<Longrightarrow> get s k = None \<Longrightarrow> total f (put s k v) = total f s + f k v"
  by (simp add: total_put)

lemma total_move:
  assumes "wf s" and "get s k = Some a" and "get s k' = Some b" and "k \<noteq> k'"
  shows "total f (put (put s k a') k' b') = total f s - f k a + f k a' - f k' b + f k' b'"
  using assms by (simp add: total_put wf_put get_put)

end

section \<open>Association lists meet the contract\<close>

lemma map_of_AList_update: "map_of (AList.update k v m) k' = (if k' = k then Some v else map_of m k')"
  by (simp add: update_conv')

lemma map_of_AList_delete: "map_of (AList.delete k m) k' = (if k' = k then None else map_of m k')"
  by (simp add: delete_conv')

lemma jm_total_update:
  "distinct (map fst m) \<Longrightarrow>
     jm_total f (AList.update k v m)
       = jm_total f m - (case map_of m k of None \<Rightarrow> 0 | Some w \<Rightarrow> f k w) + f k v"
  by (induction m) (auto simp: jm_total_def split: option.splits)

lemma AList_delete_absent: "k \<notin> fst ` set m \<Longrightarrow> AList.delete k m = m"
  by (induction m) (auto simp: AList.delete_eq)

lemma jm_total_delete:
  "distinct (map fst m) \<Longrightarrow>
     jm_total f (AList.delete k m)
       = jm_total f m - (case map_of m k of None \<Rightarrow> 0 | Some w \<Rightarrow> f k w)"
  by (induction m) (auto simp: jm_total_def AList_delete_absent split: option.splits)

interpretation jm: kv_total jm_empty jm_get jm_set jm_delete jm_wf jm_total
proof unfold_locales
  show "jm_get jm_empty k = None" for k :: 'k
    by (simp add: jm_get_def jm_empty_def)
  show "jm_get (jm_set s k v) k' = (if k' = k then Some v else jm_get s k')"
    for s :: "('k, 'v) jsmap" and k v k'
    by (simp add: jm_get_def jm_set_def map_of_AList_update)
  show "jm_wf s \<Longrightarrow> jm_get (jm_delete s k) k' = (if k' = k then None else jm_get s k')"
    for s :: "('k, 'v) jsmap" and k k'
    by (simp add: jm_get_def jm_delete_def map_of_AList_delete)
  show "jm_wf jm_empty"
    by (simp add: jm_wf_def jm_empty_def)
  show "jm_wf s \<Longrightarrow> jm_wf (jm_set s k v)" for s :: "('k, 'v) jsmap" and k v
    by (simp add: jm_wf_def jm_set_def distinct_update)
  show "jm_wf s \<Longrightarrow> jm_wf (jm_delete s k)" for s :: "('k, 'v) jsmap" and k
    by (simp add: jm_wf_def jm_delete_def distinct_delete)
  show "jm_total f jm_empty = 0" for f :: "'k \<Rightarrow> 'v \<Rightarrow> int"
    by (simp add: jm_total_def jm_empty_def)
  show "jm_wf s \<Longrightarrow> jm_total f (jm_set s k v)
      = jm_total f s - (case jm_get s k of None \<Rightarrow> 0 | Some w \<Rightarrow> f k w) + f k v"
    for s :: "('k, 'v) jsmap" and f k v
    by (simp add: jm_wf_def jm_set_def jm_get_def jm_total_update)
  show "jm_wf s \<Longrightarrow> jm_total f (jm_delete s k)
      = jm_total f s - (case jm_get s k of None \<Rightarrow> 0 | Some w \<Rightarrow> f k w)"
    for s :: "('k, 'v) jsmap" and f k
    by (simp add: jm_wf_def jm_delete_def jm_get_def jm_total_delete)
qed

lemma jm_get_delete: "jm_get (jm_delete s k) k' = (if k' = k then None else jm_get s k')"
  by (simp add: jm_get_def jm_delete_def map_of_AList_delete)

lemmas jm_store_simps [simp] = jm.get_empty jm.get_put jm.wf_empty jm.wf_put jm.wf_del

section \<open>Order of entries\<close>

text \<open>Facts on the place of an entry, which the contract above does not speak of.\<close>

lemma jm_set_append_new: "jm_get m k = None \<Longrightarrow> jm_set m k v = m @ [(k, v)]"
  unfolding jm_set_def jm_get_def by (induction m) (auto split: if_splits)

lemma jm_set_set [simp]: "jm_set (jm_set m k v) k w = jm_set m k w"
  unfolding jm_set_def by (induction m) auto

lemma jm_set_swap:
  "k \<noteq> k' \<Longrightarrow> jm_get m k = Some w \<Longrightarrow>
     jm_set (jm_set m k' v') k v = jm_set (jm_set m k v) k' v'"
  unfolding jm_set_def jm_get_def by (induction m) (auto split: if_splits)

lemma jm_values_set_new: "jm_get m k = None \<Longrightarrow> jm_values (jm_set m k v) = jm_values m @ [v]"
  by (simp add: jm_set_append_new jm_values_def)

lemma jm_get_in_values: "jm_get m k = Some v \<Longrightarrow> v \<in> set (jm_values m)"
  by (auto simp: jm_get_def jm_values_def dest!: map_of_SomeD intro: rev_image_eqI)

lemma jm_values_get: "jm_wf m \<Longrightarrow> v \<in> set (jm_values m) \<Longrightarrow> \<exists>k. jm_get m k = Some v"
  by (auto simp: jm_get_def jm_values_def jm_wf_def)

lemma length_jm_set: "length (jm_set m k v) = (if jm_get m k = None then length m + 1 else length m)"
  unfolding jm_set_def jm_get_def by (induction m) auto

lemma length_jm_delete: "length (jm_delete m k) \<le> length m"
  by (simp add: jm_delete_def AList.delete_eq)

lemma jm_total_nonneg:
  assumes "jm_wf m" and "\<And>k v. jm_get m k = Some v \<Longrightarrow> 0 \<le> f k v"
  shows "0 \<le> jm_total f m"
  unfolding jm_total_def
proof (rule sum_list_int_nonneg)
  fix p
  assume "p \<in> set m"
  with assms show "0 \<le> (case p of (k, v) \<Rightarrow> f k v)"
    by (cases p) (auto simp: jm_get_def jm_wf_def)
qed

lemma jm_total_zero:
  assumes "jm_wf m" and "\<And>k v. jm_get m k = Some v \<Longrightarrow> f k v = 0"
  shows "jm_total f m = 0"
proof -
  from assms have "\<forall>p\<in>set m. (case p of (k, v) \<Rightarrow> f k v) = 0"
    by (auto simp: jm_get_def jm_wf_def)
  then show ?thesis
    unfolding jm_total_def by (induction m) auto
qed

text \<open>Deleting the entries that meet a condition, as the clean-up loops do: collect the keys, delete them.\<close>

definition jm_sweep :: "('k \<Rightarrow> 'v \<Rightarrow> bool) \<Rightarrow> ('k, 'v) jsmap \<Rightarrow> ('k, 'v) jsmap" where
  "jm_sweep p m = foldl jm_delete m (map fst (filter (\<lambda>(k, v). p k v) m))"

lemma jm_delete_list:
  "jm_wf m \<Longrightarrow> jm_get (foldl jm_delete m ks) k = (if k \<in> set ks then None else jm_get m k)"
  "jm_wf m \<Longrightarrow> jm_wf (foldl jm_delete m ks)"
  by (induction ks arbitrary: m) (auto simp: jm.get_del)

lemma jm_wf_sweep [simp]: "jm_wf m \<Longrightarrow> jm_wf (jm_sweep p m)"
  by (simp add: jm_sweep_def jm_delete_list)

lemma jm_get_sweep:
  assumes "jm_wf m"
  shows "jm_get (jm_sweep p m) k = Option.bind (jm_get m k) (\<lambda>v. if p k v then None else Some v)"
proof -
  have "k \<in> set (map fst (filter (\<lambda>(k, v). p k v) m)) \<longleftrightarrow> (\<exists>v. jm_get m k = Some v \<and> p k v)"
    using assms by (force simp: jm_get_def jm_wf_def)
  with assms show ?thesis
    by (cases "jm_get m k") (auto simp: jm_sweep_def jm_delete_list)
qed

lemma row_update_Inr_iff:
  "row_update t k f = Inr t' \<longleftrightarrow> (\<exists>v. jm_get t k = Some v \<and> t' = jm_set t k (f v))"
  by (auto simp: row_update_def split: option.splits)

lemma row_create_Inr_iff:
  "row_create t k v = Inr t' \<longleftrightarrow> jm_get t k = None \<and> t' = jm_set t k v"
  by (auto simp: row_create_def split: option.splits)

lemma jm_get_update_many:
  "jm_get (row_update_many t p f) k = map_option (\<lambda>v. if p v then f v else v) (jm_get t k)"
  unfolding jm_get_def row_update_many_def by (induction t) auto

lemma jm_wf_update_many [simp]: "jm_wf (row_update_many t p f) \<longleftrightarrow> jm_wf t"
  by (simp add: jm_wf_def row_update_many_def comp_def case_prod_unfold)

end
