(* ===== verification/Wallet.thy ===== *)
theory Wallet
  imports Stores
begin

text \<open>
  The wallet ledger of \<^verbatim>\<open>server/src/services/wallet.service.ts\<close>: one ledger row per user with an
  available and an escrowed amount in each currency, an append-only journal of transactions keyed
  by idempotency key, and the six operations that change them. Each operation runs in a database
  transaction, so an error leaves the state as it was (\<^const>\<open>commit\<close>).

  Amounts are \<^verbatim>\<open>Decimal(20, 7)\<close> columns: an \<^typ>\<open>int\<close> counts units of \<open>10\<^sup>-\<^sup>7\<close>, and a value of twenty
  digits or more is rejected by the database. Sums and differences of such values have at most
  twenty significant digits wherever the database accepts them, so the decimal arithmetic of the
  code is exact on them.

  The lemmas show that every operation is a replay of a recorded transaction or the posting of
  one journal entry (two for a transfer), and from that the invariants of ledger and journal.
\<close>

section \<open>Data\<close>

datatype currency = XLM | USDC | AX

datatype tx_type =
  CREDIT | DEBIT | ESCROW_LOCK | ESCROW_RELEASE | ESCROW_SLASH | PLATFORM_FEE | PRIZE_POOL_FUND

datatype ledger_field =
  XlmBalance | XlmEscrowed | UsdcBalance | UsdcEscrowed | AxBalance | AxEscrowed

record ledger =
  xlmBalance :: int
  xlmEscrowed :: int
  usdcBalance :: int
  usdcEscrowed :: int
  axBalance :: int
  axEscrowed :: int

record wallet_tx =
  tx_userId :: string
  tx_type :: tx_type
  tx_currency :: currency
  tx_amount :: int
  tx_balanceBefore :: int
  tx_balanceAfter :: int
  tx_escrowBefore :: int
  tx_escrowAfter :: int
  tx_matchId :: "string option"
  tx_note :: "string option"

text \<open>The tables: ledgers by user, transactions by idempotency key in order of creation.\<close>

record wallet_db =
  ledgers :: "(string, ledger) jsmap"
  walletTransactions :: "(string, wallet_tx) jsmap"

definition empty_wallet :: wallet_db where
  "empty_wallet = \<lparr>ledgers = jm_empty, walletTransactions = jm_empty\<rparr>"

fun currency_name :: "currency \<Rightarrow> string" where
  "currency_name XLM = ''XLM''"
| "currency_name USDC = ''USDC''"
| "currency_name AX = ''AX''"

fun balanceKey :: "currency \<Rightarrow> ledger_field" where
  "balanceKey XLM = XlmBalance"
| "balanceKey USDC = UsdcBalance"
| "balanceKey AX = AxBalance"

fun escrowKey :: "currency \<Rightarrow> ledger_field" where
  "escrowKey XLM = XlmEscrowed"
| "escrowKey USDC = UsdcEscrowed"
| "escrowKey AX = AxEscrowed"

fun ledger_get :: "ledger \<Rightarrow> ledger_field \<Rightarrow> int" where
  "ledger_get l XlmBalance = xlmBalance l"
| "ledger_get l XlmEscrowed = xlmEscrowed l"
| "ledger_get l UsdcBalance = usdcBalance l"
| "ledger_get l UsdcEscrowed = usdcEscrowed l"
| "ledger_get l AxBalance = axBalance l"
| "ledger_get l AxEscrowed = axEscrowed l"

fun ledger_put :: "ledger \<Rightarrow> ledger_field \<Rightarrow> int \<Rightarrow> ledger" where
  "ledger_put l XlmBalance v = l\<lparr>xlmBalance := v\<rparr>"
| "ledger_put l XlmEscrowed v = l\<lparr>xlmEscrowed := v\<rparr>"
| "ledger_put l UsdcBalance v = l\<lparr>usdcBalance := v\<rparr>"
| "ledger_put l UsdcEscrowed v = l\<lparr>usdcEscrowed := v\<rparr>"
| "ledger_put l AxBalance v = l\<lparr>axBalance := v\<rparr>"
| "ledger_put l AxEscrowed v = l\<lparr>axEscrowed := v\<rparr>"

definition new_ledger :: ledger where
  "new_ledger = \<lparr>xlmBalance = 0, xlmEscrowed = 0, usdcBalance = 0, usdcEscrowed = 0,
     axBalance = 0, axEscrowed = 0\<rparr>"

text \<open>The range of a \<^verbatim>\<open>Decimal(20, 7)\<close> column in units of \<open>10\<^sup>-\<^sup>7\<close>.\<close>

definition fits_decimal :: "int \<Rightarrow> bool" where
  "fits_decimal v \<longleftrightarrow> \<bar>v\<bar> < 10 ^ 20"

definition ledger_fits :: "ledger \<Rightarrow> bool" where
  "ledger_fits l \<longleftrightarrow>
     fits_decimal (xlmBalance l) \<and> fits_decimal (xlmEscrowed l) \<and>
     fits_decimal (usdcBalance l) \<and> fits_decimal (usdcEscrowed l) \<and>
     fits_decimal (axBalance l) \<and> fits_decimal (axEscrowed l)"

section \<open>Database calls\<close>

definition ledger_update ::
  "string \<Rightarrow> (ledger_field \<times> int) list \<Rightarrow> wallet_db \<Rightarrow> wallet_db result" where
  "ledger_update uid writes db =
     (case jm_get (ledgers db) uid of
        None \<Rightarrow> Inl (PrismaError ''P2025'')
      | Some l \<Rightarrow>
          (let l' = foldl (\<lambda>acc (f, v). ledger_put acc f v) l writes
           in if ledger_fits l' then Inr (db\<lparr>ledgers := jm_set (ledgers db) uid l'\<rparr>)
              else Inl (PrismaError ''P2020'')))"

definition tx_create :: "string \<Rightarrow> wallet_tx \<Rightarrow> wallet_db \<Rightarrow> (wallet_tx \<times> wallet_db) result" where
  "tx_create key row db =
     (if \<not> (fits_decimal (tx_amount row) \<and> fits_decimal (tx_balanceBefore row) \<and>
            fits_decimal (tx_balanceAfter row) \<and> fits_decimal (tx_escrowBefore row) \<and>
            fits_decimal (tx_escrowAfter row))
      then Inl (PrismaError ''P2020'')
      else bind_res (row_create (walletTransactions db) key row)
             (\<lambda>txs. Inr (row, db\<lparr>walletTransactions := txs\<rparr>)))"

section \<open>Operations\<close>

definition getOrCreateLedgerTx :: "wallet_db \<Rightarrow> string \<Rightarrow> ledger \<times> wallet_db" where
  "getOrCreateLedgerTx db uid =
     (case jm_get (ledgers db) uid of
        Some l \<Rightarrow> (l, db)
      | None \<Rightarrow> (new_ledger, db\<lparr>ledgers := jm_set (ledgers db) uid new_ledger\<rparr>))"

definition getOrCreateLedger :: "string \<Rightarrow> wallet_db \<Rightarrow> (ledger \<times> wallet_db) result" where
  "getOrCreateLedger uid db =
     (case jm_get (ledgers db) uid of
        Some l \<Rightarrow> Inr (l, db)
      | None \<Rightarrow> Inr (new_ledger, db\<lparr>ledgers := jm_set (ledgers db) uid new_ledger\<rparr>))"

definition applyTransaction ::
  "string \<Rightarrow> currency \<Rightarrow> int \<Rightarrow> string \<Rightarrow> tx_type \<Rightarrow> string option \<Rightarrow> wallet_db
     \<Rightarrow> (wallet_tx \<times> wallet_db) result" where
  "applyTransaction uid cur amount key ty note db =
     (case jm_get (walletTransactions db) key of
        Some existing \<Rightarrow> Inr (existing, db)
      | None \<Rightarrow>
          (let (ledger, db1) = getOrCreateLedgerTx db uid;
               available = ledger_get ledger (balanceKey cur);
               escrowed = ledger_get ledger (escrowKey cur)
           in if ty = DEBIT \<and> available < amount
              then Inl (HttpError 400 (''Insufficient '' @ currency_name cur @ '' balance''))
              else (let newBalance = (if ty = CREDIT then available + amount else available - amount)
                    in bind_res (ledger_update uid [(balanceKey cur, newBalance)] db1)
                         (\<lambda>db2. tx_create key
                            \<lparr>tx_userId = uid, tx_type = ty, tx_currency = cur, tx_amount = amount,
                             tx_balanceBefore = available, tx_balanceAfter = newBalance,
                             tx_escrowBefore = escrowed, tx_escrowAfter = escrowed,
                             tx_matchId = None, tx_note = note\<rparr> db2))))"

definition credit ::
  "string \<Rightarrow> currency \<Rightarrow> int \<Rightarrow> string \<Rightarrow> string option \<Rightarrow> wallet_db
     \<Rightarrow> (wallet_tx \<times> wallet_db) result" where
  "credit uid cur amount key note db = applyTransaction uid cur amount key CREDIT note db"

definition debit ::
  "string \<Rightarrow> currency \<Rightarrow> int \<Rightarrow> string \<Rightarrow> string option \<Rightarrow> wallet_db
     \<Rightarrow> (wallet_tx \<times> wallet_db) result" where
  "debit uid cur amount key note db = applyTransaction uid cur amount key DEBIT note db"

definition lockFundsToEscrow ::
  "string \<Rightarrow> currency \<Rightarrow> int \<Rightarrow> string \<Rightarrow> string \<Rightarrow> wallet_db \<Rightarrow> (wallet_tx \<times> wallet_db) result" where
  "lockFundsToEscrow uid cur amount mid key db =
     (case jm_get (walletTransactions db) key of
        Some existing \<Rightarrow> Inr (existing, db)
      | None \<Rightarrow>
          (let (ledger, db1) = getOrCreateLedgerTx db uid;
               available = ledger_get ledger (balanceKey cur);
               escrowed = ledger_get ledger (escrowKey cur)
           in if available < amount
              then Inl (HttpError 400
                     (''Insufficient '' @ currency_name cur @ '' balance for escrow''))
              else (let newBalance = available - amount; newEscrow = escrowed + amount
                    in bind_res (ledger_update uid
                           [(balanceKey cur, newBalance), (escrowKey cur, newEscrow)] db1)
                         (\<lambda>db2. tx_create key
                            \<lparr>tx_userId = uid, tx_type = ESCROW_LOCK, tx_currency = cur,
                             tx_amount = amount,
                             tx_balanceBefore = available, tx_balanceAfter = newBalance,
                             tx_escrowBefore = escrowed, tx_escrowAfter = newEscrow,
                             tx_matchId = Some mid, tx_note = None\<rparr> db2))))"

definition releaseEscrow ::
  "string \<Rightarrow> currency \<Rightarrow> int \<Rightarrow> string \<Rightarrow> string \<Rightarrow> wallet_db \<Rightarrow> (wallet_tx \<times> wallet_db) result" where
  "releaseEscrow uid cur amount mid key db =
     (case jm_get (walletTransactions db) key of
        Some existing \<Rightarrow> Inr (existing, db)
      | None \<Rightarrow>
          (let (ledger, db1) = getOrCreateLedgerTx db uid;
               available = ledger_get ledger (balanceKey cur);
               escrowed = ledger_get ledger (escrowKey cur)
           in if escrowed < amount
              then Inl (HttpError 400
                     (''Insufficient '' @ currency_name cur @ '' escrowed funds to release''))
              else (let newBalance = available + amount; newEscrow = escrowed - amount
                    in bind_res (ledger_update uid
                           [(balanceKey cur, newBalance), (escrowKey cur, newEscrow)] db1)
                         (\<lambda>db2. tx_create key
                            \<lparr>tx_userId = uid, tx_type = ESCROW_RELEASE, tx_currency = cur,
                             tx_amount = amount,
                             tx_balanceBefore = available, tx_balanceAfter = newBalance,
                             tx_escrowBefore = escrowed, tx_escrowAfter = newEscrow,
                             tx_matchId = Some mid, tx_note = None\<rparr> db2))))"

definition slashEscrow ::
  "string \<Rightarrow> currency \<Rightarrow> int \<Rightarrow> string \<Rightarrow> string \<Rightarrow> string option \<Rightarrow> wallet_db
     \<Rightarrow> (wallet_tx \<times> wallet_db) result" where
  "slashEscrow uid cur amount mid key note db =
     (case jm_get (walletTransactions db) key of
        Some existing \<Rightarrow> Inr (existing, db)
      | None \<Rightarrow>
          (let (ledger, db1) = getOrCreateLedgerTx db uid;
               available = ledger_get ledger (balanceKey cur);
               escrowed = ledger_get ledger (escrowKey cur)
           in if escrowed < amount
              then Inl (HttpError 400
                     (''Insufficient '' @ currency_name cur @ '' escrowed funds to slash''))
              else (let newEscrow = escrowed - amount
                    in bind_res (ledger_update uid [(escrowKey cur, newEscrow)] db1)
                         (\<lambda>db2. tx_create key
                            \<lparr>tx_userId = uid, tx_type = ESCROW_SLASH, tx_currency = cur,
                             tx_amount = amount,
                             tx_balanceBefore = available, tx_balanceAfter = available,
                             tx_escrowBefore = escrowed, tx_escrowAfter = newEscrow,
                             tx_matchId = Some mid, tx_note = note\<rparr> db2))))"

definition internalTransfer ::
  "string \<Rightarrow> string \<Rightarrow> currency \<Rightarrow> int \<Rightarrow> tx_type \<Rightarrow> string \<Rightarrow> string option \<Rightarrow> wallet_db
     \<Rightarrow> (wallet_tx \<times> wallet_db) result" where
  "internalTransfer fromId toId cur amount ty key note db =
     (case jm_get (walletTransactions db) (key @ '':debit'') of
        Some existing \<Rightarrow> Inr (existing, db)
      | None \<Rightarrow>
          (let bKey = balanceKey cur; eKey = escrowKey cur;
               (fromLedger, db1) = getOrCreateLedgerTx db fromId;
               (toLedger, db2) = getOrCreateLedgerTx db1 toId;
               fromAvailable = ledger_get fromLedger bKey
           in if fromAvailable < amount
              then Inl (HttpError 400
                     (''Insufficient '' @ currency_name cur @ '' balance for transfer''))
              else (let fromNewBalance = fromAvailable - amount;
                        toAvailable = ledger_get toLedger bKey;
                        toNewBalance = toAvailable + amount
                    in bind_res (ledger_update fromId [(bKey, fromNewBalance)] db2)
                         (\<lambda>db3. bind_res (ledger_update toId [(bKey, toNewBalance)] db3)
                         (\<lambda>db4. bind_res
                            (tx_create (key @ '':debit'')
                               \<lparr>tx_userId = fromId, tx_type = ty, tx_currency = cur,
                                tx_amount = amount,
                                tx_balanceBefore = fromAvailable,
                                tx_balanceAfter = fromNewBalance,
                                tx_escrowBefore = ledger_get fromLedger eKey,
                                tx_escrowAfter = ledger_get fromLedger eKey,
                                tx_matchId = None, tx_note = note\<rparr> db4)
                         (\<lambda>(_, db5). tx_create (key @ '':credit'')
                            \<lparr>tx_userId = toId, tx_type = CREDIT, tx_currency = cur,
                             tx_amount = amount,
                             tx_balanceBefore = toAvailable, tx_balanceAfter = toNewBalance,
                             tx_escrowBefore = ledger_get toLedger eKey,
                             tx_escrowAfter = ledger_get toLedger eKey,
                             tx_matchId = None, tx_note = note\<rparr> db5))))))"

definition getTransactionHistory :: "string \<Rightarrow> currency option \<Rightarrow> wallet_db \<Rightarrow> wallet_tx list" where
  "getTransactionHistory uid cur db =
     rev (filter (\<lambda>t. tx_userId t = uid \<and> (case cur of None \<Rightarrow> True | Some c \<Rightarrow> tx_currency t = c))
            (jm_values (walletTransactions db)))"

section \<open>Specification: journal entries\<close>

text \<open>
  What a caller may assume of the wallet, without the code's steps: amounts held per user and
  currency, and the posting of one journal entry. An entry names its user, currency and the amounts
  before and after; posting it requires a fresh key and the true amounts before, and makes the
  amounts after the new ones.
\<close>

definition ledger_of :: "wallet_db \<Rightarrow> string \<Rightarrow> ledger" where
  "ledger_of db uid = (case jm_get (ledgers db) uid of None \<Rightarrow> new_ledger | Some l \<Rightarrow> l)"

definition available_of :: "wallet_db \<Rightarrow> string \<Rightarrow> currency \<Rightarrow> int" where
  "available_of db uid cur = ledger_get (ledger_of db uid) (balanceKey cur)"

definition escrowed_of :: "wallet_db \<Rightarrow> string \<Rightarrow> currency \<Rightarrow> int" where
  "escrowed_of db uid cur = ledger_get (ledger_of db uid) (escrowKey cur)"

definition held_supply :: "currency \<Rightarrow> wallet_db \<Rightarrow> int" where
  "held_supply cur db =
     jm_total (\<lambda>_ l. ledger_get l (balanceKey cur) + ledger_get l (escrowKey cur)) (ledgers db)"

definition entry_posted :: "string \<Rightarrow> wallet_tx \<Rightarrow> wallet_db \<Rightarrow> wallet_db \<Rightarrow> bool" where
  "entry_posted key row db db' \<longleftrightarrow>
     jm_get (walletTransactions db) key = None \<and>
     tx_balanceBefore row = available_of db (tx_userId row) (tx_currency row) \<and>
     tx_escrowBefore row = escrowed_of db (tx_userId row) (tx_currency row) \<and>
     fits_decimal (tx_balanceAfter row) \<and> fits_decimal (tx_escrowAfter row) \<and>
     db' = db\<lparr>ledgers := jm_set (ledgers db) (tx_userId row)
                (ledger_put
                   (ledger_put (ledger_of db (tx_userId row))
                      (balanceKey (tx_currency row)) (tx_balanceAfter row))
                   (escrowKey (tx_currency row)) (tx_escrowAfter row)),
              walletTransactions := jm_set (walletTransactions db) key row\<rparr>"

text \<open>The requests a client can make, and the state each leaves.\<close>

datatype wallet_op =
    Credit string currency int string "string option"
  | Debit string currency int string "string option"
  | LockFunds string currency int string string
  | ReleaseFunds string currency int string string
  | SlashFunds string currency int string string "string option"
  | Transfer string string currency int tx_type string "string option"

fun wallet_call :: "wallet_op \<Rightarrow> wallet_db \<Rightarrow> (wallet_tx \<times> wallet_db) result" where
  "wallet_call (Credit u c a k n) db = credit u c a k n db"
| "wallet_call (Debit u c a k n) db = debit u c a k n db"
| "wallet_call (LockFunds u c a m k) db = lockFundsToEscrow u c a m k db"
| "wallet_call (ReleaseFunds u c a m k) db = releaseEscrow u c a m k db"
| "wallet_call (SlashFunds u c a m k n) db = slashEscrow u c a m k n db"
| "wallet_call (Transfer f t c a ty k n) db = internalTransfer f t c a ty k n db"

definition wallet_exec :: "wallet_db \<Rightarrow> wallet_op \<Rightarrow> wallet_db" where
  "wallet_exec db op = commit (wallet_call op db) db"

fun op_amount :: "wallet_op \<Rightarrow> int" where
  "op_amount (Credit u c a k n) = a"
| "op_amount (Debit u c a k n) = a"
| "op_amount (LockFunds u c a m k) = a"
| "op_amount (ReleaseFunds u c a m k) = a"
| "op_amount (SlashFunds u c a m k n) = a"
| "op_amount (Transfer f t c a ty k n) = a"

fun self_transfer :: "wallet_op \<Rightarrow> bool" where
  "self_transfer (Transfer f t c a ty k n) = (f = t)"
| "self_transfer _ = False"

text \<open>The requests the invariants below are about: a non-negative amount, and no transfer to self.\<close>

definition proper_op :: "wallet_db \<Rightarrow> wallet_op \<Rightarrow> bool" where
  "proper_op db op \<longleftrightarrow> 0 \<le> op_amount op \<and> \<not> self_transfer op"

text \<open>Invariants: no amount is negative, and the journal explains the ledger.\<close>

definition solvent :: "wallet_db \<Rightarrow> bool" where
  "solvent db \<longleftrightarrow>
     (\<forall>u c. 0 \<le> available_of db u c \<and> 0 \<le> escrowed_of db u c \<and>
            fits_decimal (available_of db u c) \<and> fits_decimal (escrowed_of db u c))"

definition entry_change :: "string \<Rightarrow> currency \<Rightarrow> wallet_tx \<Rightarrow> int" where
  "entry_change u c t =
     (if tx_userId t = u \<and> tx_currency t = c then tx_balanceAfter t - tx_balanceBefore t else 0)"

definition escrow_change :: "string \<Rightarrow> currency \<Rightarrow> wallet_tx \<Rightarrow> int" where
  "escrow_change u c t =
     (if tx_userId t = u \<and> tx_currency t = c then tx_escrowAfter t - tx_escrowBefore t else 0)"

definition journal_explains :: "wallet_db \<Rightarrow> bool" where
  "journal_explains db \<longleftrightarrow>
     (\<forall>u c. available_of db u c
              = sum_list (map (entry_change u c) (jm_values (walletTransactions db))) \<and>
            escrowed_of db u c
              = sum_list (map (escrow_change u c) (jm_values (walletTransactions db))))"

definition wallet_wf :: "wallet_db \<Rightarrow> bool" where
  "wallet_wf db \<longleftrightarrow> jm_wf (ledgers db) \<and> jm_wf (walletTransactions db)"

section \<open>Ledger fields\<close>

lemma ledger_get_put [simp]: "ledger_get (ledger_put l f v) g = (if g = f then v else ledger_get l g)"
  by (cases f; cases g) auto

lemma ledger_put_get [simp]: "ledger_put l f (ledger_get l f) = l"
  by (cases f) auto

lemma ledger_put_put [simp]: "ledger_put (ledger_put l f v) f w = ledger_put l f w"
  by (cases f) auto

lemma balanceKey_inj [simp]: "balanceKey c = balanceKey d \<longleftrightarrow> c = d"
  by (cases c; cases d) auto

lemma escrowKey_inj [simp]: "escrowKey c = escrowKey d \<longleftrightarrow> c = d"
  by (cases c; cases d) auto

lemma balanceKey_escrowKey [simp]: "balanceKey c \<noteq> escrowKey d" "escrowKey d \<noteq> balanceKey c"
  by (cases c; cases d; auto)+

lemma ledger_put_escrow_same:
  "ledger_put (ledger_put l (balanceKey c) v) (escrowKey c) (ledger_get l (escrowKey c))
     = ledger_put l (balanceKey c) v"
  by (cases c) auto

lemma ledger_put_balance_same:
  "ledger_put l (balanceKey c) (ledger_get l (balanceKey c)) = l"
  by simp

lemma ledger_fits_get: "ledger_fits l \<Longrightarrow> fits_decimal (ledger_get l f)"
  by (cases f) (auto simp: ledger_fits_def)

lemma new_ledger_get [simp]: "ledger_get new_ledger f = 0"
  by (cases f) (auto simp: new_ledger_def)

lemma fits_zero [simp]: "fits_decimal 0"
  by (simp add: fits_decimal_def)

section \<open>Database calls\<close>

lemma getOrCreate_cases:
  assumes "getOrCreateLedgerTx db uid = (l, db1)"
  shows "l = ledger_of db uid" and "jm_get (ledgers db1) uid = Some l"
    and "walletTransactions db1 = walletTransactions db"
    and "jm_set (ledgers db1) uid l' = jm_set (ledgers db) uid l'"
    and "ledger_of db1 v = ledger_of db v"
  using assms
  by (auto simp: getOrCreateLedgerTx_def ledger_of_def split: option.splits if_splits)

lemma ledger_update_Inr:
  "ledger_update uid writes db = Inr db' \<longleftrightarrow>
     (\<exists>l. jm_get (ledgers db) uid = Some l \<and>
        ledger_fits (foldl (\<lambda>acc (f, v). ledger_put acc f v) l writes) \<and>
        db' = db\<lparr>ledgers := jm_set (ledgers db) uid
                  (foldl (\<lambda>acc (f, v). ledger_put acc f v) l writes)\<rparr>)"
  by (auto simp: ledger_update_def Let_def split: option.splits)

lemma tx_create_Inr:
  "tx_create key row db = Inr (r, db') \<longleftrightarrow>
     jm_get (walletTransactions db) key = None \<and> r = row \<and>
     fits_decimal (tx_amount row) \<and> fits_decimal (tx_balanceBefore row) \<and>
     fits_decimal (tx_balanceAfter row) \<and> fits_decimal (tx_escrowBefore row) \<and>
     fits_decimal (tx_escrowAfter row) \<and>
     db' = db\<lparr>walletTransactions := jm_set (walletTransactions db) key row\<rparr>"
  by (auto simp: tx_create_def bind_res_Inr_iff row_create_Inr_iff)

section \<open>Every operation is a replay or a posting\<close>

text \<open>The step the four single-user operations share: write the new amounts, record the entry.\<close>

lemma write_and_record:
  assumes goc: "getOrCreateLedgerTx db uid = (l, db1)"
    and new: "jm_get (walletTransactions db) key = None"
    and upd: "ledger_update uid writes db1 = Inr db2"
    and rec: "tx_create key row db2 = Inr (r, db')"
    and row: "tx_userId row = uid" "tx_balanceBefore row = ledger_get l (balanceKey (tx_currency row))"
      "tx_escrowBefore row = ledger_get l (escrowKey (tx_currency row))"
    and writes: "foldl (\<lambda>acc (f, v). ledger_put acc f v) l writes
      = ledger_put (ledger_put l (balanceKey (tx_currency row)) (tx_balanceAfter row))
          (escrowKey (tx_currency row)) (tx_escrowAfter row)"
  shows "r = row \<and> entry_posted key row db db'"
  using getOrCreate_cases [OF goc] assms(2-)
  by (auto simp: ledger_update_Inr tx_create_Inr entry_posted_def available_of_def escrowed_of_def)

lemma applyTransaction_cases:
  assumes "applyTransaction uid cur amount key ty note db = Inr (r, db')"
  shows "jm_get (walletTransactions db) key = Some r \<and> db' = db \<or>
    entry_posted key r db db' \<and> tx_userId r = uid \<and> tx_currency r = cur \<and>
      tx_escrowAfter r = tx_escrowBefore r \<and>
      tx_balanceAfter r =
        (if ty = CREDIT then tx_balanceBefore r + amount else tx_balanceBefore r - amount) \<and>
      (ty = DEBIT \<longrightarrow> amount \<le> tx_balanceBefore r)"
proof (cases "jm_get (walletTransactions db) key")
  case None
  obtain l db1 where goc: "getOrCreateLedgerTx db uid = (l, db1)" by fastforce
  from assms None goc show ?thesis
    by (auto simp: applyTransaction_def Let_def bind_res_Inr_iff ledger_put_escrow_same
        dest!: write_and_record [OF goc None])
qed (use assms in \<open>simp add: applyTransaction_def\<close>)

lemma lockFundsToEscrow_cases:
  assumes "lockFundsToEscrow uid cur amount mid key db = Inr (r, db')"
  shows "jm_get (walletTransactions db) key = Some r \<and> db' = db \<or>
    entry_posted key r db db' \<and> tx_userId r = uid \<and> tx_currency r = cur \<and>
      amount \<le> tx_balanceBefore r \<and>
      tx_balanceAfter r = tx_balanceBefore r - amount \<and>
      tx_escrowAfter r = tx_escrowBefore r + amount"
proof (cases "jm_get (walletTransactions db) key")
  case None
  obtain l db1 where goc: "getOrCreateLedgerTx db uid = (l, db1)" by fastforce
  from assms None goc show ?thesis
    by (auto simp: lockFundsToEscrow_def Let_def bind_res_Inr_iff
        dest!: write_and_record [OF goc None])
qed (use assms in \<open>simp add: lockFundsToEscrow_def\<close>)

lemma releaseEscrow_cases:
  assumes "releaseEscrow uid cur amount mid key db = Inr (r, db')"
  shows "jm_get (walletTransactions db) key = Some r \<and> db' = db \<or>
    entry_posted key r db db' \<and> tx_userId r = uid \<and> tx_currency r = cur \<and>
      amount \<le> tx_escrowBefore r \<and>
      tx_balanceAfter r = tx_balanceBefore r + amount \<and>
      tx_escrowAfter r = tx_escrowBefore r - amount"
proof (cases "jm_get (walletTransactions db) key")
  case None
  obtain l db1 where goc: "getOrCreateLedgerTx db uid = (l, db1)" by fastforce
  from assms None goc show ?thesis
    by (auto simp: releaseEscrow_def Let_def bind_res_Inr_iff
        dest!: write_and_record [OF goc None])
qed (use assms in \<open>simp add: releaseEscrow_def\<close>)

lemma slashEscrow_cases:
  assumes "slashEscrow uid cur amount mid key note db = Inr (r, db')"
  shows "jm_get (walletTransactions db) key = Some r \<and> db' = db \<or>
    entry_posted key r db db' \<and> tx_userId r = uid \<and> tx_currency r = cur \<and>
      amount \<le> tx_escrowBefore r \<and>
      tx_balanceAfter r = tx_balanceBefore r \<and>
      tx_escrowAfter r = tx_escrowBefore r - amount"
proof (cases "jm_get (walletTransactions db) key")
  case None
  obtain l db1 where goc: "getOrCreateLedgerTx db uid = (l, db1)" by fastforce
  from assms None goc show ?thesis
    by (auto simp: slashEscrow_def Let_def bind_res_Inr_iff
        dest!: write_and_record [OF goc None])
qed (use assms in \<open>simp add: slashEscrow_def\<close>)

text \<open>Both rows are made before either is written; the writes land where two postings put them.\<close>

lemma transfer_writes:
  assumes gocf: "getOrCreateLedgerTx db fromId = (fl, db1)"
    and goct: "getOrCreateLedgerTx db1 toId = (tol, db2)" and neq: "fromId \<noteq> toId"
  shows "jm_get (ledgers db2) fromId = Some fl" and "jm_get (ledgers db2) toId = Some tol"
    and "jm_set (jm_set (ledgers db2) fromId a) toId b = jm_set (jm_set (ledgers db) fromId a) toId b"
    and "ledger_of db toId = tol"
proof -
  have f1: "jm_get (ledgers db1) fromId = Some fl"
    and s1: "jm_set (ledgers db1) fromId a = jm_set (ledgers db) fromId a"
    using getOrCreate_cases [OF gocf] by simp_all
  show t2: "jm_get (ledgers db2) toId = Some tol"
    and s2: "ledger_of db toId = tol"
    using getOrCreate_cases [OF gocf] getOrCreate_cases [OF goct] by simp_all
  have st: "jm_set (ledgers db2) toId b = jm_set (ledgers db1) toId b"
    using getOrCreate_cases [OF goct] by simp
  show f2: "jm_get (ledgers db2) fromId = Some fl"
    using goct f1 neq by (auto simp: getOrCreateLedgerTx_def split: option.splits)
  have "jm_set (jm_set (ledgers db2) fromId a) toId b = jm_set (jm_set (ledgers db2) toId b) fromId a"
    using jm_set_swap [OF neq f2] by simp
  also have "\<dots> = jm_set (jm_set (ledgers db1) fromId a) toId b"
    using jm_set_swap [OF neq f1] st by simp
  finally show "jm_set (jm_set (ledgers db2) fromId a) toId b
      = jm_set (jm_set (ledgers db) fromId a) toId b"
    by (simp add: s1)
qed

lemma internalTransfer_cases:
  assumes call: "internalTransfer fromId toId cur amount ty key note db = Inr (r, db')"
    and neq: "fromId \<noteq> toId"
  shows "jm_get (walletTransactions db) (key @ '':debit'') = Some r \<and> db' = db \<or>
    (\<exists>d dbm. entry_posted (key @ '':debit'') d db dbm \<and> entry_posted (key @ '':credit'') r dbm db' \<and>
      tx_userId d = fromId \<and> tx_currency d = cur \<and> amount \<le> tx_balanceBefore d \<and>
      tx_balanceAfter d = tx_balanceBefore d - amount \<and> tx_escrowAfter d = tx_escrowBefore d \<and>
      tx_userId r = toId \<and> tx_currency r = cur \<and>
      tx_balanceAfter r = tx_balanceBefore r + amount \<and> tx_escrowAfter r = tx_escrowBefore r)"
proof (cases "jm_get (walletTransactions db) (key @ '':debit'')")
  case None
  obtain fl db1 where gocf: "getOrCreateLedgerTx db fromId = (fl, db1)" by fastforce
  obtain tol db2 where goct: "getOrCreateLedgerTx db1 toId = (tol, db2)" by fastforce
  let ?fb = "ledger_get fl (balanceKey cur)" and ?tb = "ledger_get tol (balanceKey cur)"
  let ?d = "\<lparr>tx_userId = fromId, tx_type = ty, tx_currency = cur, tx_amount = amount,
    tx_balanceBefore = ?fb, tx_balanceAfter = ?fb - amount,
    tx_escrowBefore = ledger_get fl (escrowKey cur), tx_escrowAfter = ledger_get fl (escrowKey cur),
    tx_matchId = None, tx_note = note\<rparr>"
  let ?dbm = "db\<lparr>ledgers := jm_set (ledgers db) fromId (ledger_put fl (balanceKey cur) (?fb - amount)),
    walletTransactions := jm_set (walletTransactions db) (key @ '':debit'') ?d\<rparr>"
  note facts = getOrCreate_cases [OF gocf] getOrCreate_cases [OF goct]
    transfer_writes [OF gocf goct neq]
  have "entry_posted (key @ '':debit'') ?d db ?dbm \<and> amount \<le> ?fb \<and>
      entry_posted (key @ '':credit'') r ?dbm db' \<and>
      tx_userId r = toId \<and> tx_currency r = cur \<and>
      tx_balanceAfter r = tx_balanceBefore r + amount \<and> tx_escrowAfter r = tx_escrowBefore r"
    using call None gocf goct facts neq
    by (auto simp: internalTransfer_def Let_def bind_res_Inr_iff ledger_update_Inr tx_create_Inr
        entry_posted_def available_of_def escrowed_of_def ledger_put_escrow_same ledger_of_def)
  then show ?thesis by fastforce
qed (use assms in \<open>simp add: internalTransfer_def\<close>)

section \<open>What a posting changes\<close>

lemma ledger_of_set:
  "ledger_of (db\<lparr>ledgers := jm_set (ledgers db) u l, walletTransactions := txs\<rparr>) v
     = (if v = u then l else ledger_of db v)"
  by (simp add: ledger_of_def)

lemma posted_amounts:
  assumes "entry_posted key row db db'"
  shows "available_of db' u c =
      (if u = tx_userId row \<and> c = tx_currency row then tx_balanceAfter row else available_of db u c)"
    and "escrowed_of db' u c =
      (if u = tx_userId row \<and> c = tx_currency row then tx_escrowAfter row else escrowed_of db u c)"
  using assms by (auto simp: entry_posted_def available_of_def escrowed_of_def ledger_of_set)

lemma posted_journal:
  assumes "entry_posted key row db db'"
  shows "jm_values (walletTransactions db') = jm_values (walletTransactions db) @ [row]"
    and "jm_get (walletTransactions db') key = Some row"
  using assms by (auto simp: entry_posted_def jm_values_set_new)

lemma posted_keeps:
  "entry_posted key row db db' \<Longrightarrow> jm_get (walletTransactions db) k = Some r \<Longrightarrow>
     jm_get (walletTransactions db') k = Some r"
  by (auto simp: entry_posted_def)

lemma posted_wf: "entry_posted key row db db' \<Longrightarrow> wallet_wf db \<Longrightarrow> wallet_wf db'"
  by (simp add: entry_posted_def wallet_wf_def)

lemma posted_supply:
  assumes "entry_posted key row db db'" and "wallet_wf db"
  shows "held_supply c db' = held_supply c db +
    (if c = tx_currency row then tx_balanceAfter row - tx_balanceBefore row
       + tx_escrowAfter row - tx_escrowBefore row else 0)"
proof (cases "jm_get (ledgers db) (tx_userId row)")
  case None
  with assms show ?thesis
    by (simp add: entry_posted_def held_supply_def wallet_wf_def jm.total_put_None
        available_of_def escrowed_of_def ledger_of_def)
next
  case (Some l)
  with assms show ?thesis
    by (simp add: entry_posted_def held_supply_def wallet_wf_def jm.total_put_Some
        available_of_def escrowed_of_def ledger_of_def)
qed

lemma posted_explains:
  assumes "entry_posted key row db db'" and "journal_explains db"
  shows "journal_explains db'"
  using assms(2) posted_amounts [OF assms(1)] posted_journal [OF assms(1)] assms(1)
  by (auto simp: journal_explains_def entry_change_def escrow_change_def entry_posted_def)

text \<open>An entry that takes no amount below zero from a non-negative one.\<close>

definition legal_entry :: "wallet_tx \<Rightarrow> bool" where
  "legal_entry row \<longleftrightarrow>
     (0 \<le> tx_balanceBefore row \<longrightarrow> 0 \<le> tx_escrowBefore row \<longrightarrow>
        0 \<le> tx_balanceAfter row \<and> 0 \<le> tx_escrowAfter row)"

lemma posted_solvent:
  assumes "entry_posted key row db db'" and "legal_entry row" and "solvent db"
  shows "solvent db'"
  using assms(2,3) posted_amounts [OF assms(1)] assms(1)
  by (auto simp: solvent_def legal_entry_def entry_posted_def)

section \<open>Calls as postings\<close>

text \<open>A list of entries posted one after the other.\<close>

inductive postings :: "wallet_db \<Rightarrow> (string \<times> wallet_tx) list \<Rightarrow> wallet_db \<Rightarrow> bool" where
  none: "postings db [] db"
| more: "entry_posted key row db dbm \<Longrightarrow> postings dbm rows db' \<Longrightarrow> postings db ((key, row) # rows) db'"

inductive_cases postings_NilE: "postings db [] db'"
inductive_cases postings_ConsE: "postings db (e # es) db'"

lemma postings_one: "entry_posted key row db db' \<Longrightarrow> postings db [(key, row)] db'"
  by (auto intro: postings.intros)

text \<open>The change of the total a request declares, in its own currency.\<close>

fun op_effect :: "currency \<Rightarrow> wallet_op \<Rightarrow> int" where
  "op_effect cur (Credit u c a k n) = (if c = cur then a else 0)"
| "op_effect cur (Debit u c a k n) = (if c = cur then - a else 0)"
| "op_effect cur (LockFunds u c a m k) = 0"
| "op_effect cur (ReleaseFunds u c a m k) = 0"
| "op_effect cur (SlashFunds u c a m k n) = (if c = cur then - a else 0)"
| "op_effect cur (Transfer f t c a ty k n) = 0"

text \<open>The key under which a request is recorded, the one a retry is recognised by.\<close>

fun op_key :: "wallet_op \<Rightarrow> string" where
  "op_key (Credit u c a k n) = k"
| "op_key (Debit u c a k n) = k"
| "op_key (LockFunds u c a m k) = k"
| "op_key (ReleaseFunds u c a m k) = k"
| "op_key (SlashFunds u c a m k n) = k"
| "op_key (Transfer f t c a ty k n) = k @ '':debit''"

definition entry_effect :: "currency \<Rightarrow> wallet_tx \<Rightarrow> int" where
  "entry_effect c row =
     (if c = tx_currency row then tx_balanceAfter row - tx_balanceBefore row
        + tx_escrowAfter row - tx_escrowBefore row else 0)"

lemma wallet_call_recorded:
  "jm_get (walletTransactions db) (op_key op) = Some r \<Longrightarrow> wallet_call op db = Inr (r, db)"
  by (cases op)
    (auto simp: credit_def debit_def applyTransaction_def lockFundsToEscrow_def releaseEscrow_def
      slashEscrow_def internalTransfer_def)

lemma wallet_call_postings:
  assumes call: "wallet_call op db = Inr (r, db')"
    and new: "jm_get (walletTransactions db) (op_key op) = None"
    and self: "\<not> self_transfer op"
  obtains rows where "postings db rows db'" and "rows \<noteq> []" and "snd (last rows) = r"
    and "fst (hd rows) = op_key op"
    and "\<And>c. sum_list (map (entry_effect c \<circ> snd) rows) = op_effect c op"
    and "0 \<le> op_amount op \<Longrightarrow> list_all (legal_entry \<circ> snd) rows"
proof (cases "\<exists>f t c a ty k n. op = Transfer f t c a ty k n")
  case True
  then obtain f t c a ty k n where op: "op = Transfer f t c a ty k n" by blast
  from call new self obtain d dbm where
    post: "entry_posted (k @ '':debit'') d db dbm" "entry_posted (k @ '':credit'') r dbm db'"
    and d: "tx_currency d = c" "a \<le> tx_balanceBefore d" "tx_balanceAfter d = tx_balanceBefore d - a"
      "tx_escrowAfter d = tx_escrowBefore d"
    and r: "tx_currency r = c" "tx_balanceAfter r = tx_balanceBefore r + a"
      "tx_escrowAfter r = tx_escrowBefore r"
    unfolding op by (auto dest: internalTransfer_cases)
  have "postings db [(k @ '':debit'', d), (k @ '':credit'', r)] db'"
    using post by (auto intro: postings.intros)
  then show thesis
    by (rule that) (use d in \<open>auto simp: op r entry_effect_def legal_entry_def\<close>)
next
  case False
  with call new have post: "entry_posted (op_key op) r db db'"
    and eff: "\<And>c. entry_effect c r = op_effect c op"
    and legal: "0 \<le> op_amount op \<Longrightarrow> legal_entry r"
    by (cases op; auto simp: credit_def debit_def entry_effect_def legal_entry_def
        dest!: applyTransaction_cases lockFundsToEscrow_cases releaseEscrow_cases slashEscrow_cases)+
  show thesis
    by (rule that [OF postings_one [OF post]]) (auto simp: eff legal)
qed

section \<open>The machine of wallet requests\<close>

lemma postings_wf: "postings db rows db' \<Longrightarrow> wallet_wf db \<Longrightarrow> wallet_wf db'"
  by (induction rule: postings.induct) (auto dest: posted_wf)

lemma postings_supply:
  "postings db rows db' \<Longrightarrow> wallet_wf db \<Longrightarrow>
     held_supply c db' = held_supply c db + sum_list (map (entry_effect c \<circ> snd) rows)"
proof (induction rule: postings.induct)
  case (more key row db dbm rows db')
  then show ?case
    using posted_supply [OF more.hyps(1) more.prems] posted_wf [OF more.hyps(1) more.prems]
    by (simp add: entry_effect_def)
qed simp

lemma postings_explains: "postings db rows db' \<Longrightarrow> journal_explains db \<Longrightarrow> journal_explains db'"
  by (induction rule: postings.induct) (auto dest: posted_explains)

lemma postings_solvent:
  "postings db rows db' \<Longrightarrow> list_all (legal_entry \<circ> snd) rows \<Longrightarrow> solvent db \<Longrightarrow> solvent db'"
  by (induction rule: postings.induct) (auto dest: posted_solvent)

lemma postings_keep_keys:
  "postings db rows db' \<Longrightarrow> jm_get (walletTransactions db) k = Some r \<Longrightarrow>
     jm_get (walletTransactions db') k = Some r"
  by (induction rule: postings.induct) (auto dest: posted_keeps)

definition wallet_inv :: "wallet_db \<Rightarrow> bool" where
  "wallet_inv db \<longleftrightarrow> wallet_wf db \<and> solvent db \<and> journal_explains db"

lemma empty_wallet_amounts [simp]:
  "available_of empty_wallet u c = 0" "escrowed_of empty_wallet u c = 0"
  by (simp_all add: available_of_def escrowed_of_def ledger_of_def empty_wallet_def)

lemma wallet_exec_cases:
  assumes "\<not> self_transfer op"
  obtains (same) "wallet_exec db op = db"
    | (posted) rows where "postings db rows (wallet_exec db op)"
      "0 \<le> op_amount op \<Longrightarrow> list_all (legal_entry \<circ> snd) rows"
proof (cases "wallet_call op db")
  case (Inl e)
  then show thesis by (auto simp: wallet_exec_def intro: same)
next
  case (Inr p)
  obtain r db' where p: "p = (r, db')" by fastforce
  show thesis
  proof (cases "jm_get (walletTransactions db) (op_key op)")
    case None
    show thesis
      using wallet_call_postings [OF Inr [unfolded p] None assms] Inr p
      by (metis posted commit_simps(2) wallet_exec_def)
  next
    case (Some r')
    then show thesis
      using wallet_call_recorded [OF Some] by (auto simp: wallet_exec_def intro: same)
  qed
qed

interpretation wallet: invariant_machine empty_wallet wallet_exec proper_op wallet_inv
proof unfold_locales
  show "wallet_inv empty_wallet"
    by (auto simp: wallet_inv_def wallet_wf_def solvent_def journal_explains_def)
      (simp_all add: empty_wallet_def jm_empty_def jm_values_def jm_wf_def)
next
  fix db op
  assume inv: "wallet_inv db" and "proper_op db op"
  then have op: "\<not> self_transfer op" "0 \<le> op_amount op" by (simp_all add: proper_op_def)
  from op(1) show "wallet_inv (wallet_exec db op)"
  proof (cases rule: wallet_exec_cases [where db = db])
    case same
    with inv show ?thesis by simp
  next
    case (posted rows)
    with inv op(2) show ?thesis
      by (auto simp: wallet_inv_def dest: postings_wf postings_solvent postings_explains)
  qed
qed

section \<open>Properties\<close>

text \<open>
  C1. After any sequence of wallet requests with non-negative amounts and no transfer from a user
  to themselves, started from an empty wallet, every user's available and escrowed amount in every
  currency is non-negative and within the range of its database column, failed requests included.
\<close>

theorem wallet_never_overdrawn:
  assumes "allowed_run wallet_exec proper_op empty_wallet ops"
  shows "0 \<le> available_of (foldl wallet_exec empty_wallet ops) u c \<and>
    0 \<le> escrowed_of (foldl wallet_exec empty_wallet ops) u c \<and>
    available_of (foldl wallet_exec empty_wallet ops) u c < 10 ^ 20 \<and>
    escrowed_of (foldl wallet_exec empty_wallet ops) u c < 10 ^ 20"
  using wallet.inv_reachable [OF assms]
  by (auto simp: wallet_inv_def solvent_def fits_decimal_def abs_less_iff)

theorem wallet_never_overdrawn_witness:
  "let ops = [Credit ''u'' AX 100 ''k1'' None, LockFunds ''u'' AX 40 ''m'' ''k2'',
              Debit ''u'' AX 61 ''k3'' None];
       db = foldl wallet_exec empty_wallet ops
   in 0 \<le> available_of db ''u'' AX \<and> available_of db ''u'' AX = 60 \<and> escrowed_of db ''u'' AX = 40"
proof -
  let ?ops = "[Credit ''u'' AX 100 ''k1'' None, LockFunds ''u'' AX 40 ''m'' ''k2'',
              Debit ''u'' AX 61 ''k3'' None]"
  have "allowed_run wallet_exec proper_op empty_wallet ?ops"
    by (simp add: proper_op_def)
  from wallet_never_overdrawn [OF this, of "''u''" AX]
  have "0 \<le> available_of (foldl wallet_exec empty_wallet ?ops) ''u'' AX" by simp
  moreover have "available_of (foldl wallet_exec empty_wallet ?ops) ''u'' AX = 60"
    and "escrowed_of (foldl wallet_exec empty_wallet ?ops) ''u'' AX = 40"
    by code_simp+
  ultimately show ?thesis by (simp add: Let_def)
qed





lemma tx_create_get:
  "tx_create key row db = Inr (r, db') \<Longrightarrow> jm_get (walletTransactions db') key = Some r"
  by (auto simp: tx_create_Inr)

lemma transfer_recorded:
  assumes "internalTransfer f t c a ty k n db = Inr (r, db')"
  shows "\<exists>r'. jm_get (walletTransactions db') (k @ '':debit'') = Some r'"
  using assms
  by (auto simp: internalTransfer_def Let_def bind_res_Inr_iff tx_create_Inr
      split: option.splits prod.splits)

lemma call_recorded_single:
  assumes "wallet_call op db = Inr (r, db')" and "\<not> (\<exists>f t c a ty k n. op = Transfer f t c a ty k n)"
  shows "jm_get (walletTransactions db') (op_key op) = Some r"
  using assms
  by (cases op)
    (auto simp: credit_def debit_def dest: posted_journal(2)
      dest!: applyTransaction_cases lockFundsToEscrow_cases releaseEscrow_cases slashEscrow_cases)

text \<open>
  C4. Retries are safe: a request that was carried out, sent again with the same idempotency key,
  succeeds and leaves the state untouched, and except for a transfer it answers with the very
  transaction it recorded the first time.
\<close>

theorem wallet_retry_changes_nothing:
  assumes "wallet_call op db = Inr (r, db')"
  shows "\<exists>r'. wallet_call op db' = Inr (r', db') \<and>
    ((\<exists>f t c a ty k n. op = Transfer f t c a ty k n) \<or> r' = r)"
proof (cases "\<exists>f t c a ty k n. op = Transfer f t c a ty k n")
  case True
  then obtain f t c a ty k n where op: "op = Transfer f t c a ty k n" by blast
  from assms obtain r' where "jm_get (walletTransactions db') (op_key op) = Some r'"
    unfolding op by (auto dest: transfer_recorded)
  with True show ?thesis by (blast intro: wallet_call_recorded)
next
  case False
  then show ?thesis using wallet_call_recorded [OF call_recorded_single [OF assms False]] by blast
qed

theorem wallet_retry_changes_nothing_witness:
  "let op = Credit ''u'' AX 100 ''k1'' None; db = wallet_exec empty_wallet op
   in wallet_exec db op = db \<and> available_of db ''u'' AX = 100"
proof -
  let ?op = "Credit ''u'' AX 100 ''k1'' None"
  have "\<not> isl (wallet_call ?op empty_wallet)" and v: "available_of (wallet_exec empty_wallet ?op) ''u'' AX = 100"
    by code_simp+
  then obtain r db' where call: "wallet_call ?op empty_wallet = Inr (r, db')"
    by (cases "wallet_call ?op empty_wallet") auto
  from wallet_retry_changes_nothing [OF call] call v
  show ?thesis by (auto simp: wallet_exec_def Let_def)
qed

lemma ledger_fits_all: "ledger_fits l \<longleftrightarrow> (\<forall>f. fits_decimal (ledger_get l f))"
proof
  assume "\<forall>f. fits_decimal (ledger_get l f)"
  then show "ledger_fits l"
    unfolding ledger_fits_def by (metis ledger_get.simps)
qed (simp add: ledger_fits_get)

lemma field_cases:
  obtains c where "f = balanceKey c" | c where "f = escrowKey c"
  by (metis balanceKey.simps escrowKey.simps ledger_field.exhaust)

lemma solvent_fits: "solvent db \<Longrightarrow> ledger_fits (ledger_of db u)"
  unfolding ledger_fits_all solvent_def available_of_def escrowed_of_def by (metis field_cases)

lemma ledger_fits_put: "ledger_fits l \<Longrightarrow> fits_decimal v \<Longrightarrow> ledger_fits (ledger_put l f v)"
  by (simp add: ledger_fits_all)

text \<open>The guards are the only reasons to refuse: with funds and room, both escrow moves succeed.\<close>

lemma lock_succeeds:
  assumes "solvent db" and "jm_get (walletTransactions db) k = None"
    and "0 \<le> a" and "a \<le> available_of db u c" and "escrowed_of db u c + a < 10 ^ 20"
  shows "\<exists>r db'. lockFundsToEscrow u c a m k db = Inr (r, db')"
proof -
  obtain l db1 where goc: "getOrCreateLedgerTx db u = (l, db1)" by fastforce
  note g = getOrCreate_cases [OF goc]
  have amounts: "ledger_get l (balanceKey c) = available_of db u c"
    "ledger_get l (escrowKey c) = escrowed_of db u c"
    using g(1) by (simp_all add: available_of_def escrowed_of_def)
  have pos: "0 \<le> available_of db u c" "0 \<le> escrowed_of db u c" "available_of db u c < 10 ^ 20"
    using assms(1) by (auto simp: solvent_def fits_decimal_def abs_less_iff)
  have "ledger_fits l" using solvent_fits [OF assms(1)] g(1) by simp
  moreover have fits: "fits_decimal (available_of db u c - a)" "fits_decimal (escrowed_of db u c + a)"
    "fits_decimal (available_of db u c)" "fits_decimal (escrowed_of db u c)" "fits_decimal a"
    using assms(3-5) pos by (auto simp: fits_decimal_def)
  ultimately show ?thesis
    using assms(2,4) goc g amounts
    by (auto simp: lockFundsToEscrow_def ledger_update_def tx_create_def row_create_def Let_def
        ledger_fits_put)
qed

lemma release_succeeds:
  assumes "solvent db" and "jm_get (walletTransactions db) k = None"
    and "0 \<le> a" and "a \<le> escrowed_of db u c" and "available_of db u c + a < 10 ^ 20"
  shows "\<exists>r db'. releaseEscrow u c a m k db = Inr (r, db')"
proof -
  obtain l db1 where goc: "getOrCreateLedgerTx db u = (l, db1)" by fastforce
  note g = getOrCreate_cases [OF goc]
  have amounts: "ledger_get l (balanceKey c) = available_of db u c"
    "ledger_get l (escrowKey c) = escrowed_of db u c"
    using g(1) by (simp_all add: available_of_def escrowed_of_def)
  have pos: "0 \<le> available_of db u c" "0 \<le> escrowed_of db u c" "escrowed_of db u c < 10 ^ 20"
    using assms(1) by (auto simp: solvent_def fits_decimal_def abs_less_iff)
  have "ledger_fits l" using solvent_fits [OF assms(1)] g(1) by simp
  moreover have fits: "fits_decimal (available_of db u c + a)" "fits_decimal (escrowed_of db u c - a)"
    "fits_decimal (available_of db u c)" "fits_decimal (escrowed_of db u c)" "fits_decimal a"
    using assms(3-5) pos by (auto simp: fits_decimal_def)
  ultimately show ?thesis
    using assms(2,4) goc g amounts
    by (auto simp: releaseEscrow_def ledger_update_def tx_create_def row_create_def Let_def
        ledger_fits_put)
qed

text \<open>
  Escrow round trip: with enough available funds and fresh keys, locking an amount succeeds and
  moves exactly it from available to escrowed, and releasing it again succeeds and restores every
  user's amounts in every currency.
\<close>

theorem escrow_lock_release_roundtrip:
  assumes solv: "solvent db" and a: "0 \<le> a" "a \<le> available_of db u c" "escrowed_of db u c + a < 10 ^ 20"
    and keys: "jm_get (walletTransactions db) k1 = None" "jm_get (walletTransactions db) k2 = None"
      "k1 \<noteq> k2"
  shows "\<exists>r1 db1 r2 db2. lockFundsToEscrow u c a m k1 db = Inr (r1, db1) \<and>
    available_of db1 u c = available_of db u c - a \<and> escrowed_of db1 u c = escrowed_of db u c + a \<and>
    releaseEscrow u c a m k2 db1 = Inr (r2, db2) \<and>
    (\<forall>v d. available_of db2 v d = available_of db v d \<and> escrowed_of db2 v d = escrowed_of db v d)"
proof -
  obtain r1 db1 where lock: "lockFundsToEscrow u c a m k1 db = Inr (r1, db1)"
    using lock_succeeds [OF solv keys(1) a] by blast
  with lockFundsToEscrow_cases [OF lock] keys(1)
  have p1: "entry_posted k1 r1 db db1" and r1: "tx_userId r1 = u" "tx_currency r1 = c"
    "tx_balanceAfter r1 = tx_balanceBefore r1 - a" "tx_escrowAfter r1 = tx_escrowBefore r1 + a"
    by auto
  have before1: "tx_balanceBefore r1 = available_of db u c" "tx_escrowBefore r1 = escrowed_of db u c"
    using p1 r1 by (auto simp: entry_posted_def)
  note am1 = posted_amounts [OF p1, unfolded r1 before1]
  have solv1: "solvent db1"
    using posted_solvent [OF p1 _ solv] a by (simp add: legal_entry_def r1 before1)
  have fresh: "jm_get (walletTransactions db1) k2 = None"
    using p1 keys by (auto simp: entry_posted_def)
  have room: "available_of db1 u c + a < 10 ^ 20" "a \<le> escrowed_of db1 u c"
    using solv a(1) by (auto simp: am1 solvent_def fits_decimal_def abs_less_iff)
  obtain r2 db2 where rel: "releaseEscrow u c a m k2 db1 = Inr (r2, db2)"
    using release_succeeds [OF solv1 fresh a(1) room(2,1)] by blast
  with releaseEscrow_cases [OF rel] fresh
  have p2: "entry_posted k2 r2 db1 db2" and r2: "tx_userId r2 = u" "tx_currency r2 = c"
    "tx_balanceAfter r2 = tx_balanceBefore r2 + a" "tx_escrowAfter r2 = tx_escrowBefore r2 - a"
    by auto
  have before2: "tx_balanceBefore r2 = available_of db1 u c" "tx_escrowBefore r2 = escrowed_of db1 u c"
    using p2 r2 by (auto simp: entry_posted_def)
  note am2 = posted_amounts [OF p2, unfolded r2 before2]
  show ?thesis
    using lock rel
    by (intro exI [of _ r1] exI [of _ db1] exI [of _ r2] exI [of _ db2]) (auto simp: am1 am2)
qed

theorem escrow_lock_release_roundtrip_witness:
  "let db = wallet_exec empty_wallet (Credit ''u'' AX 100 ''k0'' None);
       db2 = wallet_exec (wallet_exec db (LockFunds ''u'' AX 40 ''m'' ''k1''))
               (ReleaseFunds ''u'' AX 40 ''m'' ''k2'')
   in available_of db2 ''u'' AX = available_of db ''u'' AX \<and> available_of db ''u'' AX = 100"
proof -
  let ?db = "wallet_exec empty_wallet (Credit ''u'' AX 100 ''k0'' None)"
  have amounts: "available_of ?db ''u'' AX = 100" "escrowed_of ?db ''u'' AX = 0"
    "jm_get (walletTransactions ?db) ''k1'' = None" "jm_get (walletTransactions ?db) ''k2'' = None"
    by code_simp+
  have "wallet_inv ?db"
    by (rule wallet.inv_exec [OF wallet.inv_start]) (simp add: proper_op_def)
  then have "solvent ?db" by (simp add: wallet_inv_def)
  from escrow_lock_release_roundtrip [OF this, of 40 "''u''" AX "''k1''" "''k2''" "''m''"] amounts
  show ?thesis by (fastforce simp: wallet_exec_def Let_def)
qed

text \<open>
  Refusals: when the key is fresh and the available amount is below the requested one, a debit, a
  lock and a transfer end in status 400 with the message of that operation, and a release and a
  slash do so when the escrowed amount is too small. Nothing changes in either case.
\<close>

theorem wallet_refuses_overdraft:
  assumes new: "jm_get (walletTransactions db) k = None"
    "jm_get (walletTransactions db) (k @ '':debit'') = None"
  shows "(available_of db u c < a \<longrightarrow>
      debit u c a k n db = Inl (HttpError 400 (''Insufficient '' @ currency_name c @ '' balance'')) \<and>
      lockFundsToEscrow u c a m k db
        = Inl (HttpError 400 (''Insufficient '' @ currency_name c @ '' balance for escrow'')) \<and>
      internalTransfer u v c a ty k n db
        = Inl (HttpError 400 (''Insufficient '' @ currency_name c @ '' balance for transfer''))) \<and>
    (escrowed_of db u c < a \<longrightarrow>
      releaseEscrow u c a m k db
        = Inl (HttpError 400 (''Insufficient '' @ currency_name c @ '' escrowed funds to release'')) \<and>
      slashEscrow u c a m k n db
        = Inl (HttpError 400 (''Insufficient '' @ currency_name c @ '' escrowed funds to slash'')))"
proof -
  obtain l db1 where goc: "getOrCreateLedgerTx db u = (l, db1)" by fastforce
  obtain l2 db2 where goc2: "getOrCreateLedgerTx db1 v = (l2, db2)" by fastforce
  have "ledger_get l (balanceKey c) = available_of db u c"
    "ledger_get l (escrowKey c) = escrowed_of db u c"
    using getOrCreate_cases(1) [OF goc] by (simp_all add: available_of_def escrowed_of_def)
  with new goc goc2 show ?thesis
    by (simp add: debit_def applyTransaction_def lockFundsToEscrow_def internalTransfer_def
        releaseEscrow_def slashEscrow_def Let_def)
qed

theorem wallet_refuses_overdraft_witness:
  "debit ''u'' XLM 1 ''k'' None empty_wallet = Inl (HttpError 400 ''Insufficient XLM balance'')"
  using wallet_refuses_overdraft [of empty_wallet "''k''" "''u''" XLM 1 None "''m''" "''v''" PLATFORM_FEE]
  by (simp add: empty_wallet_def) (simp flip: empty_wallet_def)

text \<open>
  C5. A transfer from a user to themselves, which the operation does not refuse, creates money: both
  ledger rows are read before either is written, the second write wins, and the user ends up with the
  transferred amount on top of what they had.
\<close>

theorem self_transfer_mints:
  assumes call: "internalTransfer u u c a ty k n db = Inr (r, db')"
    and new: "jm_get (walletTransactions db) (k @ '':debit'') = None"
  shows "available_of db' u c = available_of db u c + a"
proof -
  obtain l db1 where goc: "getOrCreateLedgerTx db u = (l, db1)" by fastforce
  have l: "l = ledger_of db u" and get1: "jm_get (ledgers db1) u = Some l"
    using getOrCreate_cases [OF goc] by simp_all
  have goc2: "getOrCreateLedgerTx db1 u = (l, db1)"
    using get1 by (simp add: getOrCreateLedgerTx_def)
  from call new goc goc2 get1 l show ?thesis
    by (auto simp: internalTransfer_def Let_def bind_res_Inr_iff ledger_update_Inr tx_create_Inr
        available_of_def ledger_of_def)
qed

theorem self_transfer_mints_witness:
  "let db = wallet_exec empty_wallet (Credit ''u'' AX 100 ''k0'' None);
       db' = wallet_exec db (Transfer ''u'' ''u'' AX 100 PRIZE_POOL_FUND ''k1'' None)
   in available_of db ''u'' AX = 100 \<and> available_of db' ''u'' AX = 200"
proof -
  let ?db = "wallet_exec empty_wallet (Credit ''u'' AX 100 ''k0'' None)"
  let ?op = "Transfer ''u'' ''u'' AX 100 PRIZE_POOL_FUND ''k1'' None"
  have "\<not> isl (wallet_call ?op ?db)" and v: "available_of ?db ''u'' AX = 100"
    and new: "jm_get (walletTransactions ?db) (''k1'' @ '':debit'') = None"
    by code_simp+
  then obtain r db' where call: "wallet_call ?op ?db = Inr (r, db')"
    by (cases "wallet_call ?op ?db") auto
  from self_transfer_mints [OF call [unfolded wallet_call.simps] new] call v
  show ?thesis by (simp add: wallet_exec_def Let_def)
qed

lemma lock_negative_succeeds:
  assumes solv: "solvent db" and new: "jm_get (walletTransactions db) k = None"
    and a: "0 < a" "available_of db u c + a < 10 ^ 20" "a < 10 ^ 20"
  shows "\<exists>r db'. lockFundsToEscrow u c (- a) m k db = Inr (r, db')"
proof -
  obtain l db1 where goc: "getOrCreateLedgerTx db u = (l, db1)" by fastforce
  note g = getOrCreate_cases [OF goc]
  have amounts: "ledger_get l (balanceKey c) = available_of db u c"
    "ledger_get l (escrowKey c) = escrowed_of db u c"
    using g(1) by (simp_all add: available_of_def escrowed_of_def)
  have pos: "0 \<le> available_of db u c" "0 \<le> escrowed_of db u c" "escrowed_of db u c < 10 ^ 20"
    using solv by (auto simp: solvent_def fits_decimal_def abs_less_iff)
  have "ledger_fits l" using solvent_fits [OF solv] g(1) by simp
  moreover have fits: "fits_decimal (available_of db u c + a)" "fits_decimal (escrowed_of db u c - a)"
    "fits_decimal (available_of db u c)" "fits_decimal (escrowed_of db u c)" "fits_decimal (- a)"
    using a pos by (auto simp: fits_decimal_def)
  ultimately show ?thesis
    using new a pos goc g amounts
    by (auto simp: lockFundsToEscrow_def ledger_update_def tx_create_def row_create_def Let_def
        ledger_fits_put)
qed

text \<open>
  No operation refuses a negative amount: locking a negative amount is accepted in any solvent
  state with room in the column, and raises the available amount while it drives escrow down, so
  that a user without funds obtains an available balance and a negative escrow.
\<close>

theorem negative_lock_creates_funds:
  assumes solv: "solvent db" and new: "jm_get (walletTransactions db) k = None"
    and a: "0 < a" "available_of db u c + a < 10 ^ 20" "a < 10 ^ 20"
  shows "\<exists>r db'. lockFundsToEscrow u c (- a) m k db = Inr (r, db') \<and>
    available_of db' u c = available_of db u c + a \<and> escrowed_of db' u c = escrowed_of db u c - a"
proof -
  obtain r db' where lock: "lockFundsToEscrow u c (- a) m k db = Inr (r, db')"
    using lock_negative_succeeds [OF assms] by blast
  with lockFundsToEscrow_cases [OF lock] new
  have p: "entry_posted k r db db'" and r: "tx_userId r = u" "tx_currency r = c"
    "tx_balanceAfter r = tx_balanceBefore r + a" "tx_escrowAfter r = tx_escrowBefore r - a"
    by auto
  then show ?thesis
    using lock posted_amounts [OF p] by (auto simp: entry_posted_def)
qed

theorem negative_lock_creates_funds_witness:
  "let db = wallet_exec empty_wallet (LockFunds ''u'' AX (- 500) ''m'' ''k'')
   in available_of db ''u'' AX = 500 \<and> escrowed_of db ''u'' AX = - 500"
proof -
  have "solvent empty_wallet"
    using wallet.inv_start by (simp add: wallet_inv_def)
  moreover have "jm_get (walletTransactions empty_wallet) ''k'' = None"
    by (simp add: empty_wallet_def)
  ultimately show ?thesis
    using negative_lock_creates_funds [of empty_wallet "''k''" 500 "''u''" AX "''m''"]
    by (auto simp: wallet_exec_def Let_def)
qed

end
