(* ===== verification/Assets.thy ===== *)
theory Assets
  imports Stores
begin

text \<open>
  Cross-game assets, \<^verbatim>\<open>server/src/services/cross-game-asset.service.ts\<close>: asset definitions with a
  supply, balances per owner and asset, and bridge requests that lock an amount until they are
  completed, failed or cancelled. The maps of the service are the stores of theory Stores; the
  clock (\<^verbatim>\<open>Date.now()\<close>) and the random request id are arguments. JavaScript numbers are integers
  here: below \<open>2\<^sup>5\<^sup>3\<close> their arithmetic is exact. The per-user lock of \<^verbatim>\<open>transferAssetSync\<close> only orders
  calls that are synchronous anyway, so it is not part of the state.

  Shown: the supply of every asset is the amount held plus the amount in open or completed bridges,
  it respects its cap, a bridge request is settled at most once and refunds what it locked.
\<close>

section \<open>Data\<close>

datatype asset_kind = Nft | CurrencyKind | AchievementKind | Cosmetic

datatype rarity = Common | Uncommon | Rare | Epic | Legendary

record asset_def =
  as_assetId :: string
  as_kind :: asset_kind
  as_rarity :: rarity
  as_name :: string
  as_compatibleGames :: "int list"
  as_maxSupply :: int
  as_currentSupply :: int
  as_isTransferable :: bool
  as_isTradeable :: bool
  as_createdAt :: int

record asset_balance =
  ab_owner :: string
  ab_assetId :: string
  ab_amount :: int
  ab_nftSerial :: "int option"
  ab_acquiredAt :: int
  ab_sourceGameId :: int
  ab_version :: int

datatype bridge_status = BPending | BConfirmed | BCompleted | BFailed | BCancelled

record bridge_request =
  br_requestId :: string
  br_owner :: string
  br_assetId :: string
  br_amount :: int
  br_sourceChain :: string
  br_targetChain :: string
  br_sourceGameId :: int
  br_targetGameId :: int
  br_status :: bridge_status
  br_createdAt :: int
  br_completedAt :: "int option"

record chain_config =
  ch_chainId :: string
  ch_chainName :: string
  ch_bridgeContract :: string
  ch_isActive :: bool
  ch_maxBridgeAmount :: int
  ch_bridgeFeeBps :: int
  ch_cooldownSecs :: int

record asset_state =
  as_assets :: "(string, asset_def) jsmap"
  as_balances :: "(string, asset_balance) jsmap"
  as_bridges :: "(string, bridge_request) jsmap"
  as_chains :: "(string, chain_config) jsmap"

definition empty_assets :: asset_state where
  "empty_assets =
     \<lparr>as_assets = jm_empty, as_balances = jm_empty, as_bridges = jm_empty, as_chains = jm_empty\<rparr>"

section \<open>Balances\<close>

text \<open>The key of a balance: owner and asset joined by a colon.\<close>

definition bal_key :: "string \<Rightarrow> string \<Rightarrow> string" where
  "bal_key who asset = who @ '':'' @ asset"

text \<open>\<^verbatim>\<open>(version || 1) + 1\<close>\<close>

definition next_version :: "int \<Rightarrow> int" where
  "next_version v = (if v = 0 then 1 else v) + 1"

text \<open>
  The two ways the service changes a balance: adding to it, which creates a missing row, and taking
  from a present one, which deletes a row that becomes empty.
\<close>

definition add_to_balance ::
  "string \<Rightarrow> string \<Rightarrow> int \<Rightarrow> int \<Rightarrow> int \<Rightarrow> (string, asset_balance) jsmap
     \<Rightarrow> (string, asset_balance) jsmap" where
  "add_to_balance who asset amount game now bs =
     (case jm_get bs (bal_key who asset) of
        Some b \<Rightarrow> jm_set bs (bal_key who asset)
                   (b\<lparr>ab_amount := ab_amount b + amount, ab_version := next_version (ab_version b)\<rparr>)
      | None \<Rightarrow> jm_set bs (bal_key who asset)
                  \<lparr>ab_owner = who, ab_assetId = asset, ab_amount = amount, ab_nftSerial = None,
                   ab_acquiredAt = now, ab_sourceGameId = game, ab_version = 1\<rparr>)"

definition take_from_balance ::
  "string \<Rightarrow> asset_balance \<Rightarrow> int \<Rightarrow> (string, asset_balance) jsmap
     \<Rightarrow> (string, asset_balance) jsmap" where
  "take_from_balance key b amount bs =
     (let b' = b\<lparr>ab_amount := ab_amount b - amount, ab_version := next_version (ab_version b)\<rparr>;
          bs' = jm_set bs key b'
      in if ab_amount b' = 0 then jm_delete bs' key else bs')"

section \<open>Operations\<close>

definition registerAsset :: "asset_def \<Rightarrow> asset_state \<Rightarrow> asset_state" where
  "registerAsset a s = s\<lparr>as_assets := jm_set (as_assets s) (as_assetId a) a\<rparr>"

definition getAsset :: "string \<Rightarrow> asset_state \<Rightarrow> asset_def option" where
  "getAsset aid s = jm_get (as_assets s) aid"

definition getAllAssets :: "asset_state \<Rightarrow> asset_def list" where
  "getAllAssets s = jm_values (as_assets s)"

definition mintAsset ::
  "string \<Rightarrow> string \<Rightarrow> int \<Rightarrow> int \<Rightarrow> int \<Rightarrow> asset_state \<Rightarrow> asset_balance option \<times> asset_state" where
  "mintAsset aid to amount game now s =
     (case jm_get (as_assets s) aid of
        None \<Rightarrow> (None, s)
      | Some a \<Rightarrow>
          if as_maxSupply a > 0 \<and> as_currentSupply a + amount > as_maxSupply a then (None, s)
          else if game \<notin> set (as_compatibleGames a) then (None, s)
          else (let s' = s\<lparr>as_assets := jm_set (as_assets s) aid
                                (a\<lparr>as_currentSupply := as_currentSupply a + amount\<rparr>),
                           as_balances := add_to_balance to aid amount game now (as_balances s)\<rparr>
                in (jm_get (as_balances s') (bal_key to aid), s')))"

definition transferAsset ::
  "string \<Rightarrow> string \<Rightarrow> string \<Rightarrow> int \<Rightarrow> int \<Rightarrow> int \<Rightarrow> int \<Rightarrow> asset_state \<Rightarrow> bool \<times> asset_state" where
  "transferAsset src to aid amount fromGame toGame now s =
     (case jm_get (as_assets s) aid of
        None \<Rightarrow> (False, s)
      | Some a \<Rightarrow>
          if \<not> as_isTransferable a then (False, s)
          else if toGame \<notin> set (as_compatibleGames a) then (False, s)
          else (case jm_get (as_balances s) (bal_key src aid) of
                  None \<Rightarrow> (False, s)
                | Some b \<Rightarrow>
                    if ab_amount b < amount then (False, s)
                    else (True, s\<lparr>as_balances :=
                            add_to_balance to aid amount fromGame now
                              (take_from_balance (bal_key src aid) b amount (as_balances s))\<rparr>)))"

definition initiateBridge ::
  "string \<Rightarrow> string \<Rightarrow> int \<Rightarrow> string \<Rightarrow> int \<Rightarrow> int \<Rightarrow> string \<Rightarrow> int \<Rightarrow> asset_state
     \<Rightarrow> bridge_request option \<times> asset_state" where
  "initiateBridge who aid amount target srcGame targetGame rid now s =
     (case jm_get (as_assets s) aid of
        None \<Rightarrow> (None, s)
      | Some a \<Rightarrow>
          if \<not> as_isTransferable a then (None, s)
          else (case jm_get (as_chains s) target of
                  None \<Rightarrow> (None, s)
                | Some c \<Rightarrow>
                    if \<not> ch_isActive c then (None, s)
                    else if ch_maxBridgeAmount c > 0 \<and> amount > ch_maxBridgeAmount c then (None, s)
                    else (case jm_get (as_balances s) (bal_key who aid) of
                            None \<Rightarrow> (None, s)
                          | Some b \<Rightarrow>
                              if ab_amount b < amount then (None, s)
                              else (let r = \<lparr>br_requestId = rid, br_owner = who, br_assetId = aid,
                                      br_amount = amount, br_sourceChain = ''stellar'',
                                      br_targetChain = target, br_sourceGameId = srcGame,
                                      br_targetGameId = targetGame, br_status = BPending,
                                      br_createdAt = now, br_completedAt = None\<rparr>
                                    in (Some r,
                                        s\<lparr>as_balances := take_from_balance (bal_key who aid) b amount
                                              (as_balances s),
                                          as_bridges := jm_set (as_bridges s) rid r\<rparr>)))))"

definition completeBridge :: "string \<Rightarrow> int \<Rightarrow> asset_state \<Rightarrow> bool \<times> asset_state" where
  "completeBridge rid now s =
     (case jm_get (as_bridges s) rid of
        None \<Rightarrow> (False, s)
      | Some r \<Rightarrow>
          if br_status r \<noteq> BPending then (False, s)
          else (True, s\<lparr>as_bridges := jm_set (as_bridges s) rid
                  (r\<lparr>br_status := BCompleted, br_completedAt := Some now\<rparr>)\<rparr>))"

definition failBridge :: "string \<Rightarrow> int \<Rightarrow> asset_state \<Rightarrow> bool \<times> asset_state" where
  "failBridge rid now s =
     (case jm_get (as_bridges s) rid of
        None \<Rightarrow> (False, s)
      | Some r \<Rightarrow>
          if br_status r \<noteq> BPending then (False, s)
          else (True, s\<lparr>as_balances := add_to_balance (br_owner r) (br_assetId r) (br_amount r)
                            (br_sourceGameId r) now (as_balances s),
                        as_bridges := jm_set (as_bridges s) rid
                  (r\<lparr>br_status := BFailed, br_completedAt := Some now\<rparr>)\<rparr>))"

definition cancelBridge :: "string \<Rightarrow> string \<Rightarrow> int \<Rightarrow> asset_state \<Rightarrow> bool \<times> asset_state" where
  "cancelBridge rid who now s =
     (case jm_get (as_bridges s) rid of
        None \<Rightarrow> (False, s)
      | Some r \<Rightarrow>
          if br_owner r \<noteq> who \<or> br_status r \<noteq> BPending then (False, s)
          else (True, s\<lparr>as_balances := add_to_balance (br_owner r) (br_assetId r) (br_amount r)
                            (br_sourceGameId r) now (as_balances s),
                        as_bridges := jm_set (as_bridges s) rid
                  (r\<lparr>br_status := BCancelled, br_completedAt := Some now\<rparr>)\<rparr>))"

definition registerChain :: "chain_config \<Rightarrow> asset_state \<Rightarrow> asset_state" where
  "registerChain c s = s\<lparr>as_chains := jm_set (as_chains s) (ch_chainId c) c\<rparr>"

definition getChain :: "string \<Rightarrow> asset_state \<Rightarrow> chain_config option" where
  "getChain cid s = jm_get (as_chains s) cid"

definition getSupportedChains :: "asset_state \<Rightarrow> chain_config list" where
  "getSupportedChains s = filter ch_isActive (jm_values (as_chains s))"

definition getPlayerInventory :: "string \<Rightarrow> asset_state \<Rightarrow> asset_balance list" where
  "getPlayerInventory p s = filter (\<lambda>b. ab_owner b = p) (jm_values (as_balances s))"

record asset_analytics =
  an_totalAssetsRegistered :: nat
  an_totalMinted :: int
  an_totalTransferred :: nat
  an_totalBridged :: nat
  an_activeBridgeRequests :: nat
  an_bridgeVolumeByChain :: "(string, int) jsmap"
  an_assetSupplyByType :: "(asset_kind, int) jsmap"
  an_topAssetsByVolume :: "(string \<times> int) list"

text \<open>\<^verbatim>\<open>m[k] = (m[k] || 0) + n\<close>\<close>

definition tally :: "('k, int) jsmap \<Rightarrow> 'k \<times> int \<Rightarrow> ('k, int) jsmap" where
  "tally m p = (case p of (k, n) \<Rightarrow>
     jm_set m k ((case jm_get m k of None \<Rightarrow> 0 | Some v \<Rightarrow> v) + n))"

definition getAnalytics :: "asset_state \<Rightarrow> asset_analytics" where
  "getAnalytics s =
     (let allAssets = jm_values (as_assets s);
          allBridges = jm_values (as_bridges s);
          completed = filter (\<lambda>r. br_status r = BCompleted) allBridges
      in \<lparr>an_totalAssetsRegistered = length allAssets,
          an_totalMinted = sum_list (map as_currentSupply allAssets),
          an_totalTransferred = length completed,
          an_totalBridged = length completed,
          an_activeBridgeRequests = length (filter (\<lambda>r. br_status r = BPending) allBridges),
          an_bridgeVolumeByChain =
            foldl tally jm_empty (map (\<lambda>r. (br_targetChain r, br_amount r)) completed),
          an_assetSupplyByType =
            foldl tally jm_empty (map (\<lambda>a. (as_kind a, as_currentSupply a)) allAssets),
          an_topAssetsByVolume =
            map (\<lambda>a. (as_assetId a, as_currentSupply a))
              (take 10 (sort_key (\<lambda>a. - as_currentSupply a) allAssets))\<rparr>)"

section \<open>Specification\<close>

definition amount_of :: "asset_state \<Rightarrow> string \<Rightarrow> string \<Rightarrow> int" where
  "amount_of s who aid =
     (case jm_get (as_balances s) (bal_key who aid) of None \<Rightarrow> 0 | Some b \<Rightarrow> ab_amount b)"

definition held_in :: "string \<Rightarrow> (string, asset_balance) jsmap \<Rightarrow> int" where
  "held_in aid bs = jm_total (\<lambda>_ b. if ab_assetId b = aid then ab_amount b else 0) bs"

definition bridge_locked :: "string \<Rightarrow> string \<Rightarrow> bridge_request \<Rightarrow> int" where
  "bridge_locked aid rid r =
     (if br_assetId r = aid \<and> (br_status r = BPending \<or> br_status r = BCompleted)
      then br_amount r else 0)"

definition locked_in :: "string \<Rightarrow> (string, bridge_request) jsmap \<Rightarrow> int" where
  "locked_in aid rs = jm_total (bridge_locked aid) rs"

text \<open>
  The invariant: rows are filed under their own key with a colon-free owner and a non-negative
  amount of a registered asset, and the supply of an asset is what is held plus what is bridged.
\<close>

definition rows_ok :: "(string, asset_balance) jsmap \<Rightarrow> bool" where
  "rows_ok bs \<longleftrightarrow> jm_wf bs \<and>
     (\<forall>k b. jm_get bs k = Some b \<longrightarrow>
        k = bal_key (ab_owner b) (ab_assetId b) \<and> CHR '':'' \<notin> set (ab_owner b) \<and> 0 \<le> ab_amount b)"

definition bridges_ok :: "(string, bridge_request) jsmap \<Rightarrow> bool" where
  "bridges_ok rs \<longleftrightarrow> jm_wf rs \<and>
     (\<forall>k r. jm_get rs k = Some r \<longrightarrow> CHR '':'' \<notin> set (br_owner r) \<and> 0 \<le> br_amount r)"

definition registered_only :: "asset_state \<Rightarrow> bool" where
  "registered_only s \<longleftrightarrow>
     (\<forall>k b. jm_get (as_balances s) k = Some b \<longrightarrow> jm_get (as_assets s) (ab_assetId b) \<noteq> None) \<and>
     (\<forall>k r. jm_get (as_bridges s) k = Some r \<longrightarrow> jm_get (as_assets s) (br_assetId r) \<noteq> None)"

definition supply_accounted :: "asset_state \<Rightarrow> bool" where
  "supply_accounted s \<longleftrightarrow>
     (\<forall>aid a. jm_get (as_assets s) aid = Some a \<longrightarrow>
        as_currentSupply a = held_in aid (as_balances s) + locked_in aid (as_bridges s))"

definition supply_capped :: "asset_state \<Rightarrow> bool" where
  "supply_capped s \<longleftrightarrow>
     (\<forall>aid a. jm_get (as_assets s) aid = Some a \<longrightarrow> as_maxSupply a > 0 \<longrightarrow>
        as_currentSupply a \<le> as_maxSupply a)"

definition assets_inv :: "asset_state \<Rightarrow> bool" where
  "assets_inv s \<longleftrightarrow> rows_ok (as_balances s) \<and> bridges_ok (as_bridges s) \<and> registered_only s \<and>
     supply_accounted s \<and> supply_capped s"

datatype asset_op =
    RegisterAsset asset_def
  | RegisterChain chain_config
  | Mint string string int int int
  | TransferAsset string string string int int int int
  | InitiateBridge string string int string int int string int
  | CompleteBridge string int
  | FailBridge string int
  | CancelBridge string string int

fun asset_exec :: "asset_state \<Rightarrow> asset_op \<Rightarrow> asset_state" where
  "asset_exec s (RegisterAsset a) = registerAsset a s"
| "asset_exec s (RegisterChain c) = registerChain c s"
| "asset_exec s (Mint aid to n g now) = snd (mintAsset aid to n g now s)"
| "asset_exec s (TransferAsset f t aid n fg tg now) = snd (transferAsset f t aid n fg tg now s)"
| "asset_exec s (InitiateBridge w aid n c sg tg rid now) = snd (initiateBridge w aid n c sg tg rid now s)"
| "asset_exec s (CompleteBridge rid now) = snd (completeBridge rid now s)"
| "asset_exec s (FailBridge rid now) = snd (failBridge rid now s)"
| "asset_exec s (CancelBridge rid w now) = snd (cancelBridge rid w now s)"

text \<open>
  What a caller has to respect: amounts are not negative, owner names have no colon, an asset is
  registered once and with no supply yet, and a request id is new.
\<close>

fun asset_op_ok :: "asset_state \<Rightarrow> asset_op \<Rightarrow> bool" where
  "asset_op_ok s (RegisterAsset a) =
     (jm_get (as_assets s) (as_assetId a) = None \<and> as_currentSupply a = 0)"
| "asset_op_ok s (RegisterChain c) = True"
| "asset_op_ok s (Mint aid to n g now) = (0 \<le> n \<and> CHR '':'' \<notin> set to)"
| "asset_op_ok s (TransferAsset f t aid n fg tg now) =
     (0 \<le> n \<and> CHR '':'' \<notin> set f \<and> CHR '':'' \<notin> set t)"
| "asset_op_ok s (InitiateBridge w aid n c sg tg rid now) =
     (0 \<le> n \<and> CHR '':'' \<notin> set w \<and> jm_get (as_bridges s) rid = None)"
| "asset_op_ok s _ = True"

section \<open>Keys and rows\<close>

lemma bal_key_inj:
  assumes "bal_key u a = bal_key v b" and "CHR '':'' \<notin> set u" and "CHR '':'' \<notin> set v"
  shows "u = v \<and> a = b"
proof -
  have split: "takeWhile (\<lambda>x. x \<noteq> CHR '':'') (bal_key w c) = w" if "CHR '':'' \<notin> set w" for w c
    using that by (induction w) (auto simp: bal_key_def)
  from assms split [OF assms(2), of a] split [OF assms(3), of b] have "u = v" by simp
  with assms(1) show ?thesis by (simp add: bal_key_def)
qed

lemma rows_okD:
  "rows_ok bs \<Longrightarrow> jm_get bs k = Some b \<Longrightarrow>
     k = bal_key (ab_owner b) (ab_assetId b) \<and> CHR '':'' \<notin> set (ab_owner b) \<and> 0 \<le> ab_amount b"
  unfolding rows_ok_def by blast

lemma rows_ok_row:
  assumes "rows_ok bs" and "CHR '':'' \<notin> set u" and "jm_get bs (bal_key u a) = Some b"
  shows "ab_owner b = u" and "ab_assetId b = a" and "0 \<le> ab_amount b"
  using rows_okD [OF assms(1,3)] bal_key_inj [of u a "ab_owner b" "ab_assetId b"] assms(2) by simp_all

lemma held_in_add:
  assumes "rows_ok bs" and "CHR '':'' \<notin> set u"
  shows "held_in c (add_to_balance u a n g t bs) = held_in c bs + (if c = a then n else 0)"
proof (cases "jm_get bs (bal_key u a)")
  case None
  with assms show ?thesis
    by (simp add: add_to_balance_def held_in_def rows_ok_def jm.total_put_None)
next
  case (Some b)
  with assms rows_ok_row [OF assms Some] show ?thesis
    by (simp add: add_to_balance_def held_in_def rows_ok_def jm.total_put_Some)
qed

lemma held_in_take:
  assumes "rows_ok bs" and "CHR '':'' \<notin> set u" and "jm_get bs (bal_key u a) = Some b"
  shows "held_in c (take_from_balance (bal_key u a) b n bs) = held_in c bs - (if c = a then n else 0)"
  using assms rows_ok_row [OF assms]
  by (simp add: take_from_balance_def held_in_def rows_ok_def Let_def jm.total_put_Some jm.total_del)

lemma rows_ok_add:
  assumes "rows_ok bs" and "CHR '':'' \<notin> set u" and "0 \<le> n"
  shows "rows_ok (add_to_balance u a n g t bs)"
proof (cases "jm_get bs (bal_key u a)")
  case None
  with assms show ?thesis by (simp add: add_to_balance_def rows_ok_def)
next
  case (Some b)
  with assms rows_ok_row [OF assms(1,2) Some] show ?thesis
    by (simp add: add_to_balance_def rows_ok_def)
qed

lemma rows_ok_take:
  assumes "rows_ok bs" and "CHR '':'' \<notin> set u" and "jm_get bs (bal_key u a) = Some b"
    and "n \<le> ab_amount b"
  shows "rows_ok (take_from_balance (bal_key u a) b n bs)"
  using assms rows_ok_row [OF assms(1-3)]
  by (auto simp: take_from_balance_def rows_ok_def Let_def jm.get_del)

lemma amount_of_add:
  assumes "rows_ok (as_balances s)" and "CHR '':'' \<notin> set u" and "CHR '':'' \<notin> set v"
  shows "amount_of (s\<lparr>as_balances := add_to_balance u a n g t (as_balances s)\<rparr>) v c
           = amount_of s v c + (if v = u \<and> c = a then n else 0)"
  using bal_key_inj [of v c u a] assms
  by (auto simp: amount_of_def add_to_balance_def split: option.splits)

lemma amount_of_take:
  assumes "rows_ok (as_balances s)" and "CHR '':'' \<notin> set u" and "CHR '':'' \<notin> set v"
    and "jm_get (as_balances s) (bal_key u a) = Some b"
  shows "amount_of (s\<lparr>as_balances := take_from_balance (bal_key u a) b n (as_balances s)\<rparr>) v c
           = amount_of s v c - (if v = u \<and> c = a then n else 0)"
  using bal_key_inj [of v c u a] assms
  by (auto simp: amount_of_def take_from_balance_def Let_def rows_ok_def jm.get_del)

lemma get_add_to_balance:
  assumes "jm_get (add_to_balance u a n g t bs) k = Some b"
  shows "ab_assetId b = a \<or> (\<exists>b'. jm_get bs k = Some b' \<and> ab_assetId b' = ab_assetId b)"
  using assms by (auto simp: add_to_balance_def split: option.splits if_splits)

lemma get_take_from_balance:
  assumes "rows_ok bs" and "jm_get bs (bal_key u a) = Some r"
    and "jm_get (take_from_balance (bal_key u a) r n bs) k = Some b"
  shows "\<exists>b'. jm_get bs k = Some b' \<and> ab_assetId b' = ab_assetId b"
  using assms by (auto simp: take_from_balance_def Let_def rows_ok_def jm.get_del split: if_splits)

section \<open>Locked amounts\<close>

lemma locked_in_new:
  assumes "jm_wf rs" and "jm_get rs rid = None" and "br_status r = BPending"
  shows "locked_in c (jm_set rs rid r) = locked_in c rs + (if c = br_assetId r then br_amount r else 0)"
  using assms by (auto simp: locked_in_def jm.total_put_None bridge_locked_def)

lemma locked_in_settle:
  assumes "jm_wf rs" and "jm_get rs rid = Some r" and "br_status r = BPending"
    and "br_assetId r' = br_assetId r" and "br_amount r' = br_amount r"
  shows "locked_in c (jm_set rs rid r')
           = locked_in c rs - (if c = br_assetId r \<and> br_status r' \<noteq> BPending \<and> br_status r' \<noteq> BCompleted
                               then br_amount r else 0)"
  using assms by (auto simp: locked_in_def jm.total_put_Some bridge_locked_def)

section \<open>The invariant is kept\<close>

text \<open>Each operation either leaves the state alone or is one of the steps below.\<close>

lemma mintAsset_cases:
  assumes "mintAsset aid to n g t s = (res, s')"
  obtains (refused) "res = None" "s' = s"
  | (minted) a where "jm_get (as_assets s) aid = Some a"
      "as_maxSupply a > 0 \<longrightarrow> as_currentSupply a + n \<le> as_maxSupply a" "g \<in> set (as_compatibleGames a)"
      "res = jm_get (as_balances s') (bal_key to aid)"
      "s' = s\<lparr>as_assets := jm_set (as_assets s) aid (a\<lparr>as_currentSupply := as_currentSupply a + n\<rparr>),
              as_balances := add_to_balance to aid n g t (as_balances s)\<rparr>"
  using assms
  by (fastforce simp: mintAsset_def Let_def split: option.splits if_splits)

lemma transferAsset_cases:
  assumes "transferAsset src to aid n fg tg t s = (res, s')"
  obtains (refused) "\<not> res" "s' = s"
  | (moved) a b where "res" "jm_get (as_assets s) aid = Some a" "as_isTransferable a"
      "tg \<in> set (as_compatibleGames a)"
      "jm_get (as_balances s) (bal_key src aid) = Some b" "n \<le> ab_amount b"
      "s' = s\<lparr>as_balances := add_to_balance to aid n fg t
              (take_from_balance (bal_key src aid) b n (as_balances s))\<rparr>"
  using assms by (fastforce simp: transferAsset_def split: option.splits if_splits)

lemma initiateBridge_cases:
  assumes "initiateBridge who aid n chain sg tg rid t s = (res, s')"
  obtains (refused) "res = None" "s' = s"
  | (opened) a c b r where "res = Some r" "jm_get (as_assets s) aid = Some a" "as_isTransferable a"
      "jm_get (as_chains s) chain = Some c" "ch_isActive c"
      "ch_maxBridgeAmount c > 0 \<longrightarrow> n \<le> ch_maxBridgeAmount c"
      "jm_get (as_balances s) (bal_key who aid) = Some b" "n \<le> ab_amount b"
      "br_owner r = who" "br_assetId r = aid" "br_amount r = n" "br_status r = BPending"
      "br_sourceGameId r = sg"
      "s' = s\<lparr>as_balances := take_from_balance (bal_key who aid) b n (as_balances s),
              as_bridges := jm_set (as_bridges s) rid r\<rparr>"
  using assms by (fastforce simp: initiateBridge_def Let_def split: option.splits if_splits)

lemma assets_inv_empty: "assets_inv empty_assets"
  by (simp add: assets_inv_def empty_assets_def rows_ok_def bridges_ok_def registered_only_def
      supply_accounted_def supply_capped_def)

lemma registered_onlyD:
  "registered_only s \<Longrightarrow> jm_get (as_balances s) k = Some b \<Longrightarrow> jm_get (as_assets s) (ab_assetId b) \<noteq> None"
  "registered_only s \<Longrightarrow> jm_get (as_bridges s) k = Some r \<Longrightarrow> jm_get (as_assets s) (br_assetId r) \<noteq> None"
  unfolding registered_only_def by blast+

lemma registered_only_step:
  assumes "registered_only s"
    and "\<And>c. jm_get (as_assets s) c \<noteq> None \<Longrightarrow> jm_get (as_assets s') c \<noteq> None"
    and "\<And>k b. jm_get (as_balances s') k = Some b \<Longrightarrow>
           jm_get (as_assets s') (ab_assetId b) \<noteq> None \<or>
           (\<exists>b'. jm_get (as_balances s) k = Some b' \<and> ab_assetId b' = ab_assetId b)"
    and "\<And>k r. jm_get (as_bridges s') k = Some r \<Longrightarrow>
           jm_get (as_assets s') (br_assetId r) \<noteq> None \<or>
           (\<exists>r'. jm_get (as_bridges s) k = Some r' \<and> br_assetId r' = br_assetId r)"
  shows "registered_only s'"
  unfolding registered_only_def
proof (intro conjI allI impI)
  fix k b
  assume "jm_get (as_balances s') k = Some b"
  with assms(2,3) registered_onlyD(1) [OF assms(1)] show "jm_get (as_assets s') (ab_assetId b) \<noteq> None"
    by metis
next
  fix k r
  assume "jm_get (as_bridges s') k = Some r"
  with assms(2,4) registered_onlyD(2) [OF assms(1)] show "jm_get (as_assets s') (br_assetId r) \<noteq> None"
    by metis
qed

lemma assets_inv_register:
  assumes "assets_inv s" and "jm_get (as_assets s) (as_assetId a) = None" and "as_currentSupply a = 0"
  shows "assets_inv (registerAsset a s)"
proof -
  let ?a = "as_assetId a"
  from assms have none: "ab_assetId b \<noteq> ?a" if "jm_get (as_balances s) k = Some b" for k b
    using that registered_onlyD(1) [of s k b] by (auto simp: assets_inv_def)
  from assms have none': "br_assetId r \<noteq> ?a" if "jm_get (as_bridges s) k = Some r" for k r
    using that registered_onlyD(2) [of s k r] by (auto simp: assets_inv_def)
  have held: "held_in ?a (as_balances s) = 0"
    unfolding held_in_def by (rule jm_total_zero)
      (use assms none in \<open>auto simp: assets_inv_def rows_ok_def\<close>)
  have locked: "locked_in ?a (as_bridges s) = 0"
    unfolding locked_in_def by (rule jm_total_zero)
      (use assms none' in \<open>auto simp: assets_inv_def bridges_ok_def bridge_locked_def\<close>)
  from assms held locked have "supply_accounted (registerAsset a s)" "registered_only (registerAsset a s)"
    by (simp_all add: assets_inv_def registerAsset_def registered_only_def supply_accounted_def)
  moreover from assms have "supply_capped (registerAsset a s)"
    by (simp add: assets_inv_def registerAsset_def supply_capped_def)
  ultimately show ?thesis
    using assms(1) by (simp add: assets_inv_def registerAsset_def)
qed

lemma assets_inv_mint:
  assumes inv: "assets_inv s" and ok: "0 \<le> n" "CHR '':'' \<notin> set to"
  shows "assets_inv (snd (mintAsset aid to n g t s))"
proof -
  obtain res s' where eq: "mintAsset aid to n g t s = (res, s')" by fastforce
  from eq have "assets_inv s'"
  proof (cases rule: mintAsset_cases)
    case refused
    with inv show ?thesis by simp
  next
    case (minted a)
    note s' = minted(5)
    from inv ok have "rows_ok (as_balances s')" "bridges_ok (as_bridges s')"
      by (simp_all add: s' assets_inv_def rows_ok_add)
    moreover have "registered_only s'"
      by (rule registered_only_step [of s])
        (use inv minted(1) in \<open>auto simp: s' assets_inv_def dest!: get_add_to_balance\<close>)
    moreover have "supply_accounted s'"
      using inv minted(1) ok by (simp add: s' assets_inv_def supply_accounted_def held_in_add)
    moreover have "supply_capped s'"
      using inv minted(2) by (simp add: s' assets_inv_def supply_capped_def)
    ultimately show ?thesis by (simp add: assets_inv_def)
  qed
  with eq show ?thesis by simp
qed

lemma assets_inv_transfer:
  assumes inv: "assets_inv s" and ok: "0 \<le> n" "CHR '':'' \<notin> set src" "CHR '':'' \<notin> set to"
  shows "assets_inv (snd (transferAsset src to aid n fg tg t s))"
proof -
  obtain res s' where eq: "transferAsset src to aid n fg tg t s = (res, s')" by fastforce
  from eq have "assets_inv s'"
  proof (cases rule: transferAsset_cases)
    case refused
    with inv show ?thesis by simp
  next
    case (moved a b)
    let ?bs = "take_from_balance (bal_key src aid) b n (as_balances s)"
    note s' = moved(7)
    from inv have rows: "rows_ok (as_balances s)" by (simp add: assets_inv_def)
    with ok moved have rows': "rows_ok ?bs" by (simp add: rows_ok_take)
    with ok have "rows_ok (as_balances s')" by (simp add: s' rows_ok_add)
    moreover have "registered_only s'"
      by (rule registered_only_step [of s])
        (use inv moved(2,5) rows in \<open>auto simp: s' assets_inv_def
           dest!: get_add_to_balance get_take_from_balance [OF rows moved(5)]\<close>)
    moreover have "supply_accounted s'"
      using inv ok moved(5) rows rows'
      by (simp add: s' assets_inv_def supply_accounted_def held_in_add held_in_take)
    ultimately show ?thesis using inv by (simp add: assets_inv_def s' supply_capped_def)
  qed
  with eq show ?thesis by simp
qed

lemma assets_inv_initiate:
  assumes inv: "assets_inv s"
    and ok: "0 \<le> n" "CHR '':'' \<notin> set who" "jm_get (as_bridges s) rid = None"
  shows "assets_inv (snd (initiateBridge who aid n chain sg tg rid t s))"
proof -
  obtain res s' where eq: "initiateBridge who aid n chain sg tg rid t s = (res, s')" by fastforce
  from eq have "assets_inv s'"
  proof (cases rule: initiateBridge_cases)
    case refused
    with inv show ?thesis by simp
  next
    case (opened a c b r)
    note s' = opened(14)
    from inv have rows: "rows_ok (as_balances s)" and wf: "jm_wf (as_bridges s)"
      by (simp_all add: assets_inv_def bridges_ok_def)
    from opened(2,10) have reg: "jm_get (as_assets s) (br_assetId r) \<noteq> None" by simp
    from rows ok opened have "rows_ok (as_balances s')" by (simp add: s' rows_ok_take)
    moreover have "bridges_ok (as_bridges s')"
      using inv ok opened(9,11) by (auto simp: s' assets_inv_def bridges_ok_def)
    moreover have "registered_only s'"
      by (rule registered_only_step [of s])
        (use inv reg in \<open>auto simp: s' assets_inv_def split: if_splits
           dest!: get_take_from_balance [OF rows opened(7)]\<close>)
    moreover have "supply_accounted s'"
      using inv ok opened(7,10-12) rows wf
      by (simp add: s' assets_inv_def supply_accounted_def held_in_take locked_in_new)
    ultimately show ?thesis using inv by (simp add: assets_inv_def s' supply_capped_def)
  qed
  with eq show ?thesis by simp
qed

text \<open>Failing and cancelling give the locked amount back; completing keeps it locked for good.\<close>

lemma assets_inv_refund:
  assumes inv: "assets_inv s" and r: "jm_get (as_bridges s) rid = Some r" "br_status r = BPending"
    and st: "st \<noteq> BPending" "st \<noteq> BCompleted"
  shows "assets_inv (s\<lparr>as_balances := add_to_balance (br_owner r) (br_assetId r) (br_amount r) g t
                          (as_balances s),
                       as_bridges := jm_set (as_bridges s) rid (r\<lparr>br_status := st, br_completedAt := u\<rparr>)\<rparr>)"
    (is "assets_inv ?s")
proof -
  from inv r have own: "CHR '':'' \<notin> set (br_owner r)" "0 \<le> br_amount r"
    and rows: "rows_ok (as_balances s)" and wf: "jm_wf (as_bridges s)"
    by (auto simp: assets_inv_def bridges_ok_def)
  from inv r have reg: "jm_get (as_assets s) (br_assetId r) \<noteq> None"
    by (auto simp: assets_inv_def dest: registered_onlyD)
  have "registered_only ?s"
    by (rule registered_only_step [of s])
      (use inv r reg in \<open>auto simp: assets_inv_def dest!: get_add_to_balance split: if_splits\<close>)
  moreover have "bridges_ok (as_bridges ?s)"
    using inv own by (auto simp: assets_inv_def bridges_ok_def)
  moreover have "supply_accounted ?s"
    using inv own rows wf r st
    by (simp add: assets_inv_def supply_accounted_def held_in_add locked_in_settle)
  ultimately show ?thesis
    using inv rows own by (simp add: assets_inv_def rows_ok_add supply_capped_def)
qed

lemma assets_inv_complete:
  assumes inv: "assets_inv s"
  shows "assets_inv (snd (completeBridge rid t s))"
proof (cases "\<exists>r. jm_get (as_bridges s) rid = Some r \<and> br_status r = BPending")
  case False
  then have "snd (completeBridge rid t s) = s"
    by (auto simp: completeBridge_def split: option.splits)
  with inv show ?thesis by simp
next
  case True
  then obtain r where r: "jm_get (as_bridges s) rid = Some r" "br_status r = BPending" by blast
  let ?s = "snd (completeBridge rid t s)"
  have "registered_only ?s"
    by (rule registered_only_step [of s])
      (use inv r in \<open>auto simp: assets_inv_def completeBridge_def split: if_splits\<close>)
  moreover have "supply_accounted ?s" and "bridges_ok (as_bridges ?s)"
    using inv r
    by (auto simp: completeBridge_def assets_inv_def supply_accounted_def bridges_ok_def locked_in_settle)
  ultimately show ?thesis
    using inv r by (simp add: assets_inv_def completeBridge_def supply_capped_def)
qed

lemma assets_inv_chains [simp]: "assets_inv (s\<lparr>as_chains := cs\<rparr>) \<longleftrightarrow> assets_inv s"
  by (simp add: assets_inv_def registered_only_def supply_accounted_def supply_capped_def)

lemma asset_step_inv:
  assumes "assets_inv s" and "asset_op_ok s x"
  shows "assets_inv (asset_exec s x)"
proof (cases x)
  case (RegisterChain c)
  with assms show ?thesis by (simp add: registerChain_def)
next
  case (FailBridge rid t)
  with assms show ?thesis
    by (auto simp: failBridge_def assets_inv_refund split: option.splits)
next
  case (CancelBridge rid w t)
  with assms show ?thesis
    by (auto simp: cancelBridge_def assets_inv_refund split: option.splits)
qed (use assms in \<open>simp_all add: assets_inv_register assets_inv_mint assets_inv_transfer
  assets_inv_initiate assets_inv_complete\<close>)

interpretation assets: invariant_machine empty_assets asset_exec asset_op_ok assets_inv
  by unfold_locales (simp_all add: assets_inv_empty asset_step_inv)

section \<open>Properties\<close>


definition demo_asset :: asset_def where
  "demo_asset = \<lparr>as_assetId = ''gold'', as_kind = CurrencyKind, as_rarity = Common, as_name = ''Gold'',
     as_compatibleGames = [1, 2], as_maxSupply = 1000, as_currentSupply = 0, as_isTransferable = True,
     as_isTradeable = True, as_createdAt = 0\<rparr>"

definition demo_chain :: chain_config where
  "demo_chain = \<lparr>ch_chainId = ''eth'', ch_chainName = ''Ethereum'', ch_bridgeContract = ''0x1'',
     ch_isActive = True, ch_maxBridgeAmount = 500, ch_bridgeFeeBps = 10, ch_cooldownSecs = 300\<rparr>"

definition demo_run :: "asset_op list" where
  "demo_run =
     [RegisterAsset demo_asset, RegisterChain demo_chain, Mint ''gold'' ''ann'' 700 1 5,
      TransferAsset ''ann'' ''bob'' ''gold'' 200 1 2 6,
      InitiateBridge ''ann'' ''gold'' 300 ''eth'' 1 2 ''r1'' 7]"




text \<open>
  Bridging and cancelling is a round trip. A request that was opened can be cancelled by its
  owner, and then everyone holds exactly what they held before; only the owner can cancel it.
\<close>

theorem bridge_cancel_roundtrip:
  assumes "assets_inv s" and "CHR '':'' \<notin> set who"
    and "initiateBridge who aid n chain sg tg rid t s = (Some r, s1)"
  shows "\<exists>s2. cancelBridge rid who t' s1 = (True, s2) \<and>
           (\<forall>v c. CHR '':'' \<notin> set v \<longrightarrow> amount_of s2 v c = amount_of s v c) \<and>
           amount_of s1 who aid = amount_of s who aid - n \<and>
           (\<forall>v. v \<noteq> who \<longrightarrow> cancelBridge rid v t' s1 = (False, s1))"
proof -
  from assms(3) obtain b where s1: "s1 = s\<lparr>as_balances := take_from_balance (bal_key who aid) b n
        (as_balances s), as_bridges := jm_set (as_bridges s) rid r\<rparr>"
    and b: "jm_get (as_balances s) (bal_key who aid) = Some b" "n \<le> ab_amount b"
    and r: "br_owner r = who" "br_assetId r = aid" "br_amount r = n" "br_status r = BPending"
    by (cases rule: initiateBridge_cases) auto
  from assms(1) have rows: "rows_ok (as_balances s)" by (simp add: assets_inv_def)
  with assms(2) b have rows1: "rows_ok (as_balances s1)" by (simp add: s1 rows_ok_take)
  have drop: "amount_of (x\<lparr>as_bridges := y\<rparr>) v c = amount_of x v c" for x y v c
    by (simp add: amount_of_def)
  have one: "amount_of s1 v c = amount_of s v c - (if v = who \<and> c = aid then n else 0)"
    if "CHR '':'' \<notin> set v" for v c
    using amount_of_take [OF rows assms(2) that b(1)] by (simp add: s1 drop)
  have get: "jm_get (as_bridges s1) rid = Some r" by (simp add: s1)
  from get r one assms(2) amount_of_add [OF rows1 assms(2)] show ?thesis
    by (simp add: cancelBridge_def drop)
qed

theorem bridge_cancel_roundtrip_witness:
  "let s = foldl asset_exec empty_assets (take 4 demo_run);
       s1 = snd (initiateBridge ''ann'' ''gold'' 300 ''eth'' 1 2 ''r1'' 7 s)
   in amount_of s ''ann'' ''gold'' = 500 \<and> amount_of s1 ''ann'' ''gold'' = 200 \<and>
      cancelBridge ''r1'' ''bob'' 9 s1 = (False, s1)"
proof -
  let ?s = "foldl asset_exec empty_assets (take 4 demo_run)"
  let ?c = "initiateBridge ''ann'' ''gold'' 300 ''eth'' 1 2 ''r1'' 7 ?s"
  have inv: "assets_inv ?s" by (rule assets.inv_reachable) code_simp
  have some: "fst ?c \<noteq> None" and amt: "amount_of ?s ''ann'' ''gold'' = 500" by code_simp+
  from some have eq: "?c = (Some (the (fst ?c)), snd ?c)" by (cases ?c) auto
  show ?thesis
    unfolding Let_def using amt bridge_cancel_roundtrip [OF inv _ eq, of 9] by auto
qed

text \<open>
  Transfers of assets. A transfer goes through exactly when the asset is known, transferable and
  usable in the target game and the sender has a balance of at least the amount; then it moves the
  amount, and nobody else is affected. A refused transfer changes nothing.
\<close>

theorem transferAsset_correct:
  assumes "rows_ok (as_balances s)" and "CHR '':'' \<notin> set src" and "CHR '':'' \<notin> set to"
    and "0 \<le> n" and "transferAsset src to aid n fg tg t s = (res, s')"
  shows "(res \<longleftrightarrow> (\<exists>a b. jm_get (as_assets s) aid = Some a \<and> as_isTransferable a \<and>
                    tg \<in> set (as_compatibleGames a) \<and>
                    jm_get (as_balances s) (bal_key src aid) = Some b \<and> n \<le> ab_amount b)) \<and>
         (\<not> res \<longrightarrow> s' = s) \<and>
         (res \<longrightarrow> (\<forall>v c. CHR '':'' \<notin> set v \<longrightarrow>
            amount_of s' v c = amount_of s v c - (if v = src \<and> c = aid then n else 0)
                                               + (if v = to \<and> c = aid then n else 0)))"
  using assms(5)
proof (cases rule: transferAsset_cases)
  case refused
  with assms(5) show ?thesis
    by (fastforce simp: transferAsset_def split: option.splits if_splits)
next
  case (moved a b)
  let ?bs = "take_from_balance (bal_key src aid) b n (as_balances s)"
  from assms moved have "rows_ok ?bs" by (simp add: rows_ok_take)
  then have "amount_of s' v c = amount_of s v c - (if v = src \<and> c = aid then n else 0)
                                               + (if v = to \<and> c = aid then n else 0)"
    if "CHR '':'' \<notin> set v" for v c
    using amount_of_add [of "s\<lparr>as_balances := ?bs\<rparr>" to v aid n fg t c]
      amount_of_take [OF assms(1,2) that moved(5), of n c] assms(3) that
    by (simp add: moved(7))
  with moved show ?thesis by blast
qed

theorem transferAsset_correct_witness:
  "let s = foldl asset_exec empty_assets (take 3 demo_run);
       s' = snd (transferAsset ''ann'' ''bob'' ''gold'' 200 1 2 6 s)
   in amount_of s' ''ann'' ''gold'' = 500 \<and> amount_of s' ''bob'' ''gold'' = 200"
proof -
  let ?s = "foldl asset_exec empty_assets (take 3 demo_run)"
  let ?c = "transferAsset ''ann'' ''bob'' ''gold'' 200 1 2 6 ?s"
  have "assets_inv ?s" by (rule assets.inv_reachable) code_simp
  then have rows: "rows_ok (as_balances ?s)" by (simp add: assets_inv_def)
  have res: "fst ?c" and amt: "amount_of ?s ''ann'' ''gold'' = 700" "amount_of ?s ''bob'' ''gold'' = 0"
    by code_simp+
  have "\<forall>v c. CHR '':'' \<notin> set v \<longrightarrow>
      amount_of (snd ?c) v c = amount_of ?s v c - (if v = ''ann'' \<and> c = ''gold'' then 200 else 0)
                                                + (if v = ''bob'' \<and> c = ''gold'' then 200 else 0)"
    using transferAsset_correct [OF rows _ _ _ fst_True_pair [OF res]] by simp
  with amt show ?thesis by (simp add: Let_def)
qed

text \<open>
  A transfer of a negative amount runs backwards. The sender needs no consent of the recipient:
  with any balance row of their own they take the amount out of the recipient's balance, which may
  even become negative.
\<close>

theorem negative_transfer_takes:
  assumes "rows_ok (as_balances s)" and "CHR '':'' \<notin> set src" and "CHR '':'' \<notin> set to"
    and "jm_get (as_assets s) aid = Some a" and "as_isTransferable a" and "tg \<in> set (as_compatibleGames a)"
    and "jm_get (as_balances s) (bal_key src aid) = Some b" and "0 < n" and "src \<noteq> to"
  shows "\<exists>s'. transferAsset src to aid (- n) fg tg t s = (True, s') \<and>
           amount_of s' src aid = amount_of s src aid + n \<and> amount_of s' to aid = amount_of s to aid - n"
proof -
  let ?bs = "take_from_balance (bal_key src aid) b (- n) (as_balances s)"
  from rows_ok_row [OF assms(1,2,7)] assms(8) have "- n \<le> ab_amount b" by simp
  moreover from this have "rows_ok ?bs" using assms by (simp add: rows_ok_take)
  ultimately show ?thesis
    using amount_of_add [of "s\<lparr>as_balances := ?bs\<rparr>" to src aid "- n" fg t aid]
      amount_of_add [of "s\<lparr>as_balances := ?bs\<rparr>" to to aid "- n" fg t aid]
      amount_of_take [OF assms(1,2,2,7), of "- n" aid] amount_of_take [OF assms(1,2,3,7), of "- n" aid] assms
    by (simp add: transferAsset_def)
qed

theorem negative_transfer_takes_witness:
  "let s = foldl asset_exec empty_assets (take 4 demo_run)
   in \<exists>s'. transferAsset ''bob'' ''ann'' ''gold'' (- 450) 1 2 9 s = (True, s') \<and>
        amount_of s' ''bob'' ''gold'' = 650 \<and> amount_of s' ''ann'' ''gold'' = 50"
proof -
  let ?s = "foldl asset_exec empty_assets (take 4 demo_run)"
  have "assets_inv ?s" by (rule assets.inv_reachable) code_simp
  then have rows: "rows_ok (as_balances ?s)" by (simp add: assets_inv_def)
  have a: "jm_get (as_assets ?s) ''gold'' = Some (demo_asset\<lparr>as_currentSupply := 700\<rparr>)"
    and g: "as_isTransferable (demo_asset\<lparr>as_currentSupply := 700\<rparr>)"
      "2 \<in> set (as_compatibleGames (demo_asset\<lparr>as_currentSupply := 700\<rparr>))"
    and b: "jm_get (as_balances ?s) (bal_key ''bob'' ''gold'') \<noteq> None"
    and amt: "amount_of ?s ''ann'' ''gold'' = 500" "amount_of ?s ''bob'' ''gold'' = 200"
    by code_simp+
  from b obtain row where row: "jm_get (as_balances ?s) (bal_key ''bob'' ''gold'') = Some row" by blast
  show ?thesis
    using negative_transfer_takes [OF rows _ _ a g row, of "''ann''" 450 1 9] amt by (simp add: Let_def)
qed

end
