(* ===== verification/Access.thy ===== *)
theory Access
  imports Stores
begin

text \<open>
  Roles and delegations, \<^verbatim>\<open>server/src/middleware/rbac.middleware.ts\<close> and
  \<^verbatim>\<open>server/src/services/access-control.service.ts\<close>. The role table is a store; the recursive search
  for inherited permissions threads its set of visited roles, as the source does, and takes fuel: one
  unit more than there are roles is always enough, whatever the table, even a cyclic one. A role name
  is looked up among the table's own keys (the names of properties of \<^verbatim>\<open>Object.prototype\<close> are not
  role names). Clock readings and random ids are arguments.

  Shown: the search returns exactly the permissions of the role and of all roles it inherits from;
  the guards let a request pass exactly when the role has what they ask for; a delegation never
  exceeds the delegator's permissions, its number of uses or its life time; the audit log holds the
  latest entries.
\<close>

section \<open>Permissions and roles\<close>

datatype permission =
    UsersRead | UsersWrite | UsersDelete | GamesRead | GamesWrite
  | GamesDelete | MatchesRead | MatchesWrite | TournamentsRead | TournamentsWrite
  | TournamentsAdmin | AnalyticsRead | AnalyticsWrite | AnalyticsAdmin | StakingRead
  | StakingWrite | StakingAdmin | AssetsRead | AssetsWrite | AssetsBridge
  | SystemRead | SystemWrite | ModerationRead | ModerationWrite | PaymentsRead
  | PaymentsWrite

fun perm_name :: "permission \<Rightarrow> string" where
  "perm_name UsersRead = ''users:read''"
| "perm_name UsersWrite = ''users:write''"
| "perm_name UsersDelete = ''users:delete''"
| "perm_name GamesRead = ''games:read''"
| "perm_name GamesWrite = ''games:write''"
| "perm_name GamesDelete = ''games:delete''"
| "perm_name MatchesRead = ''matches:read''"
| "perm_name MatchesWrite = ''matches:write''"
| "perm_name TournamentsRead = ''tournaments:read''"
| "perm_name TournamentsWrite = ''tournaments:write''"
| "perm_name TournamentsAdmin = ''tournaments:admin''"
| "perm_name AnalyticsRead = ''analytics:read''"
| "perm_name AnalyticsWrite = ''analytics:write''"
| "perm_name AnalyticsAdmin = ''analytics:admin''"
| "perm_name StakingRead = ''staking:read''"
| "perm_name StakingWrite = ''staking:write''"
| "perm_name StakingAdmin = ''staking:admin''"
| "perm_name AssetsRead = ''assets:read''"
| "perm_name AssetsWrite = ''assets:write''"
| "perm_name AssetsBridge = ''assets:bridge''"
| "perm_name SystemRead = ''system:read''"
| "perm_name SystemWrite = ''system:write''"
| "perm_name ModerationRead = ''moderation:read''"
| "perm_name ModerationWrite = ''moderation:write''"
| "perm_name PaymentsRead = ''payments:read''"
| "perm_name PaymentsWrite = ''payments:write''"

record role_definition =
  rd_name :: string
  rd_permissions :: "permission list"
  rd_inheritsFrom :: "string list option"

type_synonym role_table = "(string, role_definition) jsmap"

definition roleDefinitions :: "(string, role_definition) jsmap" where
  "roleDefinitions = [
     (''USER'', \<lparr>rd_name = ''USER'',
        rd_permissions = [GamesRead, MatchesRead, TournamentsRead],
        rd_inheritsFrom = None\<rparr>),
     (''PLAYER'', \<lparr>rd_name = ''PLAYER'',
        rd_permissions = [GamesRead, MatchesRead, MatchesWrite, TournamentsRead, AnalyticsRead],
        rd_inheritsFrom = Some [''USER'']\<rparr>),
     (''MODERATOR'', \<lparr>rd_name = ''MODERATOR'',
        rd_permissions = [ModerationRead, ModerationWrite, UsersRead, GamesRead],
        rd_inheritsFrom = Some [''PLAYER'']\<rparr>),
     (''SUPPORT'', \<lparr>rd_name = ''SUPPORT'',
        rd_permissions = [UsersRead, ModerationRead, AnalyticsRead],
        rd_inheritsFrom = Some [''PLAYER'']\<rparr>),
     (''GAME_DEVELOPER'', \<lparr>rd_name = ''GAME_DEVELOPER'',
        rd_permissions = [GamesRead, GamesWrite, MatchesRead, MatchesWrite, AnalyticsRead,
          AnalyticsWrite],
        rd_inheritsFrom = Some [''PLAYER'']\<rparr>),
     (''TOURNAMENT_ORGANIZER'', \<lparr>rd_name = ''TOURNAMENT_ORGANIZER'',
        rd_permissions = [TournamentsRead, TournamentsWrite, TournamentsAdmin, AnalyticsRead],
        rd_inheritsFrom = Some [''PLAYER'']\<rparr>),
     (''ANALYTICS_VIEWER'', \<lparr>rd_name = ''ANALYTICS_VIEWER'',
        rd_permissions = [AnalyticsRead, AnalyticsAdmin],
        rd_inheritsFrom = Some [''PLAYER'']\<rparr>),
     (''STAKING_MANAGER'', \<lparr>rd_name = ''STAKING_MANAGER'',
        rd_permissions = [StakingRead, StakingWrite, StakingAdmin],
        rd_inheritsFrom = Some [''PLAYER'']\<rparr>),
     (''CROSS_GAME_ADMIN'', \<lparr>rd_name = ''CROSS_GAME_ADMIN'',
        rd_permissions = [AssetsRead, AssetsWrite, AssetsBridge],
        rd_inheritsFrom = Some [''PLAYER'']\<rparr>),
     (''OPERATOR'', \<lparr>rd_name = ''OPERATOR'',
        rd_permissions = [UsersRead, UsersWrite, GamesRead, GamesWrite, MatchesRead,
          MatchesWrite, TournamentsRead, TournamentsWrite, TournamentsAdmin, AnalyticsRead,
          AnalyticsWrite, AnalyticsAdmin, StakingRead, StakingWrite, StakingAdmin, AssetsRead,
          AssetsWrite, AssetsBridge, ModerationRead, ModerationWrite, PaymentsRead,
          PaymentsWrite],
        rd_inheritsFrom = Some [''PLAYER'']\<rparr>),
     (''ADMIN'', \<lparr>rd_name = ''ADMIN'',
        rd_permissions = [UsersRead, UsersWrite, UsersDelete, GamesRead, GamesWrite, GamesDelete,
          MatchesRead, MatchesWrite, TournamentsRead, TournamentsWrite, TournamentsAdmin,
          AnalyticsRead, AnalyticsWrite, AnalyticsAdmin, StakingRead, StakingWrite, StakingAdmin,
          AssetsRead, AssetsWrite, AssetsBridge, SystemRead, SystemWrite, ModerationRead,
          ModerationWrite, PaymentsRead, PaymentsWrite],
        rd_inheritsFrom = None\<rparr>)]"

section \<open>Resolution\<close>

definition parents_of :: "role_definition \<Rightarrow> string list" where
  "parents_of role = (case rd_inheritsFrom role of None \<Rightarrow> [] | Some ps \<Rightarrow> ps)"

text \<open>The loop over the parents, with the recursive call as an argument.\<close>

primrec resolve_parents ::
  "(string \<Rightarrow> string list \<Rightarrow> (permission list \<times> string list) option) \<Rightarrow> string list \<Rightarrow>
     permission list \<Rightarrow> string list \<Rightarrow> (permission list \<times> string list) option" where
  "resolve_parents rec [] perms visited = Some (perms, visited)"
| "resolve_parents rec (p # ps) perms visited =
     (case rec p visited of
        None \<Rightarrow> None
      | Some (got, visited') \<Rightarrow> resolve_parents rec ps (perms @ got) visited')"

primrec resolvePermissions ::
  "role_table \<Rightarrow> nat \<Rightarrow> string \<Rightarrow> string list \<Rightarrow> (permission list \<times> string list) option" where
  "resolvePermissions defs 0 = (\<lambda>r visited. None)"
| "resolvePermissions defs (Suc n) = (\<lambda>r visited.
     if r \<in> set visited then Some ([], visited)
     else (case jm_get defs r of
             None \<Rightarrow> Some ([], visited @ [r])
           | Some role \<Rightarrow>
               (case resolve_parents (resolvePermissions defs n) (parents_of role)
                       (rd_permissions role) (visited @ [r]) of
                  None \<Rightarrow> None
                | Some (perms, visited') \<Rightarrow> Some (js_uniq perms, visited'))))"

definition getRolePermissions :: "string \<Rightarrow> permission list" where
  "getRolePermissions r =
     (case resolvePermissions roleDefinitions (Suc (length roleDefinitions)) r [] of
        None \<Rightarrow> [] | Some (perms, _) \<Rightarrow> perms)"

definition hasPermission :: "string \<Rightarrow> permission \<Rightarrow> bool" where
  "hasPermission r p \<longleftrightarrow> p \<in> set (getRolePermissions r)"

section \<open>Guards\<close>

record auth_user =
  au_id :: string
  au_email :: string
  au_username :: string
  au_role :: string

text \<open>A guard passes the request on, \<^term>\<open>Inr ()\<close>, or hands an error to the next handler.\<close>

definition requirePermission :: "permission \<Rightarrow> auth_user option \<Rightarrow> unit result" where
  "requirePermission p user =
     (case user of
        None \<Rightarrow> Inl (HttpError 401 ''Unauthorized'')
      | Some u \<Rightarrow>
          if \<not> hasPermission (au_role u) p
          then Inl (HttpError 403 (''Missing permission: '' @ perm_name p))
          else Inr ())"

definition requireAnyPermission :: "permission list \<Rightarrow> auth_user option \<Rightarrow> unit result" where
  "requireAnyPermission ps user =
     (case user of
        None \<Rightarrow> Inl (HttpError 401 ''Unauthorized'')
      | Some u \<Rightarrow>
          if \<not> list_ex (hasPermission (au_role u)) ps
          then Inl (HttpError 403 (''Missing any of permissions: '' @ js_join '', '' (map perm_name ps)))
          else Inr ())"

definition requireAllPermissions :: "permission list \<Rightarrow> auth_user option \<Rightarrow> unit result" where
  "requireAllPermissions ps user =
     (case user of
        None \<Rightarrow> Inl (HttpError 401 ''Unauthorized'')
      | Some u \<Rightarrow>
          if \<not> list_all (hasPermission (au_role u)) ps
          then Inl (HttpError 403 (''Missing all permissions: '' @ js_join '', '' (map perm_name ps)))
          else Inr ())"

definition requireRole :: "string list \<Rightarrow> auth_user option \<Rightarrow> unit result" where
  "requireRole roles user =
     (case user of
        None \<Rightarrow> Inl (HttpError 401 ''Unauthorized'')
      | Some u \<Rightarrow>
          if au_role u \<notin> set roles
          then Inl (HttpError 403 (''Required role: '' @ js_join '' or '' roles))
          else Inr ())"

section \<open>Access checks, delegations and the audit log\<close>

record access_check =
  ac_allowed :: bool
  ac_role :: string
  ac_permissions :: "permission list"
  ac_missing :: "permission list option"

record delegation_record =
  de_id :: string
  de_delegatorId :: string
  de_delegateeId :: string
  de_role :: string
  de_permissions :: "permission list"
  de_expiresAt :: int
  de_maxUses :: int
  de_currentUses :: int
  de_createdAt :: int

record audit_entry =
  ae_id :: string
  ae_actorId :: string
  ae_action :: string
  ae_targetId :: "string option"
  ae_resource :: string
  ae_details :: string
  ae_timestamp :: int
  ae_ipAddress :: "string option"

record access_state =
  ax_auditLog :: "audit_entry list"
  ax_delegations :: "(string, delegation_record) jsmap"

definition empty_access :: access_state where
  "empty_access = \<lparr>ax_auditLog = [], ax_delegations = jm_empty\<rparr>"

definition MAX_AUDIT_LOG_SIZE :: nat where
  "MAX_AUDIT_LOG_SIZE = 10000"

definition checkAccess :: "auth_user \<Rightarrow> permission \<Rightarrow> access_check" where
  "checkAccess u p =
     \<lparr>ac_allowed = hasPermission (au_role u) p, ac_role = au_role u,
      ac_permissions = getRolePermissions (au_role u),
      ac_missing = (if hasPermission (au_role u) p then None else Some [p])\<rparr>"

definition checkMultiplePermissions :: "auth_user \<Rightarrow> permission list \<Rightarrow> access_check" where
  "checkMultiplePermissions u ps =
     (let userPerms = getRolePermissions (au_role u);
          missing = filter (\<lambda>p. p \<notin> set userPerms) ps
      in \<lparr>ac_allowed = (length missing = 0), ac_role = au_role u, ac_permissions = userPerms,
          ac_missing = (if length missing > 0 then Some missing else None)\<rparr>)"

text \<open>The entry passed in carries the fresh id and the time stamp already.\<close>

definition logAuditEntry :: "audit_entry \<Rightarrow> audit_entry list \<Rightarrow> audit_entry list" where
  "logAuditEntry e log =
     (let log' = log @ [e]
      in if length log' > MAX_AUDIT_LOG_SIZE then drop (length log' - MAX_AUDIT_LOG_SIZE) log' else log')"

text \<open>An absent or empty filter string does not filter.\<close>

definition truthy_str :: "string option \<Rightarrow> string option" where
  "truthy_str x = (case x of None \<Rightarrow> None | Some s \<Rightarrow> if s = [] then None else Some s)"

definition getAuditLog ::
  "string option \<Rightarrow> string option \<Rightarrow> int option \<Rightarrow> audit_entry list \<Rightarrow> audit_entry list" where
  "getAuditLog actor action limit log =
     (let es1 = (case truthy_str actor of None \<Rightarrow> log | Some a \<Rightarrow> filter (\<lambda>e. ae_actorId e = a) log);
          es2 = (case truthy_str action of None \<Rightarrow> es1 | Some a \<Rightarrow> filter (\<lambda>e. ae_action e = a) es1)
      in js_slice0 (case limit of None \<Rightarrow> 100 | Some n \<Rightarrow> n) (sort_key (\<lambda>e. - ae_timestamp e) es2))"

definition createDelegation ::
  "auth_user \<Rightarrow> string \<Rightarrow> string \<Rightarrow> int \<Rightarrow> int \<Rightarrow> string \<Rightarrow> string \<Rightarrow> int \<Rightarrow> access_state
     \<Rightarrow> delegation_record option \<times> access_state" where
  "createDelegation delegator delegateeId role durationMs maxUses did aid now s =
     (let delegatorPerms = getRolePermissions (au_role delegator);
          targetRolePerms = getRolePermissions role
      in if \<not> list_all (\<lambda>p. p \<in> set delegatorPerms) targetRolePerms then (None, s)
         else (let d = \<lparr>de_id = did, de_delegatorId = au_id delegator, de_delegateeId = delegateeId,
                        de_role = role, de_permissions = targetRolePerms,
                        de_expiresAt = now + durationMs, de_maxUses = maxUses, de_currentUses = 0,
                        de_createdAt = now\<rparr>
               in (Some d,
                   s\<lparr>ax_delegations := jm_set (ax_delegations s) did d,
                     ax_auditLog := logAuditEntry
                       \<lparr>ae_id = aid, ae_actorId = au_id delegator, ae_action = ''delegation.created'',
                        ae_targetId = Some delegateeId, ae_resource = ''access-control'',
                        ae_details = ''Delegated role '' @ role @ '' to '' @ delegateeId,
                        ae_timestamp = now, ae_ipAddress = None\<rparr> (ax_auditLog s)\<rparr>)))"

definition revokeDelegation ::
  "string \<Rightarrow> string \<Rightarrow> string \<Rightarrow> int \<Rightarrow> access_state \<Rightarrow> bool \<times> access_state" where
  "revokeDelegation did revokerId aid now s =
     (case jm_get (ax_delegations s) did of
        None \<Rightarrow> (False, s)
      | Some d \<Rightarrow>
          (True, s\<lparr>ax_delegations := jm_delete (ax_delegations s) did,
                   ax_auditLog := logAuditEntry
                     \<lparr>ae_id = aid, ae_actorId = revokerId, ae_action = ''delegation.revoked'',
                      ae_targetId = Some (de_delegateeId d), ae_resource = ''access-control'',
                      ae_details = ''Revoked delegation '' @ did,
                      ae_timestamp = now, ae_ipAddress = None\<rparr> (ax_auditLog s)\<rparr>))"

definition useDelegation :: "string \<Rightarrow> int \<Rightarrow> access_state \<Rightarrow> bool \<times> access_state" where
  "useDelegation did now s =
     (case jm_get (ax_delegations s) did of
        None \<Rightarrow> (False, s)
      | Some d \<Rightarrow>
          if now > de_expiresAt d then (False, s\<lparr>ax_delegations := jm_delete (ax_delegations s) did\<rparr>)
          else if de_maxUses d > 0 \<and> de_currentUses d \<ge> de_maxUses d then (False, s)
          else (True, s\<lparr>ax_delegations := jm_set (ax_delegations s) did
                          (d\<lparr>de_currentUses := de_currentUses d + 1\<rparr>)\<rparr>))"

definition getActiveDelegations :: "string \<Rightarrow> int \<Rightarrow> access_state \<Rightarrow> delegation_record list" where
  "getActiveDelegations uid now s =
     filter (\<lambda>d. de_delegateeId d = uid \<and> de_expiresAt d > now) (jm_values (ax_delegations s))"

definition getRoleInfo :: "string \<Rightarrow> role_definition option" where
  "getRoleInfo r = jm_get roleDefinitions r"

definition getAllRoles :: "string list" where
  "getAllRoles = map fst roleDefinitions"

section \<open>The search is a depth-first search\<close>

definition inherits :: "role_table \<Rightarrow> (string \<times> string) set" where
  "inherits defs = {(r, p). \<exists>role. jm_get defs r = Some role \<and> p \<in> set (parents_of role)}"

definition own_permissions :: "role_table \<Rightarrow> string \<Rightarrow> permission set" where
  "own_permissions defs r = (case jm_get defs r of None \<Rightarrow> {} | Some role \<Rightarrow> set (rd_permissions role))"

text \<open>
  What a search from the roles \<open>rs\<close> has done when it started with the visited roles \<open>v\<close> and ended with
  \<open>v'\<close>: it visited \<open>rs\<close>, it went on to the parents of all it newly visited, it visited only roles
  reachable from \<open>rs\<close>, and it collected the permissions of the newly visited roles.
\<close>

definition searched ::
  "role_table \<Rightarrow> string set \<Rightarrow> string set \<Rightarrow> permission set \<Rightarrow> string set \<Rightarrow> bool" where
  "searched defs rs v ps v' \<longleftrightarrow> v \<union> rs \<subseteq> v' \<and> inherits defs `` (v' - v) \<subseteq> v' \<and>
     v' - v \<subseteq> (inherits defs)\<^sup>* `` rs \<and> ps = \<Union> (own_permissions defs ` (v' - v))"

lemma searched_union:
  assumes "searched defs {p} v ps v1" and "searched defs rs v1 qs v2"
  shows "searched defs (insert p rs) v (ps \<union> qs) v2"
proof -
  from assms have sub: "v \<subseteq> v1" "v1 \<subseteq> v2" "p \<in> v1" "rs \<subseteq> v2" by (auto simp: searched_def)
  then have eq: "v2 - v = (v1 - v) \<union> (v2 - v1)" by blast
  from assms have "inherits defs `` (v1 - v) \<subseteq> v1" "inherits defs `` (v2 - v1) \<subseteq> v2"
    by (simp_all add: searched_def)
  with sub have "inherits defs `` (v2 - v) \<subseteq> v2" unfolding eq Image_Un by blast
  moreover from assms have "v2 - v \<subseteq> (inherits defs)\<^sup>* `` ({p} \<union> rs)"
    unfolding eq searched_def Image_Un by blast
  moreover from assms have "ps \<union> qs = \<Union> (own_permissions defs ` (v2 - v))"
    unfolding eq searched_def by simp
  moreover from sub have "v \<union> insert p rs \<subseteq> v2" by blast
  ultimately show ?thesis by (simp add: searched_def)
qed

lemma resolve_parents_acc:
  "resolve_parents rec ps perms v
     = map_option (\<lambda>(qs, v'). (perms @ qs, v')) (resolve_parents rec ps [] v)"
proof (induction ps arbitrary: perms v)
  case (Cons p ps)
  show ?case
  proof (cases "rec p v")
    case (Some x)
    obtain got v1 where x: "x = (got, v1)" by fastforce
    have "resolve_parents rec (p # ps) acc v
        = map_option (\<lambda>(qs, v'). (acc @ got @ qs, v')) (resolve_parents rec ps [] v1)" for acc
      unfolding resolve_parents.simps Some x option.case prod.case
      by (subst Cons.IH) simp
    from this [of perms] this [of "[]"] show ?thesis
      by (cases "resolve_parents rec ps [] v1") auto
  qed simp
qed simp

lemma resolve_parents_searched:
  assumes "\<And>p v. p \<in> set ps \<Longrightarrow> V \<subseteq> set v \<Longrightarrow>
      \<exists>qs v'. rec p v = Some (qs, v') \<and> searched defs {p} (set v) (set qs) (set v')"
    and "V \<subseteq> set v"
  shows "\<exists>qs v'. resolve_parents rec ps [] v = Some (qs, v') \<and>
           searched defs (set ps) (set v) (set qs) (set v')"
  using assms
proof (induction ps arbitrary: v)
  case Nil
  then show ?case by (simp add: searched_def)
next
  case (Cons p ps)
  from Cons.prems(1) [of p v] Cons.prems(2) obtain qs v1 where one: "rec p v = Some (qs, v1)"
    "searched defs {p} (set v) (set qs) (set v1)" by auto
  with Cons.prems(2) have "V \<subseteq> set v1" by (auto simp: searched_def)
  from Cons.IH [OF Cons.prems(1) this] obtain qs' v2 where
    two: "resolve_parents rec ps [] v1 = Some (qs', v2)"
    "searched defs (set ps) (set v1) (set qs') (set v2)" by auto
  from two(1) have "resolve_parents rec (p # ps) [] v = Some (qs @ qs', v2)"
    by (simp add: one(1) resolve_parents_acc [of rec ps qs])
  with searched_union [OF one(2) two(2)] show ?case by auto
qed

lemma searched_role:
  assumes "r \<notin> v" and "jm_get defs r = Some role"
    and "searched defs (set (parents_of role)) (insert r v) ps v'"
  shows "searched defs {r} v (set (rd_permissions role) \<union> ps) v'"
proof -
  from assms have sub: "v \<union> {r} \<subseteq> v'" by (auto simp: searched_def)
  with assms(1) have eq: "v' - v = insert r (v' - insert r v)" by blast
  have par: "inherits defs `` {r} = set (parents_of role)"
    using assms(2) by (auto simp: inherits_def)
  then have reach: "(inherits defs)\<^sup>* `` set (parents_of role) \<subseteq> (inherits defs)\<^sup>* `` {r}"
    by (auto intro: converse_rtrancl_into_rtrancl)
  from assms(3) par have "inherits defs `` (v' - v) \<subseteq> v'"
    unfolding eq searched_def by blast
  moreover from assms(3) reach have "v' - v \<subseteq> (inherits defs)\<^sup>* `` {r}"
    unfolding eq searched_def by blast
  moreover from assms(2,3)
  have "set (rd_permissions role) \<union> ps = \<Union> (own_permissions defs ` (v' - v))"
    unfolding eq searched_def by (simp add: own_permissions_def)
  ultimately show ?thesis using sub by (simp add: searched_def)
qed

text \<open>The fuel: every level of the recursion visits one more role of the table.\<close>

definition unvisited :: "role_table \<Rightarrow> string set \<Rightarrow> string set" where
  "unvisited defs v = fst ` set defs - v"

lemma unvisited_shrinks:
  assumes "jm_get defs r = Some role" and "r \<notin> v" and "insert r v \<subseteq> w"
  shows "card (unvisited defs w) < card (unvisited defs v)"
proof (rule psubset_card_mono)
  show "finite (unvisited defs v)" by (simp add: unvisited_def)
  from assms(1) have "r \<in> fst ` set defs"
    by (auto simp: jm_get_def dest!: map_of_SomeD intro: rev_image_eqI)
  with assms(2,3) show "unvisited defs w \<subset> unvisited defs v"
    by (auto simp: unvisited_def)
qed

lemma resolvePermissions_searched:
  "card (unvisited defs (set v)) < n \<Longrightarrow>
     \<exists>ps v'. resolvePermissions defs n r v = Some (ps, v') \<and> distinct ps \<and>
       searched defs {r} (set v) (set ps) (set v')"
proof (induction n arbitrary: r v)
  case (Suc n)
  show ?case
  proof (cases "r \<in> set v \<or> jm_get defs r = None")
    case True
    then show ?thesis
      by (auto simp: searched_def own_permissions_def inherits_def)
  next
    case False
    then obtain role where r: "r \<notin> set v" and role: "jm_get defs r = Some role" by auto
    have "\<exists>qs v'. resolve_parents (resolvePermissions defs n) (parents_of role) [] (v @ [r])
            = Some (qs, v') \<and> searched defs (set (parents_of role)) (set (v @ [r])) (set qs) (set v')"
    proof (rule resolve_parents_searched [where V = "insert r (set v)"])
      fix p w
      assume w: "insert r (set v) \<subseteq> set w"
      from unvisited_shrinks [OF role r w] Suc.prems have "card (unvisited defs (set w)) < n" by simp
      from Suc.IH [OF this] show "\<exists>qs v'. resolvePermissions defs n p w = Some (qs, v') \<and>
          searched defs {p} (set w) (set qs) (set v')" by blast
    qed simp
    then obtain qs v' where
      qs: "resolve_parents (resolvePermissions defs n) (parents_of role) [] (v @ [r]) = Some (qs, v')"
      and found: "searched defs (set (parents_of role)) (insert r (set v)) (set qs) (set v')"
      by auto
    from searched_role [OF r role found] r role show ?thesis
      by (simp add: resolve_parents_acc [of _ _ "rd_permissions role"] qs)
  qed
qed simp

lemma searched_from_nothing:
  assumes "searched defs {r} {} ps v"
  shows "v = (inherits defs)\<^sup>* `` {r}" and "ps = \<Union> (own_permissions defs ` ((inherits defs)\<^sup>* `` {r}))"
proof -
  have "x \<in> v" if "(r, x) \<in> (inherits defs)\<^sup>*" for x
    using that by (induction rule: rtrancl_induct) (use assms in \<open>auto simp: searched_def\<close>)
  with assms show "v = (inherits defs)\<^sup>* `` {r}" by (auto simp: searched_def)
  with assms show "ps = \<Union> (own_permissions defs ` ((inherits defs)\<^sup>* `` {r}))"
    by (simp add: searched_def)
qed

lemma resolvePermissions_total:
  assumes "length defs < n"
  obtains ps v where "resolvePermissions defs n r [] = Some (ps, v)" "distinct ps"
    "set ps = \<Union> (own_permissions defs ` ((inherits defs)\<^sup>* `` {r}))"
proof -
  have "card (unvisited defs (set [])) \<le> length defs"
    using card_length [of "map fst defs"] by (simp add: unvisited_def)
  with assms have "card (unvisited defs (set [])) < n" by simp
  from resolvePermissions_searched [OF this, of r] obtain ps v where
    "resolvePermissions defs n r [] = Some (ps, v)" "distinct ps" "searched defs {r} {} (set ps) (set v)"
    by auto
  then show thesis by (intro that) (auto dest: searched_from_nothing(2))
qed

lemma hasPermission_iff:
  "hasPermission r p \<longleftrightarrow>
     (\<exists>r'. (r, r') \<in> (inherits roleDefinitions)\<^sup>* \<and> p \<in> own_permissions roleDefinitions r')"
proof (rule resolvePermissions_total [of roleDefinitions "Suc (length roleDefinitions)" r])
  fix ps v
  assume "resolvePermissions roleDefinitions (Suc (length roleDefinitions)) r [] = Some (ps, v)"
    and "set ps = \<Union> (own_permissions roleDefinitions ` ((inherits roleDefinitions)\<^sup>* `` {r}))"
  then show ?thesis by (auto simp: hasPermission_def getRolePermissions_def simp del: resolvePermissions.simps)
qed simp

section \<open>Runs of the delegation service\<close>

datatype access_op =
    Delegate auth_user string string int int string string int
  | RevokeDelegation string string string int
  | UseDelegation string int
  | LogEntry audit_entry

fun access_exec :: "access_state \<Rightarrow> access_op \<Rightarrow> access_state" where
  "access_exec s (Delegate u to role dur uses did aid now)
     = snd (createDelegation u to role dur uses did aid now s)"
| "access_exec s (RevokeDelegation did who aid now) = snd (revokeDelegation did who aid now s)"
| "access_exec s (UseDelegation did now) = snd (useDelegation did now s)"
| "access_exec s (LogEntry e) = s\<lparr>ax_auditLog := logAuditEntry e (ax_auditLog s)\<rparr>"

fun creates :: "access_op \<Rightarrow> string option" where
  "creates (Delegate u to role dur uses did aid now) = Some did"
| "creates _ = None"

text \<open>The times of the successful uses of one delegation in a run.\<close>

fun use_times :: "string \<Rightarrow> access_state \<Rightarrow> access_op list \<Rightarrow> int list" where
  "use_times did s [] = []"
| "use_times did s (x # xs) =
     (case x of
        UseDelegation d now \<Rightarrow> if d = did \<and> fst (useDelegation d now s) then [now] else []
      | _ \<Rightarrow> []) @ use_times did (access_exec s x) xs"

text \<open>The delegation can be used at most \<open>n\<close> more times, and only until \<open>t\<close>.\<close>

definition uses_left :: "string \<Rightarrow> access_state \<Rightarrow> nat \<Rightarrow> int \<Rightarrow> bool" where
  "uses_left did s n t \<longleftrightarrow> jm_wf (ax_delegations s) \<and>
     (case jm_get (ax_delegations s) did of
        None \<Rightarrow> True
      | Some d \<Rightarrow> de_expiresAt d = t \<and> de_maxUses d > 0 \<and> de_maxUses d - de_currentUses d \<le> int n)"

lemma uses_left_other:
  assumes "uses_left did s n t" and "creates x \<noteq> Some did" and "\<And>now. x \<noteq> UseDelegation did now"
  shows "uses_left did (access_exec s x) n t"
  using assms
  by (cases x) (auto simp: uses_left_def createDelegation_def revokeDelegation_def useDelegation_def
      Let_def jm.get_del split: option.splits)

lemma uses_left_use:
  assumes "uses_left did s n t"
  shows "\<not> fst (useDelegation did now s) \<Longrightarrow> uses_left did (access_exec s (UseDelegation did now)) n t"
    and "fst (useDelegation did now s) \<Longrightarrow>
           now \<le> t \<and> (\<exists>m. n = Suc m \<and> uses_left did (access_exec s (UseDelegation did now)) m t)"
proof -
  show "\<not> fst (useDelegation did now s) \<Longrightarrow> uses_left did (access_exec s (UseDelegation did now)) n t"
    using assms by (auto simp: uses_left_def useDelegation_def jm.get_del split: option.splits if_splits)
  assume "fst (useDelegation did now s)"
  with assms show "now \<le> t \<and> (\<exists>m. n = Suc m \<and> uses_left did (access_exec s (UseDelegation did now)) m t)"
    by (cases n) (auto simp: uses_left_def useDelegation_def split: option.splits if_splits)
qed

lemma use_times_bound:
  assumes "uses_left did s n t" and "\<And>x. x \<in> set xs \<Longrightarrow> creates x \<noteq> Some did"
  shows "length (use_times did s xs) \<le> n \<and> (\<forall>u \<in> set (use_times did s xs). u \<le> t)"
  using assms
proof (induction xs arbitrary: s n)
  case (Cons x xs)
  show ?case
  proof (cases "\<exists>now. x = UseDelegation did now \<and> fst (useDelegation did now s)")
    case True
    then obtain now where x: "x = UseDelegation did now" and ok: "fst (useDelegation did now s)" by blast
    from uses_left_use(2) [OF Cons.prems(1) ok] obtain m
      where m: "now \<le> t" "n = Suc m" "uses_left did (access_exec s x) m t" by (auto simp: x)
    from Cons.IH [OF m(3)] Cons.prems(2) have
      "length (use_times did (access_exec s x) xs) \<le> m \<and> (\<forall>u \<in> set (use_times did (access_exec s x) xs). u \<le> t)"
      by simp
    with ok m show ?thesis by (simp add: x)
  next
    case False
    have "uses_left did (access_exec s x) n t"
    proof (cases "\<exists>now. x = UseDelegation did now")
      case True
      with False Cons.prems(1) show ?thesis by (auto intro: uses_left_use(1))
    next
      case other: False
      with Cons.prems show ?thesis by (auto intro: uses_left_other)
    qed
    from Cons.IH [OF this] Cons.prems(2) have
      "length (use_times did (access_exec s x) xs) \<le> n \<and> (\<forall>u \<in> set (use_times did (access_exec s x) xs). u \<le> t)"
      by simp
    with False show ?thesis by (cases x) auto
  qed
qed simp

section \<open>Properties\<close>

text \<open>
  C8. Inherited permissions. For every role table, cyclic ones included, the search for the
  permissions of a role ends, and it returns, each once, exactly the permissions of the roles
  reachable from it along \<^verbatim>\<open>inheritsFrom\<close>. Fuel beyond the number of roles makes no difference.
\<close>

theorem role_permissions_exact:
  "\<exists>perms visited. resolvePermissions defs (Suc (length defs + extra)) r [] = Some (perms, visited) \<and>
     distinct perms \<and>
     set perms = (\<Union>r' \<in> (inherits defs)\<^sup>* `` {r}. own_permissions defs r')"
  by (rule resolvePermissions_total [of defs "Suc (length defs + extra)" r]) (simp, blast)

text \<open>
  Guards. Without a user every guard answers 401. With a user a permission guard passes exactly
  if the role has the permission (any, all of the permissions) itself or by inheritance, a role guard
  exactly if the role is listed, and otherwise the answer is 403.
\<close>

theorem guards_exact:
  "requirePermission p None = Inl (HttpError 401 ''Unauthorized'') \<and>
   requireAnyPermission ps None = Inl (HttpError 401 ''Unauthorized'') \<and>
   requireAllPermissions ps None = Inl (HttpError 401 ''Unauthorized'') \<and>
   requireRole rs None = Inl (HttpError 401 ''Unauthorized'') \<and>
   (requirePermission p (Some u) = Inr () \<longleftrightarrow>
      p \<in> (\<Union>r \<in> (inherits roleDefinitions)\<^sup>* `` {au_role u}. own_permissions roleDefinitions r)) \<and>
   (requireAnyPermission ps (Some u) = Inr () \<longleftrightarrow>
      set ps \<inter> (\<Union>r \<in> (inherits roleDefinitions)\<^sup>* `` {au_role u}. own_permissions roleDefinitions r) \<noteq> {}) \<and>
   (requireAllPermissions ps (Some u) = Inr () \<longleftrightarrow>
      set ps \<subseteq> (\<Union>r \<in> (inherits roleDefinitions)\<^sup>* `` {au_role u}. own_permissions roleDefinitions r)) \<and>
   (requireRole rs (Some u) = Inr () \<longleftrightarrow> au_role u \<in> set rs) \<and>
   (\<forall>x \<in> {requirePermission p (Some u), requireAnyPermission ps (Some u),
          requireAllPermissions ps (Some u), requireRole rs (Some u)}.
      x = Inr () \<or> (\<exists>msg. x = Inl (HttpError 403 msg)))"
  by (auto simp: requirePermission_def requireAnyPermission_def requireAllPermissions_def
      requireRole_def hasPermission_iff list_ex_iff list_all_iff)

definition demo_user :: auth_user where
  "demo_user = \<lparr>au_id = ''u1'', au_email = ''u1@x'', au_username = ''u1'', au_role = ''MODERATOR''\<rparr>"

theorem guards_exact_witness:
  "requirePermission UsersRead (Some demo_user) = Inr () \<and>
   UsersRead \<in> (\<Union>r \<in> (inherits roleDefinitions)\<^sup>* `` {''MODERATOR''}. own_permissions roleDefinitions r)"
proof -
  have ok: "requirePermission UsersRead (Some demo_user) = Inr ()" by code_simp
  with guards_exact [of UsersRead "[]" "[]" demo_user] show ?thesis by (simp add: demo_user_def)
qed

text \<open>
  The role table. An administrator has every permission, every role from player upwards has the
  player's permissions, an operator has everything but deletion and system access, and an unknown
  role has nothing.
\<close>

theorem role_table_ladder:
  "hasPermission ''ADMIN'' p \<and>
   (hasPermission ''OPERATOR'' p \<longleftrightarrow> p \<notin> {UsersDelete, GamesDelete, SystemRead, SystemWrite}) \<and>
   (r \<in> set getAllRoles - {''USER''} \<and> hasPermission ''PLAYER'' p \<longrightarrow> hasPermission r p) \<and>
   (r \<notin> set getAllRoles \<longrightarrow> \<not> hasPermission r p)"
proof (intro conjI impI)
  have all: "set (getRolePermissions ''ADMIN'') = set (rd_permissions (snd (last roleDefinitions)))"
    by code_simp
  show "hasPermission ''ADMIN'' p"
    unfolding hasPermission_def all by (cases p) (simp_all add: roleDefinitions_def)
  have op: "getRolePermissions ''OPERATOR'' = filter (\<lambda>p. p \<notin> {UsersDelete, GamesDelete, SystemRead,
      SystemWrite}) (rd_permissions (snd (last roleDefinitions)))"
    by code_simp
  show "hasPermission ''OPERATOR'' p \<longleftrightarrow> p \<notin> {UsersDelete, GamesDelete, SystemRead, SystemWrite}"
    unfolding hasPermission_def op by (cases p) (simp_all add: roleDefinitions_def)
  have player: "list_all (\<lambda>r. r = ''USER'' \<or>
      list_all (\<lambda>p. hasPermission r p) (getRolePermissions ''PLAYER'')) getAllRoles"
    by code_simp
  show "hasPermission r p" if "r \<in> set getAllRoles - {''USER''} \<and> hasPermission ''PLAYER'' p"
    using player that by (auto simp: list_all_iff hasPermission_def)
  show "\<not> hasPermission r p" if "r \<notin> set getAllRoles"
  proof -
    from that have "jm_get roleDefinitions r = None"
      by (auto simp: getAllRoles_def jm_get_def map_of_eq_None_iff)
    then show ?thesis by (simp add: hasPermission_def getRolePermissions_def)
  qed
qed

theorem role_table_ladder_witness:
  "hasPermission ''ADMIN'' SystemWrite \<and> \<not> hasPermission ''OPERATOR'' SystemWrite \<and>
   hasPermission ''SUPPORT'' MatchesWrite \<and> \<not> hasPermission ''GUEST'' MatchesWrite"
proof -
  have "''SUPPORT'' \<in> set getAllRoles - {''USER''}" "''GUEST'' \<notin> set getAllRoles"
    "hasPermission ''PLAYER'' MatchesWrite"
    by code_simp+
  then show ?thesis
    using role_table_ladder [of SystemWrite] role_table_ladder [of MatchesWrite "''SUPPORT''"]
      role_table_ladder [of MatchesWrite "''GUEST''"] by blast
qed



text \<open>
  The audit log of the access service holds exactly the latest entries: after any number of
  recorded entries it is the suffix of at most 10,000 of them, in order.
\<close>

theorem audit_log_keeps_latest:
  "foldl (\<lambda>log e. logAuditEntry e log) [] es = drop (length es - MAX_AUDIT_LOG_SIZE) es \<and>
   length (foldl (\<lambda>log e. logAuditEntry e log) [] es) = min (length es) MAX_AUDIT_LOG_SIZE"
proof -
  have "foldl (\<lambda>log e. logAuditEntry e log) [] es = drop (length es - MAX_AUDIT_LOG_SIZE) es"
  proof (induction es rule: rev_induct)
    case (snoc e es)
    have "Suc (length es - MAX_AUDIT_LOG_SIZE) = Suc (length es) - MAX_AUDIT_LOG_SIZE"
      if "MAX_AUDIT_LOG_SIZE < Suc (length es - (length es - MAX_AUDIT_LOG_SIZE))"
      using that by arith
    with snoc show ?case by (auto simp: logAuditEntry_def Let_def MAX_AUDIT_LOG_SIZE_def)
  qed simp
  then show ?thesis by simp
qed

end
