(* ===== verification/Lockout.thy ===== *)
theory Lockout
  imports Stores
begin

text \<open>
  Account lockout, \<^verbatim>\<open>server/src/services/account-lockout.service.ts\<close>: failed logins are counted per user
  and address; the fifth locks the pair for thirty minutes. Times are milliseconds and come as
  arguments, the timer that removes expired locks is an operation of its own.

  Shown: what each failure answers, how long a lock lasts, and that guarded guessing is limited to
  five attempts per thirty minutes.
\<close>

section \<open>Model\<close>

definition MAX_FAILED_ATTEMPTS :: int where
  "MAX_FAILED_ATTEMPTS = 5"

definition LOCKOUT_DURATION_MS :: int where
  "LOCKOUT_DURATION_MS = 30 * 60 * 1000"

record failed_attempt =
  fa_userId :: string
  fa_ipAddress :: string
  fa_attempts :: int
  fa_lastAttemptAt :: int
  fa_lockedUntil :: "int option"

type_synonym lockout_state = "(string, failed_attempt) jsmap"

text \<open>The periodic clean-up: expired keys are collected, then deleted.\<close>

definition lock_expired :: "int \<Rightarrow> failed_attempt \<Rightarrow> bool" where
  "lock_expired now a = (case fa_lockedUntil a of None \<Rightarrow> False | Some u \<Rightarrow> u < now)"

definition cleanupLockouts :: "int \<Rightarrow> lockout_state \<Rightarrow> lockout_state" where
  "cleanupLockouts now s = jm_sweep (\<lambda>_. lock_expired now) s"

definition getAttemptKey :: "string \<Rightarrow> string \<Rightarrow> string" where
  "getAttemptKey userId ipAddress = userId @ '':'' @ ipAddress"

definition recordFailedAttempt ::
  "string \<Rightarrow> string \<Rightarrow> int \<Rightarrow> lockout_state \<Rightarrow> (bool \<times> int) \<times> lockout_state" where
  "recordFailedAttempt userId ipAddress now s =
     (let key = getAttemptKey userId ipAddress;
          existing = jm_get s key;
          attempts = (case existing of None \<Rightarrow> 0 | Some a \<Rightarrow> fa_attempts a) + 1;
          locked = (attempts \<ge> MAX_FAILED_ATTEMPTS);
          lockedUntil = (if locked then Some (now + LOCKOUT_DURATION_MS)
                         else Option.bind existing fa_lockedUntil)
      in ((locked, max 0 (MAX_FAILED_ATTEMPTS - attempts)),
          jm_set s key \<lparr>fa_userId = userId, fa_ipAddress = ipAddress, fa_attempts = attempts,
                        fa_lastAttemptAt = now, fa_lockedUntil = lockedUntil\<rparr>))"

definition isAccountLocked :: "string \<Rightarrow> string \<Rightarrow> int \<Rightarrow> lockout_state \<Rightarrow> bool \<times> lockout_state" where
  "isAccountLocked userId ipAddress now s =
     (let key = getAttemptKey userId ipAddress
      in case Option.bind (jm_get s key) fa_lockedUntil of
           None \<Rightarrow> (False, s)
         | Some u \<Rightarrow> if u < now then (False, jm_delete s key) else (True, s))"

definition getLockoutRemainingSeconds :: "string \<Rightarrow> string \<Rightarrow> int \<Rightarrow> lockout_state \<Rightarrow> int" where
  "getLockoutRemainingSeconds userId ipAddress now s =
     (case Option.bind (jm_get s (getAttemptKey userId ipAddress)) fa_lockedUntil of
        None \<Rightarrow> 0
      | Some u \<Rightarrow> max 0 ((u - now) div 1000))"

definition clearFailedAttempts :: "string \<Rightarrow> string \<Rightarrow> lockout_state \<Rightarrow> lockout_state" where
  "clearFailedAttempts userId ipAddress s = jm_delete s (getAttemptKey userId ipAddress)"

definition checkAccountLockout ::
  "string \<Rightarrow> string \<Rightarrow> int \<Rightarrow> lockout_state \<Rightarrow> unit result \<times> lockout_state" where
  "checkAccountLockout userId ipAddress now s =
     (case isAccountLocked userId ipAddress now s of
        (locked, s') \<Rightarrow>
          if locked
          then (Inl (HttpError 429 (''Account locked due to too many failed attempts. Try again in ''
                  @ show_int (getLockoutRemainingSeconds userId ipAddress now s') @ '' seconds.'')), s')
          else (Inr (), s'))"

section \<open>Guessing passwords\<close>

text \<open>
  A guesser tries wrong passwords: each try passes the lockout check first and is recorded as failed
  when it was let through. The timer may run in between.
\<close>

datatype guess_event = Guess string string int | Timer int

fun event_time :: "guess_event \<Rightarrow> int" where
  "event_time (Guess u ip now) = now"
| "event_time (Timer now) = now"

fun guess_step :: "lockout_state \<Rightarrow> guess_event \<Rightarrow> bool \<times> lockout_state" where
  "guess_step s (Guess u ip now) =
     (case checkAccountLockout u ip now s of
        (Inl e, s') \<Rightarrow> (False, s')
      | (Inr x, s') \<Rightarrow> (True, snd (recordFailedAttempt u ip now s')))"
| "guess_step s (Timer now) = (False, cleanupLockouts now s)"

fun event_key :: "guess_event \<Rightarrow> string option" where
  "event_key (Guess u ip now) = Some (getAttemptKey u ip)"
| "event_key (Timer now) = None"

fun admitted :: "string \<Rightarrow> lockout_state \<Rightarrow> guess_event list \<Rightarrow> nat" where
  "admitted key s [] = 0"
| "admitted key s (e # es) =
     (if event_key e = Some key \<and> fst (guess_step s e) then 1 else 0) + admitted key (snd (guess_step s e)) es"

lemma jm_get_cleanup:
  assumes "jm_wf s"
  shows "jm_get (cleanupLockouts now s) k =
           (case Option.bind (jm_get s k) fa_lockedUntil of
              None \<Rightarrow> jm_get s k | Some u \<Rightarrow> if u < now then None else jm_get s k)"
  using assms by (cases "jm_get s k") (auto simp: cleanupLockouts_def jm_get_sweep lock_expired_def
      split: option.splits)

lemma cleanupLockouts_wf [simp]: "jm_wf s \<Longrightarrow> jm_wf (cleanupLockouts now s)"
  by (simp add: cleanupLockouts_def)

text \<open>
  The bookkeeping of one key since time \<open>t0\<close>: \<open>k\<close> lock periods are over, the current record counts the
  failures since the last one, and a lock in force ends one further period later.
\<close>

definition key_record :: "int \<Rightarrow> int \<Rightarrow> nat \<Rightarrow> failed_attempt option \<Rightarrow> bool" where
  "key_record t0 k n r \<longleftrightarrow>
     (case r of
        None \<Rightarrow> int n = 5 * k
      | Some a \<Rightarrow> int n = 5 * k + fa_attempts a \<and>
          (case fa_lockedUntil a of
             None \<Rightarrow> fa_attempts a < 5
           | Some u \<Rightarrow> fa_attempts a = 5 \<and> t0 + (k + 1) * LOCKOUT_DURATION_MS \<le> u))"

definition guess_inv :: "string \<Rightarrow> int \<Rightarrow> int \<Rightarrow> nat \<Rightarrow> lockout_state \<Rightarrow> bool" where
  "guess_inv key t0 t n s \<longleftrightarrow> jm_wf s \<and> t0 \<le> t \<and>
     (\<exists>k. 0 \<le> k \<and> t0 + k * LOCKOUT_DURATION_MS \<le> t \<and> key_record t0 k n (jm_get s key))"

lemma key_record_locked_check:
  assumes "key_record t0 k n (jm_get s key)" and "jm_wf s" and "t \<le> now"
    and "0 \<le> k" and "t0 + k * LOCKOUT_DURATION_MS \<le> t" and "key = getAttemptKey u ip"
    and "isAccountLocked u ip now s = (locked, s')"
  shows "jm_wf s' \<and> (if locked then s' = s
     else \<exists>k'. 0 \<le> k' \<and> t0 + k' * LOCKOUT_DURATION_MS \<le> now \<and> key_record t0 k' n (jm_get s' key) \<and>
            Option.bind (jm_get s' key) fa_lockedUntil = None)"
proof (cases "Option.bind (jm_get s key) fa_lockedUntil")
  case None
  with assms show ?thesis by (auto simp: isAccountLocked_def Let_def)
next
  case (Some until)
  show ?thesis
  proof (cases "until < now")
    case True
    with assms Some have "s' = jm_delete s key" "\<not> locked" by (auto simp: isAccountLocked_def Let_def)
    moreover from Some assms(1) have "t0 + (k + 1) * LOCKOUT_DURATION_MS \<le> until" "int n = 5 * (k + 1)"
      by (auto simp: key_record_def bind_eq_Some_conv)
    ultimately show ?thesis
      using assms True by (auto simp: key_record_def jm.get_del intro!: exI [of _ "k + 1"])
  next
    case False
    with assms Some show ?thesis by (auto simp: isAccountLocked_def Let_def)
  qed
qed

lemma key_record_failure:
  assumes "key_record t0 k n (jm_get s (getAttemptKey u ip))"
    and "Option.bind (jm_get s (getAttemptKey u ip)) fa_lockedUntil = None"
    and "t0 + k * LOCKOUT_DURATION_MS \<le> now"
  shows "key_record t0 k (Suc n) (jm_get (snd (recordFailedAttempt u ip now s)) (getAttemptKey u ip))"
  using assms
  by (auto simp: key_record_def recordFailedAttempt_def Let_def MAX_FAILED_ATTEMPTS_def algebra_simps
      split: option.splits)

lemma guess_inv_step:
  assumes inv: "guess_inv key t0 t n s" and "t \<le> event_time e"
  shows "guess_inv key t0 (event_time e)
           (n + (if event_key e = Some key \<and> fst (guess_step s e) then 1 else 0)) (snd (guess_step s e))"
proof (cases e)
  case (Timer now)
  from inv obtain k where k: "0 \<le> k" "t0 + k * LOCKOUT_DURATION_MS \<le> t" "key_record t0 k n (jm_get s key)"
    and wf: "jm_wf s" and t0: "t0 \<le> t" by (auto simp: guess_inv_def)
  show ?thesis
  proof (cases "\<exists>until. Option.bind (jm_get s key) fa_lockedUntil = Some until \<and> until < now")
    case True
    then obtain until where until: "Option.bind (jm_get s key) fa_lockedUntil = Some until" "until < now" by blast
    with k(3) have "t0 + (k + 1) * LOCKOUT_DURATION_MS \<le> until" "int n = 5 * (k + 1)"
      by (auto simp: key_record_def bind_eq_Some_conv)
    with until k wf t0 assms(2) Timer show ?thesis
      by (auto simp: guess_inv_def key_record_def jm_get_cleanup intro!: exI [of _ "k + 1"])
  next
    case False
    with k wf t0 assms(2) Timer show ?thesis
      by (auto simp: guess_inv_def jm_get_cleanup intro!: exI [of _ k] split: option.splits)
  qed
next
  case (Guess u ip now)
  from inv obtain k where k: "0 \<le> k" "t0 + k * LOCKOUT_DURATION_MS \<le> t" "key_record t0 k n (jm_get s key)"
    and wf: "jm_wf s" and t0: "t0 \<le> t" by (auto simp: guess_inv_def)
  obtain locked s' where chk: "isAccountLocked u ip now s = (locked, s')" by fastforce
  show ?thesis
  proof (cases "getAttemptKey u ip = key")
    case True
    from assms(2) Guess have "t \<le> now" by simp
    note res = key_record_locked_check [OF k(3) wf this k(1,2) True [symmetric] chk]
    show ?thesis
    proof (cases locked)
      case True
      with inv chk res assms(2) Guess show ?thesis
        by (auto simp: checkAccountLockout_def guess_inv_def)
    next
      case False
      with res obtain k' where k': "0 \<le> k'" "t0 + k' * LOCKOUT_DURATION_MS \<le> now"
        "key_record t0 k' n (jm_get s' key)" "Option.bind (jm_get s' key) fa_lockedUntil = None" by auto
      from k' True have "key_record t0 k' (Suc n) (jm_get (snd (recordFailedAttempt u ip now s')) key)"
        using key_record_failure [of t0 k' n s' u ip now] by auto
      moreover from res have "jm_wf (snd (recordFailedAttempt u ip now s'))"
        by (auto simp: recordFailedAttempt_def Let_def)
      ultimately show ?thesis
        using False chk Guess True k' t0 assms(2) by (auto simp: checkAccountLockout_def guess_inv_def)
    qed
  next
    case False
    from wf chk have "jm_wf s'" "jm_get s' key = jm_get s key"
      using False by (auto simp: isAccountLocked_def Let_def jm.get_del split: option.splits if_splits)
    with False k wf t0 chk Guess assms(2) show ?thesis
      by (auto simp: checkAccountLockout_def guess_inv_def recordFailedAttempt_def Let_def
          intro!: exI [of _ k])
  qed
qed

lemma guess_inv_run:
  assumes "guess_inv key t0 t n s" and "sorted (t # map event_time es)"
  shows "\<exists>s'. guess_inv key t0 (last (t # map event_time es)) (n + admitted key s es) s'"
  using assms
proof (induction es arbitrary: t n s)
  case (Cons e es)
  from Cons.prems(2) have "t \<le> event_time e" "sorted (event_time e # map event_time es)" by simp_all
  from Cons.IH [OF guess_inv_step [OF Cons.prems(1) this(1)] this(2)] show ?case
    by (auto simp: add.assoc split: if_splits)
qed auto

lemma guess_inv_bound:
  assumes "guess_inv key t0 t n s"
  shows "int n \<le> 5 * ((t - t0) div LOCKOUT_DURATION_MS + 1)"
proof -
  from assms obtain k where k: "t0 + k * LOCKOUT_DURATION_MS \<le> t" "key_record t0 k n (jm_get s key)"
    by (auto simp: guess_inv_def)
  then have "k * LOCKOUT_DURATION_MS div LOCKOUT_DURATION_MS \<le> (t - t0) div LOCKOUT_DURATION_MS"
    by (intro zdiv_mono1) (simp_all add: LOCKOUT_DURATION_MS_def)
  then have "k \<le> (t - t0) div LOCKOUT_DURATION_MS" by (simp add: LOCKOUT_DURATION_MS_def)
  moreover from k(2) have "int n \<le> 5 * (k + 1)"
    by (auto simp: key_record_def split: option.splits)
  ultimately show ?thesis by simp
qed

section \<open>Properties\<close>



text \<open>
  C18. The fifth failure locks. After \<open>n\<close> recorded failures of a pair the next one answers the number of
  tries that remain and whether the pair is locked now, which it is exactly from the fifth on. A lock
  holds through the thirty minutes after the failure, shows the whole seconds left, and afterwards
  the pair starts again without a record.
\<close>

theorem fifth_failure_locks:
  assumes "jm_wf s" and "jm_get s (getAttemptKey u ip) = None"
    and "recordFailedAttempt u ip now (foldl (\<lambda>s t. snd (recordFailedAttempt u ip t s)) s ts)
           = ((locked, remaining), s')"
  shows "(locked \<longleftrightarrow> length ts \<ge> 4) \<and> remaining = int (4 - length ts) \<and>
         (locked \<and> t \<le> now + 30 * 60 * 1000 \<longrightarrow> isAccountLocked u ip t s' = (True, s') \<and>
            getLockoutRemainingSeconds u ip t s' = (now + 30 * 60 * 1000 - t) div 1000) \<and>
         (locked \<and> t > now + 30 * 60 * 1000 \<longrightarrow>
            \<not> fst (isAccountLocked u ip t s') \<and>
            jm_get (snd (isAccountLocked u ip t s')) (getAttemptKey u ip) = None) \<and>
         (\<not> locked \<longrightarrow> isAccountLocked u ip t s' = (False, s'))"
proof -
  let ?s = "foldl (\<lambda>s t. snd (recordFailedAttempt u ip t s)) s ts"
  have wf: "jm_wf ?s"
    using assms(1) by (induction ts rule: rev_induct) (auto simp: recordFailedAttempt_def Let_def)
  have rec: "(case jm_get ?s (getAttemptKey u ip) of None \<Rightarrow> length ts = 0
      | Some a \<Rightarrow> fa_attempts a = int (length ts) \<and> (fa_lockedUntil a = None \<longleftrightarrow> length ts < 5))"
    using assms(2)
    by (induction ts rule: rev_induct)
      (auto simp: recordFailedAttempt_def Let_def MAX_FAILED_ATTEMPTS_def split: option.splits)
  have "0 \<le> (now + 1800000 - t) div 1000" if "t \<le> now + 1800000"
    using that by (simp add: pos_imp_zdiv_nonneg_iff)
  with wf rec assms(3) show ?thesis
    by (auto simp: recordFailedAttempt_def Let_def MAX_FAILED_ATTEMPTS_def LOCKOUT_DURATION_MS_def
        isAccountLocked_def getLockoutRemainingSeconds_def jm.get_del split: option.splits)
qed

theorem fifth_failure_locks_witness:
  "let s = foldl (\<lambda>s t. snd (recordFailedAttempt ''u'' ''ip'' t s)) jm_empty [1, 2, 3, 4];
       s' = snd (recordFailedAttempt ''u'' ''ip'' 5 s)
   in fst (recordFailedAttempt ''u'' ''ip'' 5 s) = (True, 0) \<and>
      isAccountLocked ''u'' ''ip'' 1800005 s' = (True, s') \<and> \<not> fst (isAccountLocked ''u'' ''ip'' 1800006 s')"
proof -
  let ?s = "foldl (\<lambda>s t. snd (recordFailedAttempt ''u'' ''ip'' t s)) jm_empty [1, 2, 3, 4]"
  let ?r = "recordFailedAttempt ''u'' ''ip'' 5 ?s"
  have f: "fst ?r = (True, 0)" by code_simp
  then have r: "?r = ((True, 0), snd ?r)" by (metis prod.collapse)
  have wf: "jm_wf jm_empty" and none: "jm_get jm_empty (getAttemptKey ''u'' ''ip'') = None" by simp_all
  have "isAccountLocked ''u'' ''ip'' 1800005 (snd ?r) = (True, snd ?r)"
    using fifth_failure_locks [OF wf none r, of 1800005] by simp
  moreover have "\<not> fst (isAccountLocked ''u'' ''ip'' 1800006 (snd ?r))"
    using fifth_failure_locks [OF wf none r, of 1800006] by simp
  ultimately show ?thesis unfolding Let_def using f by blast
qed

end
