(* ===== verification/RateLimit.thy ===== *)
theory RateLimit
  imports Complex_Main Stores
begin

text \<open>
  Rate limiting, \<^verbatim>\<open>server/src/middleware/token-bucket-rate-limit.middleware.ts\<close> with its in-memory
  store, and the arithmetic of \<^verbatim>\<open>server/src/middleware/sliding-window-rate-limit.store.ts\<close>. Numbers that
  the source keeps as floating point are rationals here, so rounding errors of refills are not
  modelled; times are milliseconds and are arguments. A request handler with the in-memory store runs
  without interruption (its awaits only wait for values that are there already), so handling a request
  is one step.

  Shown: how many requests a limiter can let through in a time span, with escalation and clean-up
  included; that the advertised waiting time is enough, except while a limiter is escalated to
  capacity zero; and bounds of the sliding-window estimate.
\<close>

section \<open>The bucket\<close>

record bucket_config =
  tc_capacity :: rat
  tc_refillRate :: rat
  tc_cost :: "rat option"
  tc_identifier :: "string option"

record bucket_state =
  ts_tokens :: rat
  ts_lastRefill :: int

definition config_cost :: "bucket_config \<Rightarrow> rat" where
  "config_cost cfg = (case tc_cost cfg of None \<Rightarrow> 1 | Some c \<Rightarrow> c)"

definition refill :: "bucket_config \<Rightarrow> int \<Rightarrow> bucket_state \<Rightarrow> bucket_state" where
  "refill cfg now st =
     (let elapsedSec = of_int (now - ts_lastRefill st) / 1000
      in \<lparr>ts_tokens = min (tc_capacity cfg) (ts_tokens st + elapsedSec * tc_refillRate cfg),
          ts_lastRefill = now\<rparr>)"

definition tryConsume :: "bucket_config \<Rightarrow> rat \<Rightarrow> int \<Rightarrow> bucket_state \<Rightarrow> bool \<times> bucket_state" where
  "tryConsume cfg cost now st =
     (let st' = refill cfg now st
      in if ts_tokens st' \<ge> cost then (True, st'\<lparr>ts_tokens := ts_tokens st' - cost\<rparr>)
         else (False, st'))"

definition remainingTokens :: "bucket_config \<Rightarrow> int \<Rightarrow> bucket_state \<Rightarrow> rat" where
  "remainingTokens cfg now st = ts_tokens (refill cfg now st)"

text \<open>With a refill rate of zero the quotient is infinite, which is \<^term>\<open>None\<close>.\<close>

definition timeUntilRefillMs :: "bucket_config \<Rightarrow> int \<Rightarrow> bucket_state \<Rightarrow> int option" where
  "timeUntilRefillMs cfg now st =
     (let st' = refill cfg now st
      in if ts_tokens st' \<ge> config_cost cfg then Some 0
         else if tc_refillRate cfg = 0 then None
         else Some \<lceil>(config_cost cfg - ts_tokens st') / tc_refillRate cfg * 1000\<rceil>)"

definition getState :: "bucket_config \<Rightarrow> int \<Rightarrow> bucket_state \<Rightarrow> bucket_state" where
  "getState cfg now st = refill cfg now st"

section \<open>The in-memory store\<close>

type_synonym bucket_store = "(string, bucket_state) jsmap"

definition store_cleanup :: "int \<Rightarrow> int \<Rightarrow> bucket_store \<Rightarrow> bucket_store" where
  "store_cleanup maxAge now m = jm_sweep (\<lambda>_ st. ts_lastRefill st < now - maxAge) m"

section \<open>The limiter\<close>

record escalation_policy =
  ep_threshold :: nat
  ep_multiplier :: rat
  ep_durationMs :: int

record escalation_entry =
  ee_expiresAt :: int
  ee_multiplier :: rat

record limiter =
  lm_config :: bucket_config
  lm_escalation :: "escalation_policy option"

record limiter_state =
  ls_store :: bucket_store
  ls_escalations :: "(string, escalation_entry) jsmap"
  ls_violations :: "(string, nat) jsmap"

definition empty_limiter :: limiter_state where
  "empty_limiter = \<lparr>ls_store = jm_empty, ls_escalations = jm_empty, ls_violations = jm_empty\<rparr>"

text \<open>
  The answer to a request: passed on with the limit and the remaining tokens in the headers, or
  status 429 with the limit, the seconds to wait and whether the client is escalated.
\<close>

datatype limit_answer = Passed rat int | Rejected rat "int option" bool

definition resolveEffectiveConfig :: "limiter \<Rightarrow> string \<Rightarrow> int \<Rightarrow> limiter_state \<Rightarrow> bucket_config" where
  "resolveEffectiveConfig lm identifier now s =
     (let cfg = lm_config lm in
      case jm_get (ls_escalations s) identifier of
        None \<Rightarrow> cfg
      | Some esc \<Rightarrow>
          if ee_expiresAt esc > now
          then \<lparr>tc_capacity = of_int \<lfloor>tc_capacity cfg * ee_multiplier esc\<rfloor>,
                tc_refillRate = tc_refillRate cfg * ee_multiplier esc,
                tc_cost = Some (config_cost cfg), tc_identifier = tc_identifier cfg\<rparr>
          else cfg)"

definition maybeEscalate :: "limiter \<Rightarrow> string \<Rightarrow> nat \<Rightarrow> int \<Rightarrow> limiter_state \<Rightarrow> bool \<times> limiter_state" where
  "maybeEscalate lm identifier violations now s =
     (case lm_escalation lm of
        None \<Rightarrow> (False, s)
      | Some p \<Rightarrow>
          if violations < ep_threshold p then (False, s)
          else if (case jm_get (ls_escalations s) identifier of
                     None \<Rightarrow> False | Some e \<Rightarrow> ee_expiresAt e > now) then (True, s)
          else (True, s\<lparr>ls_escalations := jm_set (ls_escalations s) identifier
                  \<lparr>ee_expiresAt = now + ep_durationMs p, ee_multiplier = ep_multiplier p\<rparr>\<rparr>))"

definition limit_request :: "limiter \<Rightarrow> string \<Rightarrow> int \<Rightarrow> limiter_state \<Rightarrow> limit_answer \<times> limiter_state" where
  "limit_request lm identifier now s =
     (let effective = resolveEffectiveConfig lm identifier now s;
          (bucket, s1) =
            (case jm_get (ls_store s) identifier of
               Some b \<Rightarrow> (b, s)
             | None \<Rightarrow>
                 let b = \<lparr>ts_tokens = tc_capacity effective, ts_lastRefill = now\<rparr>
                 in (b, s\<lparr>ls_store := jm_set (ls_store s) identifier b\<rparr>));
          (ok, st) = tryConsume effective (config_cost effective) now bucket
      in if \<not> ok
         then (let violations = (case jm_get (ls_violations s1) identifier of
                                   None \<Rightarrow> 0 | Some v \<Rightarrow> v) + 1;
                   s2 = s1\<lparr>ls_violations := jm_set (ls_violations s1) identifier violations\<rparr>;
                   (escalated, s3) = maybeEscalate lm identifier violations now s2
               in (Rejected (tc_capacity effective)
                     (map_option (\<lambda>ms. \<lceil>of_int ms / 1000 :: rat\<rceil>) (timeUntilRefillMs effective now st))
                     escalated, s3))
         else (Passed (tc_capacity effective) \<lfloor>remainingTokens effective now st\<rfloor>,
               s1\<lparr>ls_store := jm_set (ls_store s1) identifier (getState effective now st)\<rparr>))"

definition limiter_reset :: "string \<Rightarrow> limiter_state \<Rightarrow> limiter_state" where
  "limiter_reset identifier s =
     s\<lparr>ls_store := jm_delete (ls_store s) identifier,
       ls_violations := jm_delete (ls_violations s) identifier,
       ls_escalations := jm_delete (ls_escalations s) identifier\<rparr>"

definition limiter_cleanup :: "int \<Rightarrow> limiter_state \<Rightarrow> limiter_state" where
  "limiter_cleanup now s = s\<lparr>ls_store := store_cleanup 60000 now (ls_store s)\<rparr>"

text \<open>\<^verbatim>\<open>user?.id ? `user:${user.id}` : `ip:${req.ip ?? 'unknown'}`\<close>, the user id absent or empty.\<close>

definition defaultIdentifier :: "string option \<Rightarrow> string option \<Rightarrow> string" where
  "defaultIdentifier userId ip =
     (case userId of
        Some u \<Rightarrow> if u \<noteq> [] then ''user:'' @ u
                  else ''ip:'' @ (case ip of None \<Rightarrow> ''unknown'' | Some a \<Rightarrow> a)
      | None \<Rightarrow> ''ip:'' @ (case ip of None \<Rightarrow> ''unknown'' | Some a \<Rightarrow> a))"

definition authTokenBucketLimiter :: limiter where
  "authTokenBucketLimiter =
     \<lparr>lm_config = \<lparr>tc_capacity = 5, tc_refillRate = 5 / 60, tc_cost = None, tc_identifier = Some ''auth''\<rparr>,
      lm_escalation = Some \<lparr>ep_threshold = 3, ep_multiplier = 1 / 10, ep_durationMs = 300000\<rparr>\<rparr>"

definition paymentTokenBucketLimiter :: limiter where
  "paymentTokenBucketLimiter =
     \<lparr>lm_config = \<lparr>tc_capacity = 10, tc_refillRate = 10 / 60, tc_cost = None, tc_identifier = Some ''payment''\<rparr>,
      lm_escalation = Some \<lparr>ep_threshold = 5, ep_multiplier = 2 / 10, ep_durationMs = 600000\<rparr>\<rparr>"

definition gameActionTokenBucketLimiter :: limiter where
  "gameActionTokenBucketLimiter =
     \<lparr>lm_config = \<lparr>tc_capacity = 30, tc_refillRate = 30 / 60, tc_cost = None, tc_identifier = Some ''game-action''\<rparr>,
      lm_escalation = Some \<lparr>ep_threshold = 10, ep_multiplier = 5 / 10, ep_durationMs = 300000\<rparr>\<rparr>"

definition generalTokenBucketLimiter :: limiter where
  "generalTokenBucketLimiter =
     \<lparr>lm_config = \<lparr>tc_capacity = 100, tc_refillRate = 100 / 60, tc_cost = None, tc_identifier = Some ''general''\<rparr>,
      lm_escalation = Some \<lparr>ep_threshold = 20, ep_multiplier = 3 / 10, ep_durationMs = 300000\<rparr>\<rparr>"

section \<open>The sliding window\<close>

text \<open>
  The counters of the current and the previous window come from Redis; what is computed from them is
  the window number, the weight of the previous window, the estimate and the reset time.
\<close>

definition windowId :: "int \<Rightarrow> int \<Rightarrow> int" where
  "windowId windowMs now = now div windowMs"

definition windowKeys :: "int \<Rightarrow> int \<Rightarrow> string \<times> string \<times> int" where
  "windowKeys windowMs now =
     (let w = windowId windowMs now
      in (''w:'' @ show_int w, ''w:'' @ show_int (w - 1), w))"

definition window_overlap :: "int \<Rightarrow> int \<Rightarrow> rat" where
  "window_overlap windowMs now =
     (let elapsedInCurrentWindow = now - windowId windowMs now * windowMs
      in max 0 (of_int (windowMs - elapsedInCurrentWindow) / of_int windowMs))"

text \<open>\<open>counts\<close> is \<^term>\<open>None\<close> when Redis failed: the request then counts as the first.\<close>

definition sliding_increment :: "int \<Rightarrow> int \<Rightarrow> (int \<times> int) option \<Rightarrow> int \<times> int" where
  "sliding_increment windowMs now counts =
     (case counts of
        None \<Rightarrow> (1, now + windowMs)
      | Some (current, previous) \<Rightarrow>
          (\<lceil>of_int current + of_int previous * window_overlap windowMs now\<rceil>,
           (windowId windowMs now + 1) * windowMs))"

section \<open>Counting admitted requests\<close>

datatype limit_event = Hit string int | Sweep int

fun limit_time :: "limit_event \<Rightarrow> int" where
  "limit_time (Hit i t) = t"
| "limit_time (Sweep t) = t"

fun limit_step :: "limiter \<Rightarrow> limiter_state \<Rightarrow> limit_event \<Rightarrow> limit_answer option \<times> limiter_state" where
  "limit_step lm s (Hit i t) = (case limit_request lm i t s of (a, s') \<Rightarrow> (Some a, s'))"
| "limit_step lm s (Sweep t) = (None, limiter_cleanup t s)"

fun is_passed :: "limit_answer option \<Rightarrow> bool" where
  "is_passed (Some (Passed l r)) = True"
| "is_passed _ = False"

fun hits :: "string \<Rightarrow> limit_event \<Rightarrow> bool" where
  "hits i (Hit j t) = (i = j)"
| "hits i (Sweep t) = False"

fun passes :: "limiter \<Rightarrow> string \<Rightarrow> limiter_state \<Rightarrow> limit_event list \<Rightarrow> nat" where
  "passes lm i s [] = 0"
| "passes lm i s (e # es) =
     (if hits i e \<and> is_passed (fst (limit_step lm s e)) then 1 else 0) + passes lm i (snd (limit_step lm s e)) es"

text \<open>
  A sensible limiter: nothing is negative, escalation does not raise the limits, and a bucket is
  full again by the time the clean-up may forget it.
\<close>

definition limiter_ok :: "limiter \<Rightarrow> bool" where
  "limiter_ok lm \<longleftrightarrow> 0 \<le> tc_capacity (lm_config lm) \<and> 0 \<le> tc_refillRate (lm_config lm) \<and>
     0 \<le> config_cost (lm_config lm) \<and> tc_capacity (lm_config lm) \<le> 60 * tc_refillRate (lm_config lm) \<and>
     (case lm_escalation lm of None \<Rightarrow> True | Some p \<Rightarrow> 0 \<le> ep_multiplier p \<and> ep_multiplier p \<le> 1)"

definition mults_ok :: "limiter_state \<Rightarrow> bool" where
  "mults_ok s \<longleftrightarrow> (\<forall>k e. jm_get (ls_escalations s) k = Some e \<longrightarrow> 0 \<le> ee_multiplier e \<and> ee_multiplier e \<le> 1)"

text \<open>
  The account of one client: what was spent and what is left in the bucket are covered by the
  capacity and the refill since \<open>t0\<close>; without a bucket the refill alone covers it.
\<close>

definition account :: "bucket_config \<Rightarrow> int \<Rightarrow> int \<Rightarrow> nat \<Rightarrow> bucket_state option \<Rightarrow> bool" where
  "account cfg t0 t n b \<longleftrightarrow>
     (case b of
        None \<Rightarrow> of_nat n * config_cost cfg \<le> tc_refillRate cfg * of_int (t - t0) / 1000
      | Some st \<Rightarrow> t0 \<le> ts_lastRefill st \<and> ts_lastRefill st \<le> t \<and> 0 \<le> ts_tokens st \<and>
          of_nat n * config_cost cfg + ts_tokens st
            \<le> tc_capacity cfg + tc_refillRate cfg * of_int (ts_lastRefill st - t0) / 1000)"

definition limit_inv :: "limiter \<Rightarrow> string \<Rightarrow> int \<Rightarrow> int \<Rightarrow> nat \<Rightarrow> limiter_state \<Rightarrow> bool" where
  "limit_inv lm i t0 t n s \<longleftrightarrow> jm_wf (ls_store s) \<and> mults_ok s \<and> t0 \<le> t \<and>
     account (lm_config lm) t0 t n (jm_get (ls_store s) i)"

lemma account_later:
  assumes "account cfg t0 t n b" and "t \<le> t'" and "0 \<le> tc_refillRate cfg"
  shows "account cfg t0 t' n b"
proof -
  have "tc_refillRate cfg * of_int (t - t0) / 1000 \<le> tc_refillRate cfg * of_int (t' - t0) / 1000"
    using assms(2,3) by (intro divide_right_mono mult_left_mono) auto
  with assms show ?thesis by (auto simp: account_def split: option.splits)
qed

lemma account_create:
  assumes "account cfg t0 t n None" and "0 \<le> c" and "c \<le> tc_capacity cfg" and "t0 \<le> t"
  shows "account cfg t0 t n (Some \<lparr>ts_tokens = c, ts_lastRefill = t\<rparr>)"
  using assms by (simp add: account_def)

lemma account_sweep:
  assumes "account cfg t0 t n (Some b)" and "t \<le> t'" and "ts_lastRefill b < t' - 60000"
    and "0 \<le> tc_refillRate cfg" and "tc_capacity cfg \<le> 60 * tc_refillRate cfg"
  shows "account cfg t0 t' n None"
proof -
  have "tc_refillRate cfg * 60000 \<le> tc_refillRate cfg * of_int (t' - ts_lastRefill b)"
    using assms(3,4) by (intro mult_left_mono) auto
  with assms show ?thesis
    by (simp add: account_def right_diff_distrib diff_divide_distrib)
qed

lemma account_consume:
  assumes acc: "account cfg t0 t n (Some b)" and eff: "tc_capacity e \<le> tc_capacity cfg" "0 \<le> tc_capacity e"
    "0 \<le> tc_refillRate e" "tc_refillRate e \<le> tc_refillRate cfg" and t: "ts_lastRefill b \<le> t"
    and pass: "tryConsume e (config_cost cfg) t b = (True, b')"
  shows "account cfg t0 t (Suc n) (Some (getState e t b'))"
proof -
  define d :: rat where "d = of_int (t - ts_lastRefill b) / 1000"
  have d: "0 \<le> d" using t by (simp add: d_def)
  have grow: "d * tc_refillRate e \<le> d * tc_refillRate cfg" using eff d by (intro mult_left_mono) auto
  have b': "ts_lastRefill b' = t" "config_cost cfg \<le> ts_tokens b' + config_cost cfg"
    "ts_tokens b' + config_cost cfg \<le> ts_tokens b + d * tc_refillRate e"
    "ts_tokens b' + config_cost cfg \<le> tc_capacity e"
    using pass by (auto simp: tryConsume_def refill_def Let_def d_def split: if_splits)
  then have "ts_tokens (getState e t b') \<le> ts_tokens b'" "0 \<le> ts_tokens (getState e t b')"
    "ts_lastRefill (getState e t b') = t"
    using eff by (auto simp: getState_def refill_def Let_def)
  moreover have "tc_refillRate cfg * of_int (t - t0) / 1000
      = tc_refillRate cfg * of_int (ts_lastRefill b - t0) / 1000 + d * tc_refillRate cfg"
    by (simp add: d_def field_simps)
  ultimately show ?thesis
    using acc b' grow t by (simp add: account_def distrib_right add_divide_distrib)
qed

lemma effective_bounds:
  assumes "limiter_ok lm" and "mults_ok s"
  shows "tc_capacity (resolveEffectiveConfig lm i now s) \<le> tc_capacity (lm_config lm)"
    and "0 \<le> tc_capacity (resolveEffectiveConfig lm i now s)"
    and "0 \<le> tc_refillRate (resolveEffectiveConfig lm i now s)"
    and "tc_refillRate (resolveEffectiveConfig lm i now s) \<le> tc_refillRate (lm_config lm)"
    and "config_cost (resolveEffectiveConfig lm i now s) = config_cost (lm_config lm)"
proof -
  let ?e = "resolveEffectiveConfig lm i now s" and ?c = "lm_config lm"
  have "tc_capacity ?e \<le> tc_capacity ?c \<and> 0 \<le> tc_capacity ?e \<and> 0 \<le> tc_refillRate ?e \<and>
      tc_refillRate ?e \<le> tc_refillRate ?c \<and> config_cost ?e = config_cost ?c"
  proof (cases "\<exists>esc. jm_get (ls_escalations s) i = Some esc \<and> ee_expiresAt esc > now")
    case False
    then have "?e = ?c" by (auto simp: resolveEffectiveConfig_def Let_def split: option.splits)
    with assms show ?thesis by (simp add: limiter_ok_def)
  next
    case True
    then obtain esc where esc: "jm_get (ls_escalations s) i = Some esc" "ee_expiresAt esc > now" by blast
    with assms(2) have m: "0 \<le> ee_multiplier esc" "ee_multiplier esc \<le> 1" by (auto simp: mults_ok_def)
    from assms(1) have c: "0 \<le> tc_capacity ?c" "0 \<le> tc_refillRate ?c" by (auto simp: limiter_ok_def)
    with m have "tc_capacity ?c * ee_multiplier esc \<le> tc_capacity ?c" "0 \<le> tc_capacity ?c * ee_multiplier esc"
      "tc_refillRate ?c * ee_multiplier esc \<le> tc_refillRate ?c" "0 \<le> tc_refillRate ?c * ee_multiplier esc"
      by (auto intro: mult_left_le)
    moreover from this have "of_int \<lfloor>tc_capacity ?c * ee_multiplier esc\<rfloor> \<le> tc_capacity ?c"
      using of_int_floor_le order_trans by blast
    ultimately show ?thesis
      using esc by (simp add: resolveEffectiveConfig_def Let_def config_cost_def)
  qed
  then show "tc_capacity ?e \<le> tc_capacity ?c" "0 \<le> tc_capacity ?e" "0 \<le> tc_refillRate ?e"
    "tc_refillRate ?e \<le> tc_refillRate ?c" "config_cost ?e = config_cost ?c" by blast+
qed

lemma maybeEscalate_keeps:
  assumes "maybeEscalate lm i v now s = (esc, s')"
  shows "ls_store s' = ls_store s" and "limiter_ok lm \<Longrightarrow> mults_ok s \<Longrightarrow> mults_ok s'"
  using assms
  by (auto simp: maybeEscalate_def limiter_ok_def mults_ok_def split: option.splits if_splits)

text \<open>Handling a request: the bucket is there or created full, then it pays or stays as it was.\<close>

definition bucket_for :: "bucket_config \<Rightarrow> string \<Rightarrow> int \<Rightarrow> limiter_state \<Rightarrow> bucket_state \<times> limiter_state" where
  "bucket_for e i now s =
     (case jm_get (ls_store s) i of
        Some b \<Rightarrow> (b, s)
      | None \<Rightarrow> let b = \<lparr>ts_tokens = tc_capacity e, ts_lastRefill = now\<rparr>
                in (b, s\<lparr>ls_store := jm_set (ls_store s) i b\<rparr>))"

lemma bucket_for_get:
  assumes "bucket_for e i now s = (b, s1)"
  shows "jm_get (ls_store s1) i = Some b" and "k \<noteq> i \<Longrightarrow> jm_get (ls_store s1) k = jm_get (ls_store s) k"
    and "jm_wf (ls_store s) \<Longrightarrow> jm_wf (ls_store s1)" and "ls_escalations s1 = ls_escalations s"
    and "jm_get (ls_store s) i = Some b \<or>
         (jm_get (ls_store s) i = None \<and> b = \<lparr>ts_tokens = tc_capacity e, ts_lastRefill = now\<rparr>)"
  using assms by (auto simp: bucket_for_def Let_def split: option.splits)

lemma limit_request_cases:
  assumes "limit_request lm i now s = (a, s')" and "e = resolveEffectiveConfig lm i now s"
  obtains (paid) b s1 st where "bucket_for e i now s = (b, s1)"
      "tryConsume e (config_cost e) now b = (True, st)" "is_passed (Some a)"
      "s' = s1\<lparr>ls_store := jm_set (ls_store s1) i (getState e now st)\<rparr>"
  | (refused) b s1 v x st where "bucket_for e i now s = (b, s1)"
      "tryConsume e (config_cost e) now b = (False, st)" "\<not> is_passed (Some a)"
      "maybeEscalate lm i v now (s1\<lparr>ls_violations := jm_set (ls_violations s1) i v\<rparr>) = (x, s')"
proof -
  obtain b s1 where b: "bucket_for e i now s = (b, s1)" by fastforce
  obtain ok st where st: "tryConsume e (config_cost e) now b = (ok, st)" by fastforce
  have eq: "limit_request lm i now s =
      (if \<not> ok
       then (let violations = (case jm_get (ls_violations s1) i of None \<Rightarrow> 0 | Some v \<Rightarrow> v) + 1;
                 s2 = s1\<lparr>ls_violations := jm_set (ls_violations s1) i violations\<rparr>;
                 (escalated, s3) = maybeEscalate lm i violations now s2
             in (Rejected (tc_capacity e)
                   (map_option (\<lambda>ms. \<lceil>of_int ms / 1000 :: rat\<rceil>) (timeUntilRefillMs e now st)) escalated, s3))
       else (Passed (tc_capacity e) \<lfloor>remainingTokens e now st\<rfloor>,
             s1\<lparr>ls_store := jm_set (ls_store s1) i (getState e now st)\<rparr>))"
    using b st unfolding limit_request_def bucket_for_def assms(2) Let_def by simp
  show thesis
  proof (cases ok)
    case True
    with eq assms(1) st b show thesis by (intro paid [of b s1 st]) auto
  next
    case False
    define v where "v = Suc (case jm_get (ls_violations s1) i of None \<Rightarrow> 0 | Some v \<Rightarrow> v)"
    obtain x s3 where "maybeEscalate lm i v now (s1\<lparr>ls_violations := jm_set (ls_violations s1) i v\<rparr>) = (x, s3)"
      by fastforce
    with False eq assms(1) st b show thesis
      by (intro refused [of b s1 st v x]) (auto simp: v_def [symmetric] Let_def)
  qed
qed

lemma limit_request_other:
  assumes req: "limit_request lm j now s = (a, s')" and "i \<noteq> j" and ok: "limiter_ok lm" "mults_ok s"
    and "jm_wf (ls_store s)"
  shows "jm_get (ls_store s') i = jm_get (ls_store s) i \<and> mults_ok s' \<and> jm_wf (ls_store s')"
  using req refl
proof (cases rule: limit_request_cases)
  case (paid b s1 st)
  with assms bucket_for_get [OF paid(1)] show ?thesis by (auto simp: mults_ok_def)
next
  case (refused b s1 v x st)
  note g = bucket_for_get [OF refused(1)]
  with ok have "mults_ok (s1\<lparr>ls_violations := jm_set (ls_violations s1) j v\<rparr>)" by (simp add: mults_ok_def)
  with maybeEscalate_keeps [OF refused(4)] g assms show ?thesis by simp
qed

lemma limit_inv_step:
  assumes ok: "limiter_ok lm" and inv: "limit_inv lm i t0 t n s" and t: "t \<le> limit_time ev"
  shows "limit_inv lm i t0 (limit_time ev)
           (n + (if hits i ev \<and> is_passed (fst (limit_step lm s ev)) then 1 else 0))
           (snd (limit_step lm s ev))"
proof (cases ev)
  case (Sweep now)
  from ok have rate: "0 \<le> tc_refillRate (lm_config lm)" "tc_capacity (lm_config lm) \<le> 60 * tc_refillRate (lm_config lm)"
    by (auto simp: limiter_ok_def)
  from inv have wf: "jm_wf (ls_store s)" and acc: "account (lm_config lm) t0 t n (jm_get (ls_store s) i)"
    by (auto simp: limit_inv_def)
  from t Sweep have now: "t \<le> now" by simp
  have "account (lm_config lm) t0 now n (jm_get (store_cleanup 60000 now (ls_store s)) i)"
  proof (cases "jm_get (ls_store s) i")
    case None
    with acc account_later [OF acc now rate(1)] wf show ?thesis by (simp add: store_cleanup_def jm_get_sweep)
  next
    case (Some b)
    with account_sweep [OF _ now _ rate, of t0 n b] account_later [OF acc now rate(1)] acc wf show ?thesis
      by (simp add: store_cleanup_def jm_get_sweep)
  qed
  with inv Sweep t show ?thesis
    by (simp add: limit_inv_def limiter_cleanup_def mults_ok_def store_cleanup_def)
next
  case (Hit j now)
  obtain a s' where req: "limit_request lm j now s = (a, s')" by fastforce
  from inv have wf: "jm_wf (ls_store s)" and mults: "mults_ok s" and t0: "t0 \<le> t" by (auto simp: limit_inv_def)
  from ok have rate: "0 \<le> tc_refillRate (lm_config lm)" by (simp add: limiter_ok_def)
  from t Hit have now: "t \<le> now" by simp
  have acc: "account (lm_config lm) t0 now n (jm_get (ls_store s) i)"
    using inv account_later [OF _ now rate] by (simp add: limit_inv_def)
  let ?e = "resolveEffectiveConfig lm j now s"
  note eff = effective_bounds [OF ok mults, of j now]
  show ?thesis
  proof (cases "i = j")
    case False
    with limit_request_other [OF req False ok mults wf] acc t0 now Hit req show ?thesis
      by (simp add: limit_inv_def)
  next
    case True
    have created: "account (lm_config lm) t0 now n (Some b)" if "bucket_for ?e j now s = (b, s1)" for b s1
      using bucket_for_get(5) [OF that] acc eff account_create [of "lm_config lm" t0 now n "tc_capacity ?e"]
        t0 now True by auto
    from req refl show ?thesis
    proof (cases rule: limit_request_cases)
      case (paid b s1 st)
      note b = created [OF paid(1)] and g = bucket_for_get [OF paid(1)]
      from b have "ts_lastRefill b \<le> now" by (simp add: account_def)
      from account_consume [OF b eff(1-4) this] paid(2)
      have "account (lm_config lm) t0 now (Suc n) (Some (getState ?e now st))" by (simp add: eff(5))
      with paid g wf mults t0 now True Hit req show ?thesis
        by (simp add: limit_inv_def mults_ok_def)
    next
      case (refused b s1 v x st)
      note b = created [OF refused(1)] and g = bucket_for_get [OF refused(1)]
      from g mults have "mults_ok (s1\<lparr>ls_violations := jm_set (ls_violations s1) j v\<rparr>)"
        by (simp add: mults_ok_def)
      with maybeEscalate_keeps [OF refused(4)] g ok b wf t0 now refused(3) True Hit req show ?thesis
        by (simp add: limit_inv_def)
    qed
  qed
qed

lemma limit_inv_run:
  assumes "limiter_ok lm" and "limit_inv lm i t0 t n s" and "sorted (t # map limit_time es)"
  shows "\<exists>s'. limit_inv lm i t0 (last (t # map limit_time es)) (n + passes lm i s es) s'"
  using assms(2,3)
proof (induction es arbitrary: t n s)
  case (Cons e es)
  from Cons.prems(2) have "t \<le> limit_time e" "sorted (limit_time e # map limit_time es)" by simp_all
  from Cons.IH [OF limit_inv_step [OF assms(1) Cons.prems(1) this(1)] this(2)] show ?case
    by (auto simp: add.assoc split: if_splits)
qed auto

lemma limit_inv_bound:
  assumes "limiter_ok lm" and "limit_inv lm i t0 t n s"
  shows "of_nat n * config_cost (lm_config lm)
           \<le> tc_capacity (lm_config lm) + tc_refillRate (lm_config lm) * of_int (t - t0) / 1000"
proof (cases "jm_get (ls_store s) i")
  case None
  with assms show ?thesis by (auto simp: limit_inv_def account_def limiter_ok_def)
next
  case (Some b)
  with assms have b: "ts_lastRefill b \<le> t" "0 \<le> ts_tokens b" "0 \<le> tc_refillRate (lm_config lm)"
    "of_nat n * config_cost (lm_config lm) + ts_tokens b
       \<le> tc_capacity (lm_config lm) + tc_refillRate (lm_config lm) * of_int (ts_lastRefill b - t0) / 1000"
    by (simp_all add: limit_inv_def account_def limiter_ok_def)
  then have "tc_refillRate (lm_config lm) * of_int (ts_lastRefill b - t0) / 1000
      \<le> tc_refillRate (lm_config lm) * of_int (t - t0) / 1000"
    by (intro divide_right_mono mult_left_mono) auto
  with b show ?thesis by linarith
qed

section \<open>Properties\<close>

text \<open>
  C11. Admission bound. From an empty store, in any time-ordered run of requests of any clients, with
  escalations and clean-ups in between, the requests of one client that are let through cost at most
  the capacity plus the refill over the run. All four configured limiters meet the assumptions.
\<close>

theorem token_bucket_admission_bound:
  assumes "limiter_ok lm" and "sorted (t0 # map limit_time es)"
  shows "of_nat (passes lm i empty_limiter es) * config_cost (lm_config lm)
           \<le> tc_capacity (lm_config lm)
             + tc_refillRate (lm_config lm) * of_int (last (t0 # map limit_time es) - t0) / 1000"
proof -
  have "limit_inv lm i t0 t0 0 empty_limiter"
    by (simp add: limit_inv_def empty_limiter_def mults_ok_def account_def)
  from limit_inv_run [OF assms(1) this assms(2)] limit_inv_bound [OF assms(1)] show ?thesis
    by (auto simp only: add_0)
qed

lemma configured_limiters_ok:
  "limiter_ok authTokenBucketLimiter" "limiter_ok paymentTokenBucketLimiter"
  "limiter_ok gameActionTokenBucketLimiter" "limiter_ok generalTokenBucketLimiter"
  by (simp_all add: limiter_ok_def config_cost_def authTokenBucketLimiter_def paymentTokenBucketLimiter_def
      gameActionTokenBucketLimiter_def generalTokenBucketLimiter_def)

theorem token_bucket_admission_bound_witness:
  "let es = map (Hit ''ip:a'') [0, 0, 0, 0, 0, 0, 12000, 12000]
   in passes authTokenBucketLimiter ''ip:a'' empty_limiter es = 6 \<and>
      (of_nat (passes authTokenBucketLimiter ''ip:a'' empty_limiter es) :: rat) \<le> 5 + 5 / 60 * 12"
proof -
  let ?es = "map (Hit ''ip:a'') [0, 0, 0, 0, 0, 0, 12000, 12000]"
  have "passes authTokenBucketLimiter ''ip:a'' empty_limiter ?es = 6" by code_simp
  moreover have "sorted (0 # map limit_time ?es)" "last (0 # map limit_time ?es) = 12000" by simp_all
  ultimately show ?thesis
    using token_bucket_admission_bound [OF configured_limiters_ok(1), of 0 ?es "''ip:a''"]
    unfolding Let_def by (simp add: authTokenBucketLimiter_def config_cost_def)
qed

text \<open>
  Waiting is enough. A client that was refused and waits for the advertised time gets through,
  if the cost fits the capacity and the bucket refills at all.
\<close>

theorem advertised_wait_is_enough:
  assumes "0 < tc_refillRate cfg" and "config_cost cfg \<le> tc_capacity cfg"
    and "tryConsume cfg (config_cost cfg) now st = (False, st')"
    and "timeUntilRefillMs cfg now st' = Some w"
  shows "0 \<le> w \<and> fst (tryConsume cfg (config_cost cfg) (now + w) st)"
proof -
  let ?c = "config_cost cfg" and ?r = "tc_refillRate cfg"
  let ?tok = "ts_tokens st + of_int (now - ts_lastRefill st) / 1000 * ?r"
  from assms(3) have st': "st' = refill cfg now st" and short: "ts_tokens (refill cfg now st) < ?c"
    by (auto simp: tryConsume_def Let_def split: if_splits)
  with assms(2) have tok: "ts_tokens (refill cfg now st) = ?tok" and less: "?tok < ?c"
    by (auto simp: refill_def Let_def min_def split: if_splits)
  have again: "refill cfg now (refill cfg now st) = refill cfg now st"
    by (simp add: refill_def Let_def min_def)
  from assms(4) short have w: "w = \<lceil>(?c - ?tok) / ?r * 1000\<rceil>"
    using assms(1) by (simp add: timeUntilRefillMs_def Let_def st' again tok)
  then have "(?c - ?tok) / ?r * 1000 \<le> of_int w" by simp
  then have "?c - ?tok \<le> of_int w / 1000 * ?r" using assms(1) by (simp add: field_simps)
  moreover have "of_int (now + w - ts_lastRefill st) / 1000 * ?r
      = of_int (now - ts_lastRefill st) / 1000 * ?r + of_int w / 1000 * ?r"
    by (simp add: field_simps)
  ultimately have "?c \<le> ts_tokens st + of_int (now + w - ts_lastRefill st) / 1000 * ?r" by linarith
  then have "?c \<le> ts_tokens (refill cfg (now + w) st)"
    using assms(2) by (simp add: refill_def Let_def)
  moreover from less assms(1) have "0 \<le> (?c - ?tok) / ?r * 1000" by simp
  then have "0 \<le> w" unfolding w by (simp add: less_le_trans [of "-1" 0])
  ultimately show ?thesis by (simp add: tryConsume_def Let_def)
qed

theorem advertised_wait_is_enough_witness:
  "timeUntilRefillMs (lm_config authTokenBucketLimiter) 0 \<lparr>ts_tokens = 1 / 2, ts_lastRefill = 0\<rparr> = Some 6000 \<and>
   fst (tryConsume (lm_config authTokenBucketLimiter) 1 (0 + 6000) \<lparr>ts_tokens = 1 / 2, ts_lastRefill = 0\<rparr>)"
proof -
  let ?cfg = "lm_config authTokenBucketLimiter" and ?st = "\<lparr>ts_tokens = 1 / 2, ts_lastRefill = 0\<rparr>"
  have cfg: "0 < tc_refillRate ?cfg" "config_cost ?cfg \<le> tc_capacity ?cfg" "config_cost ?cfg = 1"
    and wait: "timeUntilRefillMs ?cfg 0 ?st = Some 6000"
    and no: "tryConsume ?cfg (config_cost ?cfg) 0 ?st = (False, ?st)"
    by code_simp+
  from advertised_wait_is_enough [OF cfg(1,2) no wait] wait cfg(3) show ?thesis by simp
qed

text \<open>
  An escalated login limiter lets nobody through. After the third violation the capacity becomes
  a tenth of five, rounded down to zero, below the cost of one request: every request of the client
  is refused until the escalation ends five minutes later, while the answer advertises a finite
  waiting time.
\<close>

theorem escalated_login_blocked:
  assumes "jm_get (ls_escalations s) i = Some \<lparr>ee_expiresAt = u, ee_multiplier = 1 / 10\<rparr>" and "now < u"
    and "limit_request authTokenBucketLimiter i now s = (a, s')"
  shows "\<exists>secs esc. a = Rejected 0 (Some secs) esc"
proof -
  let ?e = "resolveEffectiveConfig authTokenBucketLimiter i now s"
  have zero: "\<lfloor>1 / 2 :: rat\<rfloor> = 0" by (simp add: floor_eq_iff)
  have e: "?e = \<lparr>tc_capacity = 0, tc_refillRate = 1 / 120, tc_cost = Some 1, tc_identifier = Some ''auth''\<rparr>"
    using assms(1,2) zero
    by (simp add: resolveEffectiveConfig_def authTokenBucketLimiter_def config_cost_def Let_def)
  have no: "fst (tryConsume ?e (config_cost ?e) now b) = False" for b
    by (simp add: e tryConsume_def refill_def Let_def config_cost_def)
  have some: "timeUntilRefillMs ?e now st \<noteq> None" for st
    by (simp add: e timeUntilRefillMs_def Let_def)
  have cap: "tc_capacity ?e = 0" by (simp add: e)
  from assms(3) no some cap show ?thesis
    unfolding limit_request_def Let_def
    by (auto split: prod.splits option.splits if_splits simp del: not_None_eq) (metis fst_conv not_None_eq)+
qed

theorem escalated_login_blocked_witness:
  "let s = foldl (\<lambda>s t. snd (limit_request authTokenBucketLimiter ''ip:a'' t s)) empty_limiter
             [0, 0, 0, 0, 0, 0, 0, 0]
   in \<exists>secs esc. fst (limit_request authTokenBucketLimiter ''ip:a'' 299999 s) = Rejected 0 (Some secs) esc"
proof -
  let ?s = "foldl (\<lambda>s t. snd (limit_request authTokenBucketLimiter ''ip:a'' t s)) empty_limiter
      [0, 0, 0, 0, 0, 0, 0, 0]"
  have "jm_get (ls_escalations ?s) ''ip:a'' = Some \<lparr>ee_expiresAt = 300000, ee_multiplier = 1 / 10\<rparr>"
    by code_simp
  from escalated_login_blocked [OF this _ prod.collapse [symmetric], of 299999] show ?thesis
    unfolding Let_def by simp
qed

text \<open>
  The sliding-window estimate. For a positive window the weight of the previous window lies in
  (0, 1], it is 1 at the start of a window and falls in proportion to the elapsed time; the estimate
  lies between the count of the current window and the count of both, never grows within a window
  when the counts stay the same, and the reported reset is within one window.
\<close>

theorem sliding_window_estimate:
  assumes "0 < w" and "0 \<le> prev" and "windowId w now = windowId w later" and "now \<le> later"
  shows "0 < window_overlap w now \<and> window_overlap w now \<le> 1 \<and>
         (now = windowId w now * w \<longrightarrow> window_overlap w now = 1) \<and>
         window_overlap w later = window_overlap w now - of_int (later - now) / of_int w \<and>
         cur \<le> fst (sliding_increment w now (Some (cur, prev))) \<and>
         fst (sliding_increment w now (Some (cur, prev))) \<le> cur + prev \<and>
         fst (sliding_increment w later (Some (cur, prev)))
           \<le> fst (sliding_increment w now (Some (cur, prev))) \<and>
         now < snd (sliding_increment w now (Some (cur, prev))) \<and>
         snd (sliding_increment w now (Some (cur, prev))) \<le> now + w"
proof -
  have id: "windowId w t * w = t - t mod w" for t by (simp add: windowId_def minus_mod_eq_div_mult)
  have ov: "window_overlap w t = 1 - of_int (t mod w) / of_int w" for t
  proof -
    have "t mod w \<le> w" using pos_mod_bound [OF assms(1), of t] by linarith
    then have "0 \<le> (of_int (w - t mod w) / of_int w :: rat)"
      using assms(1) by (intro divide_nonneg_pos) (simp_all del: of_int_diff)
    then have "window_overlap w t = of_int (w - t mod w) / of_int w"
      by (simp only: window_overlap_def Let_def id) simp
    with assms(1) show ?thesis by (simp add: diff_divide_distrib)
  qed
  have bounds: "0 < window_overlap w t" "window_overlap w t \<le> 1" for t
    using assms(1) pos_mod_bound [OF assms(1), of t] pos_mod_sign [OF assms(1), of t]
    by (simp_all add: ov)
  have diff: "later mod w - now mod w = later - now"
    using id [of now] id [of later] assms(3) by simp
  then have fall: "window_overlap w later = window_overlap w now - of_int (later - now) / of_int w"
    by (simp add: ov flip: diff) (simp add: diff_divide_distrib)
  have "of_int prev * window_overlap w later \<le> of_int prev * window_overlap w now"
    using assms by (intro mult_left_mono) (auto simp: fall)
  moreover have "0 \<le> of_int prev * window_overlap w now" "of_int prev * window_overlap w now \<le> of_int prev"
    using assms(2) bounds [of now] by (auto intro: mult_left_le)
  ultimately have est: "cur \<le> fst (sliding_increment w now (Some (cur, prev)))"
    "fst (sliding_increment w now (Some (cur, prev))) \<le> cur + prev"
    "fst (sliding_increment w later (Some (cur, prev))) \<le> fst (sliding_increment w now (Some (cur, prev)))"
    by (simp_all add: sliding_increment_def ceiling_mono) linarith+
  have "snd (sliding_increment w now (Some (cur, prev))) = now - now mod w + w"
    by (simp add: sliding_increment_def distrib_right id)
  with pos_mod_bound [OF assms(1), of now] pos_mod_sign [OF assms(1), of now] bounds [of now] fall est
  show ?thesis using id [of now] by (auto simp: ov)
qed

theorem sliding_window_estimate_witness:
  "fst (sliding_increment 60000 75000 (Some (10, 100))) = 85 \<and>
   fst (sliding_increment 60000 105000 (Some (10, 100))) \<le> fst (sliding_increment 60000 75000 (Some (10, 100)))"
proof -
  have "windowId 60000 75000 = windowId 60000 105000" by (simp add: windowId_def)
  moreover have "fst (sliding_increment 60000 75000 (Some (10, 100))) = 85" by code_simp
  ultimately show ?thesis using sliding_window_estimate [of 60000 100 75000 105000 10] by simp
qed

end
