(* ===== verification/Brackets.thy ===== *)
theory Brackets
  imports Complex_Main Stores "HOL-Library.Multiset"
begin

text \<open>
  Tournament brackets: the data of \<^verbatim>\<open>server/prisma/schema.prisma\<close> and the bracket generators of
  \<^verbatim>\<open>server/src/services/tournament.service.ts\<close> as functions from the checked-in participants to the
  matches to create. Row ids (\<^verbatim>\<open>uuid()\<close> defaults) are numbers handed out in order; only their being new
  is used. Columns that no code writes (elimination marks, metadata, soft deletion) are left out.

  Shown: the number of rounds is the least that is enough for the players, a single-elimination
  bracket seats every player exactly once in the first round, and a round robin pairs every two
  players exactly once.
\<close>

section \<open>Data\<close>

type_synonym row_id = nat

datatype tournament_format = SingleElimination | DoubleElimination | RoundRobin | Swiss

datatype tournament_status =
  TPending | RegistrationOpen | RegistrationClosed | InProgress | TCompleted | TCancelled

datatype tournament_round =
    Qualification | RoundOf64 | RoundOf32 | RoundOf16 | QuarterFinal | SemiFinal | Final | GrandFinal

datatype match_result_type = RWin | RLoss | RDraw | RDisqualified

datatype participant_status = PRegistered | PCheckedIn | PDisqualified | PWinner

datatype bracket_match_status = MPending | MBye | MCompleted

record participant =
  pa_id :: row_id
  pa_tournamentId :: row_id
  pa_userId :: string
  pa_seed :: "int option"
  pa_checkedIn :: bool
  pa_checkedInAt :: "int option"
  pa_status :: participant_status
  pa_wins :: int
  pa_losses :: int
  pa_draws :: int
  pa_points :: int
  pa_prizeAmount :: "rat option"

record tournament_match =
  tm_id :: row_id
  tm_tournamentId :: row_id
  tm_round :: int
  tm_roundName :: tournament_round
  tm_matchNumber :: nat
  tm_playerAId :: "row_id option"
  tm_playerBId :: "row_id option"
  tm_winnerId :: "row_id option"
  tm_playerAScore :: int
  tm_playerBScore :: int
  tm_resultType :: "match_result_type option"
  tm_status :: bracket_match_status
  tm_completedAt :: "int option"

text \<open>A match as the generators describe it; the id is filled in when the row is created.\<close>

definition new_match ::
  "row_id \<Rightarrow> int \<Rightarrow> tournament_round \<Rightarrow> nat \<Rightarrow> row_id option \<Rightarrow> row_id option \<Rightarrow> bracket_match_status
     \<Rightarrow> row_id option \<Rightarrow> tournament_match" where
  "new_match tid rnd name number a b status winner =
     \<lparr>tm_id = 0, tm_tournamentId = tid, tm_round = rnd, tm_roundName = name, tm_matchNumber = number,
      tm_playerAId = a, tm_playerBId = b, tm_winnerId = winner, tm_playerAScore = 0, tm_playerBScore = 0,
      tm_resultType = None, tm_status = status, tm_completedAt = None\<rparr>"

section \<open>Rounds\<close>

text \<open>\<^verbatim>\<open>Math.ceil(Math.log2(n))\<close> for a positive \<open>n\<close>, by repeated halving.\<close>

function ceil_log2 :: "nat \<Rightarrow> nat" where
  "ceil_log2 n = (if n \<le> 1 then 0 else Suc (ceil_log2 ((n + 1) div 2)))"
  by auto
termination by (relation "measure id") auto

declare ceil_log2.simps [simp del]

text \<open>
  The number of rounds of a format. The logarithm of a non-positive number is not finite; such a
  value cannot be stored, which is \<^term>\<open>None\<close>.
\<close>

fun calculateTotalRounds :: "tournament_format \<Rightarrow> int \<Rightarrow> int option" where
  "calculateTotalRounds SingleElimination players =
     (if players \<le> 0 then None else Some (int (ceil_log2 (nat players))))"
| "calculateTotalRounds DoubleElimination players =
     (if players \<le> 0 then None else Some (int (ceil_log2 (nat players)) * 2 - 1))"
| "calculateTotalRounds RoundRobin players = Some (players - 1)"
| "calculateTotalRounds Swiss players =
     (if players \<le> 0 then None else Some (int (ceil_log2 (nat players))))"

definition getRoundName :: "int \<Rightarrow> int \<Rightarrow> tournament_round" where
  "getRoundName rnd totalRounds =
     (let roundsFromEnd = totalRounds - rnd + 1
      in if roundsFromEnd = 1 then Final
         else if roundsFromEnd = 2 then SemiFinal
         else if roundsFromEnd = 3 then QuarterFinal
         else if roundsFromEnd = 4 then RoundOf16
         else if roundsFromEnd = 5 then RoundOf32
         else if roundsFromEnd = 6 then RoundOf64
         else Qualification)"

section \<open>Generators\<close>

text \<open>
  The bound of the first loop, \<^verbatim>\<open>Math.pow(2, totalRounds - 1)\<close>: for one player it is a half, so the loop
  runs once, for none it is zero.
\<close>

definition first_round_matches :: "nat \<Rightarrow> nat" where
  "first_round_matches n = (if n = 0 then 0 else if n = 1 then 1 else 2 ^ (ceil_log2 n - 1))"

definition single_first_round :: "row_id \<Rightarrow> participant list \<Rightarrow> nat \<Rightarrow> tournament_match" where
  "single_first_round tid ps i =
     (let playerA = nth_opt ps (i * 2);
          playerB = nth_opt ps (i * 2 + 1)
      in new_match tid 1 (getRoundName 1 (int (ceil_log2 (length ps)))) (i + 1)
           (map_option pa_id playerA) (map_option pa_id playerB)
           (if playerA = None \<or> playerB = None then MBye else MPending)
           (if playerB = None then map_option pa_id playerA
            else if playerA = None then map_option pa_id playerB else None))"

definition later_round :: "row_id \<Rightarrow> nat \<Rightarrow> nat \<Rightarrow> tournament_match list" where
  "later_round tid totalRounds rnd =
     map (\<lambda>i. new_match tid (int rnd) (getRoundName (int rnd) (int totalRounds)) (i + 1) None None MPending None)
       [0..<2 ^ (totalRounds - rnd)]"

definition generateSingleEliminationBracket :: "row_id \<Rightarrow> participant list \<Rightarrow> tournament_match list" where
  "generateSingleEliminationBracket tid ps =
     map (single_first_round tid ps) [0..<first_round_matches (length ps)]
       @ concat (map (later_round tid (ceil_log2 (length ps))) [2..<ceil_log2 (length ps) + 1])"

definition generateDoubleEliminationBracket :: "row_id \<Rightarrow> participant list \<Rightarrow> tournament_match list" where
  "generateDoubleEliminationBracket tid ps =
     map (\<lambda>i. new_match tid 1 RoundOf16 (i + 1) (map_option pa_id (nth_opt ps (i * 2)))
                (map_option pa_id (nth_opt ps (i * 2 + 1))) MPending None)
       [0..<first_round_matches (length ps)]"

definition round_robin_pairs :: "nat \<Rightarrow> (nat \<times> nat) list" where
  "round_robin_pairs n = concat (map (\<lambda>i. map (Pair i) [i + 1..<n]) [0..<n])"

definition generateRoundRobinBracket :: "row_id \<Rightarrow> participant list \<Rightarrow> tournament_match list" where
  "generateRoundRobinBracket tid ps =
     map (\<lambda>(k, i, j). new_match tid 1 Qualification (k + 1) (Some (pa_id (ps ! i))) (Some (pa_id (ps ! j)))
            MPending None)
       (List.enumerate 0 (round_robin_pairs (length ps)))"

text \<open>The loop \<^verbatim>\<open>for (i = 0; i < xs.length - 1; i += 2)\<close> over neighbours.\<close>

fun pairs :: "'a list \<Rightarrow> ('a \<times> 'a) list" where
  "pairs (x # y # zs) = (x, y) # pairs zs"
| "pairs _ = []"

definition swiss_round :: "row_id \<Rightarrow> nat \<Rightarrow> participant list \<Rightarrow> nat \<Rightarrow> tournament_match list" where
  "swiss_round tid totalRounds shuffled rnd =
     map (\<lambda>(k, a, b). new_match tid (int rnd) (getRoundName (int rnd) (int totalRounds)) (k + 1)
            (Some (pa_id a)) (Some (pa_id b)) MPending None)
       (List.enumerate 0 (pairs shuffled))"

text \<open>The random order of each round is the argument \<open>shuffle\<close>.\<close>

definition generateSwissBracket ::
  "(nat \<Rightarrow> participant list \<Rightarrow> participant list) \<Rightarrow> row_id \<Rightarrow> participant list \<Rightarrow> tournament_match list" where
  "generateSwissBracket shuffle tid ps =
     (if ps = [] then []
      else concat (map (\<lambda>rnd. swiss_round tid (ceil_log2 (length ps)) (shuffle rnd ps) rnd)
             [1..<ceil_log2 (length ps) + 1]))"

section \<open>Rounds are enough and no more\<close>

lemma ceil_log2_upper: "n \<le> 2 ^ ceil_log2 n"
proof (induction n rule: ceil_log2.induct)
  case (1 n)
  show ?case
  proof (cases "n \<le> 1")
    case True
    then show ?thesis by (simp add: ceil_log2.simps)
  next
    case False
    with 1 have "(n + 1) div 2 \<le> 2 ^ ceil_log2 ((n + 1) div 2)" by simp
    with False show ?thesis by (subst ceil_log2.simps) simp
  qed
qed

lemma ceil_log2_lower: "n > 1 \<Longrightarrow> 2 ^ (ceil_log2 n - 1) < n"
proof (induction n rule: ceil_log2.induct)
  case (1 n)
  show ?case
  proof (cases "(n + 1) div 2 > 1")
    case True
    with 1 have "2 ^ (ceil_log2 ((n + 1) div 2) - 1) < (n + 1) div 2" by simp
    moreover from True have "ceil_log2 ((n + 1) div 2) > 0" by (subst ceil_log2.simps) simp
    ultimately have "2 ^ ceil_log2 ((n + 1) div 2) < n"
      by (cases "ceil_log2 ((n + 1) div 2)") auto
    with 1(2) show ?thesis by (subst ceil_log2.simps) simp
  next
    case False
    with 1(2) have "n = 2" by simp
    then show ?thesis by (simp add: ceil_log2.simps)
  qed
qed

lemma ceil_log2_pos: "n > 1 \<Longrightarrow> 0 < ceil_log2 n"
  by (subst ceil_log2.simps) simp

section \<open>Seats\<close>

definition opt_list :: "'a option \<Rightarrow> 'a list" where
  "opt_list x = (case x of None \<Rightarrow> [] | Some y \<Rightarrow> [y])"

definition seats :: "tournament_match \<Rightarrow> row_id list" where
  "seats m = opt_list (tm_playerAId m) @ opt_list (tm_playerBId m)"

lemma take_Suc_nth_opt: "take (Suc n) xs = take n xs @ opt_list (nth_opt xs n)"
  by (simp add: nth_opt_def opt_list_def take_Suc_conv_app_nth)

lemma opt_list_map_option: "opt_list (map_option f x) = map f (opt_list x)"
  by (cases x) (simp_all add: opt_list_def)

lemma seats_pairwise:
  "concat (map (\<lambda>i. opt_list (map_option f (nth_opt xs (i * 2))) @ opt_list (map_option f (nth_opt xs (i * 2 + 1))))
     [0..<k]) = map f (take (2 * k) xs)"
proof (induction k)
  case (Suc k)
  have "take (2 * Suc k) xs = take (2 * k) xs @ opt_list (nth_opt xs (k * 2)) @ opt_list (nth_opt xs (k * 2 + 1))"
    using take_Suc_nth_opt [of "k * 2 + 1" xs] take_Suc_nth_opt [of "k * 2" xs] by (simp add: mult.commute)
  with Suc show ?case by (simp add: opt_list_map_option)
qed simp

lemma seats_new_match [simp]: "seats (new_match tid r nm k a b st w) = opt_list a @ opt_list b"
  by (simp add: seats_def new_match_def)

lemma new_match_sel [simp]:
  "tm_round (new_match tid r nm k a b st w) = r" "tm_status (new_match tid r nm k a b st w) = st"
  "tm_playerAId (new_match tid r nm k a b st w) = a" "tm_playerBId (new_match tid r nm k a b st w) = b"
  "tm_winnerId (new_match tid r nm k a b st w) = w" "tm_tournamentId (new_match tid r nm k a b st w) = tid"
  by (simp_all add: new_match_def)

lemma first_round_seats_all:
  assumes "length ps > 1"
  shows "length ps \<le> 2 * first_round_matches (length ps)"
  using assms ceil_log2_upper [of "length ps"] ceil_log2_pos [OF assms]
  by (cases "ceil_log2 (length ps)") (auto simp: first_round_matches_def)

lemma later_rounds_sum:
  "k \<le> r \<Longrightarrow> Suc (sum_list (map (\<lambda>i. 2 ^ (r - i)) [Suc k..<Suc r])) = (2 :: nat) ^ (r - k)"
proof (induction rule: inc_induct)
  case (step k)
  then have "[Suc k..<Suc r] = Suc k # [Suc (Suc k)..<Suc r]" by (simp add: upt_rec)
  moreover from step have "r - k = Suc (r - Suc k)" by simp
  ultimately show ?case using step by simp
qed simp

lemma filter_later_round:
  "filter (\<lambda>m. tm_round m = int r) (later_round tid R k) = (if k = r then later_round tid R k else [])"
  by (auto simp: later_round_def filter_empty_conv intro: filter_True)

lemma filter_later_rounds:
  "2 \<le> r \<Longrightarrow> r \<le> R \<Longrightarrow>
     filter (\<lambda>m. tm_round m = int r) (concat (map (later_round tid R) [2..<Suc R])) = later_round tid R r"
proof -
  assume r: "2 \<le> r" "r \<le> R"
  then have "[2..<Suc R] = [2..<r] @ [r..<Suc R]" and "[r..<Suc R] = r # [Suc r..<Suc R]"
    using upt_add_eq_append [of 2 r "Suc R - r"] by (simp_all add: upt_conv_Cons)
  then have split: "[2..<Suc R] = [2..<r] @ r # [Suc r..<Suc R]" by simp
  have none: "concat (map (\<lambda>k. if k = r then later_round tid R k else []) ks) = []" if "r \<notin> set ks" for ks
    using that by (induction ks) auto
  show ?thesis
    unfolding split by (simp add: filter_concat filter_later_round comp_def none del: upt_Suc)
qed

section \<open>Properties\<close>

text \<open>
  C12. Single elimination. For two or more players the bracket has the least number \<open>R\<close> of rounds with
  at least as many places as players; round \<open>r\<close> has \<open>2\<^sup>R\<^sup>-\<^sup>r\<close> matches, \<open>2\<^sup>R - 1\<close> in all. In the first
  round every player has exactly one seat, in seed order, a match is a bye exactly if a player is
  missing, and the one player of a bye is its winner; the later matches have no players yet.
\<close>

theorem single_elimination_bracket:
  fixes tid ps
  defines "R \<equiv> ceil_log2 (length ps)" and "ms \<equiv> generateSingleEliminationBracket tid ps"
  assumes "length ps > 1"
  shows "length ps \<le> 2 ^ R \<and> 2 ^ (R - 1) < length ps \<and> length ms = 2 ^ R - 1 \<and>
         (\<forall>r. 1 \<le> r \<and> r \<le> R \<longrightarrow> length (filter (\<lambda>m. tm_round m = int r) ms) = 2 ^ (R - r)) \<and>
         concat (map seats (filter (\<lambda>m. tm_round m = 1) ms)) = map pa_id ps \<and>
         (\<forall>m \<in> set ms. tm_round m = 1 \<longrightarrow>
            (tm_status m = MBye \<longleftrightarrow> length (seats m) < 2) \<and> (tm_status m = MBye \<or> tm_status m = MPending) \<and>
            opt_list (tm_winnerId m) = (if tm_status m = MBye then seats m else [])) \<and>
         (\<forall>m \<in> set ms. tm_round m \<noteq> 1 \<longrightarrow> seats m = [] \<and> tm_status m = MPending \<and> tm_winnerId m = None)"
proof -
  let ?first = "map (single_first_round tid ps) [0..<first_round_matches (length ps)]"
  let ?later = "concat (map (later_round tid R) [2..<Suc R])"
  have ms: "ms = ?first @ ?later"
    by (simp add: ms_def R_def generateSingleEliminationBracket_def)
  have pos: "0 < R" using assms(3) by (simp add: R_def ceil_log2_pos)
  have frm: "first_round_matches (length ps) = 2 ^ (R - 1)"
    using assms(3) by (auto simp: first_round_matches_def R_def)
  have round1: "tm_round m = 1" if "m \<in> set ?first" for m
    using that by (auto simp: single_first_round_def Let_def)
  have roundn: "tm_round m \<noteq> 1 \<and> seats m = [] \<and> tm_status m = MPending \<and> tm_winnerId m = None"
    if "m \<in> set ?later" for m
    using that by (auto simp: later_round_def opt_list_def)
  have f1: "filter (\<lambda>m. tm_round m = 1) ms = ?first"
    using round1 roundn by (auto simp: ms filter_empty_conv intro!: filter_True)
  have "length ?later = sum_list (map (\<lambda>i. 2 ^ (R - i)) [Suc 1..<Suc R])"
    by (simp add: length_concat comp_def later_round_def numeral_2_eq_2)
  with later_rounds_sum [of 1 R] pos have later: "Suc (length ?later) = 2 ^ (R - 1)" by simp
  have double: "(2::nat) ^ R = 2 * 2 ^ (R - 1)" using pos by (cases R) auto
  have len: "length ms = 2 ^ R - 1" using later double by (simp add: ms frm)
  have per: "length (filter (\<lambda>m. tm_round m = int r) ms) = 2 ^ (R - r)" if "1 \<le> r" "r \<le> R" for r
  proof (cases "r = 1")
    case True
    with f1 show ?thesis by (simp add: frm)
  next
    case False
    with that round1 have "filter (\<lambda>m. tm_round m = int r) ?first = []" by (auto simp: filter_empty_conv)
    with False that show ?thesis
      by (simp add: ms filter_later_rounds del: upt_Suc) (simp add: later_round_def)
  qed
  have "map seats ?first = map (\<lambda>i. opt_list (map_option pa_id (nth_opt ps (i * 2)))
      @ opt_list (map_option pa_id (nth_opt ps (i * 2 + 1)))) [0..<first_round_matches (length ps)]"
    by (simp add: single_first_round_def Let_def)
  then have seats: "concat (map seats ?first) = map pa_id ps"
    using first_round_seats_all [OF assms(3)]
    by (simp only: seats_pairwise) simp
  have bye: "(tm_status m = MBye \<longleftrightarrow> length (seats m) < 2) \<and> (tm_status m = MBye \<or> tm_status m = MPending) \<and>
      opt_list (tm_winnerId m) = (if tm_status m = MBye then seats m else [])" if "m \<in> set ?first" for m
    using that by (auto simp: single_first_round_def Let_def opt_list_def nth_opt_def split: if_splits)
  have split: "m \<in> set ?first \<or> m \<in> set ?later" if "m \<in> set ms" for m
    using that by (simp only: ms set_append Un_iff)
  show ?thesis
  proof (intro conjI)
    show "length ps \<le> 2 ^ R" "2 ^ (R - 1) < length ps"
      using ceil_log2_upper [of "length ps"] ceil_log2_lower [OF assms(3)] by (simp_all add: R_def)
    show "length ms = 2 ^ R - 1" by (rule len)
    show "\<forall>r. 1 \<le> r \<and> r \<le> R \<longrightarrow> length (filter (\<lambda>m. tm_round m = int r) ms) = 2 ^ (R - r)"
      using per by blast
    show "concat (map seats (filter (\<lambda>m. tm_round m = 1) ms)) = map pa_id ps"
      unfolding f1 by (rule seats)
    show "\<forall>m \<in> set ms. tm_round m = 1 \<longrightarrow>
        (tm_status m = MBye \<longleftrightarrow> length (seats m) < 2) \<and> (tm_status m = MBye \<or> tm_status m = MPending) \<and>
        opt_list (tm_winnerId m) = (if tm_status m = MBye then seats m else [])"
      using split bye roundn by blast
    show "\<forall>m \<in> set ms. tm_round m \<noteq> 1 \<longrightarrow> seats m = [] \<and> tm_status m = MPending \<and> tm_winnerId m = None"
      using split round1 roundn by blast
  qed
qed

definition demo_player :: "nat \<Rightarrow> participant" where
  "demo_player i = \<lparr>pa_id = i, pa_tournamentId = 0, pa_userId = ''u'', pa_seed = None, pa_checkedIn = True,
     pa_checkedInAt = None, pa_status = PCheckedIn, pa_wins = 0, pa_losses = 0, pa_draws = 0, pa_points = 0,
     pa_prizeAmount = None\<rparr>"

theorem single_elimination_bracket_witness:
  "let ms = generateSingleEliminationBracket 0 (map demo_player [10, 11, 12, 13, 14])
   in length ms = 7 \<and> concat (map seats (filter (\<lambda>m. tm_round m = 1) ms)) = [10, 11, 12, 13, 14]"
proof -
  let ?ps = "map demo_player [10, 11, 12, 13, 14]"
  have "ceil_log2 (length ?ps) = 3" by (simp add: ceil_log2.simps)
  with single_elimination_bracket [of ?ps 0] show ?thesis
    unfolding Let_def by (simp add: demo_player_def)
qed

lemma round_robin_pairs_set: "set (round_robin_pairs n) = {(i, j). i < j \<and> j < n}"
  by (auto simp: round_robin_pairs_def image_iff)

lemma round_robin_pairs_distinct: "distinct (round_robin_pairs n)"
proof -
  have "distinct (concat (map (\<lambda>i. map (Pair i) [i + 1..<n]) is))" if "distinct is" for "is"
    using that by (induction "is") (auto simp: distinct_map inj_on_def)
  then show ?thesis by (simp add: round_robin_pairs_def)
qed

lemma round_robin_pairs_length: "2 * length (round_robin_pairs n) = n * (n - 1)"
proof -
  have sum: "2 * sum_list (map (\<lambda>i. n - (i + 1)) [0..<k]) = k * (2 * n - (k + 1))" if "k \<le> n" for k
    using that
  proof (induction k)
    case (Suc k)
    then obtain d where "n = Suc k + d" using le_Suc_ex by blast
    with Suc show ?case by (simp add: algebra_simps)
  qed simp
  have "length (round_robin_pairs n) = sum_list (map (\<lambda>i. n - (i + 1)) [0..<n])"
    by (simp add: round_robin_pairs_def length_concat comp_def)
  with sum [of n] show ?thesis by (cases n) simp_all
qed

lemma filter_enumerate_snd: "length (filter (\<lambda>(k, x). P x) (List.enumerate i xs)) = length (filter P xs)"
  by (induction xs arbitrary: i) auto

text \<open>
  C13. Round robin. For participants with different ids, the generator creates one match for each of
  the \<open>n (n - 1) / 2\<close> pairs: every two different participants meet in exactly one match.
\<close>

theorem round_robin_each_pair_once:
  assumes "distinct (map pa_id ps)" and "p \<in> set ps" and "q \<in> set ps" and "p \<noteq> q"
  shows "length (filter (\<lambda>m. set (seats m) = {pa_id p, pa_id q}) (generateRoundRobinBracket tid ps)) = 1 \<and>
         2 * length (generateRoundRobinBracket tid ps) = length ps * (length ps - 1)"
proof -
  from assms(2,3) obtain i j where i: "i < length ps" "ps ! i = p" and j: "j < length ps" "ps ! j = q"
    by (auto simp: in_set_conv_nth)
  with assms(4) have "i \<noteq> j" by auto
  have inj: "pa_id (ps ! a) = pa_id (ps ! b) \<longleftrightarrow> a = b" if "a < length ps" "b < length ps" for a b
    using assms(1) that nth_eq_iff_index_eq [of "map pa_id ps" a b] by simp
  let ?Q = "\<lambda>(a, b). {pa_id (ps ! a), pa_id (ps ! b)} = {pa_id p, pa_id q}"
  have meet: "?Q x \<longleftrightarrow> x = (min i j, max i j)" if "x \<in> set (round_robin_pairs (length ps))" for x
  proof -
    from that obtain a b where x: "x = (a, b)" "a < b" "b < length ps"
      unfolding round_robin_pairs_set by blast
    then have "?Q x \<longleftrightarrow> (a = i \<and> b = j) \<or> (a = j \<and> b = i)"
      using i j inj [of a i] inj [of b j] inj [of a j] inj [of b i] by (auto simp: doubleton_eq_iff)
    with x show ?thesis by (auto simp: min_def max_def)
  qed
  have "(min i j, max i j) \<in> set (round_robin_pairs (length ps))"
    using i j \<open>i \<noteq> j\<close> by (auto simp: round_robin_pairs_set min_def max_def)
  with round_robin_pairs_distinct have "length (filter (\<lambda>x. x = (min i j, max i j)) (round_robin_pairs (length ps))) = 1"
    by (simp add: distinct_length_filter Int_absorb1 flip: Collect_conv_if)
  moreover have "filter ?Q (round_robin_pairs (length ps)) = filter (\<lambda>x. x = (min i j, max i j)) (round_robin_pairs (length ps))"
    by (rule filter_cong) (use meet in auto)
  ultimately have "length (filter ?Q (round_robin_pairs (length ps))) = 1" by simp
  then have "length (filter (\<lambda>m. set (seats m) = {pa_id p, pa_id q}) (generateRoundRobinBracket tid ps)) = 1"
    using filter_enumerate_snd [of ?Q 0 "round_robin_pairs (length ps)"]
    by (simp add: generateRoundRobinBracket_def filter_map comp_def opt_list_def case_prod_unfold)
  then show ?thesis
    by (simp add: generateRoundRobinBracket_def round_robin_pairs_length)
qed

theorem round_robin_each_pair_once_witness:
  "length (filter (\<lambda>m. set (seats m) = {7, 5}) (generateRoundRobinBracket 0 (map demo_player [5, 6, 7, 8]))) = 1 \<and>
   length (generateRoundRobinBracket 0 (map demo_player [5, 6, 7, 8])) = 6"
proof -
  let ?ps = "map demo_player [5, 6, 7, 8]"
  have "distinct (map pa_id ?ps)" "demo_player 7 \<in> set ?ps" "demo_player 5 \<in> set ?ps" "demo_player 7 \<noteq> demo_player 5"
    by (simp_all add: demo_player_def)
  from round_robin_each_pair_once [OF this, of 0] show ?thesis by (simp add: demo_player_def)
qed

end
