(* ===== verification/Text.thy ===== *)
theory Text
  imports Prelude "HOL-Library.Sublist"
begin

text \<open>
  Functions of JavaScript on strings, on the characters of the first Latin block: trimming, lower
  case, padding and splitting.
\<close>

definition js_space :: "char \<Rightarrow> bool" where
  "js_space c \<longleftrightarrow> (of_char c :: nat) \<in> {9, 10, 11, 12, 13, 32, 160}"

definition js_trim :: "string \<Rightarrow> string" where
  "js_trim s = rev (dropWhile js_space (rev (dropWhile js_space s)))"

definition lower_char :: "char \<Rightarrow> char" where
  "lower_char c =
     (let n = of_char c :: nat
      in if 65 \<le> n \<and> n \<le> 90 \<or> 192 \<le> n \<and> n \<le> 222 \<and> n \<noteq> 215 then char_of (n + 32) else c)"

definition js_toLowerCase :: "string \<Rightarrow> string" where
  "js_toLowerCase s = map lower_char s"

definition is_lower_letter :: "char \<Rightarrow> bool" where
  "is_lower_letter c \<longleftrightarrow> 97 \<le> (of_char c :: nat) \<and> (of_char c :: nat) \<le> 122"

definition is_ascii_digit :: "char \<Rightarrow> bool" where
  "is_ascii_digit c \<longleftrightarrow> 48 \<le> (of_char c :: nat) \<and> (of_char c :: nat) \<le> 57"

text \<open>\<^verbatim>\<open>s.split(c)\<close>, \<^verbatim>\<open>s.split(c)[0]\<close> and \<^verbatim>\<open>s.padStart(n, c)\<close> for a single character.\<close>

fun js_split :: "char \<Rightarrow> string \<Rightarrow> string list" where
  "js_split d [] = [[]]"
| "js_split d (c # cs) =
     (if c = d then [] # js_split d cs
      else (case js_split d cs of [] \<Rightarrow> [[c]] | w # ws \<Rightarrow> (c # w) # ws))"

definition before_char :: "char \<Rightarrow> string \<Rightarrow> string" where
  "before_char c s = takeWhile (\<lambda>d. d \<noteq> c) s"

definition js_padStart :: "nat \<Rightarrow> char \<Rightarrow> string \<Rightarrow> string" where
  "js_padStart n c s = replicate (n - length s) c @ s"

text \<open>\<^verbatim>\<open>parseInt(s, 10)\<close>: leading blanks and a sign, then digits; not a number without a digit.\<close>

definition digits_value :: "string \<Rightarrow> int" where
  "digits_value ds = foldl (\<lambda>a d. 10 * a + (int (of_char d) - 48)) 0 ds"

definition js_parseInt :: "string \<Rightarrow> int option" where
  "js_parseInt s =
     (let t = dropWhile js_space s;
          neg = (t \<noteq> [] \<and> hd t = CHR ''-'');
          u = (if t \<noteq> [] \<and> (hd t = CHR ''-'' \<or> hd t = CHR ''+'') then tl t else t);
          ds = takeWhile is_ascii_digit u
      in if ds = [] then None else Some (if neg then - digits_value ds else digits_value ds))"

lemma js_split_none: "c \<notin> set a \<Longrightarrow> js_split c a = [a]"
  by (induction a) auto

lemma js_split_append: "c \<notin> set a \<Longrightarrow> js_split c (a @ c # b) = a # js_split c b"
  by (induction a) auto

lemma length_js_padStart: "length (js_padStart n c s) = max n (length s)"
  by (simp add: js_padStart_def max_def)

lemma lower_char_lower [simp]: "is_lower_letter c \<Longrightarrow> lower_char c = c" "is_ascii_digit c \<Longrightarrow> lower_char c = c"
  by (auto simp: lower_char_def is_lower_letter_def is_ascii_digit_def Let_def)

lemma lower_char_idem [simp]: "lower_char (lower_char c) = lower_char c"
proof -
  have "(of_char c :: nat) < 256" by (rule nat_of_char_less_256)
  then show ?thesis by (simp add: lower_char_def Let_def)
qed

lemma js_toLowerCase_idem [simp]: "js_toLowerCase (js_toLowerCase s) = js_toLowerCase s"
  by (simp add: js_toLowerCase_def)

lemma js_space_lower [simp]: "js_space (lower_char c) = js_space c"
proof -
  have "(of_char c :: nat) < 256" by (rule nat_of_char_less_256)
  then show ?thesis by (auto simp: js_space_def lower_char_def Let_def)
qed

lemma js_trim_ends:
  "js_trim s = [] \<or> \<not> js_space (hd (js_trim s)) \<and> \<not> js_space (last (js_trim s))"
proof (cases "dropWhile js_space s")
  case (Cons c cs)
  then have c: "\<not> js_space c" by (auto simp: dropWhile_eq_Cons_conv)
  have "js_trim s = c # rev (dropWhile js_space (rev cs)) \<or> js_trim s = [c]"
    using c Cons by (simp add: js_trim_def dropWhile_append)
  moreover have "\<not> js_space (last (js_trim s))"
  proof -
    let ?r = "dropWhile js_space (rev (c # cs))"
    have "?r \<noteq> []" using c by (auto simp: dropWhile_eq_Nil_conv)
    moreover from this have "\<not> js_space (hd ?r)" by (rule hd_dropWhile)
    ultimately show ?thesis using Cons by (simp add: js_trim_def last_rev)
  qed
  ultimately show ?thesis using c by auto
next
  case Nil
  then show ?thesis by (simp only: js_trim_def rev.simps dropWhile.simps simp_thms)
qed

lemma js_trim_fixed:
  assumes "s = [] \<or> \<not> js_space (hd s) \<and> \<not> js_space (last s)"
  shows "js_trim s = s"
proof (cases "s = []")
  case False
  with assms have "\<not> js_space (hd s)" "\<not> js_space (hd (rev s))" by (auto simp: hd_rev)
  then have "dropWhile js_space s = s" "dropWhile js_space (rev s) = rev s"
    using False by (simp_all add: dropWhile_eq_self_iff)
  then show ?thesis by (simp add: js_trim_def)
qed (simp add: js_trim_def)

lemma js_trim_idem [simp]: "js_trim (js_trim s) = js_trim s"
  by (rule js_trim_fixed) (rule js_trim_ends)

lemma js_trim_lower: "js_trim (js_toLowerCase s) = js_toLowerCase (js_trim s)"
  by (simp add: js_trim_def js_toLowerCase_def dropWhile_map comp_def rev_map)

end
