(* ===== verification/Tournaments.thy ===== *)
theory Tournaments
  imports Brackets Text "HOL-Library.Product_Lexorder"
begin

text \<open>
  The tournament service, \<^verbatim>\<open>server/src/services/tournament.service.ts\<close>, and its maintenance job,
  \<^verbatim>\<open>server/src/jobs/tournament.job.ts\<close>, on the four tables they use. The service has no transactions:
  each call of the database takes effect at once, so a handler returns its outcome together with the
  state it has reached. The order in which the database returns rows where the source asks for none,
  or among rows that compare equal, and the random order of a Swiss round are functions of the
  record \<open>db_env\<close>; \<open>env_ok\<close> says that they only rearrange. Prize amounts are exact rationals (the
  column rounds them to seven places).

  Shown: capacity and waiting list of free tournaments, results are counted once and points agree
  with wins and draws, and two ways in which a tournament cannot go on.
\<close>

section \<open>Tables\<close>

record tournament =
  to_id :: row_id
  to_name :: string
  to_description :: "string option"
  to_format :: tournament_format
  to_status :: tournament_status
  to_gameId :: string
  to_gameModeId :: string
  to_maxPlayers :: int
  to_minPlayers :: int
  to_entryFee :: "rat option"
  to_prizePool :: rat
  to_prizeDistribution :: "(string \<times> rat) list"
  to_registrationStart :: int
  to_registrationEnd :: int
  to_startDate :: int
  to_endDate :: "int option"
  to_checkInWindow :: int
  to_organizerId :: string
  to_currentRound :: int
  to_totalRounds :: int

datatype registration_status = Waitlist | Confirmed

datatype payment_status = PayPending | PayPaid

record registration =
  rg_id :: row_id
  rg_tournamentId :: row_id
  rg_userId :: string
  rg_status :: registration_status
  rg_waitlistPosition :: "nat option"
  rg_paymentStatus :: payment_status

record tournament_db =
  tn_tournaments :: "(row_id, tournament) jsmap"
  tn_participants :: "(row_id, participant) jsmap"
  tn_matches :: "(row_id, tournament_match) jsmap"
  tn_registrations :: "(row_id, registration) jsmap"
  tn_next :: row_id

definition empty_tournaments :: tournament_db where
  "empty_tournaments = \<lparr>tn_tournaments = jm_empty, tn_participants = jm_empty, tn_matches = jm_empty,
     tn_registrations = jm_empty, tn_next = 0\<rparr>"

text \<open>What the database and the random numbers are free to choose.\<close>

record db_env =
  ev_tournaments :: "tournament list \<Rightarrow> tournament list"
  ev_participants :: "participant list \<Rightarrow> participant list"
  ev_matches :: "tournament_match list \<Rightarrow> tournament_match list"
  ev_shuffle :: "nat \<Rightarrow> participant list \<Rightarrow> participant list"

definition env_ok :: "db_env \<Rightarrow> bool" where
  "env_ok ev \<longleftrightarrow> (\<forall>xs. mset (ev_tournaments ev xs) = mset xs) \<and> (\<forall>xs. mset (ev_participants ev xs) = mset xs) \<and>
     (\<forall>xs. mset (ev_matches ev xs) = mset xs) \<and> (\<forall>k xs. mset (ev_shuffle ev k xs) = mset xs)"

definition plain_env :: db_env where
  "plain_env = \<lparr>ev_tournaments = id, ev_participants = id, ev_matches = id, ev_shuffle = (\<lambda>_. id)\<rparr>"

section \<open>Single rows\<close>

definition create_match :: "tournament_db \<Rightarrow> tournament_match \<Rightarrow> tournament_db" where
  "create_match db m =
     db\<lparr>tn_matches := jm_set (tn_matches db) (tn_next db) (m\<lparr>tm_id := tn_next db\<rparr>),
        tn_next := tn_next db + 1\<rparr>"

text \<open>\<^verbatim>\<open>tournamentParticipant.update\<close>; a missing row is an error of the database.\<close>

definition update_participant ::
  "row_id \<Rightarrow> (participant \<Rightarrow> participant) \<Rightarrow> tournament_db \<Rightarrow> unit result \<times> tournament_db" where
  "update_participant i f db =
     (case row_update (tn_participants db) i f of
        Inl e \<Rightarrow> (Inl e, db)
      | Inr t \<Rightarrow> (Inr (), db\<lparr>tn_participants := t\<rparr>))"

definition update_tournament ::
  "row_id \<Rightarrow> (tournament \<Rightarrow> tournament) \<Rightarrow> tournament_db \<Rightarrow> unit result \<times> tournament_db" where
  "update_tournament i f db =
     (case row_update (tn_tournaments db) i f of
        Inl e \<Rightarrow> (Inl e, db)
      | Inr t \<Rightarrow> (Inr (), db\<lparr>tn_tournaments := t\<rparr>))"

definition participants_of :: "row_id \<Rightarrow> tournament_db \<Rightarrow> participant list" where
  "participants_of tid db = filter (\<lambda>p. pa_tournamentId p = tid) (jm_values (tn_participants db))"

definition round_matches :: "row_id \<Rightarrow> int \<Rightarrow> tournament_db \<Rightarrow> tournament_match list" where
  "round_matches tid r db =
     filter (\<lambda>m. tm_tournamentId m = tid \<and> tm_round m = r) (jm_values (tn_matches db))"

section \<open>Creating and registering\<close>

record tournament_config =
  cf_name :: string
  cf_description :: "string option"
  cf_format :: tournament_format
  cf_gameId :: string
  cf_gameMode :: string
  cf_maxPlayers :: int
  cf_minPlayers :: "int option"
  cf_entryFee :: "rat option"
  cf_prizePool :: "rat option"
  cf_prizeDistribution :: "(string \<times> rat) list option"
  cf_registrationStart :: int
  cf_registrationEnd :: int
  cf_startDate :: int
  cf_endDate :: "int option"
  cf_checkInWindow :: "int option"

text \<open>\<^verbatim>\<open>x || d\<close> on optional numbers: zero counts as absent.\<close>

definition or_default :: "'a::zero option \<Rightarrow> 'a \<Rightarrow> 'a" where
  "or_default x d = (case x of None \<Rightarrow> d | Some n \<Rightarrow> if n = 0 then d else n)"

definition createTournament ::
  "string \<Rightarrow> tournament_config \<Rightarrow> tournament_db \<Rightarrow> tournament result \<times> tournament_db" where
  "createTournament organizerId c db =
     (if cf_registrationStart c \<ge> cf_registrationEnd c
      then (Inl (PlainError ''Registration start must be before registration end''), db)
      else if cf_registrationEnd c \<ge> cf_startDate c
      then (Inl (PlainError ''Registration must end before tournament starts''), db)
      else case calculateTotalRounds (cf_format c) (cf_maxPlayers c) of
             None \<Rightarrow> (Inl (PrismaError ''Validation''), db)
           | Some totalRounds \<Rightarrow>
               let t = \<lparr>to_id = tn_next db, to_name = cf_name c, to_description = cf_description c,
                        to_format = cf_format c, to_status = TPending, to_gameId = cf_gameId c,
                        to_gameModeId = cf_gameMode c, to_maxPlayers = cf_maxPlayers c,
                        to_minPlayers = or_default (cf_minPlayers c) 2,
                        to_entryFee = (case cf_entryFee c of None \<Rightarrow> None
                                       | Some f \<Rightarrow> if f = 0 then None else Some f),
                        to_prizePool = or_default (cf_prizePool c) 0,
                        to_prizeDistribution = (case cf_prizeDistribution c of None \<Rightarrow> [] | Some d \<Rightarrow> d),
                        to_registrationStart = cf_registrationStart c,
                        to_registrationEnd = cf_registrationEnd c, to_startDate = cf_startDate c,
                        to_endDate = cf_endDate c, to_checkInWindow = or_default (cf_checkInWindow c) 15,
                        to_organizerId = organizerId, to_currentRound = 0, to_totalRounds = totalRounds\<rparr>
               in (Inr t, db\<lparr>tn_tournaments := jm_set (tn_tournaments db) (tn_next db) t,
                            tn_next := tn_next db + 1\<rparr>))"

definition getNextWaitlistPosition :: "row_id \<Rightarrow> tournament_db \<Rightarrow> nat" where
  "getNextWaitlistPosition tid db =
     length (filter (\<lambda>r. rg_tournamentId r = tid \<and> rg_status r = Waitlist)
               (jm_values (tn_registrations db))) + 1"

text \<open>The pair of tournament and user is unique in the table of participants.\<close>

definition createParticipant ::
  "row_id \<Rightarrow> string \<Rightarrow> tournament_db \<Rightarrow> unit result \<times> tournament_db" where
  "createParticipant tid userId db =
     (if list_ex (\<lambda>p. pa_userId p = userId) (participants_of tid db)
      then (Inl (PrismaError ''P2002''), db)
      else (Inr (), db\<lparr>tn_participants := jm_set (tn_participants db) (tn_next db)
              \<lparr>pa_id = tn_next db, pa_tournamentId = tid, pa_userId = userId, pa_seed = None,
               pa_checkedIn = False, pa_checkedInAt = None, pa_status = PRegistered, pa_wins = 0,
               pa_losses = 0, pa_draws = 0, pa_points = 0, pa_prizeAmount = None\<rparr>,
              tn_next := tn_next db + 1\<rparr>))"

definition registrations_of :: "row_id \<Rightarrow> string \<Rightarrow> tournament_db \<Rightarrow> registration list" where
  "registrations_of tid userId db =
     filter (\<lambda>r. rg_tournamentId r = tid \<and> rg_userId r = userId) (jm_values (tn_registrations db))"

definition registerPlayer ::
  "row_id \<Rightarrow> string \<Rightarrow> int \<Rightarrow> tournament_db \<Rightarrow> registration result \<times> tournament_db" where
  "registerPlayer tid playerId now db =
     (case jm_get (tn_tournaments db) tid of
        None \<Rightarrow> (Inl (PlainError ''Tournament not found''), db)
      | Some t \<Rightarrow>
          if now < to_registrationStart t then (Inl (PlainError ''Registration has not started yet''), db)
          else if now > to_registrationEnd t then (Inl (PlainError ''Registration is closed''), db)
          else if registrations_of tid playerId db \<noteq> []
          then (Inl (PlainError ''Already registered for this tournament''), db)
          else
            (let participantCount =
                   length (filter (\<lambda>p. pa_status p \<noteq> PDisqualified) (participants_of tid db));
                 isFull = (int participantCount \<ge> to_maxPlayers t);
                 r = \<lparr>rg_id = tn_next db, rg_tournamentId = tid, rg_userId = playerId,
                      rg_status = (if isFull then Waitlist else Confirmed),
                      rg_waitlistPosition = (if isFull then Some (getNextWaitlistPosition tid db) else None),
                      rg_paymentStatus = (if to_entryFee t \<noteq> None then PayPending else PayPaid)\<rparr>;
                 db1 = db\<lparr>tn_registrations := jm_set (tn_registrations db) (tn_next db) r,
                          tn_next := tn_next db + 1\<rparr>
             in if \<not> isFull \<and> to_entryFee t = None
                then and_then (createParticipant tid playerId db1) (\<lambda>_ db2. (Inr r, db2))
                else (Inr r, db1)))"

text \<open>The check-in deadline is computed by the source but not used.\<close>

definition checkInPlayer ::
  "row_id \<Rightarrow> string \<Rightarrow> int \<Rightarrow> tournament_db \<Rightarrow> unit result \<times> tournament_db" where
  "checkInPlayer tid playerId now db =
     (case filter (\<lambda>p. pa_userId p = playerId) (participants_of tid db) of
        [] \<Rightarrow> (Inl (PlainError ''Participant not found''), db)
      | p # _ \<Rightarrow>
          (case jm_get (tn_tournaments db) tid of
             None \<Rightarrow> (Inl (PlainError ''Tournament not found''), db)
           | Some t \<Rightarrow>
               if now > to_startDate t then (Inl (PlainError ''Tournament has already started''), db)
               else update_participant (pa_id p)
                      (\<lambda>p. p\<lparr>pa_checkedIn := True, pa_checkedInAt := Some now, pa_status := PCheckedIn\<rparr>) db))"

section \<open>Running a tournament\<close>

text \<open>Ascending by seed; a missing seed sorts last.\<close>

definition seed_key :: "participant \<Rightarrow> bool \<times> int" where
  "seed_key p = (case pa_seed p of None \<Rightarrow> (True, 0) | Some n \<Rightarrow> (False, n))"

definition checked_in :: "db_env \<Rightarrow> row_id \<Rightarrow> tournament_db \<Rightarrow> participant list" where
  "checked_in ev tid db =
     sort_key seed_key (ev_participants ev (filter (\<lambda>p. pa_status p = PCheckedIn) (participants_of tid db)))"

definition bracket_matches :: "db_env \<Rightarrow> tournament_format \<Rightarrow> row_id \<Rightarrow> participant list \<Rightarrow> tournament_match list" where
  "bracket_matches ev fmt tid ps =
     (case fmt of
        SingleElimination \<Rightarrow> generateSingleEliminationBracket tid ps
      | DoubleElimination \<Rightarrow> generateDoubleEliminationBracket tid ps
      | RoundRobin \<Rightarrow> generateRoundRobinBracket tid ps
      | Swiss \<Rightarrow> generateSwissBracket (ev_shuffle ev) tid ps)"

definition generateBracket :: "db_env \<Rightarrow> row_id \<Rightarrow> tournament_db \<Rightarrow> unit result \<times> tournament_db" where
  "generateBracket ev tid db =
     (case jm_get (tn_tournaments db) tid of
        None \<Rightarrow> (Inl (PlainError ''Tournament not found''), db)
      | Some t \<Rightarrow>
          if to_status t \<noteq> RegistrationClosed
          then (Inl (PlainError ''Tournament must be in REGISTRATION_CLOSED status''), db)
          else if int (length (checked_in ev tid db)) < to_minPlayers t
          then (Inl (PlainError ''Not enough players to start tournament''), db)
          else update_tournament tid (\<lambda>t. t\<lparr>to_status := InProgress, to_currentRound := 1\<rparr>)
                 (foldl create_match db (bracket_matches ev (to_format t) tid (checked_in ev tid db))))"

record match_result =
  mr_playerAScore :: int
  mr_playerBScore :: int
  mr_winnerId :: row_id
  mr_resultType :: match_result_type

definition add_draw :: "participant \<Rightarrow> participant" where
  "add_draw p = p\<lparr>pa_draws := pa_draws p + 1, pa_points := pa_points p + 1\<rparr>"

definition add_win :: "participant \<Rightarrow> participant" where
  "add_win p = p\<lparr>pa_wins := pa_wins p + 1, pa_points := pa_points p + 3\<rparr>"

definition add_loss :: "participant \<Rightarrow> participant" where
  "add_loss p = p\<lparr>pa_losses := pa_losses p + 1\<rparr>"

definition update_if :: "row_id option \<Rightarrow> (participant \<Rightarrow> participant) \<Rightarrow> tournament_db \<Rightarrow> unit result \<times> tournament_db" where
  "update_if i f db = (case i of None \<Rightarrow> (Inr (), db) | Some k \<Rightarrow> update_participant k f db)"

definition updateParticipantStats ::
  "row_id option \<Rightarrow> row_id option \<Rightarrow> match_result \<Rightarrow> tournament_db \<Rightarrow> unit result \<times> tournament_db" where
  "updateParticipantStats playerAId playerBId result db =
     (if mr_resultType result = RDraw
      then and_then (update_if playerAId add_draw db) (\<lambda>_ db1. update_if playerBId add_draw db1)
      else if Some (mr_winnerId result) = playerAId
      then and_then (update_if playerAId add_win db) (\<lambda>_ db1. update_if playerBId add_loss db1)
      else if Some (mr_winnerId result) = playerBId
      then and_then (update_if playerBId add_win db) (\<lambda>_ db1. update_if playerAId add_loss db1)
      else (Inr (), db))"

definition standing_key :: "participant \<Rightarrow> int \<times> int \<times> int" where
  "standing_key p = (- pa_points p, - pa_wins p, pa_losses p)"

text \<open>The standings: participants in order, ranked from one.\<close>

definition calculateStandings :: "db_env \<Rightarrow> row_id \<Rightarrow> tournament_db \<Rightarrow> (nat \<times> participant) list" where
  "calculateStandings ev tid db =
     List.enumerate 1 (sort_key standing_key (ev_participants ev (participants_of tid db)))"

text \<open>The prizes, position by position; the keys of the distribution are read by \<^verbatim>\<open>parseInt\<close>.\<close>

fun distribute_prizes ::
  "(nat \<times> participant) list \<Rightarrow> rat \<Rightarrow> (string \<times> rat) list \<Rightarrow> tournament_db \<Rightarrow> unit result \<times> tournament_db" where
  "distribute_prizes standings pool [] db = (Inr (), db)"
| "distribute_prizes standings pool ((position, percentage) # ds) db =
     and_then
       (case js_parseInt position of
          None \<Rightarrow> (Inr (), db)
        | Some rank \<Rightarrow>
            (case find (\<lambda>(k, p). int k = rank) standings of
               None \<Rightarrow> (Inr (), db)
             | Some (k, p) \<Rightarrow>
                 update_participant (pa_id p)
                   (\<lambda>q. q\<lparr>pa_prizeAmount := Some (pool * percentage),
                          pa_status := (if rank = 1 then PWinner else pa_status p)\<rparr>) db))
       (\<lambda>_ db1. distribute_prizes standings pool ds db1)"

definition completeTournament :: "db_env \<Rightarrow> row_id \<Rightarrow> int \<Rightarrow> tournament_db \<Rightarrow> unit result \<times> tournament_db" where
  "completeTournament ev tid now db =
     and_then
       (case jm_get (tn_tournaments db) tid of
          None \<Rightarrow> (Inr (), db)
        | Some t \<Rightarrow> distribute_prizes (calculateStandings ev tid db) (to_prizePool t) (to_prizeDistribution t) db)
       (\<lambda>_ db1. update_tournament tid (\<lambda>t. t\<lparr>to_status := TCompleted, to_endDate := Some now\<rparr>) db1)"

definition winners_of :: "db_env \<Rightarrow> row_id \<Rightarrow> int \<Rightarrow> tournament_db \<Rightarrow> row_id list" where
  "winners_of ev tid r db =
     List.map_filter tm_winnerId
       (ev_matches ev (filter (\<lambda>m. tm_status m = MCompleted) (round_matches tid r db)))"

definition generateNextRound :: "db_env \<Rightarrow> row_id \<Rightarrow> int \<Rightarrow> tournament_db \<Rightarrow> tournament_db" where
  "generateNextRound ev tid nextRound db =
     (case jm_get (tn_tournaments db) tid of
        None \<Rightarrow> db
      | Some t \<Rightarrow>
          foldl create_match db
            (map (\<lambda>(k, a, b). new_match tid nextRound (getRoundName nextRound (to_totalRounds t)) (k + 1)
                     (Some a) (Some b) MPending None)
               (List.enumerate 0 (pairs (winners_of ev tid (nextRound - 1) db)))))"

definition updateTournamentProgress ::
  "db_env \<Rightarrow> row_id \<Rightarrow> int \<Rightarrow> tournament_db \<Rightarrow> unit result \<times> tournament_db" where
  "updateTournamentProgress ev tid now db =
     (case jm_get (tn_tournaments db) tid of
        None \<Rightarrow> (Inl (PlainError ''Tournament not found''), db)
      | Some t \<Rightarrow>
          (let allCompleted = list_all (\<lambda>m. tm_status m = MCompleted) (round_matches tid (to_currentRound t) db)
           in if allCompleted \<and> to_currentRound t < to_totalRounds t
              then update_tournament tid (\<lambda>u. u\<lparr>to_currentRound := to_currentRound t + 1\<rparr>)
                     (generateNextRound ev tid (to_currentRound t + 1) db)
              else if allCompleted \<and> to_currentRound t \<ge> to_totalRounds t
              then completeTournament ev tid now db
              else (Inr (), db)))"

definition checkRoundCompletion ::
  "db_env \<Rightarrow> row_id \<Rightarrow> int \<Rightarrow> int \<Rightarrow> tournament_db \<Rightarrow> unit result \<times> tournament_db" where
  "checkRoundCompletion ev tid r now db =
     (if list_all (\<lambda>m. tm_status m = MCompleted) (round_matches tid r db)
      then updateTournamentProgress ev tid now db else (Inr (), db))"

text \<open>The winner of a match references a participant, which the database checks.\<close>

definition handleMatchResult ::
  "db_env \<Rightarrow> row_id \<Rightarrow> row_id \<Rightarrow> match_result \<Rightarrow> int \<Rightarrow> tournament_db \<Rightarrow> unit result \<times> tournament_db" where
  "handleMatchResult ev tid mid result now db =
     (case jm_get (tn_matches db) mid of
        None \<Rightarrow> (Inl (PlainError ''Match not found''), db)
      | Some m \<Rightarrow>
          if tm_status m = MCompleted then (Inl (PlainError ''Match already completed''), db)
          else if jm_get (tn_participants db) (mr_winnerId result) = None then (Inl (PrismaError ''P2003''), db)
          else
            (let m' = m\<lparr>tm_playerAScore := mr_playerAScore result, tm_playerBScore := mr_playerBScore result,
                        tm_winnerId := Some (mr_winnerId result), tm_resultType := Some (mr_resultType result),
                        tm_status := MCompleted, tm_completedAt := Some now\<rparr>
             in and_then
                  (updateParticipantStats (tm_playerAId m) (tm_playerBId m) result
                     (db\<lparr>tn_matches := jm_set (tn_matches db) mid m'\<rparr>))
                  (\<lambda>_ db2. checkRoundCompletion ev tid (tm_round m) now db2)))"

definition getTournamentBracket :: "db_env \<Rightarrow> row_id \<Rightarrow> tournament_db \<Rightarrow> tournament_match list" where
  "getTournamentBracket ev tid db =
     sort_key (\<lambda>m. (tm_round m, tm_matchNumber m))
       (ev_matches ev (filter (\<lambda>m. tm_tournamentId m = tid) (jm_values (tn_matches db))))"

definition getTournament :: "row_id \<Rightarrow> tournament_db \<Rightarrow> (tournament \<times> participant list) option" where
  "getTournament tid db =
     map_option (\<lambda>t. (t, participants_of tid db)) (jm_get (tn_tournaments db) tid)"

section \<open>The maintenance job\<close>

definition set_status :: "tournament_status \<Rightarrow> row_id \<Rightarrow> tournament_db \<Rightarrow> tournament_db" where
  "set_status st tid db = snd (update_tournament tid (\<lambda>t. t\<lparr>to_status := st\<rparr>) db)"

definition find_tournaments :: "db_env \<Rightarrow> (tournament \<Rightarrow> bool) \<Rightarrow> tournament_db \<Rightarrow> row_id list" where
  "find_tournaments ev p db = map to_id (ev_tournaments ev (filter p (jm_values (tn_tournaments db))))"

definition generateBracketIfReady :: "row_id \<Rightarrow> tournament_db \<Rightarrow> tournament_db" where
  "generateBracketIfReady tid db =
     (case jm_get (tn_tournaments db) tid of
        None \<Rightarrow> db
      | Some t \<Rightarrow>
          if int (length (filter (\<lambda>p. pa_status p = PRegistered) (participants_of tid db))) \<ge> to_minPlayers t
          then db else set_status TCancelled tid db)"

text \<open>The loop that starts tournaments ends at the first error, which the job logs.\<close>

fun start_all :: "db_env \<Rightarrow> row_id list \<Rightarrow> tournament_db \<Rightarrow> tournament_db" where
  "start_all ev [] db = db"
| "start_all ev (tid # tids) db =
     (case generateBracket ev tid db of
        (Inl e, db1) \<Rightarrow> db1
      | (Inr x, db1) \<Rightarrow> start_all ev tids db1)"

definition updateTournamentStatuses :: "db_env \<Rightarrow> int \<Rightarrow> tournament_db \<Rightarrow> tournament_db" where
  "updateTournamentStatuses ev now db =
     (let db1 = foldl (\<lambda>d tid. set_status RegistrationOpen tid d) db
                  (find_tournaments ev (\<lambda>t. to_status t = TPending \<and> to_registrationStart t \<le> now) db);
          db2 = foldl (\<lambda>d tid. generateBracketIfReady tid (set_status RegistrationClosed tid d)) db1
                  (find_tournaments ev (\<lambda>t. to_status t = RegistrationOpen \<and> to_registrationEnd t \<le> now) db1)
      in start_all ev (find_tournaments ev (\<lambda>t. to_status t = RegistrationClosed \<and> to_startDate t \<le> now) db2) db2)"

definition processCheckInDeadline :: "db_env \<Rightarrow> int \<Rightarrow> tournament_db \<Rightarrow> tournament_db" where
  "processCheckInDeadline ev now db =
     foldl (\<lambda>d t. if now \<ge> to_startDate t - to_checkInWindow t * 60000
                  then d\<lparr>tn_participants := row_update_many (tn_participants d)
                           (\<lambda>p. pa_tournamentId p = to_id t \<and> \<not> pa_checkedIn p \<and> pa_status p = PRegistered)
                           (\<lambda>p. p\<lparr>pa_status := PDisqualified\<rparr>)\<rparr>
                  else d) db
       (ev_tournaments ev
          (filter (\<lambda>t. (to_status t = RegistrationClosed \<or> to_status t = InProgress) \<and>
                       now \<le> to_startDate t \<and> to_startDate t \<le> now + 30 * 60 * 1000)
             (jm_values (tn_tournaments db))))"

definition runMaintenance :: "db_env \<Rightarrow> int \<Rightarrow> tournament_db \<Rightarrow> tournament_db" where
  "runMaintenance ev now db = processCheckInDeadline ev now (updateTournamentStatuses ev now db)"

section \<open>Registration\<close>

text \<open>The registrations of a tournament in the order in which they were accepted.\<close>

definition regs_in_order :: "row_id \<Rightarrow> tournament_db \<Rightarrow> registration list" where
  "regs_in_order tid db = filter (\<lambda>r. rg_tournamentId r = tid) (jm_values (tn_registrations db))"

text \<open>The place the \<open>i\<close>-th accepted registration gets when there are \<open>n\<close> places.\<close>

definition place :: "nat \<Rightarrow> nat \<Rightarrow> registration_status \<times> nat option" where
  "place n i = (if i < n then (Confirmed, None) else (Waitlist, Some (i + 1 - n)))"

definition fresh_rows :: "tournament_db \<Rightarrow> bool" where
  "fresh_rows db \<longleftrightarrow>
     (\<forall>k v. jm_get (tn_registrations db) k = Some v \<longrightarrow> k < tn_next db) \<and>
     (\<forall>k v. jm_get (tn_participants db) k = Some v \<longrightarrow> k < tn_next db)"

text \<open>
  The state of registration of a tournament with \<open>n\<close> places: the accepted registrations have their
  places, and of a free tournament the first \<open>n\<close> of them are participants, of one with a fee nobody is.
\<close>

definition registration_inv :: "row_id \<Rightarrow> tournament \<Rightarrow> tournament_db \<Rightarrow> bool" where
  "registration_inv tid t db \<longleftrightarrow> jm_get (tn_tournaments db) tid = Some t \<and> fresh_rows db \<and>
     (\<forall>p \<in> set (participants_of tid db). pa_status p = PRegistered) \<and>
     set (map pa_userId (participants_of tid db)) \<subseteq> set (map rg_userId (regs_in_order tid db)) \<and>
     (if to_entryFee t = None
      then map (\<lambda>r. (rg_status r, rg_waitlistPosition r)) (regs_in_order tid db)
             = map (place (nat (to_maxPlayers t))) [0..<length (regs_in_order tid db)] \<and>
           length (participants_of tid db) = min (length (regs_in_order tid db)) (nat (to_maxPlayers t))
      else (\<forall>r \<in> set (regs_in_order tid db). rg_status r = Confirmed \<and> rg_paymentStatus r = PayPending) \<and>
           participants_of tid db = [])"

lemma fresh_next:
  "fresh_rows db \<Longrightarrow> jm_get (tn_registrations db) (tn_next db) = None"
  "fresh_rows db \<Longrightarrow> jm_get (tn_participants db) (tn_next db) = None"
  "fresh_rows db \<Longrightarrow> jm_get (tn_participants db) (Suc (tn_next db)) = None"
  by (metis fresh_rows_def less_irrefl not_None_eq, metis fresh_rows_def less_irrefl not_None_eq,
      metis fresh_rows_def not_less_eq less_SucI not_None_eq lessI)

lemma waitlist_count:
  assumes "map (\<lambda>r. (rg_status r, rg_waitlistPosition r)) rs = map (place n) [0..<length rs]"
  shows "length (filter (\<lambda>r. rg_status r = Waitlist) rs) = length rs - n"
proof -
  have "length (filter (\<lambda>i. fst (place n i) = Waitlist) [0..<k]) = k - n" for k
    by (induction k) (auto simp: place_def)
  moreover have "map rg_status rs = map (\<lambda>i. fst (place n i)) [0..<length rs]"
    using arg_cong [OF assms, of "map fst"] by (simp add: comp_def)
  then have "length (filter (\<lambda>s. s = Waitlist) (map rg_status rs))
      = length (filter (\<lambda>s. s = Waitlist) (map (\<lambda>i. fst (place n i)) [0..<length rs]))" by simp
  ultimately show ?thesis by (simp add: filter_map comp_def)
qed

lemma getNextWaitlistPosition_regs:
  "getNextWaitlistPosition tid db = length (filter (\<lambda>r. rg_status r = Waitlist) (regs_in_order tid db)) + 1"
  by (simp add: getNextWaitlistPosition_def regs_in_order_def)

lemma registrations_of_regs:
  "registrations_of tid u db = [] \<longleftrightarrow> u \<notin> set (map rg_userId (regs_in_order tid db))"
  by (auto simp: registrations_of_def regs_in_order_def filter_empty_conv)

lemma registerPlayer_inv:
  assumes inv: "registration_inv tid t db" and max: "0 < to_maxPlayers t"
  shows "registration_inv tid t (snd (registerPlayer tid u now db))"
proof -
  let ?n = "nat (to_maxPlayers t)" and ?rs = "regs_in_order tid db" and ?ps = "participants_of tid db"
  from inv have t: "jm_get (tn_tournaments db) tid = Some t" and fresh: "fresh_rows db"
    and reg: "\<forall>p \<in> set ?ps. pa_status p = PRegistered" by (auto simp: registration_inv_def)
  note new = fresh_next [OF fresh]
  from reg have act: "filter (\<lambda>p. pa_status p \<noteq> PDisqualified) ?ps = ?ps" by (auto intro!: filter_True)
  show ?thesis
  proof (cases "now < to_registrationStart t \<or> now > to_registrationEnd t \<or> registrations_of tid u db \<noteq> []")
    case True
    with t inv show ?thesis by (auto simp: registerPlayer_def)
  next
    case False
    then have notreg: "u \<notin> set (map rg_userId ?rs)" by (simp add: registrations_of_regs)
    with inv have newp: "\<not> list_ex (\<lambda>p. pa_userId p = u) ?ps"
      by (auto simp: registration_inv_def list_ex_iff)
    define full where "full = (int (length ?ps) \<ge> to_maxPlayers t)"
    define r where "r = \<lparr>rg_id = tn_next db, rg_tournamentId = tid, rg_userId = u,
        rg_status = (if full then Waitlist else Confirmed),
        rg_waitlistPosition = (if full then Some (getNextWaitlistPosition tid db) else None),
        rg_paymentStatus = (if to_entryFee t \<noteq> None then PayPending else PayPaid)\<rparr>"
    let ?db1 = "db\<lparr>tn_registrations := jm_set (tn_registrations db) (tn_next db) r, tn_next := Suc (tn_next db)\<rparr>"
    have r_sel: "rg_userId r = u" "rg_status r = (if full then Waitlist else Confirmed)"
      "rg_paymentStatus r = (if to_entryFee t \<noteq> None then PayPending else PayPaid)"
      by (simp_all add: r_def)
    have regs1: "regs_in_order tid ?db1 = ?rs @ [r]"
      using new by (simp add: regs_in_order_def jm_values_set_new r_def)
    have ps1: "participants_of tid ?db1 = ?ps" by (simp add: participants_of_def)
    have step: "registerPlayer tid u now db =
        (if \<not> full \<and> to_entryFee t = None then and_then (createParticipant tid u ?db1) (\<lambda>_ db2. (Inr r, db2))
         else (Inr r, ?db1))"
      using False t unfolding registerPlayer_def
      by (simp add: Let_def act full_def r_def)
    have slot: "(rg_status r, rg_waitlistPosition r) = place ?n (length ?rs)" if "to_entryFee t = None"
      using that inv max waitlist_count [of ?rs ?n]
      by (auto simp: registration_inv_def r_def full_def place_def getNextWaitlistPosition_regs)
    show ?thesis
    proof (cases "\<not> full \<and> to_entryFee t = None")
      case False
      with step have eq: "snd (registerPlayer tid u now db) = ?db1" by auto
      have "fresh_rows ?db1" using fresh by (auto simp: fresh_rows_def less_SucI)
      with False inv max t slot show ?thesis
        unfolding eq by (auto simp: registration_inv_def regs1 ps1 r_sel full_def)
    next
      case True
      let ?p = "\<lparr>pa_id = Suc (tn_next db), pa_tournamentId = tid, pa_userId = u, pa_seed = None,
          pa_checkedIn = False, pa_checkedInAt = None, pa_status = PRegistered, pa_wins = 0, pa_losses = 0,
          pa_draws = 0, pa_points = 0, pa_prizeAmount = None\<rparr>"
      define db2 where "db2 = ?db1\<lparr>tn_participants := jm_set (tn_participants db) (Suc (tn_next db)) ?p,
          tn_next := Suc (Suc (tn_next db))\<rparr>"
      from True step newp have eq: "snd (registerPlayer tid u now db) = db2"
        by (simp add: createParticipant_def ps1 db2_def)
      have ps2: "participants_of tid db2 = ?ps @ [?p]"
        using new by (simp add: participants_of_def jm_values_set_new db2_def)
      have rs2: "regs_in_order tid db2 = ?rs @ [r]" using regs1 by (simp add: regs_in_order_def db2_def)
      have "fresh_rows db2" and "jm_get (tn_tournaments db2) tid = Some t"
        using fresh t by (auto simp: fresh_rows_def less_SucI db2_def)
      with True inv max slot show ?thesis
        unfolding eq by (auto simp: registration_inv_def ps2 rs2 r_sel full_def)
    qed
  qed
qed

lemma registerPlayer_accepts:
  assumes inv: "registration_inv tid t db"
    and "to_registrationStart t \<le> now" and "now \<le> to_registrationEnd t"
    and "u \<notin> set (map rg_userId (regs_in_order tid db))"
  shows "\<exists>r. fst (registerPlayer tid u now db) = Inr r \<and> rg_userId r = u \<and>
           regs_in_order tid (snd (registerPlayer tid u now db)) = regs_in_order tid db @ [r]"
proof -
  from inv have t: "jm_get (tn_tournaments db) tid = Some t" and fresh: "fresh_rows db"
    by (auto simp: registration_inv_def)
  have "\<not> list_ex (\<lambda>p. pa_userId p = u) (participants_of tid db)"
    using inv assms(4) by (auto simp: registration_inv_def list_ex_iff)
  with t assms(2-4) fresh_next [OF fresh] show ?thesis
    by (auto simp: registerPlayer_def Let_def createParticipant_def registrations_of_regs
        regs_in_order_def participants_of_def jm_values_set_new)
qed

text \<open>A series of registration requests, each of a user at a time.\<close>

definition register_all :: "row_id \<Rightarrow> (string \<times> int) list \<Rightarrow> tournament_db \<Rightarrow> tournament_db" where
  "register_all tid reqs db = foldl (\<lambda>d (u, now). snd (registerPlayer tid u now d)) db reqs"

lemma register_all_inv:
  "registration_inv tid t db \<Longrightarrow> 0 < to_maxPlayers t \<Longrightarrow> registration_inv tid t (register_all tid reqs db)"
  unfolding register_all_def by (induction reqs arbitrary: db) (auto simp: registerPlayer_inv)

lemma register_all_accepts:
  assumes "registration_inv tid t db" and "0 < to_maxPlayers t"
    and "distinct (map rg_userId (regs_in_order tid db) @ map fst reqs)"
    and "\<forall>(u, now) \<in> set reqs. to_registrationStart t \<le> now \<and> now \<le> to_registrationEnd t"
  shows "map rg_userId (regs_in_order tid (register_all tid reqs db))
           = map rg_userId (regs_in_order tid db) @ map fst reqs"
  using assms
proof (induction reqs arbitrary: db)
  case (Cons x reqs)
  obtain u now where x: "x = (u, now)" by fastforce
  from Cons.prems x obtain r where r: "rg_userId r = u"
    "regs_in_order tid (snd (registerPlayer tid u now db)) = regs_in_order tid db @ [r]"
    using registerPlayer_accepts [of tid t db now u] by auto
  have "map rg_userId (regs_in_order tid (register_all tid reqs (snd (registerPlayer tid u now db))))
      = map rg_userId (regs_in_order tid db @ [r]) @ map fst reqs"
    using Cons.IH [of "snd (registerPlayer tid u now db)"] Cons.prems r x registerPlayer_inv [of tid t db u now]
    by auto
  then show ?case by (simp add: x r register_all_def)
qed (simp add: register_all_def)

section \<open>Results\<close>

text \<open>Points are three per win and one per draw, and every row is filed under its id below the next one.\<close>

definition points_ok :: "participant \<Rightarrow> bool" where
  "points_ok p \<longleftrightarrow> pa_points p = 3 * pa_wins p + pa_draws p"

definition tours_inv :: "tournament_db \<Rightarrow> bool" where
  "tours_inv db \<longleftrightarrow>
     (\<forall>k p. jm_get (tn_participants db) k = Some p \<longrightarrow> points_ok p \<and> pa_id p = k \<and> k < tn_next db) \<and>
     (\<forall>k m. jm_get (tn_matches db) k = Some m \<longrightarrow> k < tn_next db)"

lemma tours_inv_participants:
  assumes "tours_inv db" and "\<And>p. jm_get (tn_participants db) i = Some p \<Longrightarrow>
      pa_points (f p) - 3 * pa_wins (f p) - pa_draws (f p) = pa_points p - 3 * pa_wins p - pa_draws p \<and> pa_id (f p) = pa_id p"
  shows "tours_inv (snd (update_participant i f db))"
  using assms
  by (auto simp: update_participant_def tours_inv_def points_ok_def row_update_def split: option.splits)

lemmas tours_inv_then = and_then_keeps [where P = tours_inv]

lemma tours_inv_tournament [simp]: "tours_inv (snd (update_tournament i f db)) \<longleftrightarrow> tours_inv db"
  by (auto simp: update_tournament_def tours_inv_def split: sum.splits)

lemma tours_inv_create_match: "tours_inv db \<Longrightarrow> tours_inv (create_match db m)"
  by (auto simp: tours_inv_def create_match_def less_SucI)

lemma tours_inv_create_matches: "tours_inv db \<Longrightarrow> tours_inv (foldl create_match db ms)"
  by (induction ms arbitrary: db) (auto simp: tours_inv_create_match)

lemma tours_inv_update_if:
  assumes "tours_inv db" and "f \<in> {add_draw, add_win, add_loss}"
  shows "tours_inv (snd (update_if i f db))"
proof (cases i)
  case (Some k)
  from assms(2) have f: "pa_points (f p) - 3 * pa_wins (f p) - pa_draws (f p) = pa_points p - 3 * pa_wins p - pa_draws p
      \<and> pa_id (f p) = pa_id p" for p
    by (auto simp: add_draw_def add_win_def add_loss_def)
  from tours_inv_participants [OF assms(1) f] Some show ?thesis by (simp add: update_if_def)
qed (use assms in \<open>simp add: update_if_def\<close>)

lemma tours_inv_stats:
  "tours_inv db \<Longrightarrow> tours_inv (snd (updateParticipantStats a b res db))"
  by (auto simp: updateParticipantStats_def intro!: tours_inv_then tours_inv_update_if)

lemma tours_inv_prizes: "tours_inv db \<Longrightarrow> tours_inv (snd (distribute_prizes st pool ds db))"
proof (induction st pool ds db rule: distribute_prizes.induct)
  case (2 st pool position percentage ds db)
  show ?case
    by (simp only: distribute_prizes.simps, rule tours_inv_then)
      (use 2 in \<open>auto intro: tours_inv_participants split: option.splits prod.splits\<close>)
qed simp

lemma tours_inv_progress: "tours_inv db \<Longrightarrow> tours_inv (snd (updateTournamentProgress ev tid now db))"
  by (auto simp: updateTournamentProgress_def Let_def generateNextRound_def completeTournament_def
      intro!: tours_inv_create_matches tours_inv_then tours_inv_prizes split: option.splits)

lemma tours_inv_result: "tours_inv db \<Longrightarrow> tours_inv (snd (handleMatchResult ev tid mid res now db))"
  by (auto simp: handleMatchResult_def Let_def checkRoundCompletion_def split: option.splits
      intro!: tours_inv_then tours_inv_stats tours_inv_progress) (auto simp: tours_inv_def)

lemma tours_inv_register: "tours_inv db \<Longrightarrow> tours_inv (snd (registerPlayer tid u now db))"
  by (auto simp: registerPlayer_def Let_def createParticipant_def tours_inv_def points_ok_def less_SucI
      split: option.splits)

lemma tours_inv_create: "tours_inv db \<Longrightarrow> tours_inv (snd (createTournament org c db))"
  by (auto simp: createTournament_def Let_def tours_inv_def less_SucI split: option.splits)

lemma tours_inv_check_in: "tours_inv db \<Longrightarrow> tours_inv (snd (checkInPlayer tid u now db))"
  by (auto simp: checkInPlayer_def intro: tours_inv_participants split: list.splits option.splits)

lemma tours_inv_bracket: "tours_inv db \<Longrightarrow> tours_inv (snd (generateBracket ev tid db))"
  by (auto simp: generateBracket_def intro: tours_inv_create_matches split: option.splits)

lemma tours_inv_set_status [simp]: "tours_inv (set_status st tid db) \<longleftrightarrow> tours_inv db"
  by (simp add: set_status_def)

lemma tours_inv_start_all: "tours_inv db \<Longrightarrow> tours_inv (start_all ev tids db)"
proof (induction tids arbitrary: db)
  case (Cons tid tids)
  from tours_inv_bracket [OF Cons.prems, of ev tid] Cons.IH show ?case
    by (auto split: prod.splits sum.splits)
qed simp

lemma tours_inv_foldl:
  "(\<And>d x. tours_inv d \<Longrightarrow> tours_inv (f d x)) \<Longrightarrow> tours_inv db \<Longrightarrow> tours_inv (foldl f db xs)"
  by (induction xs arbitrary: db) auto

lemma tours_inv_maintenance: "tours_inv db \<Longrightarrow> tours_inv (runMaintenance ev now db)"
proof -
  assume inv: "tours_inv db"
  have "tours_inv (updateTournamentStatuses ev now db)"
    unfolding updateTournamentStatuses_def Let_def
    by (intro tours_inv_start_all tours_inv_foldl)
      (auto simp: generateBracketIfReady_def inv split: option.splits)
  moreover have "tours_inv (processCheckInDeadline ev now d)" if "tours_inv d" for d
    unfolding processCheckInDeadline_def
    by (intro tours_inv_foldl)
      (use that in \<open>auto simp: tours_inv_def jm_get_update_many points_ok_def split: if_splits\<close>)
  ultimately show ?thesis by (simp add: runMaintenance_def)
qed

datatype tour_op =
    CreateTournament string tournament_config
  | RegisterPlayer row_id string int
  | CheckInPlayer row_id string int
  | GenerateBracket row_id
  | ReportResult row_id row_id match_result int
  | Maintain int

fun tour_exec :: "db_env \<Rightarrow> tournament_db \<Rightarrow> tour_op \<Rightarrow> tournament_db" where
  "tour_exec ev db (CreateTournament org c) = snd (createTournament org c db)"
| "tour_exec ev db (RegisterPlayer tid u now) = snd (registerPlayer tid u now db)"
| "tour_exec ev db (CheckInPlayer tid u now) = snd (checkInPlayer tid u now db)"
| "tour_exec ev db (GenerateBracket tid) = snd (generateBracket ev tid db)"
| "tour_exec ev db (ReportResult tid mid res now) = snd (handleMatchResult ev tid mid res now db)"
| "tour_exec ev db (Maintain now) = runMaintenance ev now db"

interpretation tours: invariant_machine empty_tournaments "tour_exec ev" "\<lambda>_ _. True" tours_inv for ev
proof unfold_locales
  show "tours_inv empty_tournaments" by (simp add: tours_inv_def empty_tournaments_def)
  show "tours_inv (tour_exec ev db x)" if "tours_inv db" for db x
    using that by (cases x) (simp_all add: tours_inv_create tours_inv_register tours_inv_check_in
        tours_inv_bracket tours_inv_result tours_inv_maintenance)
qed

section \<open>Blocked rounds\<close>

text \<open>A match of round \<open>r\<close> is open, and the tournament has not got past that round.\<close>

definition blocked :: "row_id \<Rightarrow> row_id \<Rightarrow> int \<Rightarrow> tournament_db \<Rightarrow> bool" where
  "blocked tid mid r db \<longleftrightarrow> mid < tn_next db \<and>
     (\<exists>m. jm_get (tn_matches db) mid = Some m \<and> tm_tournamentId m = tid \<and> tm_round m = r \<and> tm_status m \<noteq> MCompleted) \<and>
     (\<exists>t. jm_get (tn_tournaments db) tid = Some t \<and> to_currentRound t \<le> r \<and> r \<le> to_totalRounds t \<and>
          to_status t \<noteq> TCompleted)"

lemma update_participant_frame [simp]:
  "tn_matches (snd (update_participant i f db)) = tn_matches db"
  "tn_tournaments (snd (update_participant i f db)) = tn_tournaments db"
  "tn_next (snd (update_participant i f db)) = tn_next db"
  by (simp_all add: update_participant_def split: sum.splits)

lemma blocked_participant [simp]: "blocked tid mid r (snd (update_participant i f db)) \<longleftrightarrow> blocked tid mid r db"
  by (simp add: blocked_def)

lemmas blocked_then = and_then_keeps [where P = "blocked tid mid r" for tid mid r]

lemma blocked_stats: "blocked tid mid r db \<Longrightarrow> blocked tid mid r (snd (updateParticipantStats a b res db))"
  by (auto simp: updateParticipantStats_def update_if_def intro!: blocked_then split: option.splits)

lemma blocked_prizes: "blocked tid mid r db \<Longrightarrow> blocked tid mid r (snd (distribute_prizes st pool ds db))"
proof (induction st pool ds db rule: distribute_prizes.induct)
  case (2 st pool position percentage ds db)
  show ?case
    by (simp only: distribute_prizes.simps, rule blocked_then)
      (use 2 in \<open>auto split: option.splits prod.splits\<close>)
qed simp

lemma create_matches_frame:
  "tn_next db \<le> tn_next (foldl create_match db ms)"
  "i < tn_next db \<Longrightarrow> jm_get (tn_matches (foldl create_match db ms)) i = jm_get (tn_matches db) i"
  "tn_tournaments (foldl create_match db ms) = tn_tournaments db"
proof (induction ms arbitrary: db)
  case (Cons m ms)
  {
    case 1
    from Cons(1) [of "create_match db m"] show ?case by (simp add: create_match_def)
  next
    case 2
    with Cons(2) [of "create_match db m"] show ?case by (simp add: create_match_def)
  next
    case 3
    from Cons(3) [of "create_match db m"] show ?case by (simp add: create_match_def)
  }
qed simp_all

lemma create_matches_get:
  "m \<in> set ms \<Longrightarrow> \<exists>i < tn_next (foldl create_match db ms).
     jm_get (tn_matches (foldl create_match db ms)) i = Some (m\<lparr>tm_id := i\<rparr>)"
proof (induction ms arbitrary: db)
  case (Cons x ms)
  let ?db = "create_match db x"
  show ?case
  proof (cases "m = x")
    case True
    then have "jm_get (tn_matches ?db) (tn_next db) = Some (m\<lparr>tm_id := tn_next db\<rparr>)" "tn_next db < tn_next ?db"
      by (simp_all add: create_match_def)
    with create_matches_frame(1,2) [where db = ?db] show ?thesis
      by (intro exI [of _ "tn_next db"]) (auto intro: less_le_trans)
  next
    case False
    with Cons show ?thesis by simp
  qed
qed simp

lemma blocked_create_matches: "blocked tid mid r db \<Longrightarrow> blocked tid mid r (foldl create_match db ms)"
  using create_matches_frame [where db = db and ms = ms] by (auto simp: blocked_def intro: less_le_trans)

lemma blocked_progress:
  assumes "blocked tid mid r db"
  shows "blocked tid mid r (snd (updateTournamentProgress ev tid' now db))"
proof -
  from assms obtain m t where m: "jm_get (tn_matches db) mid = Some m" "tm_tournamentId m = tid" "tm_round m = r"
      "tm_status m \<noteq> MCompleted"
    and t: "jm_get (tn_tournaments db) tid = Some t" "to_currentRound t \<le> r" "r \<le> to_totalRounds t"
    by (auto simp: blocked_def)
  from m have "m \<in> set (round_matches tid r db)" by (auto simp: round_matches_def dest: jm_get_in_values)
  with m have open_round: "\<not> list_all (\<lambda>m. tm_status m = MCompleted) (round_matches tid r db)"
    by (auto simp: list_all_iff)
  show ?thesis
  proof (cases "tid' = tid")
    case False
    have "blocked tid mid r (snd (update_tournament tid' f d))" if "blocked tid mid r d" for f d
      using that False by (auto simp: blocked_def update_tournament_def row_update_def split: option.splits)
    with assms show ?thesis
      by (auto simp: updateTournamentProgress_def Let_def generateNextRound_def completeTournament_def
          intro!: blocked_create_matches blocked_then blocked_prizes split: option.splits)
  next
    case True
    show ?thesis
    proof (cases "to_currentRound t = r")
      case at: True
      with True t open_round assms show ?thesis by (simp add: updateTournamentProgress_def Let_def)
    next
      case False
      with t have less: "to_currentRound t < r" "to_currentRound t < to_totalRounds t" by simp_all
      have "blocked tid mid r (snd (update_tournament tid (\<lambda>u. u\<lparr>to_currentRound := to_currentRound t + 1\<rparr>) d))"
        if "blocked tid mid r d" for d
        using that less by (auto simp: blocked_def update_tournament_def row_update_def split: option.splits)
      with True t less assms show ?thesis
        by (auto simp: updateTournamentProgress_def Let_def generateNextRound_def
            intro!: blocked_create_matches split: option.splits)
    qed
  qed
qed

lemma blocked_result:
  assumes "blocked tid mid r db" and "mid' \<noteq> mid"
  shows "blocked tid mid r (snd (handleMatchResult ev tid' mid' res now db))"
proof -
  have set: "blocked tid mid r (db\<lparr>tn_matches := jm_set (tn_matches db) mid' m'\<rparr>)" for m'
    using assms by (auto simp: blocked_def)
  show ?thesis
    using assms
    by (auto simp: handleMatchResult_def Let_def checkRoundCompletion_def split: option.splits
        intro!: blocked_then blocked_stats blocked_progress set)
qed

section \<open>Rows of matches stay\<close>

definition has_match :: "row_id \<Rightarrow> tournament_match \<Rightarrow> tournament_db \<Rightarrow> bool" where
  "has_match mid m db \<longleftrightarrow> mid < tn_next db \<and> jm_get (tn_matches db) mid = Some m"

lemmas has_match_then = and_then_keeps [where P = "has_match mid m" for mid m]

lemma has_match_participant [simp]: "has_match mid m (snd (update_participant i f db)) \<longleftrightarrow> has_match mid m db"
  by (simp add: has_match_def)

lemma has_match_tournament [simp]: "has_match mid m (snd (update_tournament i f db)) \<longleftrightarrow> has_match mid m db"
  by (simp add: has_match_def update_tournament_def split: sum.splits)

lemma has_match_create_matches: "has_match mid m db \<Longrightarrow> has_match mid m (foldl create_match db ms)"
  using create_matches_frame [where db = db and ms = ms] by (auto simp: has_match_def intro: less_le_trans)

lemma has_match_stats: "has_match mid m db \<Longrightarrow> has_match mid m (snd (updateParticipantStats a b res db))"
  by (auto simp: updateParticipantStats_def update_if_def intro!: has_match_then split: option.splits)

lemma has_match_prizes: "has_match mid m db \<Longrightarrow> has_match mid m (snd (distribute_prizes st pool ds db))"
proof (induction st pool ds db rule: distribute_prizes.induct)
  case (2 st pool position percentage ds db)
  show ?case
    by (simp only: distribute_prizes.simps, rule has_match_then)
      (use 2 in \<open>auto split: option.splits prod.splits\<close>)
qed simp

lemma has_match_progress:
  "has_match mid m db \<Longrightarrow> has_match mid m (snd (updateTournamentProgress ev tid now db))"
  by (auto simp: updateTournamentProgress_def Let_def generateNextRound_def completeTournament_def
      intro!: has_match_create_matches has_match_then has_match_prizes split: option.splits)

lemma handleMatchResult_done:
  assumes inv: "tours_inv db" and ok: "handleMatchResult ev tid mid res now db = (Inr (), db')"
  shows "\<exists>m. has_match mid m db' \<and> tm_status m = MCompleted \<and> tm_winnerId m = Some (mr_winnerId res)"
proof -
  from ok obtain m where m: "jm_get (tn_matches db) mid = Some m"
    by (auto simp: handleMatchResult_def split: option.splits)
  define m' where "m' = m\<lparr>tm_playerAScore := mr_playerAScore res, tm_playerBScore := mr_playerBScore res,
      tm_winnerId := Some (mr_winnerId res), tm_resultType := Some (mr_resultType res),
      tm_status := MCompleted, tm_completedAt := Some now\<rparr>"
  let ?db1 = "db\<lparr>tn_matches := jm_set (tn_matches db) mid m'\<rparr>"
  from ok m have db': "db' = snd (and_then (updateParticipantStats (tm_playerAId m) (tm_playerBId m) res ?db1)
      (\<lambda>_ db2. checkRoundCompletion ev tid (tm_round m) now db2))"
    by (auto simp: handleMatchResult_def m'_def Let_def split: if_splits)
  from inv m have "has_match mid m' ?db1" by (auto simp: has_match_def tours_inv_def)
  then have "has_match mid m' db'"
    unfolding db' by (auto simp: checkRoundCompletion_def intro!: has_match_then has_match_stats has_match_progress)
  then show ?thesis by (auto simp: m'_def intro!: exI [of _ m'])
qed

section \<open>Properties\<close>


definition demo_config :: tournament_config where
  "demo_config = \<lparr>cf_name = ''cup'', cf_description = None, cf_format = SingleElimination, cf_gameId = ''g'',
     cf_gameMode = ''m'', cf_maxPlayers = 4, cf_minPlayers = None, cf_entryFee = None, cf_prizePool = Some 100,
     cf_prizeDistribution = Some [(''1'', 7 / 10), (''2'', 3 / 10)], cf_registrationStart = 0,
     cf_registrationEnd = 100, cf_startDate = 2000000, cf_endDate = None, cf_checkInWindow = None\<rparr>"

definition demo_db :: "tournament_config \<Rightarrow> tournament_db" where
  "demo_db c = snd (createTournament ''org'' c empty_tournaments)"

lemma demo_db_facts:
  "fresh_rows (demo_db demo_config)" "fresh_rows (demo_db (demo_config\<lparr>cf_entryFee := Some 5, cf_maxPlayers := 2\<rparr>))"
  by (simp_all add: demo_db_def createTournament_def demo_config_def empty_tournaments_def fresh_rows_def Let_def)


text \<open>
  C19. A tournament with an entry fee has no capacity. Participants are created only by registrations
  without a fee, so with a fee every accepted registration is confirmed, however many there are and
  whatever \<^verbatim>\<open>maxPlayers\<close> says, and nobody becomes a participant.
\<close>

theorem paid_registration_unlimited:
  assumes "jm_get (tn_tournaments db) tid = Some t" and "to_entryFee t \<noteq> None" and "0 < to_maxPlayers t"
    and "fresh_rows db" and "regs_in_order tid db = []" and "participants_of tid db = []"
    and "distinct (map fst reqs)"
    and "\<forall>(u, now) \<in> set reqs. to_registrationStart t \<le> now \<and> now \<le> to_registrationEnd t"
  shows "map rg_userId (regs_in_order tid (register_all tid reqs db)) = map fst reqs \<and>
         (\<forall>r \<in> set (regs_in_order tid (register_all tid reqs db)). rg_status r = Confirmed) \<and>
         participants_of tid (register_all tid reqs db) = []"
proof -
  from assms have inv: "registration_inv tid t db" by (simp add: registration_inv_def)
  from register_all_inv [OF this assms(3), of reqs] register_all_accepts [OF this assms(3), of reqs] assms
  show ?thesis by (simp add: registration_inv_def)
qed

theorem paid_registration_unlimited_witness:
  "let db = demo_db (demo_config\<lparr>cf_entryFee := Some 5, cf_maxPlayers := 2\<rparr>);
       reqs = map (\<lambda>u. (u, 5)) [''a'', ''b'', ''c'']
   in map rg_userId (regs_in_order 0 (register_all 0 reqs db)) = [''a'', ''b'', ''c''] \<and>
      participants_of 0 (register_all 0 reqs db) = []"
proof -
  let ?db = "demo_db (demo_config\<lparr>cf_entryFee := Some 5, cf_maxPlayers := 2\<rparr>)"
  let ?reqs = "map (\<lambda>u. (u, 5::int)) [''a'', ''b'', ''c'']"
  let ?t = "the (jm_get (tn_tournaments ?db) 0)"
  have t: "jm_get (tn_tournaments ?db) 0 = Some ?t" by code_simp
  have fee: "to_entryFee ?t \<noteq> None" by code_simp
  have max: "0 < to_maxPlayers ?t" by code_simp
  have start: "regs_in_order 0 ?db = []" "participants_of 0 ?db = []" by code_simp+
  have time: "to_registrationStart ?t = 0" "to_registrationEnd ?t = 100" by code_simp+
  from time have "\<forall>(u, now) \<in> set ?reqs. to_registrationStart ?t \<le> now \<and> now \<le> to_registrationEnd ?t" by simp
  moreover have "distinct (map fst ?reqs)" by simp
  ultimately show ?thesis
    using paid_registration_unlimited [OF t fee max demo_db_facts(2) start, of ?reqs] unfolding Let_def by simp
qed

text \<open>
  C15. Results count once. In every state the service can reach, a reported result completes its match
  with the reported winner, every participant has three points per win and one per draw, and any
  further report on the match is refused without an effect.
\<close>

theorem results_count_once:
  assumes "db = foldl (tour_exec ev) empty_tournaments es"
    and "handleMatchResult ev tid mid res now db = (Inr (), db')"
  shows "(\<exists>m. jm_get (tn_matches db') mid = Some m \<and> tm_status m = MCompleted \<and>
            tm_winnerId m = Some (mr_winnerId res)) \<and>
         (\<forall>k p. jm_get (tn_participants db') k = Some p \<longrightarrow> pa_points p = 3 * pa_wins p + pa_draws p) \<and>
         (\<forall>tid2 res2 now2. handleMatchResult ev tid2 mid res2 now2 db'
            = (Inl (PlainError ''Match already completed''), db'))"
proof -
  have inv: "tours_inv db"
    using tours.inv_reachable [of ev es] by (simp add: assms(1) allowed_run_all)
  from tours_inv_result [OF inv, of ev tid mid res now] assms(2) have "tours_inv db'" by simp
  then have "\<forall>k p. jm_get (tn_participants db') k = Some p \<longrightarrow> pa_points p = 3 * pa_wins p + pa_draws p"
    by (simp add: tours_inv_def points_ok_def)
  moreover from handleMatchResult_done [OF inv assms(2)] obtain m where
    m: "jm_get (tn_matches db') mid = Some m" "tm_status m = MCompleted" "tm_winnerId m = Some (mr_winnerId res)"
    by (auto simp: has_match_def)
  ultimately show ?thesis by (simp add: handleMatchResult_def)
qed

definition demo_steps :: "tour_op list" where
  "demo_steps = CreateTournament ''org'' demo_config # map (\<lambda>u. RegisterPlayer 0 u 5) [''a'', ''b'', ''c'']
     @ Maintain 100 # map (\<lambda>u. CheckInPlayer 0 u 110) [''a'', ''b'', ''c'']"

definition demo_win :: "row_id \<Rightarrow> match_result" where
  "demo_win w = \<lparr>mr_playerAScore = 2, mr_playerBScore = 1, mr_winnerId = w, mr_resultType = RWin\<rparr>"

theorem results_count_once_witness:
  "let db = foldl (tour_exec plain_env) empty_tournaments (demo_steps @ [GenerateBracket 0]);
       db' = snd (handleMatchResult plain_env 0 7 (demo_win 2) 130 db)
   in handleMatchResult plain_env 0 7 (demo_win 4) 140 db'
        = (Inl (PlainError ''Match already completed''), db')"
proof -
  let ?db = "foldl (tour_exec plain_env) empty_tournaments (demo_steps @ [GenerateBracket 0])"
  let ?r = "handleMatchResult plain_env 0 7 (demo_win 2) 130 ?db"
  have "fst ?r = Inr ()" by code_simp
  then have eq: "?r = (Inr (), snd ?r)" by (metis prod.collapse)
  from results_count_once [OF refl eq] show ?thesis unfolding Let_def by blast
qed

text \<open>
  Empty placeholders block a single elimination. The generator creates the matches of the later
  rounds without players, and the next round creates its own matches beside them. With three or more
  players there is such a placeholder in round two; as long as no result is reported for it, no
  sequence of results for other matches takes the tournament past round two or completes it.
\<close>

theorem placeholder_blocks_tournament:
  assumes "generateBracket ev tid db = (Inr (), db')" and "jm_get (tn_tournaments db) tid = Some t"
    and "to_format t = SingleElimination" and "3 \<le> length (checked_in ev tid db)" and "2 \<le> to_totalRounds t"
  shows "\<exists>mid m. jm_get (tn_matches db') mid = Some m \<and> seats m = [] \<and>
           (\<forall>es t'. (\<forall>(tid2, mid2, res, now) \<in> set es. mid2 \<noteq> mid) \<longrightarrow>
              jm_get (tn_tournaments (foldl (\<lambda>d (tid2, mid2, res, now).
                 snd (handleMatchResult ev tid2 mid2 res now d)) db' es)) tid = Some t' \<longrightarrow>
              to_currentRound t' \<le> 2 \<and> to_status t' \<noteq> TCompleted)"
proof -
  let ?ps = "checked_in ev tid db" and ?R = "ceil_log2 (length (checked_in ev tid db))"
  have "\<not> ?R \<le> 1"
  proof
    assume "?R \<le> 1"
    then have "(2::nat) ^ ?R \<le> 2 ^ 1" by (rule power_increasing) simp
    with ceil_log2_upper [of "length ?ps"] assms(4) show False by simp
  qed
  let ?m = "new_match tid 2 (getRoundName 2 (int ?R)) 1 None None MPending None"
  have "?m \<in> set (later_round tid ?R 2)"
    by (auto simp: later_round_def image_iff intro!: bexI [of _ 0])
  with \<open>\<not> ?R \<le> 1\<close> have "?m \<in> set (generateSingleEliminationBracket tid ?ps)"
    by (auto simp: generateSingleEliminationBracket_def simp del: upt_Suc intro!: bexI [of _ 2])
  from create_matches_get [OF this, of db] obtain mid where
    mid: "mid < tn_next (foldl create_match db (generateSingleEliminationBracket tid ?ps))"
      "jm_get (tn_matches (foldl create_match db (generateSingleEliminationBracket tid ?ps))) mid = Some (?m\<lparr>tm_id := mid\<rparr>)"
    by blast
  from assms(1-3) have db': "db' = snd (update_tournament tid (\<lambda>t. t\<lparr>to_status := InProgress, to_currentRound := 1\<rparr>)
      (foldl create_match db (generateSingleEliminationBracket tid ?ps)))"
    by (auto simp: generateBracket_def bracket_matches_def split: if_splits)
  have sel: "tm_tournamentId (?m\<lparr>tm_id := mid\<rparr>) = tid" "tm_round (?m\<lparr>tm_id := mid\<rparr>) = 2"
    "tm_status (?m\<lparr>tm_id := mid\<rparr>) = MPending" "seats (?m\<lparr>tm_id := mid\<rparr>) = []"
    by (simp_all add: new_match_def seats_def opt_list_def)
  from mid assms(2,5) sel create_matches_frame(3) [of db] have start: "blocked tid mid 2 db'"
    "jm_get (tn_matches db') mid = Some (?m\<lparr>tm_id := mid\<rparr>)"
    unfolding db' by (auto simp: blocked_def update_tournament_def row_update_def split: option.splits)
  have "blocked tid mid 2 (foldl (\<lambda>d (tid2, mid2, res, now). snd (handleMatchResult ev tid2 mid2 res now d)) d es)"
    if "blocked tid mid 2 d" and "\<forall>(tid2, mid2, res, now) \<in> set es. mid2 \<noteq> mid" for d es
    using that by (induction es arbitrary: d) (auto simp: blocked_result)
  with start sel(4) show ?thesis by (fastforce simp: blocked_def)
qed

theorem placeholder_blocks_tournament_witness:
  "\<exists>mid m. jm_get (tn_matches (snd (generateBracket plain_env 0 (foldl (tour_exec plain_env) empty_tournaments demo_steps)))) mid = Some m \<and> seats m = []"
proof -
  let ?db = "foldl (tour_exec plain_env) empty_tournaments demo_steps"
  let ?t = "the (jm_get (tn_tournaments ?db) 0)"
  have ok: "fst (generateBracket plain_env 0 ?db) = Inr ()" by code_simp
  have t: "jm_get (tn_tournaments ?db) 0 = Some ?t" by code_simp
  have f: "to_format ?t = SingleElimination" by code_simp
  have c: "3 \<le> length (checked_in plain_env 0 ?db)" by code_simp
  have r: "2 \<le> to_totalRounds ?t" by code_simp
  from ok have eq: "generateBracket plain_env 0 ?db = (Inr (), snd (generateBracket plain_env 0 ?db))"
    by (metis prod.collapse)
  from placeholder_blocks_tournament [OF eq t f c r] show ?thesis by blast
qed

text \<open>
  Checking in early cancels the tournament. When registration closes, the job counts the
  participants that are registered but not those that have checked in; if all have, it finds too few
  and cancels the tournament, whatever their number.
\<close>

theorem early_check_in_cancels:
  assumes "jm_get (tn_tournaments db) tid = Some t" and "0 < to_minPlayers t"
    and "\<forall>p \<in> set (participants_of tid db). pa_status p = PCheckedIn"
  shows "\<exists>t'. jm_get (tn_tournaments (generateBracketIfReady tid (set_status RegistrationClosed tid db))) tid = Some t'
           \<and> to_status t' = TCancelled"
proof -
  from assms(3) have "filter (\<lambda>p. pa_status p = PRegistered) (participants_of tid db) = []"
    by (auto simp: filter_empty_conv)
  moreover have "participants_of tid (set_status RegistrationClosed tid db) = participants_of tid db"
    by (simp add: participants_of_def set_status_def update_tournament_def split: sum.splits)
  ultimately show ?thesis
    using assms(1,2) by (simp add: generateBracketIfReady_def set_status_def update_tournament_def row_update_def)
qed

definition demo_early :: "tour_op list" where
  "demo_early = CreateTournament ''org'' demo_config # map (\<lambda>u. RegisterPlayer 0 u 5) [''a'', ''b'', ''c'']
     @ map (\<lambda>u. CheckInPlayer 0 u 50) [''a'', ''b'', ''c'']"

theorem early_check_in_cancels_witness:
  "let db = foldl (tour_exec plain_env) empty_tournaments demo_early
   in length (participants_of 0 db) = 3 \<and>
      (\<exists>t'. jm_get (tn_tournaments (generateBracketIfReady 0 (set_status RegistrationClosed 0 db))) 0 = Some t'
         \<and> to_status t' = TCancelled)"
proof -
  let ?db = "foldl (tour_exec plain_env) empty_tournaments demo_early"
  let ?t = "the (jm_get (tn_tournaments ?db) 0)"
  have n: "length (participants_of 0 ?db) = 3" by code_simp
  have t: "jm_get (tn_tournaments ?db) 0 = Some ?t" by code_simp
  have m: "0 < to_minPlayers ?t" by code_simp
  have p: "\<forall>p \<in> set (participants_of 0 ?db). pa_status p = PCheckedIn" by code_simp
  from early_check_in_cancels [OF t m p] n show ?thesis unfolding Let_def by blast
qed

end
