(* ===== verification/Payments.thy ===== *)
theory Payments
  imports Stores
begin

text \<open>
  Refunds of payments, \<^verbatim>\<open>server/src/services/refund.service.ts\<close>, and the worker that reconciles pending
  payments, \<^verbatim>\<open>server/src/services/payment-monitor.worker.ts\<close>. New row ids, clock readings, the random
  jitter and the answer of the external payment check are arguments. The audit entry that a status
  change writes is kept as a list of actions.

  Shown: the life of a refund request, that a finished request never changes, that a payment can be
  refunded more than once, and that a payment is retried a bounded number of times.
\<close>

section \<open>Data\<close>

datatype refund_status = Requested | Reviewing | Approved | RefundRejected | Processed

datatype pay_status = PsPending | PsCompleted | PsFailed | PsDeadLetter | PsRefunded

record payment =
  py_amount :: string
  py_status :: pay_status
  py_txHash :: "string option"
  py_retryCount :: int
  py_nextRetryAt :: "int option"
  py_lastError :: "string option"

record refund_request =
  rq_paymentId :: string
  rq_amount :: string
  rq_status :: refund_status
  rq_reason :: string
  rq_operatorId :: "string option"
  rq_operatorNotes :: "string option"

record payment_db =
  pd_payments :: "(string, payment) jsmap"
  pd_refunds :: "(string, refund_request) jsmap"
  pd_audit :: "(string \<times> string \<times> string) list"

section \<open>Amounts\<close>

definition is_digit :: "char \<Rightarrow> bool" where
  "is_digit c \<longleftrightarrow> 48 \<le> (of_char c :: int) \<and> (of_char c :: int) \<le> 57"

definition decimal_value :: "string \<Rightarrow> int" where
  "decimal_value cs = foldl (\<lambda>acc c. acc * 10 + (of_char c - 48)) 0 cs"

text \<open>\<^verbatim>\<open>BigInt\<close> on decimal notation: the empty string is zero, anything but digits is a syntax error.\<close>

definition js_BigInt :: "string \<Rightarrow> int result" where
  "js_BigInt s =
     (let neg = (s \<noteq> [] \<and> hd s = CHR ''-''); ds = (if neg then tl s else s)
      in if (neg \<and> ds = []) \<or> \<not> list_all is_digit ds
         then Inl (PlainError (''Cannot convert '' @ s @ '' to a BigInt''))
         else Inr (if neg then - decimal_value ds else decimal_value ds))"

section \<open>Refunds\<close>

definition createRequest ::
  "string \<Rightarrow> string \<Rightarrow> string \<Rightarrow> string \<Rightarrow> payment_db \<Rightarrow> refund_request result \<times> payment_db" where
  "createRequest newId paymentId amount reason db =
     (case jm_get (pd_payments db) paymentId of
        None \<Rightarrow> (Inl (PlainError ''Payment not found.''), db)
      | Some p \<Rightarrow>
          and_then (js_BigInt amount, db) (\<lambda>a db.
          and_then (js_BigInt (py_amount p), db) (\<lambda>b db.
            if a > b then (Inl (PlainError ''Refund amount exceeds original payment amount.''), db)
            else (let r = \<lparr>rq_paymentId = paymentId, rq_amount = amount, rq_status = Requested,
                           rq_reason = reason, rq_operatorId = None, rq_operatorNotes = None\<rparr>
                  in (Inr r, db\<lparr>pd_refunds := jm_set (pd_refunds db) newId r\<rparr>)))))"

fun refund_transitions :: "refund_status \<Rightarrow> refund_status list" where
  "refund_transitions Requested = [Reviewing, RefundRejected]"
| "refund_transitions Reviewing = [Approved, RefundRejected]"
| "refund_transitions Approved = [Processed]"
| "refund_transitions RefundRejected = []"
| "refund_transitions Processed = []"

fun refund_status_name :: "refund_status \<Rightarrow> string" where
  "refund_status_name Requested = ''REQUESTED''"
| "refund_status_name Reviewing = ''REVIEWING''"
| "refund_status_name Approved = ''APPROVED''"
| "refund_status_name RefundRejected = ''REJECTED''"
| "refund_status_name Processed = ''PROCESSED''"

definition validateTransition :: "refund_status \<Rightarrow> refund_status \<Rightarrow> unit result" where
  "validateTransition current nxt =
     (if nxt \<notin> set (refund_transitions current)
      then Inl (PlainError (''Invalid refund state transition from '' @ refund_status_name current
                 @ '' to '' @ refund_status_name nxt @ ''.''))
      else Inr ())"

text \<open>The two updates of an approval; the payment exists by its foreign key.\<close>

definition handleApproval :: "string \<Rightarrow> string \<Rightarrow> payment_db \<Rightarrow> unit result \<times> payment_db" where
  "handleApproval rid paymentId db =
     (case row_update (pd_refunds db) rid (\<lambda>r. r\<lparr>rq_status := Processed\<rparr>) of
        Inl e \<Rightarrow> (Inl e, db)
      | Inr refunds \<Rightarrow>
          (let db1 = db\<lparr>pd_refunds := refunds\<rparr>
           in case row_update (pd_payments db1) paymentId (\<lambda>p. p\<lparr>py_status := PsRefunded\<rparr>) of
                Inl e \<Rightarrow> (Inl e, db1)
              | Inr payments \<Rightarrow> (Inr (), db1\<lparr>pd_payments := payments\<rparr>)))"

definition updateStatus ::
  "string \<Rightarrow> string \<Rightarrow> refund_status \<Rightarrow> string option \<Rightarrow> payment_db \<Rightarrow> refund_request result \<times> payment_db" where
  "updateStatus rid operatorId status notes db =
     (case jm_get (pd_refunds db) rid of
        None \<Rightarrow> (Inl (PlainError ''Refund request not found.''), db)
      | Some r \<Rightarrow>
          and_then (validateTransition (rq_status r) status, db) (\<lambda>_ db.
            (let r' = r\<lparr>rq_status := status, rq_operatorId := Some operatorId,
                        rq_operatorNotes := (case notes of None \<Rightarrow> rq_operatorNotes r | Some n \<Rightarrow> Some n)\<rparr>;
                 db1 = db\<lparr>pd_refunds := jm_set (pd_refunds db) rid r'\<rparr>
             in and_then (if status = Approved then handleApproval rid (rq_paymentId r') db1 else (Inr (), db1))
                  (\<lambda>_ db2. (Inr r', db2\<lparr>pd_audit := pd_audit db2
                               @ [(operatorId, ''REFUND_'' @ refund_status_name status, rid)]\<rparr>)))))"

section \<open>The payment monitor\<close>

definition MAX_RETRIES :: int where
  "MAX_RETRIES = 5"

definition INITIAL_BACKOFF_MS :: int where
  "INITIAL_BACKOFF_MS = 60000"

text \<open>What the external check reports; it may also throw.\<close>

datatype external_status = ExtSuccess | ExtFailed | ExtPending | ExtError string

definition markAsFailed :: "string \<Rightarrow> string \<Rightarrow> payment_db \<Rightarrow> payment_db" where
  "markAsFailed pid reason db =
     (case row_update (pd_payments db) pid (\<lambda>p. p\<lparr>py_status := PsFailed, py_lastError := Some reason\<rparr>) of
        Inl e \<Rightarrow> db | Inr t \<Rightarrow> db\<lparr>pd_payments := t\<rparr>)"

definition handleRetry :: "string \<Rightarrow> payment \<Rightarrow> string option \<Rightarrow> int \<Rightarrow> int \<Rightarrow> payment_db \<Rightarrow> payment_db" where
  "handleRetry pid p err now jitter db =
     (let retryCount = py_retryCount p + 1
      in if retryCount \<ge> MAX_RETRIES
         then (case row_update (pd_payments db) pid (\<lambda>p. p\<lparr>py_status := PsDeadLetter,
                       py_lastError := Some (case err of None \<Rightarrow> ''Max retries exceeded.''
                         | Some e \<Rightarrow> if e = [] then ''Max retries exceeded.'' else e)\<rparr>) of
                 Inl e \<Rightarrow> db | Inr t \<Rightarrow> db\<lparr>pd_payments := t\<rparr>)
         else (case row_update (pd_payments db) pid (\<lambda>q. q\<lparr>py_retryCount := retryCount,
                       py_nextRetryAt := Some (now + INITIAL_BACKOFF_MS * 2 ^ nat (retryCount - 1) + jitter),
                       py_lastError := (case err of None \<Rightarrow> py_lastError q | Some e \<Rightarrow> Some e)\<rparr>) of
                 Inl e \<Rightarrow> db | Inr t \<Rightarrow> db\<lparr>pd_payments := t\<rparr>))"

definition reconcilePayment ::
  "string \<Rightarrow> payment \<Rightarrow> external_status \<Rightarrow> int \<Rightarrow> int \<Rightarrow> payment_db \<Rightarrow> payment_db" where
  "reconcilePayment pid p ext now jitter db =
     (case py_txHash p of
        None \<Rightarrow> markAsFailed pid ''Missing transaction hash.'' db
      | Some h \<Rightarrow>
          if h = [] then markAsFailed pid ''Missing transaction hash.'' db
          else (case ext of
                  ExtSuccess \<Rightarrow>
                    (case row_update (pd_payments db) pid (\<lambda>p. p\<lparr>py_status := PsCompleted\<rparr>) of
                       Inl e \<Rightarrow> db | Inr t \<Rightarrow> db\<lparr>pd_payments := t\<rparr>)
                | ExtFailed \<Rightarrow> markAsFailed pid ''External transaction failed.'' db
                | ExtPending \<Rightarrow> handleRetry pid p None now jitter db
                | ExtError msg \<Rightarrow> handleRetry pid p (Some msg) now jitter db))"

text \<open>
  One poll: at most fifty due payments, in the order \<open>pick\<close> the database chooses; \<open>ext\<close> gives the
  external status of a payment and \<open>jitter\<close> its random delay.
\<close>

definition is_due :: "int \<Rightarrow> payment \<Rightarrow> bool" where
  "is_due now p \<longleftrightarrow> py_status p = PsPending \<and>
     (case py_nextRetryAt p of None \<Rightarrow> True | Some t \<Rightarrow> t \<le> now)"

definition processPendingPayments ::
  "((string \<times> payment) list \<Rightarrow> (string \<times> payment) list) \<Rightarrow> (string \<Rightarrow> external_status) \<Rightarrow> (string \<Rightarrow> int)
     \<Rightarrow> int \<Rightarrow> payment_db \<Rightarrow> payment_db" where
  "processPendingPayments pick ext jitter now db =
     foldl (\<lambda>d (pid, p). reconcilePayment pid p (ext pid) now (jitter pid) d) db
       (take 50 (pick (filter (\<lambda>(pid, p). is_due now p) (pd_payments db))))"

section \<open>The life of a refund request\<close>

text \<open>The changes of status that can be seen from outside: an approval is processed at once.\<close>

inductive refund_step :: "refund_status \<Rightarrow> refund_status \<Rightarrow> bool" where
  review: "refund_step Requested Reviewing"
| reject: "s \<in> {Requested, Reviewing} \<Longrightarrow> refund_step s RefundRejected"
| approve: "refund_step Reviewing Processed"

inductive_simps refund_step_simps [simp]:
  "refund_step Requested s" "refund_step Reviewing s" "refund_step Approved s" "refund_step RefundRejected s"
  "refund_step Processed s"

fun refund_rank :: "refund_status \<Rightarrow> nat" where
  "refund_rank Requested = 0"
| "refund_rank Reviewing = 1"
| "refund_rank Approved = 2"
| "refund_rank RefundRejected = 2"
| "refund_rank Processed = 2"

interpretation refunds: ranked_steps refund_step refund_rank
  by unfold_locales (auto elim: refund_step.cases)

text \<open>The operations on the two tables; payments are added by other parts of the server.\<close>

datatype payment_op =
    AddPayment string payment
  | CreateRefund string string string string
  | UpdateRefund string string refund_status "string option"
  | Poll "(string \<times> payment) list \<Rightarrow> (string \<times> payment) list" "string \<Rightarrow> external_status" "string \<Rightarrow> int" int

fun payment_exec :: "payment_db \<Rightarrow> payment_op \<Rightarrow> payment_db" where
  "payment_exec db (AddPayment pid p) = db\<lparr>pd_payments := jm_set (pd_payments db) pid p\<rparr>"
| "payment_exec db (CreateRefund i pid a r) = snd (createRequest i pid a r db)"
| "payment_exec db (UpdateRefund i op st n) = snd (updateStatus i op st n db)"
| "payment_exec db (Poll pick ext jitter now) = processPendingPayments pick ext jitter now db"

fun payment_op_ok :: "payment_db \<Rightarrow> payment_op \<Rightarrow> bool" where
  "payment_op_ok db (AddPayment pid p) = (jm_get (pd_payments db) pid = None)"
| "payment_op_ok db (CreateRefund i pid a r) = (jm_get (pd_refunds db) i = None)"
| "payment_op_ok db (UpdateRefund i op st n) = True"
| "payment_op_ok db (Poll pick ext jitter now) = (\<forall>xs. set (pick xs) \<subseteq> set xs)"

definition empty_payments :: payment_db where
  "empty_payments = \<lparr>pd_payments = jm_empty, pd_refunds = jm_empty, pd_audit = []\<rparr>"

definition amount_within :: "refund_request \<Rightarrow> payment \<Rightarrow> bool" where
  "amount_within r p \<longleftrightarrow>
     (\<exists>a b. js_BigInt (rq_amount r) = Inr a \<and> js_BigInt (py_amount p) = Inr b \<and> a \<le> b)"

definition refund_ok :: "payment_db \<Rightarrow> refund_request \<Rightarrow> bool" where
  "refund_ok db r \<longleftrightarrow> rq_status r \<noteq> Approved \<and>
     (\<exists>p. jm_get (pd_payments db) (rq_paymentId r) = Some p \<and> amount_within r p \<and>
          (rq_status r = Processed \<longrightarrow> py_status p = PsRefunded))"

definition payments_inv :: "payment_db \<Rightarrow> bool" where
  "payments_inv db \<longleftrightarrow> jm_wf (pd_payments db) \<and>
     (\<forall>i r. jm_get (pd_refunds db) i = Some r \<longrightarrow> refund_ok db r)"

text \<open>
  A change of the payments that keeps amounts and refunded payments keeps the invariant.
\<close>

lemma payments_inv_mono:
  assumes "payments_inv db" and "jm_wf (pd_payments db')" and "pd_refunds db' = pd_refunds db"
    and "\<And>i p. jm_get (pd_payments db) i = Some p \<Longrightarrow> \<exists>p'. jm_get (pd_payments db') i = Some p' \<and>
           py_amount p' = py_amount p \<and> (py_status p = PsRefunded \<longrightarrow> py_status p' = PsRefunded)"
  shows "payments_inv db'"
  unfolding payments_inv_def
proof (intro conjI allI impI)
  fix i r
  assume "jm_get (pd_refunds db') i = Some r"
  with assms(1,3) obtain p where "rq_status r \<noteq> Approved" "jm_get (pd_payments db) (rq_paymentId r) = Some p"
    "amount_within r p" "rq_status r = Processed \<longrightarrow> py_status p = PsRefunded"
    by (auto simp: payments_inv_def refund_ok_def)
  with assms(4) [of "rq_paymentId r" p] show "refund_ok db' r"
    by (auto simp: refund_ok_def amount_within_def)
qed (rule assms(2))

text \<open>Reconciling touches one payment and only its status and retry data.\<close>

lemma reconcilePayment_frame:
  "pd_refunds (reconcilePayment pid p ext now j db) = pd_refunds db"
  "jm_wf (pd_payments db) \<Longrightarrow> jm_wf (pd_payments (reconcilePayment pid p ext now j db))"
  "jm_get (pd_payments db) i = Some q \<Longrightarrow>
     \<exists>q'. jm_get (pd_payments (reconcilePayment pid p ext now j db)) i = Some q' \<and> py_amount q' = py_amount q \<and>
       (i \<noteq> pid \<longrightarrow> q' = q) \<and> (py_status q \<noteq> PsRefunded \<longrightarrow> py_status q' \<noteq> PsRefunded)"
  by (auto simp: reconcilePayment_def markAsFailed_def handleRetry_def Let_def row_update_def
      split: option.splits external_status.splits)

lemma reconcile_all:
  assumes "payments_inv db"
    and "\<And>pid p. (pid, p) \<in> set xs \<Longrightarrow> \<exists>q. jm_get (pd_payments db) pid = Some q \<and> py_status q \<noteq> PsRefunded"
  shows "payments_inv (foldl (\<lambda>d (pid, p). reconcilePayment pid p (ext pid) now (j pid) d) db xs)"
  using assms
proof (induction xs arbitrary: db)
  case (Cons x xs)
  obtain pid p where x: "x = (pid, p)" by fastforce
  let ?d = "reconcilePayment pid p (ext pid) now (j pid) db"
  from Cons.prems(2) [of pid p] x obtain q where q: "jm_get (pd_payments db) pid = Some q" "py_status q \<noteq> PsRefunded"
    by auto
  note frame = reconcilePayment_frame
    [where pid = pid and p = p and ext = "ext pid" and now = now and j = "j pid" and db = db]
  have "payments_inv ?d"
  proof (rule payments_inv_mono [OF Cons.prems(1)])
    show "jm_wf (pd_payments ?d)" using Cons.prems(1) frame(2) by (simp add: payments_inv_def)
    show "pd_refunds ?d = pd_refunds db" by (rule frame(1))
    show "\<exists>p'. jm_get (pd_payments ?d) i = Some p' \<and> py_amount p' = py_amount p \<and>
        (py_status p = PsRefunded \<longrightarrow> py_status p' = PsRefunded)" if "jm_get (pd_payments db) i = Some p" for i p
      using frame(3) [OF that] that q by (cases "i = pid") auto
  qed
  moreover have "\<exists>q. jm_get (pd_payments ?d) i = Some q \<and> py_status q \<noteq> PsRefunded" if "(i, r) \<in> set xs" for i r
    using Cons.prems(2) [of i r] that frame(3) by (auto simp: x)
  ultimately show ?case using Cons.IH by (simp add: x)
qed simp

lemma payments_inv_poll:
  assumes inv: "payments_inv db" and pick: "\<forall>xs. set (pick xs) \<subseteq> set xs"
  shows "payments_inv (processPendingPayments pick ext j now db)"
  unfolding processPendingPayments_def
proof (rule reconcile_all [OF inv])
  fix pid p
  assume "(pid, p) \<in> set (take 50 (pick (filter (\<lambda>(pid, p). is_due now p) (pd_payments db))))"
  then have "(pid, p) \<in> set (filter (\<lambda>(pid, p). is_due now p) (pd_payments db))"
    using pick by (blast dest: in_set_takeD)
  then have "(pid, p) \<in> set (pd_payments db)" "is_due now p" by auto
  with inv show "\<exists>q. jm_get (pd_payments db) pid = Some q \<and> py_status q \<noteq> PsRefunded"
    by (auto simp: payments_inv_def jm_wf_def jm_get_def is_due_def intro!: exI [of _ p])
qed

lemma payments_inv_create:
  assumes "payments_inv db" and "jm_get (pd_refunds db) i = None"
  shows "payments_inv (snd (createRequest i pid a r db))"
  using assms
  by (auto simp: createRequest_def and_then_def Let_def payments_inv_def refund_ok_def amount_within_def
      split: option.splits sum.splits)

text \<open>A status update that succeeds moves the request one step and leaves all other requests alone.\<close>

lemma updateStatus_cases:
  assumes inv: "payments_inv db" and eq: "updateStatus i op st n db = (res, db')"
  obtains (refused) e where "res = Inl e" "db' = db"
  | (moved) r r' where "jm_get (pd_refunds db) i = Some r" "rq_amount r' = rq_amount r"
      "rq_paymentId r' = rq_paymentId r" "refund_step (rq_status r) (rq_status r')"
      "pd_refunds db' = jm_set (pd_refunds db) i r'" "st \<noteq> Approved" "rq_status r' = st"
      "pd_payments db' = pd_payments db" "rq_status r' \<noteq> Processed"
  | (paid) r r' p where "jm_get (pd_refunds db) i = Some r" "rq_amount r' = rq_amount r"
      "rq_paymentId r' = rq_paymentId r" "refund_step (rq_status r) Processed" "rq_status r' = Processed"
      "pd_refunds db' = jm_set (pd_refunds db) i r'" "st = Approved"
      "jm_get (pd_payments db) (rq_paymentId r) = Some p"
      "pd_payments db' = jm_set (pd_payments db) (rq_paymentId r) (p\<lparr>py_status := PsRefunded\<rparr>)"
proof (cases "jm_get (pd_refunds db) i")
  case None
  with eq show thesis by (intro refused) (auto simp: updateStatus_def)
next
  case (Some r)
  with inv obtain p where p: "jm_get (pd_payments db) (rq_paymentId r) = Some p" and na: "rq_status r \<noteq> Approved"
    by (auto simp: payments_inv_def refund_ok_def)
  show thesis
  proof (cases "st \<in> set (refund_transitions (rq_status r))")
    case False
    with eq Some show thesis by (intro refused) (auto simp: updateStatus_def validateTransition_def)
  next
    case True
    let ?r = "r\<lparr>rq_status := st, rq_operatorId := Some op,
        rq_operatorNotes := (case n of None \<Rightarrow> rq_operatorNotes r | Some n \<Rightarrow> Some n)\<rparr>"
    show thesis
    proof (cases "st = Approved")
      case st: False
      with True eq Some na show thesis
        by (intro moved [of r ?r]; cases "rq_status r")
          (auto simp: updateStatus_def validateTransition_def Let_def)
    next
      case st: True
      with True eq Some na p show thesis
        by (intro paid [of r "?r\<lparr>rq_status := Processed\<rparr>" p]; cases "rq_status r")
          (auto simp: updateStatus_def validateTransition_def handleApproval_def row_update_def Let_def)
    qed
  qed
qed

lemma payments_inv_update:
  assumes inv: "payments_inv db"
  shows "payments_inv (snd (updateStatus i op st n db))"
proof -
  obtain res db' where eq: "updateStatus i op st n db = (res, db')" by fastforce
  from inv eq have "payments_inv db'"
  proof (cases rule: updateStatus_cases)
    case (refused e)
    with inv show ?thesis by simp
  next
    case (moved r r')
    with inv have "refund_ok db r" by (simp add: payments_inv_def)
    with moved have "refund_ok db r'" by (auto simp: refund_ok_def amount_within_def)
    with inv moved(5,8) show ?thesis by (simp add: payments_inv_def refund_ok_def)
  next
    case (paid r r' p)
    then have upd: "\<exists>q'. jm_get (pd_payments db') k = Some q' \<and> py_amount q' = py_amount q \<and>
        (py_status q = PsRefunded \<longrightarrow> py_status q' = PsRefunded)" if "jm_get (pd_payments db) k = Some q" for k q
      using that by (cases "k = rq_paymentId r") auto
    from inv paid have "payments_inv (db'\<lparr>pd_refunds := pd_refunds db\<rparr>)"
      by (intro payments_inv_mono [OF inv]) (use upd in \<open>auto simp: payments_inv_def\<close>)
    moreover from inv paid(1) have "refund_ok db r" by (simp add: payments_inv_def)
    with paid have "refund_ok db' r'" by (auto simp: refund_ok_def amount_within_def)
    ultimately show ?thesis using paid(6) by (simp add: payments_inv_def refund_ok_def)
  qed
  with eq show ?thesis by simp
qed

lemma payments_step_inv:
  assumes "payments_inv db" and "payment_op_ok db x"
  shows "payments_inv (payment_exec db x)"
proof (cases x)
  case (AddPayment pid p)
  with assms have new: "jm_get (pd_payments db) pid = None" by simp
  show ?thesis
    using assms(1) AddPayment new
    by (intro payments_inv_mono [OF assms(1)]) (auto simp: payments_inv_def)
qed (use assms in \<open>auto simp: payments_inv_create payments_inv_update payments_inv_poll\<close>)

interpretation payments: invariant_machine empty_payments payment_exec payment_op_ok payments_inv
  by unfold_locales (auto simp: payments_step_inv, simp add: payments_inv_def empty_payments_def)

lemma request_step:
  assumes inv: "payments_inv db" and ok: "payment_op_ok db x" and r: "jm_get (pd_refunds db) i = Some r"
  shows "\<exists>r'. jm_get (pd_refunds (payment_exec db x)) i = Some r' \<and> rq_amount r' = rq_amount r \<and>
           rq_paymentId r' = rq_paymentId r \<and> (r' = r \<or> refund_step (rq_status r) (rq_status r'))"
proof (cases x)
  case (AddPayment pid p)
  with r show ?thesis by simp
next
  case (CreateRefund k pid a rs)
  with r ok have "k \<noteq> i" by auto
  with CreateRefund r show ?thesis
    by (auto simp: createRequest_def and_then_def Let_def split: option.splits sum.splits)
next
  case (Poll pick ext j now)
  have "pd_refunds (foldl (\<lambda>d (pid, p). reconcilePayment pid p (ext pid) now (j pid) d) d xs) = pd_refunds d" for d xs
    by (induction xs arbitrary: d) (auto simp: reconcilePayment_frame)
  with Poll r show ?thesis by (simp add: processPendingPayments_def)
next
  case (UpdateRefund k op st n)
  obtain res db' where eq: "updateStatus k op st n db = (res, db')" by fastforce
  from inv eq show ?thesis
    by (cases rule: updateStatus_cases) (use r UpdateRefund eq in auto)
qed

lemma request_run:
  assumes "payments_inv db" and "allowed_run payment_exec payment_op_ok db es"
    and "jm_get (pd_refunds db) i = Some r"
  shows "\<exists>r'. jm_get (pd_refunds (foldl payment_exec db es)) i = Some r' \<and> rq_amount r' = rq_amount r \<and>
           rq_paymentId r' = rq_paymentId r \<and> refund_step\<^sup>*\<^sup>* (rq_status r) (rq_status r') \<and>
           (rq_status r' = rq_status r \<longrightarrow> r' = r)"
  using assms
proof (induction es arbitrary: db r)
  case (Cons x es)
  then have ok: "payment_op_ok db x" "allowed_run payment_exec payment_op_ok (payment_exec db x) es" by auto
  from request_step [OF Cons.prems(1) ok(1) Cons.prems(3)] obtain r1 where
    r1: "jm_get (pd_refunds (payment_exec db x)) i = Some r1" "rq_amount r1 = rq_amount r"
      "rq_paymentId r1 = rq_paymentId r" "r1 = r \<or> refund_step (rq_status r) (rq_status r1)" by blast
  from Cons.IH [OF payments_step_inv [OF Cons.prems(1) ok(1)] ok(2) r1(1)] obtain r' where
    r': "jm_get (pd_refunds (foldl payment_exec (payment_exec db x) es)) i = Some r'" "rq_amount r' = rq_amount r1"
      "rq_paymentId r' = rq_paymentId r1" "refund_step\<^sup>*\<^sup>* (rq_status r1) (rq_status r')"
      "rq_status r' = rq_status r1 \<longrightarrow> r' = r1" by blast
  show ?case
  proof (cases "r1 = r")
    case True
    with r' show ?thesis by auto
  next
    case False
    with r1 have step: "refund_step (rq_status r) (rq_status r1)" by blast
    from refunds.climbs [OF step] refunds.star_climbs [OF r'(4)] have "rq_status r' \<noteq> rq_status r" by auto
    with r1 r' step show ?thesis by (auto intro: converse_rtranclp_into_rtranclp)
  qed
qed auto

section \<open>Retries\<close>

text \<open>One reconciliation of a payment that is still pending, with the row as the database has it.\<close>

definition reconcile_again :: "string \<Rightarrow> payment_db \<Rightarrow> external_status \<times> int \<times> int \<Rightarrow> payment_db" where
  "reconcile_again pid db x =
     (case x of (ext, now, jitter) \<Rightarrow>
        case jm_get (pd_payments db) pid of
          None \<Rightarrow> db
        | Some p \<Rightarrow> if py_status p = PsPending then reconcilePayment pid p ext now jitter db else db)"

definition undecided :: "external_status \<Rightarrow> bool" where
  "undecided ext \<longleftrightarrow> ext \<noteq> ExtSuccess \<and> ext \<noteq> ExtFailed"

definition retry_state :: "payment \<Rightarrow> (external_status \<times> int \<times> int) list \<Rightarrow> payment \<Rightarrow> bool" where
  "retry_state p xs q \<longleftrightarrow> py_txHash q = py_txHash p \<and>
     (if length xs < 5
      then py_status q = PsPending \<and> py_retryCount q = int (length xs) \<and>
           py_nextRetryAt q = (if xs = [] then py_nextRetryAt p
             else Some (fst (snd (last xs)) + 60000 * 2 ^ (length xs - 1) + snd (snd (last xs))))
      else py_status q = PsDeadLetter)"

lemma retry_state_step:
  assumes "retry_state p xs q" and "py_txHash p = Some h" and "h \<noteq> []" and "undecided ext"
    and "jm_get (pd_payments db) pid = Some q"
  shows "\<exists>q'. jm_get (pd_payments (reconcile_again pid db (ext, now, j))) pid = Some q' \<and>
           retry_state p (xs @ [(ext, now, j)]) q'"
proof (cases "length xs < 5")
  case False
  with assms show ?thesis by (auto simp: retry_state_def reconcile_again_def)
next
  case True
  let ?err = "(case ext of ExtError m \<Rightarrow> Some m | _ \<Rightarrow> None)"
  from True assms have q: "py_status q = PsPending" "py_retryCount q = int (length xs)" "py_txHash q = Some h"
    by (auto simp: retry_state_def)
  with assms have eq: "reconcile_again pid db (ext, now, j) = handleRetry pid q ?err now j db"
    by (cases ext) (auto simp: reconcile_again_def reconcilePayment_def undecided_def)
  show ?thesis
    using q True assms(2,5) unfolding eq
    by (auto simp: handleRetry_def Let_def row_update_def retry_state_def MAX_RETRIES_def INITIAL_BACKOFF_MS_def)
qed

section \<open>Properties\<close>


definition demo_payment :: payment where
  "demo_payment = \<lparr>py_amount = ''100'', py_status = PsPending, py_txHash = Some ''tx'', py_retryCount = 0,
     py_nextRetryAt = None, py_lastError = None\<rparr>"

definition demo_refunds :: "payment_op list" where
  "demo_refunds = [AddPayment ''p'' demo_payment, CreateRefund ''r'' ''p'' ''60'' ''late'',
     UpdateRefund ''r'' ''op'' Reviewing None]"


text \<open>
  A payment can be refunded twice. The amount of a request is compared with the payment alone,
  not with what is refunded already: two requests for the full amount can both be processed.
\<close>

theorem refunds_exceed_payment:
  assumes "jm_get (pd_payments db) pid = Some p" and "js_BigInt (py_amount p) = Inr n" and "0 < n"
    and "jm_get (pd_refunds db) i = None" and "jm_get (pd_refunds db) j = None" and "i \<noteq> j"
  shows "let db' = foldl payment_exec db
             [CreateRefund i pid (py_amount p) w, CreateRefund j pid (py_amount p) w,
              UpdateRefund i op Reviewing None, UpdateRefund i op Approved None,
              UpdateRefund j op Reviewing None, UpdateRefund j op Approved None]
         in (\<forall>k \<in> {i, j}. \<exists>r. jm_get (pd_refunds db') k = Some r \<and> rq_paymentId r = pid \<and>
               rq_status r = Processed \<and> js_BigInt (rq_amount r) = Inr n)"
  using assms
  by (simp add: createRequest_def updateStatus_def validateTransition_def handleApproval_def row_update_def Let_def)

theorem refunds_exceed_payment_witness:
  "let db = foldl payment_exec empty_payments [AddPayment ''p'' demo_payment];
       db' = foldl payment_exec db
             [CreateRefund ''i'' ''p'' ''100'' ''w'', CreateRefund ''j'' ''p'' ''100'' ''w'',
              UpdateRefund ''i'' ''o'' Reviewing None, UpdateRefund ''i'' ''o'' Approved None,
              UpdateRefund ''j'' ''o'' Reviewing None, UpdateRefund ''j'' ''o'' Approved None]
   in \<forall>k \<in> {''i'', ''j''}. \<exists>r. jm_get (pd_refunds db') k = Some r \<and> rq_status r = Processed \<and>
        js_BigInt (rq_amount r) = Inr 100"
proof -
  let ?db = "foldl payment_exec empty_payments [AddPayment ''p'' demo_payment]"
  have p: "jm_get (pd_payments ?db) ''p'' = Some demo_payment" by code_simp
  have n: "js_BigInt (py_amount demo_payment) = Inr 100" by code_simp
  have i: "jm_get (pd_refunds ?db) ''i'' = None" and j: "jm_get (pd_refunds ?db) ''j'' = None" by code_simp+
  have a: "py_amount demo_payment = ''100''" by code_simp
  from refunds_exceed_payment [OF p n _ i j, of "''w''" "''o''"] show ?thesis
    unfolding a Let_def by auto
qed

text \<open>
  C17. Retries of a payment end. A payment whose external status stays open is looked at five times:
  after \<open>n < 5\<close> looks it is pending with count \<open>n\<close> and due one minute times \<open>2\<^sup>n\<^sup>-\<^sup>1\<close> plus jitter after
  the last one, from the fifth look on it is a dead letter and never changes again.
\<close>

theorem payment_retries_end:
  assumes "jm_get (pd_payments db) pid = Some p" and "py_status p = PsPending" and "py_retryCount p = 0"
    and "py_txHash p = Some h" and "h \<noteq> []" and "\<forall>(ext, now, j) \<in> set xs. undecided ext"
  shows "\<exists>q. jm_get (pd_payments (foldl (reconcile_again pid) db xs)) pid = Some q \<and>
           (if length xs < 5
            then py_status q = PsPending \<and> py_retryCount q = int (length xs) \<and>
                 (xs \<noteq> [] \<longrightarrow> py_nextRetryAt q
                    = Some (fst (snd (last xs)) + 60000 * 2 ^ (length xs - 1) + snd (snd (last xs))))
            else py_status q = PsDeadLetter)"
proof -
  have "\<exists>q. jm_get (pd_payments (foldl (reconcile_again pid) db xs)) pid = Some q \<and> retry_state p xs q"
    using assms(6)
  proof (induction xs rule: rev_induct)
    case Nil
    from assms(1-3) show ?case by (simp add: retry_state_def)
  next
    case (snoc x xs)
    obtain ext now j where x: "x = (ext, now, j)" by (cases x)
    from snoc obtain q where "jm_get (pd_payments (foldl (reconcile_again pid) db xs)) pid = Some q"
      "retry_state p xs q" by auto
    from retry_state_step [OF this(2) assms(4,5) _ this(1)] snoc.prems show ?case by (simp add: x)
  qed
  then show ?thesis by (auto simp: retry_state_def)
qed

theorem payment_retries_end_witness:
  "let db = foldl payment_exec empty_payments [AddPayment ''p'' demo_payment];
       xs = [(ExtPending, 0, 100), (ExtError ''timeout'', 60100, 0)]
   in \<exists>q. jm_get (pd_payments (foldl (reconcile_again ''p'') db xs)) ''p'' = Some q \<and>
        py_retryCount q = 2 \<and> py_nextRetryAt q = Some (60100 + 60000 * 2)"
proof -
  let ?db = "foldl payment_exec empty_payments [AddPayment ''p'' demo_payment]"
  let ?xs = "[(ExtPending, 0, 100), (ExtError ''timeout'', 60100, 0)]"
  have p: "jm_get (pd_payments ?db) ''p'' = Some demo_payment" by code_simp
  from payment_retries_end [OF p, of "''tx''" ?xs] show ?thesis
    unfolding Let_def by (auto simp: demo_payment_def undecided_def)
qed

end
