(* ===== verification/Governance.thy ===== *)
theory Governance
  imports Stores
begin

text \<open>
  Multisig proposals, \<^verbatim>\<open>server/src/services/governance.service.ts\<close>: a proposal is drafted, put to the vote,
  approved by the third vote and executed. Votes are unique per proposal and voter. A vote runs in a
  database transaction; ids and times are arguments.

  Shown: nothing is approved or executed without three different voters, a voter counts once, and a
  proposal that was executed can be put to the vote and executed again.
\<close>

section \<open>Model\<close>

datatype proposal_status = PDraft | PVoting | PApproved | PExecuted | PCancelled | PFailed

record proposal =
  pr_targetContract :: string
  pr_functionName :: string
  pr_description :: "string option"
  pr_status :: proposal_status
  pr_proposerId :: string
  pr_executedAt :: "int option"

record vote =
  vo_proposalId :: string
  vo_voterId :: string
  vo_signature :: "string option"

record governance_db =
  gv_proposals :: "(string, proposal) jsmap"
  gv_votes :: "vote list"

definition empty_governance :: governance_db where
  "empty_governance = \<lparr>gv_proposals = jm_empty, gv_votes = []\<rparr>"

definition createProposal ::
  "string \<Rightarrow> string \<Rightarrow> string \<Rightarrow> string \<Rightarrow> string option \<Rightarrow> governance_db \<Rightarrow> proposal \<times> governance_db" where
  "createProposal newId proposerId targetContract functionName description db =
     (let p = \<lparr>pr_targetContract = targetContract, pr_functionName = functionName,
               pr_description = description, pr_status = PDraft, pr_proposerId = proposerId,
               pr_executedAt = None\<rparr>
      in (p, db\<lparr>gv_proposals := jm_set (gv_proposals db) newId p\<rparr>))"

definition update_proposal ::
  "string \<Rightarrow> (proposal \<Rightarrow> proposal) \<Rightarrow> governance_db \<Rightarrow> (proposal \<times> governance_db) result" where
  "update_proposal pid f db =
     (case jm_get (gv_proposals db) pid of
        None \<Rightarrow> Inl (PrismaError ''P2025'')
      | Some p \<Rightarrow> Inr (f p, db\<lparr>gv_proposals := jm_set (gv_proposals db) pid (f p)\<rparr>))"

definition startVoting :: "string \<Rightarrow> governance_db \<Rightarrow> (proposal \<times> governance_db) result" where
  "startVoting pid db = update_proposal pid (\<lambda>p. p\<lparr>pr_status := PVoting\<rparr>) db"

definition votes_on :: "string \<Rightarrow> governance_db \<Rightarrow> vote list" where
  "votes_on pid db = filter (\<lambda>v. vo_proposalId v = pid) (gv_votes db)"

text \<open>
  A vote for a proposal that does not exist violates the foreign key of the vote, so the missing
  proposal is never reached by the later test.
\<close>

definition voteOnProposal ::
  "string \<Rightarrow> string \<Rightarrow> string option \<Rightarrow> governance_db \<Rightarrow> (proposal \<times> governance_db) result" where
  "voteOnProposal pid voterId signature db =
     (if list_ex (\<lambda>v. vo_voterId v = voterId) (votes_on pid db)
      then Inl (PlainError ''User has already voted on this proposal'')
      else if jm_get (gv_proposals db) pid = None then Inl (PrismaError ''P2003'')
      else
        (let db1 = db\<lparr>gv_votes := gv_votes db
                        @ [\<lparr>vo_proposalId = pid, vo_voterId = voterId, vo_signature = signature\<rparr>]\<rparr>;
             voteCount = length (votes_on pid db1)
         in case jm_get (gv_proposals db1) pid of
              None \<Rightarrow> Inl (PlainError ''Proposal not found'')
            | Some p \<Rightarrow>
                if voteCount \<ge> 3 \<and> pr_status p = PVoting
                then update_proposal pid (\<lambda>p. p\<lparr>pr_status := PApproved\<rparr>) db1
                else Inr (p, db1)))"

definition executeProposal :: "string \<Rightarrow> int \<Rightarrow> governance_db \<Rightarrow> (proposal \<times> governance_db) result" where
  "executeProposal pid now db =
     (case jm_get (gv_proposals db) pid of
        None \<Rightarrow> Inl (PlainError ''Proposal must be APPROVED to be executed'')
      | Some p \<Rightarrow>
          if pr_status p \<noteq> PApproved then Inl (PlainError ''Proposal must be APPROVED to be executed'')
          else update_proposal pid (\<lambda>p. p\<lparr>pr_status := PExecuted, pr_executedAt := Some now\<rparr>) db)"

definition getProposal :: "string \<Rightarrow> governance_db \<Rightarrow> (proposal \<times> vote list) option" where
  "getProposal pid db = map_option (\<lambda>p. (p, votes_on pid db)) (jm_get (gv_proposals db) pid)"

section \<open>Runs\<close>

datatype governance_op =
    CreateProposal string string string string "string option"
  | StartVoting string
  | VoteOn string string "string option"
  | Execute string int

fun governance_exec :: "governance_db \<Rightarrow> governance_op \<Rightarrow> governance_db" where
  "governance_exec db (CreateProposal i p c f d) = snd (createProposal i p c f d db)"
| "governance_exec db (StartVoting i) = (case startVoting i db of Inl e \<Rightarrow> db | Inr (p, db') \<Rightarrow> db')"
| "governance_exec db (VoteOn i v s) = (case voteOnProposal i v s db of Inl e \<Rightarrow> db | Inr (p, db') \<Rightarrow> db')"
| "governance_exec db (Execute i now) = (case executeProposal i now db of Inl e \<Rightarrow> db | Inr (p, db') \<Rightarrow> db')"

text \<open>Ids of new proposals are new.\<close>

fun governance_ok :: "governance_db \<Rightarrow> governance_op \<Rightarrow> bool" where
  "governance_ok db (CreateProposal i p c f d) = (jm_get (gv_proposals db) i = None)"
| "governance_ok db _ = True"

definition voters_on :: "string \<Rightarrow> governance_db \<Rightarrow> string list" where
  "voters_on pid db = map vo_voterId (votes_on pid db)"

definition decided :: "proposal \<Rightarrow> bool" where
  "decided p \<longleftrightarrow> pr_status p = PApproved \<or> pr_status p = PExecuted \<or> pr_executedAt p \<noteq> None"

definition governance_inv :: "governance_db \<Rightarrow> bool" where
  "governance_inv db \<longleftrightarrow> (\<forall>i. distinct (voters_on i db)) \<and>
     (\<forall>i p. jm_get (gv_proposals db) i = Some p \<longrightarrow> decided p \<longrightarrow> 3 \<le> length (voters_on i db))"

lemma voters_on_add:
  "voters_on i (db\<lparr>gv_votes := gv_votes db @ [v]\<rparr>)
     = voters_on i db @ (if vo_proposalId v = i then [vo_voterId v] else [])"
  by (simp add: voters_on_def votes_on_def)

lemma voters_on_proposals [simp]: "voters_on i (db\<lparr>gv_proposals := ps\<rparr>) = voters_on i db"
  by (simp add: voters_on_def votes_on_def)

lemma governance_invD:
  "governance_inv db \<Longrightarrow> jm_get (gv_proposals db) i = Some p \<Longrightarrow> decided p \<Longrightarrow> 3 \<le> length (voters_on i db)"
  unfolding governance_inv_def by blast

lemma governance_inv_update:
  assumes inv: "governance_inv db" and upd: "update_proposal pid f db = Inr (p, db')"
    and dec: "\<And>p. jm_get (gv_proposals db) pid = Some p \<Longrightarrow> decided (f p) \<Longrightarrow> 3 \<le> length (voters_on pid db)"
  shows "governance_inv db'"
proof -
  from upd obtain q where q: "jm_get (gv_proposals db) pid = Some q"
    "db' = db\<lparr>gv_proposals := jm_set (gv_proposals db) pid (f q)\<rparr>"
    by (auto simp: update_proposal_def split: option.splits)
  with inv dec [OF q(1)] show ?thesis by (simp add: governance_inv_def)
qed

lemma governance_inv_vote:
  assumes inv: "governance_inv db" and vote: "voteOnProposal pid who sig db = Inr (p, db')"
  shows "governance_inv db'"
proof -
  let ?v = "\<lparr>vo_proposalId = pid, vo_voterId = who, vo_signature = sig\<rparr>"
  let ?db = "db\<lparr>gv_votes := gv_votes db @ [?v]\<rparr>"
  from vote have new: "who \<notin> set (voters_on pid db)"
    by (auto simp: voteOnProposal_def voters_on_def list_ex_iff split: if_splits)
  have "3 \<le> length (voters_on i ?db)" if "jm_get (gv_proposals db) i = Some q" "decided q" for i q
    using governance_invD [OF inv that] by (simp add: voters_on_add)
  with inv new have mid: "governance_inv ?db" by (simp add: governance_inv_def voters_on_add)
  show ?thesis
  proof (cases "length (votes_on pid ?db) \<ge> 3 \<and> db' \<noteq> ?db")
    case True
    with vote have "update_proposal pid (\<lambda>p. p\<lparr>pr_status := PApproved\<rparr>) ?db = Inr (p, db')"
      by (auto simp: voteOnProposal_def Let_def split: if_splits option.splits)
    with mid True show ?thesis by (auto simp: voters_on_def intro: governance_inv_update)
  next
    case False
    with vote have "db' = ?db"
      by (auto simp: voteOnProposal_def Let_def split: if_splits option.splits)
    with mid show ?thesis by simp
  qed
qed

interpretation governance: invariant_machine empty_governance governance_exec governance_ok governance_inv
proof unfold_locales
  show "governance_inv empty_governance"
    by (simp add: governance_inv_def empty_governance_def voters_on_def votes_on_def)
  show "governance_inv (governance_exec db x)" if inv: "governance_inv db" and "governance_ok db x" for db x
  proof (cases x)
    case (CreateProposal i p c f d)
    with inv show ?thesis by (auto simp: governance_inv_def createProposal_def Let_def)
      (simp add: decided_def)
  next
    case (StartVoting i)
    have "governance_inv db'" if "startVoting i db = Inr (p, db')" for p db'
      using inv that unfolding startVoting_def
    proof (rule governance_inv_update)
      show "3 \<le> length (voters_on i db)"
        if "jm_get (gv_proposals db) i = Some p" "decided (p\<lparr>pr_status := PVoting\<rparr>)" for p
        using governance_invD [OF inv that(1)] that(2) by (simp add: decided_def)
    qed
    with StartVoting inv show ?thesis by (auto split: sum.splits prod.splits)
  next
    case (VoteOn i v s)
    with inv show ?thesis by (auto split: sum.splits prod.splits intro: governance_inv_vote)
  next
    case (Execute i now)
    have "governance_inv db'" if "executeProposal i now db = Inr (p, db')" for p db'
    proof -
      from that obtain q where q: "jm_get (gv_proposals db) i = Some q" "pr_status q = PApproved"
        and upd: "update_proposal i (\<lambda>p. p\<lparr>pr_status := PExecuted, pr_executedAt := Some now\<rparr>) db = Inr (p, db')"
        by (auto simp: executeProposal_def split: option.splits if_splits)
      from governance_invD [OF inv q(1)] q(2) show ?thesis
        by (intro governance_inv_update [OF inv upd]) (simp add: decided_def)
    qed
    with Execute inv show ?thesis by (auto split: sum.splits prod.splits)
  qed
qed

section \<open>Properties\<close>

text \<open>
  C18. Three different voters. In every state that can be reached, the voters of a proposal are
  pairwise different, and a proposal that is approved or executed, or ever was executed, has at least
  three of them.
\<close>

theorem approval_needs_three_voters:
  assumes "allowed_run governance_exec governance_ok empty_governance es"
    and "db = foldl governance_exec empty_governance es"
    and "jm_get (gv_proposals db) i = Some p"
  shows "distinct (voters_on i db) \<and>
         (pr_status p = PApproved \<or> pr_status p = PExecuted \<or> pr_executedAt p \<noteq> None
          \<longrightarrow> 3 \<le> card (set (voters_on i db)))"
proof -
  from governance.inv_reachable [OF assms(1)] have inv: "governance_inv db" by (simp add: assms(2))
  then have dist: "distinct (voters_on i db)" by (simp add: governance_inv_def)
  with governance_invD [OF inv assms(3)] show ?thesis
    by (auto simp: decided_def distinct_card)
qed

definition demo_votes :: "governance_op list" where
  "demo_votes = [CreateProposal ''p'' ''ann'' ''c'' ''f'' None, StartVoting ''p'', VoteOn ''p'' ''ann'' None,
     VoteOn ''p'' ''bob'' None, VoteOn ''p'' ''bob'' None, VoteOn ''p'' ''cid'' None, Execute ''p'' 9]"

theorem approval_needs_three_voters_witness:
  "let db = foldl governance_exec empty_governance demo_votes
   in map_option pr_status (jm_get (gv_proposals db) ''p'') = Some PExecuted \<and> 3 \<le> card (set (voters_on ''p'' db))"
proof -
  let ?db = "foldl governance_exec empty_governance demo_votes"
  let ?p = "the (jm_get (gv_proposals ?db) ''p'')"
  have run: "allowed_run governance_exec governance_ok empty_governance demo_votes" by code_simp
  have p: "jm_get (gv_proposals ?db) ''p'' = Some ?p" and st: "pr_status ?p = PExecuted" by code_simp+
  from approval_needs_three_voters [OF run refl p] st p show ?thesis
    unfolding Let_def by (metis option.simps(9))
qed

text \<open>
  Executing again. Starting the vote is possible from every status, although it is described as
  the step from draft to voting: an executed proposal goes back to voting, the next new voter
  approves it at once, and it is executed a second time.
\<close>

theorem executed_proposal_reopens:
  assumes "jm_get (gv_proposals db) i = Some p" and "pr_status p = PExecuted" and "3 \<le> length (voters_on i db)"
    and "who \<notin> set (voters_on i db)"
  shows "\<exists>p'. jm_get (gv_proposals (foldl governance_exec db [StartVoting i, VoteOn i who sig, Execute i now])) i
           = Some p' \<and> pr_status p' = PExecuted \<and> pr_executedAt p' = Some now"
proof -
  have novote: "\<not> list_ex (\<lambda>v. vo_voterId v = who) (votes_on i (db\<lparr>gv_proposals := ps\<rparr>))" for ps
    using assms(4) by (auto simp: voters_on_def votes_on_def list_ex_iff)
  have count: "3 \<le> Suc (length (votes_on i (db\<lparr>gv_proposals := ps\<rparr>)))" for ps
    using assms(3) by (simp add: voters_on_def votes_on_def)
  have add: "votes_on i (d\<lparr>gv_votes := gv_votes d @ [\<lparr>vo_proposalId = i, vo_voterId = who, vo_signature = sig\<rparr>]\<rparr>)
      = votes_on i d @ [\<lparr>vo_proposalId = i, vo_voterId = who, vo_signature = sig\<rparr>]" for d
    by (simp add: votes_on_def)
  from assms(1) novote count show ?thesis
    by (simp add: startVoting_def voteOnProposal_def executeProposal_def update_proposal_def Let_def
        add [of "db\<lparr>gv_proposals := ps\<rparr>" for ps, simplified])
qed

theorem executed_proposal_reopens_witness:
  "\<exists>p'. jm_get (gv_proposals (foldl governance_exec (foldl governance_exec empty_governance demo_votes)
           [StartVoting ''p'', VoteOn ''p'' ''dan'' None, Execute ''p'' 99])) ''p'' = Some p' \<and> pr_executedAt p' = Some 99"
proof -
  let ?db = "foldl governance_exec empty_governance demo_votes"
  let ?p = "the (jm_get (gv_proposals ?db) ''p'')"
  have p: "jm_get (gv_proposals ?db) ''p'' = Some ?p" and st: "pr_status ?p = PExecuted" by code_simp+
  have n: "3 \<le> length (voters_on ''p'' ?db)" by code_simp
  have d: "''dan'' \<notin> set (voters_on ''p'' ?db)" by code_simp
  from executed_proposal_reopens [OF p st n d, of None 99] show ?thesis by blast
qed

end
