(* ===== verification/Matches.thy ===== *)
theory Matches
  imports Stores "HOL-Library.Multiset"
begin

text \<open>
  Matches and disputes, \<^verbatim>\<open>server/src/services/match.service.ts\<close>. The first part is the queue that limits
  how many matches are created at the same time. Its code runs in pieces between two awaits, and each
  piece is one step of the relation \<open>mq_step\<close>: a request comes in, a creation in flight ends, or the
  loop over the queue wakes up after it has waited for the processor load to fall. The load is
  whatever the system reports, so every step allows any value. The lists of accepted, started and
  finished requests are history and do not influence the steps.

  The second part is the tables of matches and disputes; the two dispute operations are transactions.

  Shown: the limits of the queue hold in every reachable state, no accepted request is lost or
  overtaken, a waiting request can always be started, and what resolving a dispute does.
\<close>

section \<open>The creation queue\<close>

record match_request =
  mq_playerAId :: string
  mq_playerBId :: string
  mq_onChainId :: string
  mq_timestamp :: int

record mq_state =
  mq_queue :: "match_request list"
  mq_processing :: bool
  mq_active :: nat
  mq_running :: "match_request list"
  mq_accepted :: "match_request list"
  mq_started :: "match_request list"
  mq_finished :: "match_request list"

definition CONCURRENCY_LIMIT :: nat where
  "CONCURRENCY_LIMIT = 5"

definition mq_init :: mq_state where
  "mq_init = \<lparr>mq_queue = [], mq_processing = False, mq_active = 0, mq_running = [], mq_accepted = [],
     mq_started = [], mq_finished = []\<rparr>"

text \<open>Counting a request as active and sending it to the database.\<close>

definition start_request :: "match_request \<Rightarrow> mq_state \<Rightarrow> mq_state" where
  "start_request r s = s\<lparr>mq_active := mq_active s + 1, mq_running := mq_running s @ [r],
     mq_started := mq_started s @ [r]\<rparr>"

text \<open>
  The loop of \<^verbatim>\<open>processQueue\<close> up to its end or to the next wait. Loads are percentages.
\<close>

inductive drains :: "mq_state \<Rightarrow> mq_state \<Rightarrow> bool" where
  stop: "mq_queue s = [] \<or> mq_active s \<ge> CONCURRENCY_LIMIT \<Longrightarrow> drains s (s\<lparr>mq_processing := False\<rparr>)"
| busy: "mq_queue s \<noteq> [] \<Longrightarrow> mq_active s < CONCURRENCY_LIMIT \<Longrightarrow> (load :: int) > 95 \<Longrightarrow> drains s s"
| shift: "mq_queue s = r # q \<Longrightarrow> mq_active s < CONCURRENCY_LIMIT \<Longrightarrow> (load :: int) \<le> 95 \<Longrightarrow>
    drains (start_request r (s\<lparr>mq_queue := q\<rparr>)) s' \<Longrightarrow> drains s s'"

inductive processQueue :: "mq_state \<Rightarrow> mq_state \<Rightarrow> bool" where
  already: "mq_processing s \<Longrightarrow> processQueue s s"
| run: "\<not> mq_processing s \<Longrightarrow> drains (s\<lparr>mq_processing := True\<rparr>) s' \<Longrightarrow> processQueue s s'"

text \<open>The condition under which \<^verbatim>\<open>createMatch\<close> does not start the request itself.\<close>

definition must_queue :: "int \<Rightarrow> mq_state \<Rightarrow> bool" where
  "must_queue load s \<longleftrightarrow> load > 90 \<or> length (mq_queue s) > 0 \<or> mq_active s \<ge> CONCURRENCY_LIMIT"

inductive createMatch :: "match_request \<Rightarrow> mq_state \<Rightarrow> mq_state \<Rightarrow> bool" for r where
  overload: "must_queue load s \<Longrightarrow> length (mq_queue s) \<ge> 100 \<Longrightarrow> createMatch r s s"
| enqueue: "must_queue load s \<Longrightarrow> length (mq_queue s) < 100 \<Longrightarrow>
    processQueue (s\<lparr>mq_queue := mq_queue s @ [r], mq_accepted := mq_accepted s @ [r]\<rparr>) s' \<Longrightarrow>
    createMatch r s s'"
| direct: "\<not> must_queue load s \<Longrightarrow>
    createMatch r s (start_request r (s\<lparr>mq_accepted := mq_accepted s @ [r]\<rparr>))"

text \<open>Steps the service takes on its own: a creation ends, or the sleeping loop goes on.\<close>

inductive mq_internal :: "mq_state \<Rightarrow> mq_state \<Rightarrow> bool" where
  ended: "r \<in> set (mq_running s) \<Longrightarrow>
    processQueue (s\<lparr>mq_active := mq_active s - 1, mq_running := remove1 r (mq_running s),
                    mq_finished := mq_finished s @ [r]\<rparr>) s' \<Longrightarrow> mq_internal s s'"
| wake: "mq_processing s \<Longrightarrow> drains s s' \<Longrightarrow> mq_internal s s'"

inductive mq_step :: "mq_state \<Rightarrow> mq_state \<Rightarrow> bool" where
  request: "createMatch r s s' \<Longrightarrow> mq_step s s'"
| internal: "mq_internal s s' \<Longrightarrow> mq_step s s'"

section \<open>What holds in every reachable state\<close>

text \<open>The counts, apart from the rule on who takes care of waiting requests.\<close>

definition mq_counts :: "mq_state \<Rightarrow> bool" where
  "mq_counts s \<longleftrightarrow> mq_active s = length (mq_running s) \<and> mq_active s \<le> CONCURRENCY_LIMIT \<and>
     length (mq_queue s) \<le> 100 \<and> mq_accepted s = mq_started s @ mq_queue s \<and>
     mset (mq_started s) = mset (mq_running s) + mset (mq_finished s)"

definition mq_inv :: "mq_state \<Rightarrow> bool" where
  "mq_inv s \<longleftrightarrow> mq_counts s \<and>
     (mq_queue s \<noteq> [] \<and> \<not> mq_processing s \<longrightarrow> mq_active s = CONCURRENCY_LIMIT)"

lemma mq_counts_start:
  assumes "mq_counts s" and "mq_active s < CONCURRENCY_LIMIT"
  shows "mq_queue s = r # q \<Longrightarrow> mq_counts (start_request r (s\<lparr>mq_queue := q\<rparr>))"
    and "mq_queue s = [] \<Longrightarrow> mq_counts (start_request r (s\<lparr>mq_accepted := mq_accepted s @ [r]\<rparr>))"
  using assms by (auto simp: mq_counts_def start_request_def)

lemma drains_inv:
  assumes "drains s s'" and "mq_counts s" and "mq_processing s"
  shows "mq_inv s'"
  using assms
proof (induction rule: drains.induct)
  case (stop s)
  then show ?case by (auto simp: mq_inv_def mq_counts_def)
next
  case (busy s load)
  then show ?case by (simp add: mq_inv_def)
next
  case (shift s r q load s')
  then have "mq_counts (start_request r (s\<lparr>mq_queue := q\<rparr>))" by (simp add: mq_counts_start)
  with shift show ?case by (simp add: start_request_def)
qed

lemma processQueue_inv:
  assumes "processQueue s s'" and "mq_counts s"
  shows "mq_inv s'"
  using assms
proof (induction rule: processQueue.induct)
  case (already s)
  then show ?case by (simp add: mq_inv_def)
next
  case (run s s')
  then show ?case by (auto intro!: drains_inv simp: mq_counts_def)
qed

lemma mq_counts_ended:
  assumes "mq_counts s" and "r \<in> set (mq_running s)"
  shows "mq_counts (s\<lparr>mq_active := mq_active s - 1, mq_running := remove1 r (mq_running s),
                      mq_finished := mq_finished s @ [r]\<rparr>)"
proof -
  from assms(2) obtain M where "mset (mq_running s) = add_mset r M"
    by (metis multi_member_split set_mset_mset)
  with assms show ?thesis by (auto simp: mq_counts_def length_remove1)
qed

lemma mq_step_inv:
  assumes "mq_step s s'" and "mq_inv s"
  shows "mq_inv s'"
  using assms
proof (induction rule: mq_step.induct)
  case (request r s s')
  then show ?case
  proof (induction rule: createMatch.induct)
    case (enqueue load s s')
    then have "mq_counts (s\<lparr>mq_queue := mq_queue s @ [r], mq_accepted := mq_accepted s @ [r]\<rparr>)"
      by (auto simp: mq_inv_def mq_counts_def)
    with enqueue show ?case by (auto intro: processQueue_inv)
  next
    case (direct load s)
    then have "mq_queue s = []" "mq_active s < CONCURRENCY_LIMIT" by (auto simp: must_queue_def)
    with direct show ?case
      by (simp add: mq_inv_def mq_counts_start) (simp add: start_request_def)
  qed
next
  case (internal s s')
  then show ?case
  proof (induction rule: mq_internal.induct)
    case (ended r s s')
    from ended(3) have "mq_counts s" by (simp add: mq_inv_def)
    from processQueue_inv [OF ended(2) mq_counts_ended [OF this ended(1)]] show ?case .
  next
    case (wake s s')
    from wake(3) have "mq_counts s" by (simp add: mq_inv_def)
    from drains_inv [OF wake(2) this wake(1)] show ?case .
  qed
qed

interpretation match_queue: step_invariant mq_init mq_step mq_inv
proof unfold_locales
  show "mq_inv mq_init" by (simp add: mq_inv_def mq_counts_def mq_init_def)
qed (rule mq_step_inv)

section \<open>Progress\<close>

lemma drains_low_load:
  "\<exists>s'. drains s s' \<and> length (mq_started s) + min (length (mq_queue s)) (CONCURRENCY_LIMIT - mq_active s)
          \<le> length (mq_started s')"
proof (induction "length (mq_queue s)" arbitrary: s rule: less_induct)
  case less
  show ?case
  proof (cases "mq_queue s = [] \<or> mq_active s \<ge> CONCURRENCY_LIMIT")
    case True
    then show ?thesis by (intro exI [of _ "s\<lparr>mq_processing := False\<rparr>"]) (auto intro: drains.stop)
  next
    case False
    then obtain r q where q: "mq_queue s = r # q" "mq_active s < CONCURRENCY_LIMIT" by (cases "mq_queue s") auto
    let ?s = "start_request r (s\<lparr>mq_queue := q\<rparr>)"
    from less [of ?s] q obtain s' where s': "drains ?s s'"
      "length (mq_started ?s) + min (length (mq_queue ?s)) (CONCURRENCY_LIMIT - mq_active ?s) \<le> length (mq_started s')"
      by (auto simp: start_request_def)
    from drains.shift [OF q, of 0] s' q show ?thesis
      by (intro exI [of _ s']) (auto simp: start_request_def)
  qed
qed

lemma mq_progress:
  assumes inv: "mq_inv s" and wait: "mq_queue s \<noteq> []"
  shows "\<exists>s'. mq_internal\<^sup>+\<^sup>+ s s' \<and> length (mq_started s) < length (mq_started s')"
proof -
  have go: "\<exists>s'. drains t s' \<and> length (mq_started t) < length (mq_started s')"
    if "mq_queue t \<noteq> []" "mq_active t < CONCURRENCY_LIMIT" for t
    using drains_low_load [of t] that by (cases "mq_queue t") (auto simp: Suc_le_eq)
  show ?thesis
  proof (cases "mq_active s < CONCURRENCY_LIMIT")
    case True
    with inv wait have "mq_processing s" by (auto simp: mq_inv_def)
    with go [OF wait True] show ?thesis by (blast intro: mq_internal.wake)
  next
    case False
    with inv have full: "mq_running s \<noteq> []" "mq_active s = CONCURRENCY_LIMIT"
      by (auto simp: mq_inv_def mq_counts_def CONCURRENCY_LIMIT_def)
    then obtain r where r: "r \<in> set (mq_running s)" by (cases "mq_running s") auto
    let ?t = "s\<lparr>mq_active := mq_active s - 1, mq_running := remove1 r (mq_running s),
                mq_finished := mq_finished s @ [r]\<rparr>"
    from full wait have t: "mq_queue ?t \<noteq> []" "mq_active ?t < CONCURRENCY_LIMIT" by (auto simp: CONCURRENCY_LIMIT_def)
    show ?thesis
    proof (cases "mq_processing s")
      case True
      then have one: "mq_internal s ?t" by (auto intro!: mq_internal.ended [OF r] processQueue.already)
      from go [OF t] obtain s' where s': "drains ?t s'" "length (mq_started s) < length (mq_started s')" by auto
      with True have "mq_internal ?t s'" by (auto intro: mq_internal.wake)
      with one s' show ?thesis by (meson tranclp.r_into_trancl tranclp.trancl_into_trancl)
    next
      case False
      from go [of "?t\<lparr>mq_processing := True\<rparr>"] t obtain s' where
        "drains (?t\<lparr>mq_processing := True\<rparr>) s'" "length (mq_started s) < length (mq_started s')" by auto
      with False show ?thesis
        by (auto intro!: exI [of _ s'] tranclp.r_into_trancl mq_internal.ended [OF r] processQueue.run)
    qed
  qed
qed

section \<open>Matches and disputes\<close>

datatype match_status = MsCreated | MsStarted | MsCompleted | MsDisputed | MsFinalized

datatype dispute_status = DsOpen | DsResolved | DsDismissed

record match_row =
  ma_onChainId :: string
  ma_playerAId :: string
  ma_playerBId :: string
  ma_winnerId :: "string option"
  ma_status :: match_status
  ma_endedAt :: "int option"

record dispute =
  di_matchId :: string
  di_reporterId :: string
  di_reason :: string
  di_evidenceUrls :: "string list"
  di_status :: dispute_status
  di_resolution :: "string option"
  di_resolvedById :: "string option"
  di_resolvedAt :: "int option"

record match_db =
  md_matches :: "(string, match_row) jsmap"
  md_disputes :: "(string, dispute) jsmap"
  md_audit :: "(string \<times> string \<times> string) list"

text \<open>The id on the chain is unique.\<close>

definition executeCreateMatch ::
  "string \<Rightarrow> string \<Rightarrow> string \<Rightarrow> string \<Rightarrow> match_db \<Rightarrow> (match_row \<times> match_db) result" where
  "executeCreateMatch newId playerAId playerBId onChainId db =
     (if list_ex (\<lambda>m. ma_onChainId m = onChainId) (jm_values (md_matches db))
      then Inl (PrismaError ''P2002'')
      else (let m = \<lparr>ma_onChainId = onChainId, ma_playerAId = playerAId, ma_playerBId = playerBId,
                     ma_winnerId = None, ma_status = MsCreated, ma_endedAt = None\<rparr>
            in Inr (m, db\<lparr>md_matches := jm_set (md_matches db) newId m\<rparr>)))"

definition update_match ::
  "string \<Rightarrow> (match_row \<Rightarrow> match_row) \<Rightarrow> match_db \<Rightarrow> match_db result" where
  "update_match mid f db =
     bind_res (row_update (md_matches db) mid f) (\<lambda>t. Inr (db\<lparr>md_matches := t\<rparr>))"

definition reportScore :: "string \<Rightarrow> string \<Rightarrow> int \<Rightarrow> match_db \<Rightarrow> match_db result" where
  "reportScore matchId winnerId now db =
     update_match matchId (\<lambda>m. m\<lparr>ma_winnerId := Some winnerId, ma_status := MsCompleted, ma_endedAt := Some now\<rparr>) db"

definition raiseDispute ::
  "string \<Rightarrow> string \<Rightarrow> string \<Rightarrow> string \<Rightarrow> string list \<Rightarrow> match_db \<Rightarrow> (dispute \<times> match_db) result" where
  "raiseDispute newId matchId reporterId reason evidenceUrls db =
     bind_res (update_match matchId (\<lambda>m. m\<lparr>ma_status := MsDisputed\<rparr>) db) (\<lambda>db1.
       (let d = \<lparr>di_matchId = matchId, di_reporterId = reporterId, di_reason = reason,
                 di_evidenceUrls = evidenceUrls, di_status = DsOpen, di_resolution = None,
                 di_resolvedById = None, di_resolvedAt = None\<rparr>
        in Inr (d, db1\<lparr>md_disputes := jm_set (md_disputes db1) newId d\<rparr>)))"

text \<open>The status given is RESOLVED or DISMISSED; an empty winner does not override.\<close>

definition resolveDispute ::
  "string \<Rightarrow> string \<Rightarrow> bool \<Rightarrow> string option \<Rightarrow> string option \<Rightarrow> int \<Rightarrow> match_db \<Rightarrow> (dispute \<times> match_db) result" where
  "resolveDispute disputeId adminId resolved resolution winnerOverrideId now db =
     (case jm_get (md_disputes db) disputeId of
        None \<Rightarrow> Inl (PlainError ''Dispute not found'')
      | Some d \<Rightarrow>
          (let d' = d\<lparr>di_status := (if resolved then DsResolved else DsDismissed),
                      di_resolution := (case resolution of None \<Rightarrow> di_resolution d | Some t \<Rightarrow> Some t),
                      di_resolvedById := Some adminId, di_resolvedAt := Some now\<rparr>;
               db1 = db\<lparr>md_disputes := jm_set (md_disputes db) disputeId d'\<rparr>
           in bind_res
                (if resolved
                 then update_match (di_matchId d)
                        (\<lambda>m. m\<lparr>ma_status := MsFinalized,
                               ma_winnerId := (case winnerOverrideId of
                                                 None \<Rightarrow> ma_winnerId m
                                               | Some w \<Rightarrow> if w = [] then ma_winnerId m else Some w)\<rparr>) db1
                 else update_match (di_matchId d) (\<lambda>m. m\<lparr>ma_status := MsFinalized\<rparr>) db1)
                (\<lambda>db2. Inr (d', db2\<lparr>md_audit := md_audit db2
                     @ [(adminId, if resolved then ''DISPUTE_RESOLVED'' else ''DISPUTE_DISMISSED'', di_matchId d)]\<rparr>))))"

definition listOpenDisputes :: "match_db \<Rightarrow> dispute list" where
  "listOpenDisputes db = filter (\<lambda>d. di_status d = DsOpen) (jm_values (md_disputes db))"

section \<open>Properties\<close>

text \<open>
  The queue keeps its limits. In every reachable state the active count is the number of
  creations in flight and at most five, at most a hundred requests wait, the accepted requests are
  the started ones followed by the waiting ones in the order of arrival, and every started request is
  in flight or finished.
\<close>

theorem match_queue_limits:
  assumes "mq_step\<^sup>*\<^sup>* mq_init s"
  shows "mq_active s = length (mq_running s) \<and> length (mq_running s) \<le> 5 \<and> length (mq_queue s) \<le> 100 \<and>
         mq_accepted s = mq_started s @ mq_queue s \<and>
         mset (mq_started s) = mset (mq_running s) + mset (mq_finished s)"
  using match_queue.inv_all_reachable [OF assms] by (auto simp: mq_inv_def mq_counts_def CONCURRENCY_LIMIT_def)

definition demo_request :: match_request where
  "demo_request = \<lparr>mq_playerAId = ''a'', mq_playerBId = ''b'', mq_onChainId = ''x'', mq_timestamp = 0\<rparr>"

lemma demo_queue:
  "mq_step\<^sup>*\<^sup>* mq_init (mq_init\<lparr>mq_queue := [demo_request], mq_processing := True, mq_accepted := [demo_request]\<rparr>)"
proof -
  let ?s = "mq_init\<lparr>mq_queue := mq_queue mq_init @ [demo_request], mq_accepted := mq_accepted mq_init @ [demo_request]\<rparr>"
  have "drains (?s\<lparr>mq_processing := True\<rparr>) (?s\<lparr>mq_processing := True\<rparr>)"
    by (rule drains.busy [where load = 99]) (simp_all add: mq_init_def CONCURRENCY_LIMIT_def)
  then have "processQueue ?s (?s\<lparr>mq_processing := True\<rparr>)"
    by (intro processQueue.run) (simp_all add: mq_init_def)
  then have "createMatch demo_request mq_init (?s\<lparr>mq_processing := True\<rparr>)"
    by (intro createMatch.enqueue [where load = 99]) (simp_all add: must_queue_def mq_init_def)
  then show ?thesis by (auto dest!: mq_step.request simp: mq_init_def)
qed

theorem match_queue_limits_witness:
  "let s = mq_init\<lparr>mq_queue := [demo_request], mq_processing := True, mq_accepted := [demo_request]\<rparr>
   in mq_step\<^sup>*\<^sup>* mq_init s \<and> length (mq_queue s) \<le> 100"
  using demo_queue match_queue_limits [OF demo_queue] unfolding Let_def by blast

text \<open>
  C19. The queue is never stuck. Whenever a request waits in a reachable state, the service can go on
  by itself, without a further request, to a state in which more requests have been started.
\<close>

theorem match_queue_never_stuck:
  assumes "mq_step\<^sup>*\<^sup>* mq_init s" and "mq_queue s \<noteq> []"
  shows "\<exists>s'. mq_internal\<^sup>+\<^sup>+ s s' \<and> length (mq_started s) < length (mq_started s')"
  using mq_progress [OF match_queue.inv_all_reachable [OF assms(1)] assms(2)] .

theorem match_queue_never_stuck_witness:
  "let s = mq_init\<lparr>mq_queue := [demo_request], mq_processing := True, mq_accepted := [demo_request]\<rparr>
   in \<exists>s'. mq_internal\<^sup>+\<^sup>+ s s' \<and> length (mq_started s) < length (mq_started s')"
  using match_queue_never_stuck [OF demo_queue] unfolding Let_def by simp

text \<open>
  Resolving a dispute. Resolving or dismissing finalises the match of the dispute and closes the
  dispute; the winner changes only to a non-empty override of a resolution, and no other match
  changes. A match that is finalised is not protected: a further report completes it with another
  winner.
\<close>

theorem dispute_resolution_effect:
  assumes "resolveDispute did admin resolved text ovr now db = Inr (d', db')"
  shows "\<exists>d m m'. jm_get (md_disputes db) did = Some d \<and> jm_get (md_matches db) (di_matchId d) = Some m \<and>
           jm_get (md_disputes db') did = Some d' \<and> di_status d' = (if resolved then DsResolved else DsDismissed) \<and>
           jm_get (md_matches db') (di_matchId d) = Some m' \<and> ma_status m' = MsFinalized \<and>
           ma_winnerId m' = (if resolved \<and> ovr \<noteq> None \<and> ovr \<noteq> Some [] then ovr else ma_winnerId m) \<and>
           (\<forall>k. k \<noteq> di_matchId d \<longrightarrow> jm_get (md_matches db') k = jm_get (md_matches db) k) \<and>
           (\<forall>w t. \<exists>db2 m2. reportScore (di_matchId d) w t db' = Inr db2 \<and>
              jm_get (md_matches db2) (di_matchId d) = Some m2 \<and> ma_status m2 = MsCompleted \<and> ma_winnerId m2 = Some w)"
proof -
  from assms obtain d where d: "jm_get (md_disputes db) did = Some d"
    by (auto simp: resolveDispute_def split: option.splits)
  from assms d obtain m where m: "jm_get (md_matches db) (di_matchId d) = Some m"
    by (auto simp: resolveDispute_def update_match_def bind_res_Inr_iff row_update_Inr_iff Let_def split: if_splits)
  from assms d m show ?thesis
    by (auto simp: resolveDispute_def reportScore_def update_match_def row_update_def Let_def
        split: if_splits option.splits)
qed

definition demo_matches :: match_db where
  "demo_matches =
     \<lparr>md_matches = [(''m'', \<lparr>ma_onChainId = ''x'', ma_playerAId = ''a'', ma_playerBId = ''b'',
         ma_winnerId = Some ''a'', ma_status = MsDisputed, ma_endedAt = Some 5\<rparr>)],
      md_disputes = [(''d'', \<lparr>di_matchId = ''m'', di_reporterId = ''b'', di_reason = ''lag'', di_evidenceUrls = [],
         di_status = DsOpen, di_resolution = None, di_resolvedById = None, di_resolvedAt = None\<rparr>)],
      md_audit = []\<rparr>"

theorem dispute_resolution_effect_witness:
  "\<exists>d' db' m'. resolveDispute ''d'' ''adm'' True None (Some ''b'') 9 demo_matches = Inr (d', db') \<and>
     jm_get (md_matches db') ''m'' = Some m' \<and> ma_status m' = MsFinalized \<and> ma_winnerId m' = Some ''b''"
proof -
  let ?r = "resolveDispute ''d'' ''adm'' True None (Some ''b'') 9 demo_matches"
  have "\<not> isl ?r" by code_simp
  then obtain d' db' where r: "?r = Inr (d', db')" by (cases ?r) auto
  have d: "map_option di_matchId (jm_get (md_disputes demo_matches) ''d'') = Some ''m''" by code_simp
  from dispute_resolution_effect [OF r] d r show ?thesis by auto
qed

end
