(* ===== verification/Json.thy ===== *)
theory Json
  imports Complex_Main Prelude "HOL-Library.Char_ord" "HOL-Library.List_Lexorder"
begin

text \<open>
  JSON values and their deterministic serialisation: \<^verbatim>\<open>stableStringify\<close> of
  \<^verbatim>\<open>server/src/services/audit.service.ts\<close>, which
  \<^verbatim>\<open>server/src/services/wallet-audit.service.ts\<close> repeats. Strings are lists of 8-bit characters, numbers are
  exact; the printing of numbers is the argument \<open>num\<close>, of which \<open>number_format\<close> states what
  is used: a number has its own non-empty word over the characters of a number.

  The result of the theory: two values have the same serialisation exactly if they differ at most in
  the order of the properties of their objects.
\<close>

section \<open>Values and their text\<close>

text \<open>\<open>JUndef\<close> is the value of a property that is present and undefined.\<close>

datatype json =
  JUndef | JNull | JBool bool | JNum rat | JStr string | JArr "json list" | JObj "(string \<times> json) list"

definition hex_digit :: "nat \<Rightarrow> char" where
  "hex_digit n = char_of (if n < 10 then 48 + n else 87 + n)"

text \<open>\<^verbatim>\<open>JSON.stringify\<close> of one character of a string, and of a string.\<close>

definition esc_char :: "char \<Rightarrow> string" where
  "esc_char c =
     (let n = of_char c :: nat
      in if n = 34 \<or> n = 92 then [CHR 0x5C, c]
         else if n = 8 then [CHR 0x5C, CHR ''b'']
         else if n = 9 then [CHR 0x5C, CHR ''t'']
         else if n = 10 then [CHR 0x5C, CHR ''n'']
         else if n = 12 then [CHR 0x5C, CHR ''f'']
         else if n = 13 then [CHR 0x5C, CHR ''r'']
         else if n < 32 then [CHR 0x5C, CHR ''u'', CHR ''0'', CHR ''0'', hex_digit (n div 16), hex_digit (n mod 16)]
         else [c])"

definition json_quote :: "string \<Rightarrow> string" where
  "json_quote s = CHR 0x22 # concat (map esc_char s) @ [CHR 0x22]"

text \<open>
  The serialisation. \<^verbatim>\<open>join\<close> writes an undefined element of an array as nothing, the template of an
  object writes an undefined property as the word \<^verbatim>\<open>undefined\<close>.
\<close>

fun stableStringify :: "(rat \<Rightarrow> string) \<Rightarrow> json \<Rightarrow> string" where
  "stableStringify num JUndef = ''undefined''"
| "stableStringify num JNull = ''null''"
| "stableStringify num (JBool b) = (if b then ''true'' else ''false'')"
| "stableStringify num (JNum x) = num x"
| "stableStringify num (JStr s) = json_quote s"
| "stableStringify num (JArr xs) =
     ''['' @ js_join '','' (map (\<lambda>x. if x = JUndef then [] else stableStringify num x) xs) @ '']''"
| "stableStringify num (JObj kvs) =
     ''{'' @ js_join '','' (map (\<lambda>ks. json_quote (fst ks) @ '':'' @ snd ks)
       (sort_key fst (map (\<lambda>kv. (fst kv, stableStringify num (snd kv))) kvs))) @ ''}''"

text \<open>The truth value of a value, reading a property of it, \<^verbatim>\<open>String(v)\<close>, and what a JSON column keeps of a value.\<close>

definition js_truthy :: "json \<Rightarrow> bool" where
  "js_truthy v = (case v of JUndef \<Rightarrow> False | JNull \<Rightarrow> False | JBool b \<Rightarrow> b | JNum x \<Rightarrow> x \<noteq> 0 | JStr s \<Rightarrow> s \<noteq> [] | _ \<Rightarrow> True)"

fun json_prop :: "json \<Rightarrow> string \<Rightarrow> json" where
  "json_prop (JObj kvs) k = (case map_of kvs k of None \<Rightarrow> JUndef | Some v \<Rightarrow> v)"
| "json_prop _ k = JUndef"

fun js_String :: "(rat \<Rightarrow> string) \<Rightarrow> json \<Rightarrow> string" where
  "js_String num (JStr s) = s"
| "js_String num (JNum x) = num x"
| "js_String num (JBool b) = (if b then ''true'' else ''false'')"
| "js_String num JNull = ''null''"
| "js_String num JUndef = ''undefined''"
| "js_String num (JArr xs) =
     js_join '','' (map (\<lambda>x. if x = JUndef \<or> x = JNull then [] else js_String num x) xs)"
| "js_String num (JObj kvs) = ''[object Object]''"

fun db_json :: "json \<Rightarrow> json" where
  "db_json (JArr xs) = JArr (map (\<lambda>x. if x = JUndef then JNull else db_json x) xs)"
| "db_json (JObj kvs) = JObj (map (\<lambda>kv. (fst kv, db_json (snd kv))) (filter (\<lambda>kv. snd kv \<noteq> JUndef) kvs))"
| "db_json v = v"

definition num_chars :: string where
  "num_chars = ''0123456789+-.eE''"

definition number_format :: "(rat \<Rightarrow> string) \<Rightarrow> bool" where
  "number_format num \<longleftrightarrow> inj num \<and> (\<forall>x. num x \<noteq> [] \<and> set (num x) \<subseteq> set num_chars)"

text \<open>Values without undefined elements in arrays, and values with the properties in order.\<close>

fun no_holes :: "json \<Rightarrow> bool" where
  "no_holes (JArr xs) = (JUndef \<notin> set xs \<and> (\<forall>x\<in>set xs. no_holes x))"
| "no_holes (JObj kvs) = (\<forall>kv\<in>set kvs. no_holes (snd kv))"
| "no_holes _ = True"

fun sort_props :: "json \<Rightarrow> json" where
  "sort_props (JArr xs) = JArr (map sort_props xs)"
| "sort_props (JObj kvs) = JObj (sort_key fst (map (\<lambda>kv. (fst kv, sort_props (snd kv))) kvs))"
| "sort_props v = v"

section \<open>Reading back a quoted string\<close>

definition hex_value :: "char \<Rightarrow> nat" where
  "hex_value c = (let n = of_char c :: nat in if n < 58 then n - 48 else n - 87)"

fun unesc :: "string \<Rightarrow> (char \<times> string) option" where
  "unesc [] = None"
| "unesc (c # cs) =
     (if c \<noteq> CHR 0x5C then Some (c, cs)
      else case cs of
          [] \<Rightarrow> None
        | d # ds \<Rightarrow>
            if d = CHR ''b'' then Some (char_of (8 :: nat), ds)
            else if d = CHR ''t'' then Some (char_of (9 :: nat), ds)
            else if d = CHR ''n'' then Some (char_of (10 :: nat), ds)
            else if d = CHR ''f'' then Some (char_of (12 :: nat), ds)
            else if d = CHR ''r'' then Some (char_of (13 :: nat), ds)
            else if d = CHR ''u'' then
              (case ds of z # y # h # l # rest \<Rightarrow> Some (char_of (16 * hex_value h + hex_value l), rest) | _ \<Rightarrow> None)
            else Some (d, ds))"

lemma hex_value_digit: "n < 16 \<Longrightarrow> hex_value (hex_digit n) = n"
  by (auto simp: hex_value_def hex_digit_def)

lemma of_char_eq: "(of_char c :: nat) = n \<Longrightarrow> c = char_of n"
  using char_of_char [of c] by metis

lemma char_of_marks: "char_of (34 :: nat) = CHR 0x22" "char_of (92 :: nat) = CHR 0x5C"
  by code_simp+

lemma unesc_esc: "unesc (esc_char c @ r) = Some (c, r)"
proof -
  let ?n = "of_char c :: nat"
  consider "?n = 34" | "?n = 92" | "?n = 8" | "?n = 9" | "?n = 10" | "?n = 12" | "?n = 13"
    | "?n < 32" "?n \<notin> {8, 9, 10, 12, 13}" | "32 \<le> ?n" "?n \<noteq> 34" "?n \<noteq> 92" by fastforce
  moreover have "unesc (esc_char c @ r) = Some (c, r)" if "?n = k" "k \<in> {34, 92, 8, 9, 10, 12, 13}" for k
  proof -
    from that(1) have "c = char_of k" by (rule of_char_eq)
    with that(2) show ?thesis by (elim insertE) (simp_all add: esc_char_def char_of_marks)
  qed
  ultimately show ?thesis
  proof cases
    case 8
    then have "16 * hex_value (hex_digit (?n div 16)) + hex_value (hex_digit (?n mod 16)) = ?n"
      by (simp add: hex_value_digit)
    with 8 show ?thesis by (simp add: esc_char_def Let_def)
  next
    case 9
    then have "c \<noteq> CHR 0x5C" by auto
    with 9 show ?thesis by (simp add: esc_char_def)
  qed simp_all
qed

lemma esc_char_head: "\<exists>d ds. esc_char c = d # ds \<and> d \<noteq> CHR 0x22"
proof (cases "c = CHR 0x22")
  case True
  then show ?thesis by (simp add: esc_char_def)
next
  case False
  then show ?thesis unfolding esc_char_def Let_def by (simp split: if_split)
qed

lemma esc_inj: "esc_char c @ r = esc_char d @ s \<Longrightarrow> c = d \<and> r = s"
  by (metis unesc_esc option.inject prod.inject)

lemma quote_tail_inj:
  "concat (map esc_char a) @ CHR 0x22 # r = concat (map esc_char b) @ CHR 0x22 # s \<Longrightarrow> a = b \<and> r = s"
proof (induction a arbitrary: b)
  case Nil
  then show ?case using esc_char_head [of "hd b"] by (cases b) auto
next
  case (Cons c a)
  show ?case
  proof (cases b)
    case Nil
    with Cons.prems esc_char_head [of c] show ?thesis by auto
  next
    case (Cons d b')
    with Cons.prems have "esc_char c @ (concat (map esc_char a) @ CHR 0x22 # r)
        = esc_char d @ (concat (map esc_char b') @ CHR 0x22 # s)" by simp
    from esc_inj [OF this] Cons.IH [of b'] Cons show ?thesis by simp
  qed
qed

lemma json_quote_inj: "json_quote a @ r = json_quote b @ s \<Longrightarrow> a = b \<and> r = s"
  using quote_tail_inj [of a r b s] by (simp add: json_quote_def)

section \<open>Sorting first and writing then\<close>

text \<open>The writer without sorting; the serialisation is this writer after the properties are sorted.\<close>

fun write_json :: "(rat \<Rightarrow> string) \<Rightarrow> json \<Rightarrow> string" where
  "write_json num JUndef = ''undefined''"
| "write_json num JNull = ''null''"
| "write_json num (JBool b) = (if b then ''true'' else ''false'')"
| "write_json num (JNum x) = num x"
| "write_json num (JStr s) = json_quote s"
| "write_json num (JArr xs) =
     ''['' @ js_join '','' (map (\<lambda>x. if x = JUndef then [] else write_json num x) xs) @ '']''"
| "write_json num (JObj kvs) =
     ''{'' @ js_join '','' (map (\<lambda>kv. json_quote (fst kv) @ '':'' @ write_json num (snd kv)) kvs) @ ''}''"

lemma insort_map_snd:
  "insort_key fst (fst x, f (snd x)) (map (\<lambda>kv. (fst kv, f (snd kv))) xs)
     = map (\<lambda>kv. (fst kv, f (snd kv))) (insort_key fst x xs)"
  by (induction xs) auto

lemma sort_map_snd:
  "sort_key fst (map (\<lambda>kv. (fst kv, f (snd kv))) xs) = map (\<lambda>kv. (fst kv, f (snd kv))) (sort_key fst xs)"
  by (induction xs) (auto simp: insort_map_snd)

lemma sort_props_undef [simp]: "sort_props v = JUndef \<longleftrightarrow> v = JUndef" "JUndef = sort_props v \<longleftrightarrow> v = JUndef"
  by (cases v; auto)+

lemma no_holes_sort [simp]: "no_holes (sort_props v) = no_holes v"
  by (induction v rule: sort_props.induct) (auto simp: image_iff)

lemma stringify_write: "stableStringify num v = write_json num (sort_props v)"
proof (induction v rule: sort_props.induct)
  case (1 xs)
  then have eq: "map (\<lambda>x. if x = JUndef then [] else stableStringify num x) xs
      = map (\<lambda>x. if sort_props x = JUndef then [] else write_json num (sort_props x)) xs" by simp
  show ?case unfolding stableStringify.simps sort_props.simps write_json.simps map_map comp_def eq ..
next
  case (2 kvs)
  then show ?case
    by (auto simp: sort_map_snd comp_def intro!: arg_cong [where f = "js_join '',''"])
qed simp_all

section \<open>The writer is injective\<close>

text \<open>What follows a value inside a text: nothing, a comma, or a closing bracket.\<close>

definition ends_value :: "string \<Rightarrow> bool" where
  "ends_value r \<longleftrightarrow> r = [] \<or> hd r \<in> set '',]}''"

lemma ends_value_simps [simp]:
  "ends_value []" "ends_value (c # r) \<longleftrightarrow> c \<in> set '',]}''"
  by (auto simp: ends_value_def)

lemma number_token:
  assumes "number_format num" and "num x @ r = num y @ s" and "ends_value r" and "ends_value s"
  shows "x = y \<and> r = s"
proof -
  have t: "takeWhile (\<lambda>c. c \<in> set num_chars) (num z @ q) = num z" if "ends_value q" for z q
  proof -
    have "q = [] \<or> hd q \<notin> set num_chars" using that by (auto simp: ends_value_def num_chars_def)
    then have "takeWhile (\<lambda>c. c \<in> set num_chars) q = []" by (cases q) auto
    moreover have "set (num z) \<subseteq> set num_chars" using assms(1) by (simp add: number_format_def)
    ultimately show ?thesis by (subst takeWhile_append2) auto
  qed
  from t [OF assms(3), of x] t [OF assms(4), of y] assms(2) have "num x = num y" by metis
  then show ?thesis using assms(1,2) by (simp add: number_format_def inj_eq)
qed

text \<open>
  Lists of items between commas, up to the closing bracket, are read back if the items are.
\<close>

lemma join_unique:
  assumes "js_join '','' (map f xs) @ e # r = js_join '','' (map f ys) @ e # s" and "e \<in> set '']}''"
    and "\<And>x y r s. x \<in> set xs \<Longrightarrow> y \<in> set ys \<Longrightarrow> f x @ r = f y @ s \<Longrightarrow> ends_value r \<Longrightarrow> ends_value s \<Longrightarrow> x = y \<and> r = s"
    and "\<And>z. z \<in> set xs \<union> set ys \<Longrightarrow> f z \<noteq> [] \<and> hd (f z) \<noteq> e"
  shows "xs = ys \<and> r = s"
  using assms
proof (induction xs arbitrary: ys)
  case Nil
  then show ?case
  proof (cases ys)
    case (Cons y ys')
    with Nil.prems(4) [of y] obtain c cs where "f y = c # cs" "c \<noteq> e" by (cases "f y") auto
    with Nil.prems(1) Cons show ?thesis by (cases ys') auto
  qed simp
next
  case (Cons x xs)
  from Cons.prems(4) [of x] obtain c cs where fx: "f x = c # cs" "c \<noteq> e" by (cases "f x") auto
  show ?case
  proof (cases ys)
    case Nil
    with Cons.prems(1) fx show ?thesis by (cases xs) auto
  next
    case ys: (Cons y ys')
    define tail where "tail zs q = (if zs = [] then e # q else '','' @ js_join '','' (map f zs) @ e # q)" for zs q
    have tail: "js_join '','' (map f (z # zs)) @ e # q = f z @ tail zs q" for z zs q
      by (cases zs) (simp_all add: tail_def)
    have ends: "ends_value (tail zs q)" for zs q using Cons.prems(2) by (auto simp: tail_def)
    from Cons.prems(1) have "f x @ tail xs r = f y @ tail ys' s" unfolding ys tail .
    from Cons.prems(3) [OF _ _ this ends ends] ys have xy: "x = y" "tail xs r = tail ys' s" by auto
    have e: "e \<noteq> CHR '',''" using Cons.prems(2) by auto
    show ?thesis
    proof (cases "xs = [] \<or> ys' = []")
      case True
      with xy e ys show ?thesis by (auto simp: tail_def split: if_splits)
    next
      case False
      with xy(2) have "js_join '','' (map f xs) @ e # r = js_join '','' (map f ys') @ e # s"
        by (simp add: tail_def)
      then have "xs = ys' \<and> r = s"
      proof (rule Cons.IH [OF _ Cons.prems(2)])
        fix u v p q
        assume "u \<in> set xs" "v \<in> set ys'" "f u @ p = f v @ q" "ends_value p" "ends_value q"
        then show "u = v \<and> p = q" using Cons.prems(3) [of u v p q] ys by simp
      qed (use Cons.prems(4) ys in auto)
      with xy(1) ys show ?thesis by simp
    qed
  qed
qed

text \<open>The first character tells the kind of a value.\<close>

fun first_of :: "json \<Rightarrow> char \<Rightarrow> bool" where
  "first_of JUndef c \<longleftrightarrow> c = CHR ''u''"
| "first_of JNull c \<longleftrightarrow> c = CHR ''n''"
| "first_of (JBool b) c \<longleftrightarrow> c = (if b then CHR ''t'' else CHR ''f'')"
| "first_of (JNum x) c \<longleftrightarrow> c \<in> set num_chars"
| "first_of (JStr s) c \<longleftrightarrow> c = CHR 0x22"
| "first_of (JArr xs) c \<longleftrightarrow> c = CHR ''[''"
| "first_of (JObj kvs) c \<longleftrightarrow> c = CHR ''{''"

fun json_kind :: "json \<Rightarrow> nat" where
  "json_kind JUndef = 0" | "json_kind JNull = 1" | "json_kind (JBool b) = (if b then 2 else 3)"
| "json_kind (JNum x) = 4" | "json_kind (JStr s) = 5" | "json_kind (JArr xs) = 6" | "json_kind (JObj kvs) = 7"

lemma first_kind: "first_of v c \<Longrightarrow> first_of w c \<Longrightarrow> json_kind v = json_kind w"
  by (cases v; cases w; auto simp: num_chars_def split: if_splits)

lemma write_first:
  assumes "number_format num"
  shows "\<exists>c cs. write_json num v = c # cs \<and> first_of v c"
proof (cases v)
  case (JNum x)
  with assms have "num x \<noteq> []" "set (num x) \<subseteq> set num_chars" by (simp_all add: number_format_def)
  with JNum show ?thesis by (cases "num x") auto
qed (auto simp: json_quote_def)

lemma first_not_closing: "first_of v c \<Longrightarrow> c \<notin> set '']}''"
  by (cases v) (auto simp: num_chars_def split: if_splits)

lemma write_kind:
  assumes "number_format num" and "write_json num v @ r = write_json num w @ s"
  shows "json_kind v = json_kind w"
  using write_first [OF assms(1), of v] write_first [OF assms(1), of w] assms(2) by (auto intro: first_kind)

lemma write_unique:
  assumes fmt: "number_format num"
  shows "write_json num v @ r = write_json num w @ s \<Longrightarrow> ends_value r \<Longrightarrow> ends_value s \<Longrightarrow>
    no_holes v \<Longrightarrow> no_holes w \<Longrightarrow> v = w \<and> r = s"
proof (induction v arbitrary: w r s rule: sort_props.induct [case_names Arr Obj Undef Null Bool Num Str])
  case (Arr xs)
  from write_kind [OF fmt Arr(2)] obtain ys where w: "w = JArr ys" by (cases w) (auto split: if_splits)
  have el: "x \<noteq> JUndef \<and> no_holes x" if "x \<in> set xs \<union> set ys" for x
    using that Arr(5,6) w by auto
  let ?f = "\<lambda>x. if x = JUndef then [] else write_json num x"
  from Arr(2) w have "js_join '','' (map ?f xs) @ CHR '']'' # r = js_join '','' (map ?f ys) @ CHR '']'' # s"
    by simp
  then have "xs = ys \<and> r = s"
  proof (rule join_unique)
    show "x = y \<and> p = q" if "x \<in> set xs" "y \<in> set ys" "?f x @ p = ?f y @ q" "ends_value p" "ends_value q" for x y p q
      using Arr(1) [OF that(1), of p y q] that el [of x] el [of y] by simp
    show "?f z \<noteq> [] \<and> hd (?f z) \<noteq> CHR '']''" if "z \<in> set xs \<union> set ys" for z
      using el [OF that] write_first [OF fmt, of z] first_not_closing [of z] by fastforce
  qed simp
  with w show ?case by simp
next
  case (Obj kvs)
  from write_kind [OF fmt Obj(2)] obtain kws where w: "w = JObj kws" by (cases w) (auto split: if_splits)
  let ?f = "\<lambda>kv. json_quote (fst kv) @ '':'' @ write_json num (snd kv)"
  from Obj(2) w have "js_join '','' (map ?f kvs) @ CHR ''}'' # r = js_join '','' (map ?f kws) @ CHR ''}'' # s"
    by simp
  then have "kvs = kws \<and> r = s"
  proof (rule join_unique)
    show "x = y \<and> p = q" if "x \<in> set kvs" "y \<in> set kws" "?f x @ p = ?f y @ q" "ends_value p" "ends_value q" for x y p q
    proof -
      from that(3) have "json_quote (fst x) @ ('':'' @ write_json num (snd x) @ p)
          = json_quote (fst y) @ ('':'' @ write_json num (snd y) @ q)" by simp
      from json_quote_inj [OF this] have "fst x = fst y" "write_json num (snd x) @ p = write_json num (snd y) @ q"
        by simp_all
      with Obj(1) [OF that(1), of p "snd y" q] that Obj(5,6) w show ?thesis by (auto simp: prod_eq_iff)
    qed
  qed (auto simp: json_quote_def)
  with w show ?case by simp
next
  case (Num x)
  from write_kind [OF fmt Num(1)] obtain y where w: "w = JNum y" by (cases w) (auto split: if_splits)
  with Num number_token [OF fmt, of x r y s] show ?case by simp
next
  case (Str a)
  from write_kind [OF fmt Str(1)] obtain b where w: "w = JStr b" by (cases w) (auto split: if_splits)
  with Str json_quote_inj [of a r b s] show ?case by simp
next
  case Undef
  from write_kind [OF fmt Undef(1)] have "w = JUndef" by (cases w) (auto split: if_splits)
  with Undef show ?case by simp
next
  case Null
  from write_kind [OF fmt Null(1)] have "w = JNull" by (cases w) (auto split: if_splits)
  with Null show ?case by simp
next
  case (Bool b)
  from write_kind [OF fmt Bool(1)] have "w = JBool b" by (cases w) (auto split: if_splits)
  with Bool show ?case by simp
qed

lemma stringify_eq_iff:
  assumes "number_format num" and "no_holes v" and "no_holes w"
  shows "stableStringify num v = stableStringify num w \<longleftrightarrow> sort_props v = sort_props w"
proof
  assume "stableStringify num v = stableStringify num w"
  then have "write_json num (sort_props v) @ [] = write_json num (sort_props w) @ []"
    by (simp add: stringify_write)
  from write_unique [OF assms(1) this] assms(2,3) show "sort_props v = sort_props w" by simp
qed (simp add: stringify_write)

section \<open>Properties\<close>


text \<open>A printing of numbers of the kind: numerator and denominator with a letter between.\<close>

definition demo_num :: "rat \<Rightarrow> string" where
  "demo_num x = show_int (fst (quotient_of x)) @ ''e'' @ show_int (snd (quotient_of x))"

lemma show_nat_digits: "set (show_nat n) \<subseteq> set ''0123456789''"
proof (induction n rule: show_nat.induct)
  case (1 n)
  have "char_of (48 + k) \<in> set ''0123456789''" if "k < 10" for k :: nat
  proof -
    have "k \<in> set [0 ..< 10]" using that by simp
    moreover have "list_all (\<lambda>k. char_of (48 + k :: nat) \<in> set ''0123456789'') [0 ..< 10]" by code_simp
    ultimately show ?thesis by (simp only: list_all_iff)
  qed
  with 1 show ?case by (subst show_nat.simps) auto
qed

lemma show_nat_value: "foldl (\<lambda>v c. 10 * v + (of_char c - 48)) 0 (show_nat n) = (n :: nat)"
proof (induction n rule: show_nat.induct)
  case (1 n)
  then show ?case by (subst show_nat.simps) auto
qed

lemma show_int_inj: "show_int a = show_int b \<Longrightarrow> a = b"
proof -
  assume eq: "show_int a = show_int b"
  have nat: "m = n" if "show_nat m = show_nat n" for m n
    using show_nat_value [of m] show_nat_value [of n] that by metis
  have sign: "show_nat m \<noteq> CHR ''-'' # t" for m t
    using show_nat_digits [of m] by auto
  from eq sign sign [symmetric] show "a = b"
    by (auto simp: show_int_def dest!: nat split: if_splits)
qed

lemma show_int_chars: "show_int a \<noteq> []" "set (show_int a) \<subseteq> set ''0123456789-''"
proof -
  have "show_nat n \<noteq> []" for n by (simp add: show_nat.simps [of n])
  then show "show_int a \<noteq> []" by (simp add: show_int_def)
  have digits: "set (show_nat n) \<subseteq> set ''0123456789-''" for n
    by (rule subset_trans [OF show_nat_digits]) code_simp
  then show "set (show_int a) \<subseteq> set ''0123456789-''"
    using digits by (cases "a < 0") (simp_all add: show_int_def)
qed

lemma demo_num_format: "number_format demo_num"
  unfolding number_format_def
proof (intro conjI allI)
  show "inj demo_num"
  proof (rule injI)
    fix x y assume eq: "demo_num x = demo_num y"
    have "CHR ''e'' \<notin> set ''0123456789-''" by code_simp
    then have e: "CHR ''e'' \<notin> set (show_int a)" for a using show_int_chars(2) by blast
    from eq have "show_int (fst (quotient_of x)) = show_int (fst (quotient_of y)) \<and>
        show_int (snd (quotient_of x)) = show_int (snd (quotient_of y))"
      by (simp add: demo_num_def append_Cons_eq_iff e)
    then have "fst (quotient_of x) = fst (quotient_of y)" "snd (quotient_of x) = snd (quotient_of y)"
      by (blast dest: show_int_inj)+
    then show "x = y" by (intro quotient_of_inject prod_eqI)
  qed
  fix x
  show "demo_num x \<noteq> []" by (simp add: demo_num_def)
  show "set (demo_num x) \<subseteq> set num_chars"
  proof -
    have "set ''0123456789-'' \<subseteq> set num_chars" "set ''e'' \<subseteq> set num_chars" by code_simp+
    with show_int_chars(2) have "set (show_int a) \<subseteq> set num_chars" for a by blast
    with \<open>set ''e'' \<subseteq> set num_chars\<close> show ?thesis unfolding demo_num_def set_append by blast
  qed
qed


end
