(* ===== verification/Achievements.thy ===== *)
theory Achievements
  imports Wallet Json "HOL-Library.Product_Lexorder" "HOL-Library.Multiset"
begin

text \<open>
  Achievements: \<^verbatim>\<open>server/src/services/achievement.service.ts\<close> and the catalogue in
  \<^verbatim>\<open>server/src/data/achievement-catalog.ts\<close>. The service keeps a progress row for each player and
  achievement, unlocks it when the target is reached, and pays the rewards through the wallet.

  The handlers are not transactions: what is written before an error stays. The decimal library is
  the argument \<open>dec\<close>, which reads an amount in units of the seventh decimal, \<open>None\<close> where
  the constructor throws; the clock and the random identifiers are arguments as well, and the order
  of names of the database and of \<^verbatim>\<open>localeCompare\<close> are given by keys.
\<close>

section \<open>Data\<close>

datatype achievement_category = COMBAT | SOCIAL | PROGRESSION | SEASONAL

datatype game_event_type = MATCH_WON | MATCH_COMPLETED | PROFILE_UPDATED | KYC_APPROVED | SEASONAL_ACTIVE

fun event_name :: "game_event_type \<Rightarrow> string" where
  "event_name MATCH_WON = ''MATCH_WON''"
| "event_name MATCH_COMPLETED = ''MATCH_COMPLETED''"
| "event_name PROFILE_UPDATED = ''PROFILE_UPDATED''"
| "event_name KYC_APPROVED = ''KYC_APPROVED''"
| "event_name SEASONAL_ACTIVE = ''SEASONAL_ACTIVE''"

record game_event =
  ev_type :: game_event_type
  ev_playerId :: string
  ev_payload :: "(string \<times> json) list"

record achievement =
  ac_key :: string
  ac_name :: string
  ac_description :: string
  ac_category :: achievement_category
  ac_targetValue :: int
  ac_eventTypes :: "string list"
  ac_rewards :: json
  ac_hidden :: bool
  ac_sortOrder :: int

record player_achievement =
  pa_progress :: int
  pa_unlockedAt :: "int option"
  pa_rewardClaimedAt :: "int option"

record reward_grant =
  gr_currency :: currency
  gr_amount :: string

record unlock_notification =
  nt_userId :: string
  nt_achievementId :: string
  nt_createdAt :: int
  nt_achievementName :: string

record achievement_share =
  sh_userId :: string
  sh_achievementId :: string
  sh_caption :: "string option"
  sh_platform :: "string option"
  sh_createdAt :: int

text \<open>The tables: progress rows are read by player and achievement, shares by their slug.\<close>

record ach_db =
  ad_users :: "string list"
  ad_achievements :: "(string, achievement) jsmap"
  ad_rows :: "(string \<times> string, player_achievement) jsmap"
  ad_notifications :: "unlock_notification list"
  ad_shares :: "(string, achievement_share) jsmap"
  ad_wallet :: wallet_db

section \<open>Rewards and events\<close>

fun json_currency :: "json option \<Rightarrow> currency option" where
  "json_currency (Some (JStr s)) =
     (if s = ''XLM'' then Some XLM else if s = ''USDC'' then Some USDC else if s = ''AX'' then Some AX else None)"
| "json_currency _ = None"

fun json_string :: "json option \<Rightarrow> string option" where
  "json_string (Some (JStr s)) = Some s"
| "json_string _ = None"

fun parse_items :: "(string \<Rightarrow> int option) \<Rightarrow> json list \<Rightarrow> reward_grant list result" where
  "parse_items dec [] = Inr []"
| "parse_items dec (JObj g # items) =
     (case (json_currency (map_of g ''currency''), json_string (map_of g ''amount'')) of
        (Some currency, Some amount) \<Rightarrow>
          (case dec amount of
             None \<Rightarrow> Inl (PlainError ''[DecimalError] Invalid argument'')
           | Some d \<Rightarrow>
               bind_res (parse_items dec items)
                 (\<lambda>out. Inr (if d > 0 then \<lparr>gr_currency = currency, gr_amount = amount\<rparr> # out else out)))
      | _ \<Rightarrow> parse_items dec items)"
| "parse_items dec (_ # items) = parse_items dec items"

definition parseGrants :: "(string \<Rightarrow> int option) \<Rightarrow> json \<Rightarrow> reward_grant list result" where
  "parseGrants dec rewards =
     (case rewards of
        JObj r \<Rightarrow> (case map_of r ''grants'' of Some (JArr raw) \<Rightarrow> parse_items dec raw | _ \<Rightarrow> Inr [])
      | _ \<Rightarrow> Inr [])"

definition payload_true :: "game_event \<Rightarrow> string \<Rightarrow> bool" where
  "payload_true ev name \<longleftrightarrow> map_of (ev_payload ev) name = Some (JBool True)"

definition progressDeltaForAchievement :: "achievement \<Rightarrow> game_event \<Rightarrow> int" where
  "progressDeltaForAchievement a ev =
     (if event_name (ev_type ev) \<notin> set (ac_eventTypes a) then 0
      else case ev_type ev of
          MATCH_WON \<Rightarrow> if payload_true ev ''won'' then 1 else 0
        | MATCH_COMPLETED \<Rightarrow> 1
        | PROFILE_UPDATED \<Rightarrow> if payload_true ev ''hasBio'' \<or> payload_true ev ''hasSocialLinks'' then 1 else 0
        | KYC_APPROVED \<Rightarrow> 1
        | SEASONAL_ACTIVE \<Rightarrow> 1)"

section \<open>The catalogue\<close>

definition grant_json :: "string \<Rightarrow> string \<Rightarrow> json" where
  "grant_json currency amount = JObj [(''currency'', JStr currency), (''amount'', JStr amount)]"

definition ACHIEVEMENT_CATALOG :: "achievement list" where
  "ACHIEVEMENT_CATALOG =
    [\<lparr>ac_key = ''first_victory'', ac_name = ''First Victory'', ac_description = ''Win your first ranked match.'',
      ac_category = COMBAT, ac_targetValue = 1, ac_eventTypes = [''MATCH_WON''],
      ac_rewards = JObj [(''grants'', JArr [grant_json ''AX'' ''5'']), (''badge'', JStr ''first_victory'')],
      ac_hidden = False, ac_sortOrder = 10\<rparr>,
     \<lparr>ac_key = ''battle_hardened'', ac_name = ''Battle Hardened'', ac_description = ''Complete 10 matches.'',
      ac_category = PROGRESSION, ac_targetValue = 10, ac_eventTypes = [''MATCH_COMPLETED''],
      ac_rewards = JObj [(''grants'', JArr [grant_json ''AX'' ''10'']), (''badge'', JStr ''battle_hardened'')],
      ac_hidden = False, ac_sortOrder = 20\<rparr>,
     \<lparr>ac_key = ''arena_veteran'', ac_name = ''Arena Veteran'', ac_description = ''Complete 50 matches.'',
      ac_category = PROGRESSION, ac_targetValue = 50, ac_eventTypes = [''MATCH_COMPLETED''],
      ac_rewards = JObj [(''grants'', JArr [grant_json ''AX'' ''25'']), (''badge'', JStr ''arena_veteran'')],
      ac_hidden = False, ac_sortOrder = 30\<rparr>,
     \<lparr>ac_key = ''public_face'', ac_name = ''Public Face'',
      ac_description = ''Add a bio or social link to your profile.'',
      ac_category = SOCIAL, ac_targetValue = 1, ac_eventTypes = [''PROFILE_UPDATED''],
      ac_rewards = JObj [(''badge'', JStr ''public_face'')], ac_hidden = False, ac_sortOrder = 40\<rparr>,
     \<lparr>ac_key = ''verified_competitor'', ac_name = ''Verified Competitor'',
      ac_description = ''Complete identity verification.'',
      ac_category = PROGRESSION, ac_targetValue = 1, ac_eventTypes = [''KYC_APPROVED''],
      ac_rewards = JObj [(''badge'', JStr ''verified_competitor'')], ac_hidden = False, ac_sortOrder = 50\<rparr>,
     \<lparr>ac_key = ''season_champion'', ac_name = ''Season Champion'',
      ac_description = ''Participate in a seasonal spotlight event.'',
      ac_category = SEASONAL, ac_targetValue = 1, ac_eventTypes = [''SEASONAL_ACTIVE''],
      ac_rewards = JObj [(''badge'', JStr ''season_champion'')], ac_hidden = True, ac_sortOrder = 60\<rparr>]"

text \<open>
  The upsert of one entry by its unique key: an entry that is there keeps its identifier and takes
  all other columns from the catalogue.
\<close>

definition sync_entry :: "ach_db \<Rightarrow> string \<times> achievement \<Rightarrow> ach_db" where
  "sync_entry db ie =
     (case ie of (newId, entry) \<Rightarrow>
        (case List.find (\<lambda>(i, a). ac_key a = ac_key entry) (ad_achievements db) of
           None \<Rightarrow> db\<lparr>ad_achievements := jm_set (ad_achievements db) newId entry\<rparr>
         | Some (i, a) \<Rightarrow> db\<lparr>ad_achievements := jm_set (ad_achievements db) i entry\<rparr>))"

definition syncCatalog :: "string list \<Rightarrow> ach_db \<Rightarrow> ach_db" where
  "syncCatalog ids db = foldl sync_entry db (zip ids ACHIEVEMENT_CATALOG)"

definition getAchievementById :: "string \<Rightarrow> ach_db \<Rightarrow> achievement result" where
  "getAchievementById i db =
     (case jm_get (ad_achievements db) i of
        None \<Rightarrow> Inl (HttpError 404 ''Achievement not found'') | Some a \<Rightarrow> Inr a)"

definition calculateRewards :: "(string \<Rightarrow> int option) \<Rightarrow> string \<Rightarrow> ach_db \<Rightarrow> reward_grant list result" where
  "calculateRewards dec i db = bind_res (getAchievementById i db) (\<lambda>a. parseGrants dec (ac_rewards a))"

section \<open>Progress, unlocking and rewards\<close>

text \<open>
  \<^verbatim>\<open>playerAchievement.upsert\<close>: a new row needs its player and its achievement (foreign keys).
\<close>

definition upsert_row ::
  "string \<Rightarrow> string \<Rightarrow> player_achievement \<Rightarrow> (player_achievement \<Rightarrow> player_achievement) \<Rightarrow> ach_db
     \<Rightarrow> unit result \<times> ach_db" where
  "upsert_row p i new upd db =
     (case jm_get (ad_rows db) (p, i) of
        Some r \<Rightarrow> (Inr (), db\<lparr>ad_rows := jm_set (ad_rows db) (p, i) (upd r)\<rparr>)
      | None \<Rightarrow>
          if p \<in> set (ad_users db) \<and> jm_get (ad_achievements db) i \<noteq> None
          then (Inr (), db\<lparr>ad_rows := jm_set (ad_rows db) (p, i) new\<rparr>)
          else (Inl (PrismaError ''P2003''), db))"

definition update_row ::
  "string \<Rightarrow> string \<Rightarrow> (player_achievement \<Rightarrow> player_achievement) \<Rightarrow> ach_db \<Rightarrow> unit result \<times> ach_db" where
  "update_row p i upd db =
     (case row_update (ad_rows db) (p, i) upd of
        Inl e \<Rightarrow> (Inl e, db) | Inr rows \<Rightarrow> (Inr (), db\<lparr>ad_rows := rows\<rparr>))"

text \<open>The latest notification decides whether another one is due; its time is the greatest one.\<close>

definition createUnlockNotification :: "string \<Rightarrow> string \<Rightarrow> string \<Rightarrow> int \<Rightarrow> ach_db \<Rightarrow> ach_db" where
  "createUnlockNotification p i name now db =
     (let recent = map nt_createdAt
            (filter (\<lambda>n. nt_userId n = p \<and> nt_achievementId n = i) (ad_notifications db))
      in if recent \<noteq> [] \<and> now - fold max recent (hd recent) < 5000 then db
         else db\<lparr>ad_notifications := ad_notifications db @
           [\<lparr>nt_userId = p, nt_achievementId = i, nt_createdAt = now, nt_achievementName = name\<rparr>]\<rparr>)"

definition reward_key :: "string \<Rightarrow> string \<Rightarrow> reward_grant \<Rightarrow> string" where
  "reward_key i p g =
     ''achievement-reward:'' @ i @ '':'' @ p @ '':'' @ currency_name (gr_currency g) @ '':'' @ gr_amount g"

text \<open>The loop over the grants; every credit is a transaction of its own, and a failure ends the loop.\<close>

fun pay_grants ::
  "(string \<Rightarrow> int option) \<Rightarrow> string \<Rightarrow> string \<Rightarrow> string \<Rightarrow> reward_grant list \<Rightarrow> wallet_db \<Rightarrow> unit result \<times> wallet_db" where
  "pay_grants dec i p name [] w = (Inr (), w)"
| "pay_grants dec i p name (g # gs) w =
     (case dec (gr_amount g) of
        None \<Rightarrow> (Inl (PlainError ''[DecimalError] Invalid argument''), w)
      | Some d \<Rightarrow>
          (case credit p (gr_currency g) d (reward_key i p g) (Some (''Achievement reward: '' @ name)) w of
             Inl e \<Rightarrow> (Inl e, w)
           | Inr (tx, w') \<Rightarrow> pay_grants dec i p name gs w'))"

definition unlocked_row :: "achievement \<Rightarrow> int \<Rightarrow> player_achievement" where
  "unlocked_row a now =
     \<lparr>pa_progress = ac_targetValue a, pa_unlockedAt = Some now, pa_rewardClaimedAt = None\<rparr>"

text \<open>
  \<^verbatim>\<open>unlockAchievement\<close> in its three parts: the row is brought to the unlocked state, then the rewards
  are paid, where an error is only logged.
\<close>

definition mark_unlocked ::
  "string \<Rightarrow> string \<Rightarrow> achievement \<Rightarrow> int \<Rightarrow> ach_db \<Rightarrow> unit result \<times> ach_db" where
  "mark_unlocked p i a now db =
     (let row = jm_get (ad_rows db) (p, i);
          earned = ((case row of None \<Rightarrow> 0 | Some r \<Rightarrow> pa_progress r) \<ge> ac_targetValue a)
      in if \<not> earned then
           upsert_row p i (unlocked_row a now)
             (\<lambda>r. r\<lparr>pa_progress := ac_targetValue a,
                    pa_unlockedAt := (case Option.bind row pa_unlockedAt of None \<Rightarrow> Some now | Some t \<Rightarrow> Some t)\<rparr>) db
         else if Option.bind row pa_unlockedAt = None then
           update_row p i (\<lambda>r. r\<lparr>pa_unlockedAt := Some now, pa_progress := ac_targetValue a\<rparr>) db
         else (Inr (), db))"

definition claim_row :: "string \<Rightarrow> string \<Rightarrow> int \<Rightarrow> ach_db \<Rightarrow> unit result \<times> ach_db" where
  "claim_row p i now = update_row p i (\<lambda>r. r\<lparr>pa_rewardClaimedAt := Some now\<rparr>)"

definition distribute_rewards ::
  "(string \<Rightarrow> int option) \<Rightarrow> string \<Rightarrow> string \<Rightarrow> achievement \<Rightarrow> int \<Rightarrow> ach_db \<Rightarrow> unit result \<times> ach_db" where
  "distribute_rewards dec p i a now db =
     (case parseGrants dec (ac_rewards a) of
        Inl e \<Rightarrow> (Inl e, db)
      | Inr grants \<Rightarrow>
          if grants = [] then claim_row p i now db
          else (case pay_grants dec i p (ac_name a) grants (ad_wallet db) of
              (Inl e, w) \<Rightarrow> (Inr (), db\<lparr>ad_wallet := w\<rparr>)
            | (Inr _, w) \<Rightarrow> (Inr (), snd (claim_row p i now (db\<lparr>ad_wallet := w\<rparr>)))))"

definition unlockAchievement ::
  "(string \<Rightarrow> int option) \<Rightarrow> string \<Rightarrow> string \<Rightarrow> int \<Rightarrow> ach_db \<Rightarrow> unit result \<times> ach_db" where
  "unlockAchievement dec p i now db =
     (case getAchievementById i db of
        Inl e \<Rightarrow> (Inl e, db)
      | Inr a \<Rightarrow>
          if Option.bind (jm_get (ad_rows db) (p, i)) pa_rewardClaimedAt \<noteq> None then (Inr (), db)
          else and_then (mark_unlocked p i a now db) (\<lambda>_ db1.
            (case jm_get (ad_rows db1) (p, i) of
               None \<Rightarrow> (Inr (), db1)
             | Some row \<Rightarrow>
                 if pa_unlockedAt row = None \<or> pa_rewardClaimedAt row \<noteq> None then (Inr (), db1)
                 else distribute_rewards dec p i a now
                        (createUnlockNotification p i (ac_name a) now db1))))"

text \<open>The argument \<open>progress\<close> is \<open>None\<close> for the numbers that are not finite.\<close>

definition new_row :: "int \<Rightarrow> player_achievement" where
  "new_row progress = \<lparr>pa_progress = progress, pa_unlockedAt = None, pa_rewardClaimedAt = None\<rparr>"

definition updateProgress ::
  "(string \<Rightarrow> int option) \<Rightarrow> string \<Rightarrow> string \<Rightarrow> rat option \<Rightarrow> int \<Rightarrow> ach_db \<Rightarrow> unit result \<times> ach_db" where
  "updateProgress dec p i progress now db =
     (case progress of
        None \<Rightarrow> (Inl (HttpError 400 ''progress must be a non-negative number''), db)
      | Some x \<Rightarrow>
          if x < 0 then (Inl (HttpError 400 ''progress must be a non-negative number''), db)
          else (case getAchievementById i db of
              Inl e \<Rightarrow> (Inl e, db)
            | Inr a \<Rightarrow>
                (let capped = min \<lfloor>x\<rfloor> (ac_targetValue a)
                 in and_then (upsert_row p i (new_row capped) (\<lambda>r. r\<lparr>pa_progress := capped\<rparr>) db)
                      (\<lambda>_ db1. if capped \<ge> ac_targetValue a then unlockAchievement dec p i now db1
                               else (Inr (), db1)))))"

text \<open>One pass of the loop in \<^verbatim>\<open>checkAchievements\<close>, and the loop.\<close>

definition check_one ::
  "(string \<Rightarrow> int option) \<Rightarrow> string \<Rightarrow> game_event \<Rightarrow> int \<Rightarrow> string \<times> achievement \<Rightarrow> ach_db \<Rightarrow> unit result \<times> ach_db" where
  "check_one dec p ev now ia db =
     (case ia of (i, a) \<Rightarrow>
        (let delta = progressDeltaForAchievement a ev; row = jm_get (ad_rows db) (p, i)
         in if delta \<le> 0 \<or> Option.bind row pa_unlockedAt \<noteq> None then (Inr (), db)
            else (let current = (case row of None \<Rightarrow> 0 | Some r \<Rightarrow> pa_progress r);
                      nxt = min (current + delta) (ac_targetValue a)
                  in and_then (upsert_row p i (new_row nxt) (\<lambda>r. r\<lparr>pa_progress := nxt\<rparr>) db)
                       (\<lambda>_ db1. if nxt \<ge> ac_targetValue a then unlockAchievement dec p i now db1
                                else (Inr (), db1)))))"

fun check_all ::
  "(string \<Rightarrow> int option) \<Rightarrow> string \<Rightarrow> game_event \<Rightarrow> int \<Rightarrow> (string \<times> achievement) list \<Rightarrow> ach_db \<Rightarrow> unit result \<times> ach_db" where
  "check_all dec p ev now [] db = (Inr (), db)"
| "check_all dec p ev now (x # xs) db =
     and_then (check_one dec p ev now x db) (\<lambda>_ db1. check_all dec p ev now xs db1)"

definition checkAchievements ::
  "(string \<Rightarrow> int option) \<Rightarrow> string \<Rightarrow> game_event \<Rightarrow> int \<Rightarrow> ach_db \<Rightarrow> unit result \<times> ach_db" where
  "checkAchievements dec p ev now db =
     check_all dec p ev now
       (filter (\<lambda>(i, a). event_name (ev_type ev) \<in> set (ac_eventTypes a)) (ad_achievements db)) db"

definition shareAchievement ::
  "string \<Rightarrow> string \<Rightarrow> string option \<Rightarrow> string option \<Rightarrow> string \<Rightarrow> int \<Rightarrow> ach_db
     \<Rightarrow> ((string \<times> string \<times> achievement_share) \<times> ach_db) result" where
  "shareAchievement p i caption platform slug now db =
     bind_res (getAchievementById i db) (\<lambda>a.
       if Option.bind (jm_get (ad_rows db) (p, i)) pa_unlockedAt = None
       then Inl (HttpError 400 ''Achievement must be unlocked before sharing'')
       else (let share = \<lparr>sh_userId = p, sh_achievementId = i, sh_caption = caption,
                          sh_platform = platform, sh_createdAt = now\<rparr>
             in bind_res (row_create (ad_shares db) slug share)
                  (\<lambda>t. Inr ((slug, ''/api/v1/achievements/shared/'' @ slug, share), db\<lparr>ad_shares := t\<rparr>))))"

section \<open>Reads\<close>

record ach_stats =
  st_playersWithProgress :: nat
  st_unlockedCount :: nat
  st_averageProgress :: "rat option"
  st_maxProgress :: "int option"

definition rows_of :: "string \<Rightarrow> ach_db \<Rightarrow> player_achievement list" where
  "rows_of i db = map snd (filter (\<lambda>((p, j), r). j = i) (ad_rows db))"

definition getAchievementStats :: "string \<Rightarrow> ach_db \<Rightarrow> ach_stats result" where
  "getAchievementStats i db =
     bind_res (getAchievementById i db) (\<lambda>_.
       (let rows = rows_of i db; ps = map pa_progress rows
        in Inr \<lparr>st_playersWithProgress = length (filter (\<lambda>r. pa_progress r > 0) rows),
                st_unlockedCount = length (filter (\<lambda>r. pa_unlockedAt r \<noteq> None) rows),
                st_averageProgress = (if ps = [] then None else Some (of_int (sum_list ps) / of_nat (length ps))),
                st_maxProgress = (if ps = [] then None else Some (fold max ps (hd ps)))\<rparr>))"

definition listAchievements ::
  "(string \<Rightarrow> rat) \<Rightarrow> string list \<Rightarrow> bool \<Rightarrow> ach_db \<Rightarrow> (string \<times> achievement) list \<times> ach_db" where
  "listAchievements collate ids includeHidden db =
     (let db1 = syncCatalog ids db
      in (sort_key (\<lambda>(i, a). (ac_sortOrder a, collate (ac_name a)))
            (filter (\<lambda>(i, a). includeHidden \<or> \<not> ac_hidden a) (ad_achievements db1)), db1))"

record achievement_view =
  vw_id :: string
  vw_achievement :: achievement
  vw_progress :: "int option"
  vw_unlockedAt :: "int option"
  vw_progressHidden :: bool

definition player_view ::
  "bool \<Rightarrow> string \<Rightarrow> ach_db \<Rightarrow> string \<times> achievement \<Rightarrow> achievement_view" where
  "player_view owner p db ia =
     (case ia of (i, a) \<Rightarrow>
        (let row = jm_get (ad_rows db) (p, i); since = Option.bind row pa_unlockedAt;
             progressHidden = (\<not> owner \<and> since = None)
         in \<lparr>vw_id = i, vw_achievement = a,
             vw_progress = (if progressHidden then None
                            else Some (case row of None \<Rightarrow> 0 | Some r \<Rightarrow> pa_progress r)),
             vw_unlockedAt = since, vw_progressHidden = progressHidden\<rparr>))"

definition getPlayerAchievements ::
  "(string \<Rightarrow> rat) \<Rightarrow> (string \<Rightarrow> rat) \<Rightarrow> string list \<Rightarrow> string \<Rightarrow> string option \<Rightarrow> ach_db
     \<Rightarrow> (bool \<times> achievement_view list) result \<times> ach_db" where
  "getPlayerAchievements collate locale_key ids p viewer db =
     (let db1 = syncCatalog ids db;
          order = sort_key (\<lambda>(i, a). (ac_sortOrder a, collate (ac_name a)))
      in if p \<notin> set (ad_users db1) then (Inl (HttpError 404 ''Player not found''), db1)
         else (let viewerIsOwner = (viewer = Some p \<and> p \<noteq> []);
                   shown = map (player_view viewerIsOwner p db1)
                             (order (filter (\<lambda>(i, a). \<not> ac_hidden a) (ad_achievements db1)));
                   hid = map (player_view True p db1)
                             (order (filter (\<lambda>(i, a). ac_hidden a) (ad_achievements db1)))
               in (Inr (viewerIsOwner,
                     if viewerIsOwner
                     then sort_key (\<lambda>v. (ac_sortOrder (vw_achievement v), locale_key (ac_name (vw_achievement v))))
                            (shown @ hid)
                     else shown), db1)))"

section \<open>Rewards are paid once\<close>

definition grants_of :: "(string \<Rightarrow> int option) \<Rightarrow> achievement \<Rightarrow> reward_grant list" where
  "grants_of dec a = (case parseGrants dec (ac_rewards a) of Inl e \<Rightarrow> [] | Inr gs \<Rightarrow> gs)"

definition grant_value :: "(string \<Rightarrow> int option) \<Rightarrow> reward_grant \<Rightarrow> int" where
  "grant_value dec g = (case dec (gr_amount g) of None \<Rightarrow> 0 | Some d \<Rightarrow> d)"

text \<open>The rewards of a table of achievements in one currency, each grant once per achievement.\<close>

definition rewards_due ::
  "(string \<Rightarrow> int option) \<Rightarrow> currency \<Rightarrow> (string, achievement) jsmap \<Rightarrow> (string \<times> reward_grant) list" where
  "rewards_due dec c table =
     concat (map (\<lambda>(i, a). map (Pair i) (filter (\<lambda>g. gr_currency g = c) (remdups (grants_of dec a)))) table)"

definition due_value :: "(string \<Rightarrow> int option) \<Rightarrow> currency \<Rightarrow> (string, achievement) jsmap \<Rightarrow> int" where
  "due_value dec c table = sum_list (map (grant_value dec \<circ> snd) (rewards_due dec c table))"

text \<open>
  What a player has and can still be paid: the balance and the rewards that are not in the journal.
  No step of the service raises it.
\<close>

definition unpaid :: "(string \<Rightarrow> int option) \<Rightarrow> string \<Rightarrow> wallet_db \<Rightarrow> string \<times> reward_grant \<Rightarrow> int" where
  "unpaid dec p w ig =
     (if jm_get (walletTransactions w) (reward_key (fst ig) p (snd ig)) = None then grant_value dec (snd ig) else 0)"

definition potential ::
  "(string \<Rightarrow> int option) \<Rightarrow> (string, achievement) jsmap \<Rightarrow> string \<Rightarrow> currency \<Rightarrow> wallet_db \<Rightarrow> int" where
  "potential dec table p c w = available_of w p c + sum_list (map (unpaid dec p w) (rewards_due dec c table))"

lemma parse_items_positive:
  "parse_items dec items = Inr gs \<Longrightarrow> g \<in> set gs \<Longrightarrow> \<exists>d>0. dec (gr_amount g) = Some d"
  by (induction dec items arbitrary: gs rule: parse_items.induct)
    (auto simp: bind_res_Inr_iff split: option.splits if_splits)

lemma grants_positive: "g \<in> set (grants_of dec a) \<Longrightarrow> \<exists>d>0. dec (gr_amount g) = Some d"
  by (auto simp: grants_of_def parseGrants_def dest: parse_items_positive [OF sym]
      split: sum.splits json.splits option.splits)

lemma grant_value_positive: "g \<in> set (grants_of dec a) \<Longrightarrow> 0 < grant_value dec g"
  using grants_positive [of g dec a] by (auto simp: grant_value_def)

lemma in_rewards_due:
  "(i, g) \<in> set (rewards_due dec c table) \<longleftrightarrow>
     (\<exists>a. (i, a) \<in> set table \<and> g \<in> set (grants_of dec a) \<and> gr_currency g = c)"
  by (auto simp: rewards_due_def)

lemma due_positive: "x \<in> set (rewards_due dec c table) \<Longrightarrow> 0 < grant_value dec (snd x)"
  by (cases x) (auto simp: in_rewards_due dest: grant_value_positive)

lemma sum_list_drop:
  fixes f f' :: "'a \<Rightarrow> int"
  assumes "x \<in> set xs" and "\<And>y. y \<in> set xs \<Longrightarrow> f' y \<le> f y" and "f' x + d \<le> f x"
  shows "sum_list (map f' xs) + d \<le> sum_list (map f xs)"
  using assms
proof (induction xs)
  case (Cons y ys)
  have le: "sum_list (map f' ys) \<le> sum_list (map f ys)"
    using Cons.prems(2) by (intro sum_list_mono) simp
  show ?case
  proof (cases "x \<in> set ys")
    case True
    with Cons have "sum_list (map f' ys) + d \<le> sum_list (map f ys)" by simp
    with Cons.prems(2) [of y] show ?thesis by simp
  next
    case False
    with Cons.prems le show ?thesis by simp
  qed
qed simp

lemma unpaid_posted:
  assumes "entry_posted k r w w'" and "x \<in> set (rewards_due dec c table)"
  shows "unpaid dec p w' x \<le> unpaid dec p w x"
  using assms due_positive [OF assms(2)] by (auto simp: unpaid_def entry_posted_def)

lemma credit_potential:
  assumes "credit q (gr_currency g) d (reward_key i q g) note w = Inr (tx, w')"
    and "(i, a) \<in> set table" and "g \<in> set (grants_of dec a)" and "dec (gr_amount g) = Some d"
  shows "potential dec table p c w' \<le> potential dec table p c w"
  using applyTransaction_cases [OF assms(1) [unfolded credit_def]]
proof (elim disjE conjE)
  assume post: "entry_posted (reward_key i q g) tx w w'" and r: "tx_userId tx = q" "tx_currency tx = gr_currency g"
    and bal: "tx_balanceAfter tx =
      (if CREDIT = CREDIT then tx_balanceBefore tx + d else tx_balanceBefore tx - d)"
  note low = unpaid_posted [OF post]
  show ?thesis
  proof (cases "p = q \<and> c = gr_currency g")
    case True
    have "(i, g) \<in> set (rewards_due dec c table)" using assms True by (auto simp: in_rewards_due)
    moreover have "unpaid dec p w' (i, g) + d \<le> unpaid dec p w (i, g)"
      using post True assms(4) by (simp add: unpaid_def entry_posted_def grant_value_def)
    ultimately have "sum_list (map (unpaid dec p w') (rewards_due dec c table)) + d
        \<le> sum_list (map (unpaid dec p w) (rewards_due dec c table))"
      by (intro sum_list_drop low)
    moreover have "available_of w' p c = available_of w p c + d"
      using posted_amounts(1) [OF post, of p c] post r bal True by (simp add: entry_posted_def)
    ultimately show ?thesis by (simp add: potential_def)
  next
    case False
    then have "available_of w' p c = available_of w p c"
      using posted_amounts(1) [OF post, of p c] r by auto
    then show ?thesis unfolding potential_def by (simp add: sum_list_mono low)
  qed
qed simp

lemma credit_journal:
  assumes "credit q cur d k note w = Inr (tx, w')"
  shows "jm_get (walletTransactions w') k \<noteq> None"
    and "jm_get (walletTransactions w) k' \<noteq> None \<Longrightarrow> jm_get (walletTransactions w') k' \<noteq> None"
  using applyTransaction_cases [OF assms [unfolded credit_def]]
  by (auto simp: posted_journal dest: posted_keeps)

lemma pay_grants_step:
  assumes "pay_grants dec i q name gs w = (res, w')" and "(i, a) \<in> set table"
    and "set gs \<subseteq> set (grants_of dec a)"
  shows "potential dec table p c w' \<le> potential dec table p c w"
    and "jm_get (walletTransactions w) k \<noteq> None \<Longrightarrow> jm_get (walletTransactions w') k \<noteq> None"
    and "res = Inr u \<Longrightarrow> g \<in> set gs \<Longrightarrow> jm_get (walletTransactions w') (reward_key i q g) \<noteq> None"
proof -
  have "potential dec table p c w' \<le> potential dec table p c w \<and>
      (\<forall>k. jm_get (walletTransactions w) k \<noteq> None \<longrightarrow> jm_get (walletTransactions w') k \<noteq> None) \<and>
      (\<forall>u. res = Inr u \<longrightarrow> (\<forall>g\<in>set gs. jm_get (walletTransactions w') (reward_key i q g) \<noteq> None))"
    using assms
  proof (induction gs arbitrary: w)
    case (Cons h gs)
    from Cons.prems(3) grants_positive [of h dec a] obtain d where d: "dec (gr_amount h) = Some d" by auto
    show ?case
    proof (cases "credit q (gr_currency h) d (reward_key i q h) (Some (''Achievement reward: '' @ name)) w")
      case (Inl e)
      with Cons.prems d show ?thesis by auto
    next
      case (Inr y)
      obtain tx w1 where y: "y = (tx, w1)" by fastforce
      from Cons.prems d Inr y have "pay_grants dec i q name gs w1 = (res, w')" by simp
      note IH = Cons.IH [OF this Cons.prems(2)]
      note cj = credit_journal [OF Inr [unfolded y]]
      have "potential dec table p c w1 \<le> potential dec table p c w"
        using Cons.prems(3) by (intro credit_potential [where dec = dec, OF Inr [unfolded y] Cons.prems(2) _ d]) simp
      with IH Cons.prems(3) cj show ?thesis by auto
    qed
  qed simp
  then show "potential dec table p c w' \<le> potential dec table p c w"
    and "jm_get (walletTransactions w) k \<noteq> None \<Longrightarrow> jm_get (walletTransactions w') k \<noteq> None"
    and "res = Inr u \<Longrightarrow> g \<in> set gs \<Longrightarrow> jm_get (walletTransactions w') (reward_key i q g) \<noteq> None"
    by auto
qed

text \<open>
  The machine: progress reports, unlocks, game events and shares, from tables without progress
  rows. An event that fails is only logged by the event bus, so its writes stay.
\<close>

datatype ach_op =
  UpdateProgress string string "rat option" int
| UnlockAchievement string string int
| HandleEvent game_event int
| ShareAchievement string string "string option" "string option" string int

fun ach_exec :: "(string \<Rightarrow> int option) \<Rightarrow> ach_db \<Rightarrow> ach_op \<Rightarrow> ach_db" where
  "ach_exec dec db (UpdateProgress p i x now) = snd (updateProgress dec p i x now db)"
| "ach_exec dec db (UnlockAchievement p i now) = snd (unlockAchievement dec p i now db)"
| "ach_exec dec db (HandleEvent ev now) = snd (checkAchievements dec (ev_playerId ev) ev now db)"
| "ach_exec dec db (ShareAchievement p i ca pl slug now) = commit (shareAchievement p i ca pl slug now db) db"

definition ach_start :: "string list \<Rightarrow> (string, achievement) jsmap \<Rightarrow> wallet_db \<Rightarrow> ach_db" where
  "ach_start users table w =
     \<lparr>ad_users = users, ad_achievements = table, ad_rows = jm_empty, ad_notifications = [],
      ad_shares = jm_empty, ad_wallet = w\<rparr>"

text \<open>A claimed row has every reward of its achievement in the journal.\<close>

definition claims_paid :: "(string \<Rightarrow> int option) \<Rightarrow> ach_db \<Rightarrow> bool" where
  "claims_paid dec db \<longleftrightarrow>
     (\<forall>p i r. jm_get (ad_rows db) (p, i) = Some r \<and> pa_rewardClaimedAt r \<noteq> None \<longrightarrow>
        (\<exists>a. jm_get (ad_achievements db) i = Some a \<and>
             (\<forall>g\<in>set (grants_of dec a). jm_get (walletTransactions (ad_wallet db)) (reward_key i p g) \<noteq> None)))"

definition ach_inv ::
  "(string \<Rightarrow> int option) \<Rightarrow> string list \<Rightarrow> (string, achievement) jsmap \<Rightarrow> wallet_db \<Rightarrow> ach_db \<Rightarrow> bool" where
  "ach_inv dec users table w0 db \<longleftrightarrow>
     ad_users db = users \<and> ad_achievements db = table \<and> claims_paid dec db \<and>
     (\<forall>p c. potential dec table p c (ad_wallet db) \<le> potential dec table p c w0)"

lemma ach_inv_start: "ach_inv dec users table w (ach_start users table w)"
  by (simp add: ach_inv_def ach_start_def claims_paid_def)

lemma claims_paidD:
  "claims_paid dec db \<Longrightarrow> jm_get (ad_rows db) (p, i) = Some r \<Longrightarrow> pa_rewardClaimedAt r \<noteq> None \<Longrightarrow>
     \<exists>a. jm_get (ad_achievements db) i = Some a \<and>
         (\<forall>g\<in>set (grants_of dec a). jm_get (walletTransactions (ad_wallet db)) (reward_key i p g) \<noteq> None)"
  by (simp add: claims_paid_def)

text \<open>A row may change in any way that does not claim its reward.\<close>

lemma ach_inv_row:
  assumes "ach_inv dec users table w0 db"
    and "pa_rewardClaimedAt r = None \<or>
         (\<exists>r0. jm_get (ad_rows db) (p, i) = Some r0 \<and> pa_rewardClaimedAt r0 = pa_rewardClaimedAt r)"
  shows "ach_inv dec users table w0 (db\<lparr>ad_rows := jm_set (ad_rows db) (p, i) r\<rparr>)"
  using assms by (auto simp: ach_inv_def claims_paid_def)

lemma upsert_row_inv:
  assumes "ach_inv dec users table w0 db" and "pa_rewardClaimedAt new = None"
    and "\<And>r. pa_rewardClaimedAt (upd r) = pa_rewardClaimedAt r"
  shows "ach_inv dec users table w0 (snd (upsert_row p i new upd db))"
  using assms by (auto simp: upsert_row_def split: option.splits intro!: ach_inv_row)

lemma update_row_inv:
  assumes "ach_inv dec users table w0 db" and "\<And>r. pa_rewardClaimedAt (upd r) = pa_rewardClaimedAt r"
  shows "ach_inv dec users table w0 (snd (update_row p i upd db))"
  using assms by (auto simp: update_row_def row_update_def split: option.splits intro!: ach_inv_row)

lemma mark_unlocked_inv:
  "ach_inv dec users table w0 db \<Longrightarrow> ach_inv dec users table w0 (snd (mark_unlocked p i a now db))"
  by (auto simp: mark_unlocked_def Let_def unlocked_row_def intro: upsert_row_inv update_row_inv)

lemma notification_inv:
  "ach_inv dec users table w0 (createUnlockNotification p i n now db) = ach_inv dec users table w0 db"
  by (simp add: createUnlockNotification_def Let_def ach_inv_def claims_paid_def)

lemma claim_row_inv:
  assumes "ach_inv dec users table w0 db" and "jm_get table i = Some a"
    and "\<And>g. g \<in> set (grants_of dec a) \<Longrightarrow> jm_get (walletTransactions (ad_wallet db)) (reward_key i p g) \<noteq> None"
  shows "ach_inv dec users table w0 (snd (claim_row p i now db))"
proof (cases "jm_get (ad_rows db) (p, i)")
  case None
  with assms(1) show ?thesis by (simp add: claim_row_def update_row_def row_update_def)
next
  case (Some r)
  with assms show ?thesis
    by (auto simp: claim_row_def update_row_def row_update_def ach_inv_def claims_paid_def)
qed

lemma ach_inv_wallet:
  assumes "ach_inv dec users table w0 db"
    and "\<And>p c. potential dec table p c w \<le> potential dec table p c (ad_wallet db)"
    and "\<And>k. jm_get (walletTransactions (ad_wallet db)) k \<noteq> None \<Longrightarrow> jm_get (walletTransactions w) k \<noteq> None"
  shows "ach_inv dec users table w0 (db\<lparr>ad_wallet := w\<rparr>)"
proof -
  have "claims_paid dec (db\<lparr>ad_wallet := w\<rparr>)"
    unfolding claims_paid_def
  proof (intro allI impI)
    fix p i r
    assume "jm_get (ad_rows (db\<lparr>ad_wallet := w\<rparr>)) (p, i) = Some r \<and> pa_rewardClaimedAt r \<noteq> None"
    with assms(1) claims_paidD [of dec db p i r] assms(3)
    show "\<exists>a. jm_get (ad_achievements (db\<lparr>ad_wallet := w\<rparr>)) i = Some a \<and>
        (\<forall>g\<in>set (grants_of dec a).
           jm_get (walletTransactions (ad_wallet (db\<lparr>ad_wallet := w\<rparr>))) (reward_key i p g) \<noteq> None)"
      by (simp add: ach_inv_def) blast
  qed
  moreover have "potential dec table p c w \<le> potential dec table p c w0" for p c
    using assms(1) assms(2) [of p c] order_trans unfolding ach_inv_def by blast
  ultimately show ?thesis using assms(1) by (simp add: ach_inv_def)
qed

lemma distribute_inv:
  assumes inv: "ach_inv dec users table w0 db" and a: "jm_get table i = Some a"
  shows "ach_inv dec users table w0 (snd (distribute_rewards dec p i a now db))"
proof (cases "parseGrants dec (ac_rewards a)")
  case (Inl e)
  with inv show ?thesis by (simp add: distribute_rewards_def)
next
  case (Inr gs)
  then have gs: "grants_of dec a = gs" by (simp add: grants_of_def)
  obtain res w where pay: "pay_grants dec i p (ac_name a) gs (ad_wallet db) = (res, w)" by fastforce
  have "(i, a) \<in> set table" using a by (simp add: jm_get_def map_of_SomeD)
  note step = pay_grants_step [OF pay this, unfolded gs, OF order_refl]
  have paid: "ach_inv dec users table w0 (db\<lparr>ad_wallet := w\<rparr>)"
    using inv step(1,2) by (rule ach_inv_wallet)
  show ?thesis
  proof (cases "gs = []")
    case True
    then show ?thesis
      using claim_row_inv [OF inv a, of p now] Inr gs by (simp add: distribute_rewards_def)
  next
    case False
    show ?thesis
    proof (cases res)
      case (Inl e)
      with False pay paid Inr show ?thesis by (simp add: distribute_rewards_def)
    next
      case ok: (Inr u)
      have "ach_inv dec users table w0 (snd (claim_row p i now (db\<lparr>ad_wallet := w\<rparr>)))"
        by (rule claim_row_inv [OF paid a]) (use step(3) [OF ok] gs in simp)
      with False pay ok Inr show ?thesis by (simp add: distribute_rewards_def)
    qed
  qed
qed

lemmas ach_then = and_then_keeps [where P = "ach_inv dec users table w0" for dec users table w0]

lemma unlock_inv:
  assumes inv: "ach_inv dec users table w0 db"
  shows "ach_inv dec users table w0 (snd (unlockAchievement dec p i now db))"
proof (cases "jm_get table i")
  case None
  with inv show ?thesis by (simp add: unlockAchievement_def getAchievementById_def ach_inv_def)
next
  case (Some a)
  then have "getAchievementById i db = Inr a" using inv by (simp add: getAchievementById_def ach_inv_def)
  then show ?thesis
    using inv Some
    by (auto simp: unlockAchievement_def notification_inv split: option.splits
        intro!: ach_then mark_unlocked_inv distribute_inv)
qed

lemma row_then_unlock_inv:
  assumes "ach_inv dec users table w0 db"
  shows "ach_inv dec users table w0
    (snd (and_then (upsert_row p i (new_row n) (\<lambda>r. r\<lparr>pa_progress := n\<rparr>) db)
       (\<lambda>_ db1. if b then unlockAchievement dec p i now db1 else (Inr (), db1))))"
  using assms by (auto simp: new_row_def intro!: ach_then upsert_row_inv unlock_inv)

lemma updateProgress_inv:
  "ach_inv dec users table w0 db \<Longrightarrow> ach_inv dec users table w0 (snd (updateProgress dec p i x now db))"
  by (auto simp: updateProgress_def Let_def row_then_unlock_inv split: option.splits sum.splits)

lemma check_one_inv:
  "ach_inv dec users table w0 db \<Longrightarrow> ach_inv dec users table w0 (snd (check_one dec p ev now ia db))"
  by (cases ia) (simp add: check_one_def Let_def row_then_unlock_inv)

lemma check_all_inv:
  "ach_inv dec users table w0 db \<Longrightarrow> ach_inv dec users table w0 (snd (check_all dec p ev now xs db))"
  by (induction xs arbitrary: db) (auto intro!: ach_then check_one_inv)

lemma ach_inv_shares: "ach_inv dec users table w0 (db\<lparr>ad_shares := t\<rparr>) = ach_inv dec users table w0 db"
  by (simp add: ach_inv_def claims_paid_def)

lemma share_inv:
  assumes "ach_inv dec users table w0 db"
  shows "ach_inv dec users table w0 (commit (shareAchievement p i ca pl slug now db) db)"
proof (cases "shareAchievement p i ca pl slug now db")
  case (Inr y)
  then obtain t where "snd y = db\<lparr>ad_shares := t\<rparr>"
    by (auto simp: shareAchievement_def bind_res_Inr_iff Let_def)
  with Inr assms show ?thesis by (cases y) (simp add: ach_inv_shares)
qed (use assms in simp)

lemma ach_exec_inv:
  assumes "ach_inv dec users table w0 db"
  shows "ach_inv dec users table w0 (ach_exec dec db op)"
  by (cases op)
    (simp_all add: assms updateProgress_inv unlock_inv share_inv check_all_inv checkAchievements_def)

interpretation achievements: invariant_machine "ach_start users table w" "ach_exec dec" "\<lambda>_ _. True"
  "ach_inv dec users table w" for users table w dec
  by unfold_locales (simp_all add: ach_inv_start ach_exec_inv)

section \<open>Progress by events\<close>

text \<open>
  What the events see of a row: the progress and whether it is unlocked. On this view an event of
  the player is the function \<open>advance\<close>, and an event of somebody else is the identity.
\<close>

definition row_view :: "ach_db \<Rightarrow> string \<Rightarrow> string \<Rightarrow> int \<times> bool" where
  "row_view db p i =
     (case jm_get (ad_rows db) (p, i) of None \<Rightarrow> (0, False) | Some r \<Rightarrow> (pa_progress r, pa_unlockedAt r \<noteq> None))"

definition advance :: "int \<Rightarrow> int \<Rightarrow> int \<times> bool \<Rightarrow> int \<times> bool" where
  "advance delta target v =
     (if delta \<le> 0 \<or> snd v then v else (min (fst v + delta) target, target \<le> fst v + delta))"

text \<open>No row is claimed before it is unlocked.\<close>

definition claims_unlocked :: "ach_db \<Rightarrow> bool" where
  "claims_unlocked db \<longleftrightarrow>
     (\<forall>k r. jm_get (ad_rows db) k = Some r \<and> pa_unlockedAt r = None \<longrightarrow> pa_rewardClaimedAt r = None)"

text \<open>The steps on the row of a player and an achievement: the rest of the tables stays.\<close>

definition row_step :: "string \<Rightarrow> string \<Rightarrow> ach_db \<Rightarrow> ach_db \<Rightarrow> bool" where
  "row_step p i db db' \<longleftrightarrow>
     ad_users db' = ad_users db \<and> ad_achievements db' = ad_achievements db \<and>
     (\<forall>k. k \<noteq> (p, i) \<longrightarrow> jm_get (ad_rows db') k = jm_get (ad_rows db) k) \<and>
     (claims_unlocked db \<longrightarrow> claims_unlocked db')"

lemma row_step_refl [simp]: "row_step p i db db"
  by (simp add: row_step_def)

lemma row_step_trans: "row_step p i a b \<Longrightarrow> row_step p i b c \<Longrightarrow> row_step p i a c"
  by (simp add: row_step_def)

lemma row_step_set:
  "pa_unlockedAt r \<noteq> None \<or> pa_rewardClaimedAt r = None \<or>
     (\<exists>r0. jm_get (ad_rows db) (p, i) = Some r0 \<and> pa_unlockedAt r0 = pa_unlockedAt r \<and>
           pa_rewardClaimedAt r0 = pa_rewardClaimedAt r) \<Longrightarrow>
   row_step p i db (db\<lparr>ad_rows := jm_set (ad_rows db) (p, i) r\<rparr>)"
  by (auto simp: row_step_def claims_unlocked_def)

lemma row_step_frame:
  "row_step p i db (createUnlockNotification q j n now db) " "row_step p i db (db\<lparr>ad_wallet := w\<rparr>)"
  by (auto simp: row_step_def createUnlockNotification_def Let_def claims_unlocked_def)

lemma upsert_row_step:
  assumes "\<And>r. pa_unlockedAt (upd r) \<noteq> None \<or>
      pa_unlockedAt (upd r) = pa_unlockedAt r \<and> pa_rewardClaimedAt (upd r) = pa_rewardClaimedAt r"
    and "pa_rewardClaimedAt new = None"
  shows "row_step p i db (snd (upsert_row p i new upd db))"
proof (cases "jm_get (ad_rows db) (p, i)")
  case (Some r)
  with assms(1) [of r] show ?thesis by (auto simp: upsert_row_def intro!: row_step_set)
qed (use assms(2) in \<open>auto simp: upsert_row_def intro!: row_step_set\<close>)

lemma update_row_step:
  assumes "\<And>r. jm_get (ad_rows db) (p, i) = Some r \<Longrightarrow> pa_unlockedAt (upd r) \<noteq> None"
  shows "row_step p i db (snd (update_row p i upd db))"
  using assms by (auto simp: update_row_def row_update_def split: option.splits intro!: row_step_set)

lemma mark_unlocked_step: "row_step p i db (snd (mark_unlocked p i a now db))"
  by (auto simp: mark_unlocked_def Let_def unlocked_row_def split: option.splits
      intro!: upsert_row_step update_row_step)

lemma distribute_step:
  assumes "jm_get (ad_rows db) (p, i) = Some r" and "pa_unlockedAt r \<noteq> None"
  shows "row_step p i db (snd (distribute_rewards dec p i a now db))"
proof -
  have claim: "row_step p i db' (snd (claim_row p i now db'))" if "ad_rows db' = ad_rows db" for db'
    using assms that by (auto simp: claim_row_def intro!: update_row_step)
  show ?thesis
    using claim [OF refl] row_step_trans [OF row_step_frame(2) claim [of "db\<lparr>ad_wallet := w\<rparr>" for w]]
    by (auto simp: distribute_rewards_def row_step_frame split: sum.splits prod.splits)
qed

lemma createUnlockNotification_rows [simp]: "ad_rows (createUnlockNotification p i n now db) = ad_rows db"
  by (simp add: createUnlockNotification_def Let_def)

lemma unlock_step: "row_step p i db (snd (unlockAchievement dec p i now db))"
proof (cases "getAchievementById i db")
  case (Inr a)
  have rest: "row_step p i s (snd (case jm_get (ad_rows s) (p, i) of None \<Rightarrow> (Inr (), s)
      | Some row \<Rightarrow> if pa_unlockedAt row = None \<or> pa_rewardClaimedAt row \<noteq> None then (Inr (), s)
          else distribute_rewards dec p i a now (createUnlockNotification p i (ac_name a) now s)))" for s
    by (auto split: option.splits intro!: row_step_trans [OF row_step_frame(1) distribute_step])
  have "row_step p i db (snd (and_then (mark_unlocked p i a now db) f))"
    if "\<And>x s. row_step p i s (snd (f x s))" for f
    by (rule and_then_keeps [where P = "row_step p i db"]) (auto intro: mark_unlocked_step row_step_trans that)
  from this [OF rest] Inr show ?thesis by (simp add: unlockAchievement_def)
qed (simp add: unlockAchievement_def)

lemma row_then_unlock_step:
  "row_step p i db
    (snd (and_then (upsert_row p i (new_row n) (\<lambda>r. r\<lparr>pa_progress := n\<rparr>) db)
       (\<lambda>_ db1. if b then unlockAchievement dec p i now db1 else (Inr (), db1))))"
  by (rule and_then_keeps [where P = "row_step p i db"])
    (auto simp: new_row_def intro: upsert_row_step row_step_trans unlock_step)

lemma check_one_step: "row_step p (fst ia) db (snd (check_one dec p ev now ia db))"
  by (cases ia) (simp add: check_one_def Let_def row_then_unlock_step)

lemma row_step_view: "row_step p i db db' \<Longrightarrow> (q, j) \<noteq> (p, i) \<Longrightarrow> row_view db' q j = row_view db q j"
  by (simp add: row_step_def row_view_def)

lemma distribute_view:
  assumes "parseGrants dec (ac_rewards a) = Inr gs" and "jm_get (ad_rows db) (p, i) = Some r"
  shows "\<exists>db'. distribute_rewards dec p i a now db = (Inr (), db') \<and> row_view db' p i = row_view db p i"
proof -
  obtain res w where "pay_grants dec i p (ac_name a) gs (ad_wallet db) = (res, w)" by fastforce
  with assms show ?thesis
    by (cases res)
      (auto simp: distribute_rewards_def claim_row_def update_row_def row_update_def row_view_def)
qed

lemma unlock_view:
  assumes "jm_get (ad_achievements db) i = Some a" and "parseGrants dec (ac_rewards a) = Inr gs"
    and "jm_get (ad_rows db) (p, i) = Some r"
    and r: "pa_progress r = ac_targetValue a" "pa_unlockedAt r = None" "pa_rewardClaimedAt r = None"
  shows "\<exists>db'. unlockAchievement dec p i now db = (Inr (), db') \<and> row_view db' p i = (ac_targetValue a, True)"
proof -
  let ?r = "r\<lparr>pa_unlockedAt := Some now, pa_progress := ac_targetValue a\<rparr>"
  let ?db = "db\<lparr>ad_rows := jm_set (ad_rows db) (p, i) ?r\<rparr>"
  let ?n = "createUnlockNotification p i (ac_name a) now ?db"
  have "mark_unlocked p i a now db = (Inr (), ?db)"
    using assms by (simp add: mark_unlocked_def update_row_def row_update_def)
  moreover have "jm_get (ad_rows ?n) (p, i) = Some ?r" by simp
  moreover from distribute_view [OF assms(2) this] obtain db' where
    "distribute_rewards dec p i a now ?n = (Inr (), db')" "row_view db' p i = row_view ?n p i" by blast
  ultimately show ?thesis
    using assms by (simp add: unlockAchievement_def getAchievementById_def row_view_def)
qed

lemma check_one_view:
  assumes "p \<in> set (ad_users db)" and a: "jm_get (ad_achievements db) i = Some a"
    and gs: "parseGrants dec (ac_rewards a) = Inr gs" and "claims_unlocked db"
  shows "\<exists>db'. check_one dec p ev now (i, a) db = (Inr (), db') \<and>
    row_view db' p i = advance (progressDeltaForAchievement a ev) (ac_targetValue a) (row_view db p i)"
proof (cases "progressDeltaForAchievement a ev \<le> 0 \<or> Option.bind (jm_get (ad_rows db) (p, i)) pa_unlockedAt \<noteq> None")
  case True
  then show ?thesis
    by (auto simp: check_one_def advance_def row_view_def split: option.splits)
next
  case False
  define n where "n = min (fst (row_view db p i) + progressDeltaForAchievement a ev) (ac_targetValue a)"
  define r where "r = (case jm_get (ad_rows db) (p, i) of None \<Rightarrow> new_row n | Some r \<Rightarrow> r\<lparr>pa_progress := n\<rparr>)"
  define db1 where "db1 = db\<lparr>ad_rows := jm_set (ad_rows db) (p, i) r\<rparr>"
  have r: "pa_progress r = n" "pa_unlockedAt r = None" "pa_rewardClaimedAt r = None"
    using False assms(4) by (auto simp: r_def new_row_def claims_unlocked_def split: option.splits)
  have row: "jm_get (ad_rows db1) (p, i) = Some r" by (simp add: db1_def)
  have "upsert_row p i (new_row n) (\<lambda>r. r\<lparr>pa_progress := n\<rparr>) db = (Inr (), db1)"
    using assms by (simp add: upsert_row_def db1_def r_def split: option.splits)
  moreover have cur: "(case jm_get (ad_rows db) (p, i) of None \<Rightarrow> 0 | Some r \<Rightarrow> pa_progress r) = fst (row_view db p i)"
    by (simp add: row_view_def split: option.splits)
  moreover have "ac_targetValue a \<le> n \<longleftrightarrow> ac_targetValue a \<le> fst (row_view db p i) + progressDeltaForAchievement a ev"
    by (simp add: n_def)
  ultimately have one: "check_one dec p ev now (i, a) db =
      (if ac_targetValue a \<le> n then unlockAchievement dec p i now db1 else (Inr (), db1))"
    using False unfolding check_one_def by (simp add: Let_def cur flip: n_def)
  have adv: "advance (progressDeltaForAchievement a ev) (ac_targetValue a) (row_view db p i) = (n, ac_targetValue a \<le> n)"
    using False by (auto simp: advance_def n_def row_view_def split: option.splits)
  show ?thesis
  proof (cases "ac_targetValue a \<le> n")
    case True
    then have "n = ac_targetValue a" by (simp add: n_def)
    moreover have "jm_get (ad_achievements db1) i = Some a" using a by (simp add: db1_def)
    ultimately show ?thesis
      using unlock_view [OF _ gs row, of now] r one adv by simp
  next
    case False
    with one adv row r show ?thesis by (simp add: row_view_def)
  qed
qed

lemma check_all_view:
  assumes "p \<in> set (ad_users db)" and "claims_unlocked db" and "distinct (map fst xs)"
    and "\<And>i a. (i, a) \<in> set xs \<Longrightarrow> jm_get (ad_achievements db) i = Some a \<and> (\<exists>gs. parseGrants dec (ac_rewards a) = Inr gs)"
  shows "\<exists>db'. check_all dec p ev now xs db = (Inr (), db') \<and>
    (\<forall>i. row_view db' p i = (case map_of xs i of None \<Rightarrow> row_view db p i
       | Some a \<Rightarrow> advance (progressDeltaForAchievement a ev) (ac_targetValue a) (row_view db p i)))"
  using assms
proof (induction xs arbitrary: db)
  case (Cons x xs)
  obtain i a where x: "x = (i, a)" by fastforce
  with Cons.prems(4) [of i a] check_one_view [OF Cons.prems(1) _ _ Cons.prems(2), of i a dec _ ev now]
  obtain db1 where one: "check_one dec p ev now x db = (Inr (), db1)"
    and v: "row_view db1 p i = advance (progressDeltaForAchievement a ev) (ac_targetValue a) (row_view db p i)"
    by auto
  have step: "row_step p i db db1" using check_one_step [of p x db dec ev now, unfolded one] by (simp add: x)
  have "\<exists>db'. check_all dec p ev now xs db1 = (Inr (), db') \<and>
    (\<forall>i. row_view db' p i = (case map_of xs i of None \<Rightarrow> row_view db1 p i
       | Some a \<Rightarrow> advance (progressDeltaForAchievement a ev) (ac_targetValue a) (row_view db1 p i)))"
    using Cons.prems step by (intro Cons.IH) (auto simp: row_step_def)
  then obtain db' where all: "check_all dec p ev now xs db1 = (Inr (), db')" and
    v': "row_view db' p j = (case map_of xs j of None \<Rightarrow> row_view db1 p j
       | Some a \<Rightarrow> advance (progressDeltaForAchievement a ev) (ac_targetValue a) (row_view db1 p j))" for j
    by blast
  have i: "map_of xs i = None" using Cons.prems(3) x by (simp add: map_of_eq_None_iff)
  have "row_view db' p j = (case map_of (x # xs) j of None \<Rightarrow> row_view db p j
       | Some a \<Rightarrow> advance (progressDeltaForAchievement a ev) (ac_targetValue a) (row_view db p j))" for j
    using v' [of j] v row_step_view [OF step, of p j] i x by (auto split: option.splits)
  with one all show ?case by simp
qed simp

lemma map_of_filter_distinct:
  "distinct (map fst xs) \<Longrightarrow>
     map_of (filter P xs) i = (case map_of xs i of None \<Rightarrow> None | Some a \<Rightarrow> if P (i, a) then Some a else None)"
  by (induction xs) (auto simp: map_of_eq_None_iff split: option.splits)

lemma check_all_other:
  assumes "p \<noteq> q"
  shows "row_view (snd (check_all dec q ev now xs db)) p i = row_view db p i"
  by (rule sym, induction xs arbitrary: db)
    (auto simp: check_one_step [THEN row_step_view] assms
      intro!: and_then_keeps [where P = "\<lambda>db'. row_view db p i = row_view db' p i" for db])

lemma check_all_claims: "claims_unlocked db \<Longrightarrow> claims_unlocked (snd (check_all dec q ev now xs db))"
proof (induction xs arbitrary: db)
  case (Cons x xs)
  then have "claims_unlocked (snd (check_one dec q ev now x db))"
    using check_one_step [of q x db dec ev now] by (simp add: row_step_def)
  with Cons.IH show ?case by (auto intro: and_then_keeps [where P = claims_unlocked])
qed simp

text \<open>Tables whose rewards can be read: the catalogue is one.\<close>

definition readable_table :: "(string \<Rightarrow> int option) \<Rightarrow> (string, achievement) jsmap \<Rightarrow> bool" where
  "readable_table dec table \<longleftrightarrow>
     jm_wf table \<and> list_all (\<lambda>(i, a). \<not> isl (parseGrants dec (ac_rewards a))) table"

lemma readable_tableD:
  assumes "readable_table dec table" and "(i, a) \<in> set table"
  shows "jm_get table i = Some a \<and> (\<exists>gs. parseGrants dec (ac_rewards a) = Inr gs)"
  using assms by (cases "parseGrants dec (ac_rewards a)") (auto simp: readable_table_def list_all_iff jm_wf_def jm_get_def)

definition own_advance :: "achievement \<Rightarrow> string \<Rightarrow> int \<times> bool \<Rightarrow> game_event \<Rightarrow> int \<times> bool" where
  "own_advance a p v ev =
     (if ev_playerId ev = p then advance (progressDeltaForAchievement a ev) (ac_targetValue a) v else v)"

lemma checkAchievements_view:
  assumes "readable_table dec (ad_achievements db)" and "jm_get (ad_achievements db) i = Some a"
    and "p \<in> set (ad_users db)" and "claims_unlocked db"
  shows "row_view (snd (checkAchievements dec (ev_playerId ev) ev now db)) p i = own_advance a p (row_view db p i) ev"
proof (cases "ev_playerId ev = p")
  case True
  let ?P = "\<lambda>(i, a). event_name (ev_type ev) \<in> set (ac_eventTypes a)"
  have d: "distinct (map fst (ad_achievements db))"
    using assms(1) by (simp add: readable_table_def jm_wf_def)
  then have "distinct (map fst (filter ?P (ad_achievements db)))" by (rule distinct_map_filter)
  from check_all_view [OF assms(3,4) this, of dec ev now] readable_tableD [OF assms(1)]
  obtain db' where "checkAchievements dec p ev now db = (Inr (), db')"
    "row_view db' p i = (case map_of (filter ?P (ad_achievements db)) i of None \<Rightarrow> row_view db p i
       | Some a \<Rightarrow> advance (progressDeltaForAchievement a ev) (ac_targetValue a) (row_view db p i))"
    by (auto simp: checkAchievements_def)
  moreover have "event_name (ev_type ev) \<notin> set (ac_eventTypes a) \<Longrightarrow> progressDeltaForAchievement a ev = 0"
    by (simp add: progressDeltaForAchievement_def)
  ultimately show ?thesis
    using True assms(2) [unfolded jm_get_def] by (simp add: map_of_filter_distinct [OF d] own_advance_def advance_def)
next
  case False
  then show ?thesis by (simp add: checkAchievements_def check_all_other own_advance_def)
qed

text \<open>The events of a player that count for an achievement.\<close>

definition hits :: "achievement \<Rightarrow> string \<Rightarrow> game_event list \<Rightarrow> nat" where
  "hits a p evs = length (filter (\<lambda>ev. ev_playerId ev = p \<and> progressDeltaForAchievement a ev > 0) evs)"

lemma delta_cases: "progressDeltaForAchievement a ev = 0 \<or> progressDeltaForAchievement a ev = 1"
  by (simp add: progressDeltaForAchievement_def split: game_event_type.split)

lemma own_advance_hits:
  assumes "0 < ac_targetValue a"
  shows "foldl (own_advance a p) (0, False) evs
    = (min (int (hits a p evs)) (ac_targetValue a), ac_targetValue a \<le> int (hits a p evs))"
proof (induction evs rule: rev_induct)
  case (snoc ev evs)
  with delta_cases [of a ev] show ?case
    by (auto simp: own_advance_def advance_def hits_def min_def)
qed (use assms in \<open>simp add: hits_def\<close>)

definition event_ops :: "(game_event \<times> int) list \<Rightarrow> ach_op list" where
  "event_ops evs = map (\<lambda>(ev, now). HandleEvent ev now) evs"

lemma events_view:
  assumes "readable_table dec table" and "jm_get table i = Some a" and "p \<in> set users"
  shows "row_view (foldl (ach_exec dec) (ach_start users table w) (event_ops evs)) p i
      = foldl (own_advance a p) (0, False) (map fst evs)
    \<and> claims_unlocked (foldl (ach_exec dec) (ach_start users table w) (event_ops evs))"
proof (induction evs rule: rev_induct)
  case (snoc e evs)
  obtain ev now where e: "e = (ev, now)" by fastforce
  define db where "db = foldl (ach_exec dec) (ach_start users table w) (event_ops evs)"
  have "ach_inv dec users table w db"
    unfolding db_def by (rule achievements.inv_reachable) (simp add: allowed_run_all)
  with assms snoc have "row_view (snd (checkAchievements dec (ev_playerId ev) ev now db)) p i
      = own_advance a p (row_view db p i) ev"
    by (intro checkAchievements_view) (simp_all add: ach_inv_def db_def)
  moreover have "claims_unlocked (snd (checkAchievements dec (ev_playerId ev) ev now db))"
    using snoc unfolding checkAchievements_def db_def by (intro check_all_claims) simp
  ultimately show ?case using snoc by (simp add: event_ops_def e db_def)
qed (simp add: event_ops_def ach_start_def row_view_def claims_unlocked_def)

section \<open>Properties\<close>

text \<open>
  C20. Achievement rewards are paid once. Whatever players report, whichever events arrive and
  however often an unlock is repeated, the balance of a player grows at most by the value of the
  rewards of the table, each grant counted once per achievement; and a row that is marked as claimed
  has every one of its rewards in the wallet's journal.
\<close>

theorem achievement_rewards_once:
  assumes "db = foldl (ach_exec dec) (ach_start users table w) ops"
  shows "available_of (ad_wallet db) p c \<le> available_of w p c + due_value dec c table \<and>
    (\<forall>i r. jm_get (ad_rows db) (p, i) = Some r \<and> pa_rewardClaimedAt r \<noteq> None \<longrightarrow>
       (\<exists>a. jm_get table i = Some a \<and>
            (\<forall>g\<in>set (grants_of dec a). jm_get (walletTransactions (ad_wallet db)) (reward_key i p g) \<noteq> None)))"
proof -
  have inv: "ach_inv dec users table w db"
    unfolding assms by (rule achievements.inv_reachable) (simp add: allowed_run_all)
  have low: "available_of v p c \<le> potential dec table p c v" for v
    unfolding potential_def
    by (simp, rule sum_list_int_nonneg) (auto simp: unpaid_def dest: due_positive)
  have high: "potential dec table p c w \<le> available_of w p c + due_value dec c table"
    unfolding potential_def due_value_def
    by (simp, rule sum_list_mono) (auto simp: unpaid_def dest: due_positive)
  have "available_of (ad_wallet db) p c \<le> available_of w p c + due_value dec c table"
    using order_trans [OF low [of "ad_wallet db"]] inv high unfolding ach_inv_def by (meson order_trans)
  with inv show ?thesis unfolding ach_inv_def claims_paid_def by blast
qed

definition demo_dec :: "string \<Rightarrow> int option" where
  "demo_dec s = (if s = ''5'' then Some 50000000 else if s = ''10'' then Some 100000000
     else if s = ''25'' then Some 250000000 else None)"

definition demo_table :: "(string, achievement) jsmap" where
  "demo_table = zip [''a1'', ''a2''] ACHIEVEMENT_CATALOG"

definition demo_event :: "game_event_type \<Rightarrow> game_event" where
  "demo_event ty = \<lparr>ev_type = ty, ev_playerId = ''p'', ev_payload = [(''won'', JBool True)]\<rparr>"

theorem achievement_rewards_once_witness:
  "let ops = [HandleEvent (demo_event MATCH_WON) 1, UnlockAchievement ''p'' ''a1'' 2,
              UpdateProgress ''p'' ''a1'' (Some 7) 3, HandleEvent (demo_event MATCH_WON) 4];
       db = foldl (ach_exec demo_dec) (ach_start [''p''] demo_table empty_wallet) ops
   in available_of (ad_wallet db) ''p'' AX = 50000000 \<and>
      map_option pa_rewardClaimedAt (jm_get (ad_rows db) (''p'', ''a1'')) = Some (Some 1) \<and>
      available_of (ad_wallet db) ''p'' AX \<le> due_value demo_dec AX demo_table"
proof -
  let ?ops = "[HandleEvent (demo_event MATCH_WON) 1, UnlockAchievement ''p'' ''a1'' 2,
              UpdateProgress ''p'' ''a1'' (Some 7) 3, HandleEvent (demo_event MATCH_WON) 4]"
  let ?db = "foldl (ach_exec demo_dec) (ach_start [''p''] demo_table empty_wallet) ?ops"
  have "available_of (ad_wallet ?db) ''p'' AX = 50000000" by code_simp
  moreover have "map_option pa_rewardClaimedAt (jm_get (ad_rows ?db) (''p'', ''a1'')) = Some (Some 1)" by code_simp
  ultimately show ?thesis
    using achievement_rewards_once [OF refl, of demo_dec "[''p'']" demo_table empty_wallet ?ops "''p''" AX]
    unfolding Let_def by simp
qed



text \<open>
  What others see. The owner of the profile sees every achievement exactly once; everybody else
  sees the achievements that are not hidden, and of those not yet unlocked no progress.
\<close>

theorem achievement_privacy:
  assumes "getPlayerAchievements collate lkey ids p viewer db = (Inr (owner, views), db')"
  shows "owner = (viewer = Some p \<and> p \<noteq> []) \<and>
    (owner \<longrightarrow> mset (map (\<lambda>v. (vw_id v, vw_achievement v)) views) = mset (ad_achievements db')) \<and>
    (\<not> owner \<longrightarrow>
       mset (map (\<lambda>v. (vw_id v, vw_achievement v)) views)
         = mset (filter (\<lambda>(i, a). \<not> ac_hidden a) (ad_achievements db')) \<and>
       (\<forall>v\<in>set views. vw_unlockedAt v = None \<longrightarrow> vw_progress v = None))"
proof -
  let ?ids = "\<lambda>v. (vw_id v, vw_achievement v)" and ?t = "ad_achievements (syncCatalog ids db)"
  have id: "?ids \<circ> player_view b q d = (\<lambda>x. x)" for b q d
    by (auto simp: player_view_def Let_def)
  have hide: "vw_progress (player_view False p d ia) = None"
    if "vw_unlockedAt (player_view False p d ia) = None" for d ia
    using that by (cases ia) (simp add: player_view_def Let_def)
  have parts: "image_mset f {#x \<in># M. case x of (i, a) \<Rightarrow> \<not> ac_hidden a#}
      + image_mset f {#x \<in># M. case x of (i, a) \<Rightarrow> ac_hidden a#} = image_mset f M" for f :: "_ \<Rightarrow> achievement_view" and M
    by (induction M) auto
  from assms have o: "owner = (viewer = Some p \<and> p \<noteq> [])" and db': "db' = syncCatalog ids db"
    by (auto simp: getPlayerAchievements_def Let_def split: if_splits)
  show ?thesis
  proof (cases owner)
    case True
    with assms o have "mset views = image_mset (player_view True p (syncCatalog ids db)) (mset ?t)"
      by (auto simp: getPlayerAchievements_def Let_def parts split: if_splits)
    with True o db' show ?thesis by (simp add: id multiset.map_comp)
  next
    case False
    with assms o have "views = map (player_view False p (syncCatalog ids db))
        (sort_key (\<lambda>(i, a). (ac_sortOrder a, collate (ac_name a))) (filter (\<lambda>(i, a). \<not> ac_hidden a) ?t))"
      by (auto simp: getPlayerAchievements_def Let_def split: if_splits)
    with False o db' hide show ?thesis by (auto simp: id)
  qed
qed

definition demo_seen :: ach_db where
  "demo_seen = (ach_start [''p''] jm_empty empty_wallet)
     \<lparr>ad_rows := [((''p'', ''k2''), \<lparr>pa_progress = 4, pa_unlockedAt = None, pa_rewardClaimedAt = None\<rparr>)]\<rparr>"

theorem achievement_privacy_witness:
  "let r = getPlayerAchievements (\<lambda>_. 0) (\<lambda>_. 0) [''k1'', ''k2'', ''k3'', ''k4'', ''k5'', ''k6''] ''p'' (Some ''q'') demo_seen
   in (case r of (Inl e, db') \<Rightarrow> False
       | (Inr (owner, views), db') \<Rightarrow> \<not> owner \<and> length views = 5 \<and>
           (\<forall>v\<in>set views. vw_unlockedAt v = None \<longrightarrow> vw_progress v = None))"
proof -
  let ?r = "getPlayerAchievements (\<lambda>_. 0) (\<lambda>_. 0) [''k1'', ''k2'', ''k3'', ''k4'', ''k5'', ''k6''] ''p'' (Some ''q'') demo_seen"
  have "case ?r of (Inl e, db') \<Rightarrow> False | (Inr (owner, views), db') \<Rightarrow> \<not> owner \<and> length views = 5"
    by code_simp
  then obtain views db' where r: "?r = (Inr (False, views), db')" and "length views = 5"
    by (auto split: prod.splits sum.splits)
  with achievement_privacy [OF r] show ?thesis unfolding Let_def r by simp
qed

end
