(* ===== verification/AuditTrail.thy ===== *)
theory AuditTrail
  imports Json Stores
begin

text \<open>
  The audit trail: \<^verbatim>\<open>server/src/services/audit.service.ts\<close> writes entries that carry a hash over their
  own content and the hash of the entry before, and checks them again;
  \<^verbatim>\<open>server/src/services/audit-anchor.service.ts\<close> publishes the Merkle root of new entries;
  \<^verbatim>\<open>server/src/services/wallet-audit.service.ts\<close> writes a second trail of the same kind.

  Arguments of the model: the hash function \<open>sha\<close> on texts, the printing of numbers \<open>num\<close> and of
  dates \<open>isoDate\<close>, the clock, new identifiers, and the ledger that anchors a root. A date is a number of
  milliseconds. The time the database gives an entry is an argument of its own: the service reads
  its clock before, when it computes the hash.
\<close>

section \<open>Entries\<close>

datatype audit_status = AuditSuccess | AuditFailed | AuditCritical

fun audit_status_name :: "audit_status \<Rightarrow> string" where
  "audit_status_name AuditSuccess = ''SUCCESS''"
| "audit_status_name AuditFailed = ''FAILED''"
| "audit_status_name AuditCritical = ''CRITICAL''"

record audit_context =
  cx_userId :: string
  cx_role :: "string option"
  cx_action :: string
  cx_status :: "audit_status option"
  cx_targetType :: string
  cx_targetId :: string
  cx_ipAddress :: "string option"
  cx_userAgent :: "string option"
  cx_requestId :: "string option"
  cx_correlationId :: "string option"
  cx_payloadBefore :: "json option"
  cx_payloadAfter :: "json option"
  cx_details :: "(string \<times> json) list option"

record audit_row =
  al_id :: string
  al_adminId :: string
  al_action :: string
  al_targetType :: string
  al_targetId :: string
  al_details :: "json option"
  al_requestId :: "string option"
  al_correlationId :: "string option"
  al_snapshotBefore :: "json option"
  al_snapshotAfter :: "json option"
  al_ipAddress :: "string option"
  al_userAgent :: "string option"
  al_entryHash :: "string option"
  al_previousHash :: "string option"
  al_anchoredAt :: "int option"
  al_anchorTxId :: "string option"
  al_redactedAt :: "int option"
  al_createdAt :: int

record audit_db =
  au_users :: "string list"
  au_logs :: "audit_row list"

section \<open>Hashing\<close>

text \<open>\<^verbatim>\<open>x || undefined\<close> for an optional string, \<^verbatim>\<open>x ?? null\<close>, and \<^verbatim>\<open>x\<close> itself.\<close>

definition or_undefined :: "string option \<Rightarrow> json" where
  "or_undefined x = (case x of None \<Rightarrow> JUndef | Some s \<Rightarrow> if s = [] then JUndef else JStr s)"

definition or_null :: "string option \<Rightarrow> json" where
  "or_null x = (case x of None \<Rightarrow> JNull | Some s \<Rightarrow> JStr s)"

definition given :: "json option \<Rightarrow> json" where
  "given x = (case x of None \<Rightarrow> JUndef | Some v \<Rightarrow> v)"

text \<open>The object that is hashed: both the writer and the checker list its properties in this order.\<close>

record hash_entry =
  he_userId :: string
  he_role :: string
  he_action :: string
  he_status :: json
  he_targetType :: string
  he_targetId :: string
  he_ipAddress :: json
  he_userAgent :: json
  he_requestId :: json
  he_correlationId :: json
  he_payloadBefore :: json
  he_payloadAfter :: json
  he_timestamp :: string
  he_previousHash :: json

definition entry_object :: "hash_entry \<Rightarrow> json" where
  "entry_object e = JObj
     [(''userId'', JStr (he_userId e)), (''role'', JStr (he_role e)), (''action'', JStr (he_action e)),
      (''status'', he_status e), (''targetType'', JStr (he_targetType e)), (''targetId'', JStr (he_targetId e)),
      (''ipAddress'', he_ipAddress e), (''userAgent'', he_userAgent e), (''requestId'', he_requestId e),
      (''correlationId'', he_correlationId e), (''payloadBefore'', he_payloadBefore e),
      (''payloadAfter'', he_payloadAfter e), (''timestamp'', JStr (he_timestamp e)),
      (''previousHash'', he_previousHash e)]"

definition entry_text :: "(rat \<Rightarrow> string) \<Rightarrow> hash_entry \<Rightarrow> string" where
  "entry_text num e = stableStringify num (entry_object e)"

definition computeHash :: "(string \<Rightarrow> string) \<Rightarrow> (rat \<Rightarrow> string) \<Rightarrow> hash_entry \<Rightarrow> string" where
  "computeHash sha num e = sha (entry_text num e)"

section \<open>Writing\<close>

text \<open>The entry with the greatest time, the last written of them where several have it.\<close>

definition latest_log :: "audit_row list \<Rightarrow> audit_row option" where
  "latest_log rows = (if rows = [] then None else Some (last (sort_key al_createdAt rows)))"

definition context_entry :: "audit_context \<Rightarrow> string \<Rightarrow> string option \<Rightarrow> hash_entry" where
  "context_entry cx timestamp previousHash =
     \<lparr>he_userId = cx_userId cx,
      he_role = (case cx_role cx of None \<Rightarrow> ''SYSTEM'' | Some r \<Rightarrow> r),
      he_action = cx_action cx,
      he_status = JStr (audit_status_name (case cx_status cx of None \<Rightarrow> AuditSuccess | Some s \<Rightarrow> s)),
      he_targetType = cx_targetType cx, he_targetId = cx_targetId cx,
      he_ipAddress = or_undefined (cx_ipAddress cx), he_userAgent = or_undefined (cx_userAgent cx),
      he_requestId = or_undefined (cx_requestId cx), he_correlationId = or_undefined (cx_correlationId cx),
      he_payloadBefore = given (cx_payloadBefore cx), he_payloadAfter = given (cx_payloadAfter cx),
      he_timestamp = timestamp, he_previousHash = or_null previousHash\<rparr>"

definition log_details :: "audit_context \<Rightarrow> json" where
  "log_details cx =
     (let details = (case cx_details cx of None \<Rightarrow> [] | Some d \<Rightarrow> d);
          status = (case cx_status cx of None \<Rightarrow> AuditSuccess | Some s \<Rightarrow> s);
          role = (case cx_role cx of None \<Rightarrow> ''SYSTEM'' | Some r \<Rightarrow> r)
      in JObj (jm_set (jm_set details ''_status'' (JStr (audit_status_name status))) ''_role'' (JStr role)))"

definition log_entry ::
  "(string \<Rightarrow> string) \<Rightarrow> (rat \<Rightarrow> string) \<Rightarrow> (int \<Rightarrow> string) \<Rightarrow> audit_context \<Rightarrow> string \<Rightarrow> int \<Rightarrow> int
     \<Rightarrow> audit_db \<Rightarrow> (audit_row \<times> audit_db) result" where
  "log_entry sha num isoDate cx newId now createdAt db =
     (let previousHash = Option.bind (latest_log (au_logs db)) al_entryHash;
          entryHash = computeHash sha num (context_entry cx (isoDate now) previousHash);
          row = \<lparr>al_id = newId, al_adminId = cx_userId cx, al_action = cx_action cx,
                 al_targetType = cx_targetType cx, al_targetId = cx_targetId cx,
                 al_details = Some (db_json (log_details cx)),
                 al_requestId = cx_requestId cx, al_correlationId = cx_correlationId cx,
                 al_snapshotBefore = Some (case cx_payloadBefore cx of None \<Rightarrow> JObj [] | Some v \<Rightarrow> db_json v),
                 al_snapshotAfter = Some (case cx_payloadAfter cx of None \<Rightarrow> JObj [] | Some v \<Rightarrow> db_json v),
                 al_ipAddress = cx_ipAddress cx, al_userAgent = cx_userAgent cx,
                 al_entryHash = Some entryHash, al_previousHash = previousHash,
                 al_anchoredAt = None, al_anchorTxId = None, al_redactedAt = None, al_createdAt = createdAt\<rparr>
      in if cx_userId cx \<notin> set (au_users db) then Inl (PrismaError ''P2003'')
         else Inr (row, db\<lparr>au_logs := au_logs db @ [row]\<rparr>))"

definition logAction ::
  "(string \<Rightarrow> string) \<Rightarrow> (rat \<Rightarrow> string) \<Rightarrow> (int \<Rightarrow> string) \<Rightarrow> audit_context \<Rightarrow> string \<Rightarrow> int \<Rightarrow> int
     \<Rightarrow> audit_db \<Rightarrow> (audit_row \<times> audit_db) result" where
  "logAction sha num isoDate data newId now createdAt db =
     log_entry sha num isoDate (data\<lparr>cx_role := None, cx_status := None\<rparr>) newId now createdAt db"

definition logAuthEvent ::
  "(string \<Rightarrow> string) \<Rightarrow> (rat \<Rightarrow> string) \<Rightarrow> (int \<Rightarrow> string) \<Rightarrow> string \<Rightarrow> string \<Rightarrow> (string \<times> json) list
     \<Rightarrow> string option \<Rightarrow> string option \<Rightarrow> string option \<Rightarrow> string option \<Rightarrow> string \<Rightarrow> int \<Rightarrow> int
     \<Rightarrow> audit_db \<Rightarrow> (audit_row \<times> audit_db) result" where
  "logAuthEvent sha num isoDate userId action details ip agent provider corr newId now createdAt db =
     log_entry sha num isoDate
       \<lparr>cx_userId = userId, cx_role = None, cx_action = ''AUTH_'' @ action, cx_status = None,
        cx_targetType = ''USER'', cx_targetId = userId, cx_ipAddress = ip, cx_userAgent = agent,
        cx_requestId = None, cx_correlationId = corr, cx_payloadBefore = None, cx_payloadAfter = None,
        cx_details = Some (jm_set details ''provider''
          (case provider of None \<Rightarrow> JUndef | Some p \<Rightarrow> JStr p))\<rparr> newId now createdAt db"

section \<open>Checking\<close>

definition row_entry :: "(rat \<Rightarrow> string) \<Rightarrow> (int \<Rightarrow> string) \<Rightarrow> audit_row \<Rightarrow> hash_entry" where
  "row_entry num isoDate r =
     (let details = (case al_details r of None \<Rightarrow> JObj [] | Some d \<Rightarrow> if d = JNull then JObj [] else d);
          role = json_prop details ''_role'';
          status = json_prop details ''_status'';
          snap = (\<lambda>s. case s of None \<Rightarrow> JUndef | Some v \<Rightarrow> if v = JNull then JUndef else v)
      in \<lparr>he_userId = al_adminId r,
          he_role = (if role = JUndef \<or> role = JNull then ''SYSTEM'' else js_String num role),
          he_action = al_action r,
          he_status = (if status = JUndef \<or> status = JNull then JStr ''SUCCESS'' else status),
          he_targetType = al_targetType r, he_targetId = al_targetId r,
          he_ipAddress = or_undefined (al_ipAddress r), he_userAgent = or_undefined (al_userAgent r),
          he_requestId = or_undefined (al_requestId r), he_correlationId = or_undefined (al_correlationId r),
          he_payloadBefore = snap (al_snapshotBefore r), he_payloadAfter = snap (al_snapshotAfter r),
          he_timestamp = isoDate (al_createdAt r), he_previousHash = or_null (al_previousHash r)\<rparr>)"

record integrity_report =
  ir_ok :: bool
  ir_totalChecked :: nat
  ir_firstTamperedId :: "string option"
  ir_message :: string

fun check_logs ::
  "(string \<Rightarrow> string) \<Rightarrow> (rat \<Rightarrow> string) \<Rightarrow> (int \<Rightarrow> string) \<Rightarrow> nat \<Rightarrow> audit_row list \<Rightarrow> integrity_report" where
  "check_logs sha num isoDate checked [] =
     \<lparr>ir_ok = True, ir_totalChecked = checked, ir_firstTamperedId = None, ir_message = ''Chain intact''\<rparr>"
| "check_logs sha num isoDate checked (r # rows) =
     (if al_entryHash r = None \<or> al_entryHash r = Some [] then check_logs sha num isoDate checked rows
      else if Some (computeHash sha num (row_entry num isoDate r)) \<noteq> al_entryHash r
      then \<lparr>ir_ok = False, ir_totalChecked = checked, ir_firstTamperedId = Some (al_id r),
            ir_message = ''Tampered record detected at id='' @ al_id r\<rparr>
      else check_logs sha num isoDate (checked + 1) rows)"

definition verifyIntegrity ::
  "(string \<Rightarrow> string) \<Rightarrow> (rat \<Rightarrow> string) \<Rightarrow> (int \<Rightarrow> string) \<Rightarrow> nat \<Rightarrow> audit_db \<Rightarrow> integrity_report" where
  "verifyIntegrity sha num isoDate limit db =
     check_logs sha num isoDate 0 (take limit (sort_key al_createdAt (au_logs db)))"

section \<open>Redaction, retention, reports\<close>

definition redact_row :: "int \<Rightarrow> audit_row \<Rightarrow> audit_row" where
  "redact_row now r = r\<lparr>al_snapshotBefore := Some (JObj []), al_snapshotAfter := Some (JObj []),
     al_details := Some (JObj [(''_redacted'', JBool True)]), al_ipAddress := None, al_userAgent := None,
     al_redactedAt := Some now\<rparr>"

definition redactUser :: "string \<Rightarrow> int \<Rightarrow> audit_db \<Rightarrow> nat \<times> audit_db" where
  "redactUser userId now db =
     (let hit = (\<lambda>r. al_adminId r = userId \<and> al_redactedAt r = None)
      in (length (filter hit (au_logs db)),
          db\<lparr>au_logs := map (\<lambda>r. if hit r then redact_row now r else r) (au_logs db)\<rparr>))"

definition retained_actions :: "string list" where
  "retained_actions = [''WALLET_TRANSACTION'', ''WALLET_WITHDRAW'', ''MANUAL_PAYOUT'', ''KYC_APPROVE'', ''KYC_REJECT'']"

definition applyRetentionPolicy :: "int \<Rightarrow> int \<Rightarrow> audit_db \<Rightarrow> nat \<times> audit_db" where
  "applyRetentionPolicy retentionDays now db =
     (let cutoff = now - retentionDays * 24 * 60 * 60 * 1000;
          hit = (\<lambda>r. al_createdAt r < cutoff \<and> al_action r \<notin> set retained_actions)
      in (length (filter hit (au_logs db)), db\<lparr>au_logs := filter (\<lambda>r. \<not> hit r) (au_logs db)\<rparr>))"

definition sensitive_actions :: "string list" where
  "sensitive_actions = [''WALLET_TRANSACTION'', ''WALLET_WITHDRAW'', ''MANUAL_PAYOUT'',
     ''DATA_DELETION_REQUEST'', ''DATA_EXPORT'', ''KYC_APPROVE'', ''KYC_REJECT'']"

record compliance_report =
  cr_totalEvents :: nat
  cr_byAction :: "(string, nat) jsmap"
  cr_sensitiveEventCount :: nat

definition complianceReport :: "int \<Rightarrow> int \<Rightarrow> audit_db \<Rightarrow> compliance_report" where
  "complianceReport fromDate toDate db =
     (let logs = filter (\<lambda>r. fromDate \<le> al_createdAt r \<and> al_createdAt r \<le> toDate) (au_logs db)
      in \<lparr>cr_totalEvents = length logs,
          cr_byAction = foldl (\<lambda>m r. jm_set m (al_action r)
            ((case jm_get m (al_action r) of None \<Rightarrow> 0 | Some n \<Rightarrow> n) + 1)) jm_empty logs,
          cr_sensitiveEventCount =
            length (filter (\<lambda>r. al_action r \<in> set sensitive_actions \<or> al_redactedAt r \<noteq> None) logs)\<rparr>)"

definition replayEvents ::
  "string \<Rightarrow> string \<Rightarrow> audit_db \<Rightarrow> (int \<times> string \<times> json option) list \<times> json option" where
  "replayEvents targetType targetId db =
     (let logs = sort_key al_createdAt
            (filter (\<lambda>r. al_targetType r = targetType \<and> al_targetId r = targetId) (au_logs db));
          snapshots = map (\<lambda>r. (al_createdAt r, al_action r, al_snapshotAfter r)) logs
      in (snapshots, if snapshots = [] then None else snd (snd (last snapshots))))"

section \<open>What a hash stands for\<close>

text \<open>An entry up to the order of properties, and the entries whose text determines them.\<close>

definition entry_norm :: "hash_entry \<Rightarrow> hash_entry" where
  "entry_norm e =
     \<lparr>he_userId = he_userId e, he_role = he_role e, he_action = he_action e, he_status = sort_props (he_status e),
      he_targetType = he_targetType e, he_targetId = he_targetId e, he_ipAddress = sort_props (he_ipAddress e),
      he_userAgent = sort_props (he_userAgent e), he_requestId = sort_props (he_requestId e),
      he_correlationId = sort_props (he_correlationId e), he_payloadBefore = sort_props (he_payloadBefore e),
      he_payloadAfter = sort_props (he_payloadAfter e), he_timestamp = he_timestamp e,
      he_previousHash = sort_props (he_previousHash e)\<rparr>"

lemma distinct_assoc_eq:
  assumes "map fst xs = map fst ys" and "distinct (map fst xs)" and "set xs = set ys"
  shows "xs = ys"
proof -
  have "distinct (map fst ys)" using assms(1,2) by metis
  with assms have m: "map_of xs = map_of ys" by (metis map_of_inject_set)
  have "zs = map (\<lambda>k. (k, the (map_of zs k))) (map fst zs)" if "distinct (map fst zs)" for zs :: "('a \<times> 'b) list"
  proof -
    have "z = (fst z, the (map_of zs (fst z)))" if "z \<in> set zs" for z
      using that \<open>distinct (map fst zs)\<close> by (metis map_of_is_SomeI option.sel prod.collapse)
    then show ?thesis by (simp add: map_idI comp_def)
  qed
  with assms(1,2) m \<open>distinct (map fst ys)\<close> show ?thesis by metis
qed

lemma sort_assoc_eq:
  assumes "map fst xs = map fst ys" and "distinct (map fst xs)"
  shows "sort_key fst xs = sort_key fst ys \<longleftrightarrow> xs = ys"
  using distinct_assoc_eq [OF assms] by (metis set_sort)

lemma entry_object_norm: "sort_props (entry_object e) = sort_props (entry_object e') \<longleftrightarrow> entry_norm e = entry_norm e'"
proof -
  have keys: "distinct [''userId'', ''role'', ''action'', ''status'', ''targetType'', ''targetId'', ''ipAddress'',
    ''userAgent'', ''requestId'', ''correlationId'', ''payloadBefore'', ''payloadAfter'', ''timestamp'', ''previousHash'']"
    by code_simp
  let ?kvs = "\<lambda>e. [(''userId'', JStr (he_userId e)), (''role'', JStr (he_role e)), (''action'', JStr (he_action e)),
      (''status'', sort_props (he_status e)), (''targetType'', JStr (he_targetType e)), (''targetId'', JStr (he_targetId e)),
      (''ipAddress'', sort_props (he_ipAddress e)), (''userAgent'', sort_props (he_userAgent e)),
      (''requestId'', sort_props (he_requestId e)), (''correlationId'', sort_props (he_correlationId e)),
      (''payloadBefore'', sort_props (he_payloadBefore e)), (''payloadAfter'', sort_props (he_payloadAfter e)),
      (''timestamp'', JStr (he_timestamp e)), (''previousHash'', sort_props (he_previousHash e))]"
  have "sort_props (entry_object e) = JObj (sort_key fst (?kvs e))" for e
    by (simp only: entry_object_def sort_props.simps list.map fst_conv snd_conv)
  moreover have "sort_key fst (?kvs e) = sort_key fst (?kvs e') \<longleftrightarrow> ?kvs e = ?kvs e'"
    by (rule sort_assoc_eq) (simp_all only: list.map fst_conv keys)
  moreover have "?kvs e = ?kvs e' \<longleftrightarrow> entry_norm e = entry_norm e'"
    unfolding entry_norm_def by auto
  ultimately show ?thesis by (simp only: json.inject)
qed

definition entry_clean :: "hash_entry \<Rightarrow> bool" where
  "entry_clean e \<longleftrightarrow> list_all no_holes [he_status e, he_ipAddress e, he_userAgent e, he_requestId e,
     he_correlationId e, he_payloadBefore e, he_payloadAfter e, he_previousHash e]"

lemma entry_text_eq:
  assumes "number_format num" and "entry_clean e" and "entry_clean e'"
  shows "entry_text num e = entry_text num e' \<longleftrightarrow> entry_norm e = entry_norm e'"
proof -
  have "no_holes (entry_object e)" if "entry_clean e" for e
    using that unfolding entry_object_def entry_clean_def by simp
  with assms show ?thesis
    by (simp only: entry_text_def stringify_eq_iff entry_object_norm)
qed

section \<open>What the check sees\<close>

definition row_ok :: "(string \<Rightarrow> string) \<Rightarrow> (rat \<Rightarrow> string) \<Rightarrow> (int \<Rightarrow> string) \<Rightarrow> audit_row \<Rightarrow> bool" where
  "row_ok sha num isoDate r \<longleftrightarrow>
     al_entryHash r = None \<or> al_entryHash r = Some [] \<or>
     al_entryHash r = Some (computeHash sha num (row_entry num isoDate r))"

lemma check_logs_ok: "ir_ok (check_logs sha num isoDate k rows) \<longleftrightarrow> list_all (row_ok sha num isoDate) rows"
  by (induction rows arbitrary: k) (auto simp: row_ok_def)

lemma verify_ok:
  "length (au_logs db) \<le> n \<Longrightarrow>
     ir_ok (verifyIntegrity sha num isoDate n db) \<longleftrightarrow> (\<forall>r\<in>set (au_logs db). row_ok sha num isoDate r)"
  by (simp add: verifyIntegrity_def check_logs_ok list_all_iff)

lemma or_undefined_clean [simp]: "no_holes (or_undefined x)" "sort_props (or_undefined x) = or_undefined x"
  and or_null_clean [simp]: "no_holes (or_null x)" "sort_props (or_null x) = or_null x"
  by (auto simp: or_undefined_def or_null_def split: option.splits)

lemma or_null_inj [simp]: "or_null x = or_null y \<longleftrightarrow> x = y"
  by (auto simp: or_null_def split: option.splits)

text \<open>A row whose stored values are JSON, without undefined parts.\<close>

definition row_clean :: "(rat \<Rightarrow> string) \<Rightarrow> (int \<Rightarrow> string) \<Rightarrow> audit_row \<Rightarrow> bool" where
  "row_clean num isoDate r \<longleftrightarrow> entry_clean (row_entry num isoDate r)"

lemma same_hash_same_entry:
  assumes "number_format num" and "row_ok sha num isoDate r" and "row_ok sha num isoDate r'"
    and "al_entryHash r = Some h" and "al_entryHash r' = Some h" and "h \<noteq> []"
    and "row_clean num isoDate r" and "row_clean num isoDate r'"
  shows "entry_norm (row_entry num isoDate r) = entry_norm (row_entry num isoDate r') \<or>
    (entry_text num (row_entry num isoDate r) \<noteq> entry_text num (row_entry num isoDate r') \<and>
     sha (entry_text num (row_entry num isoDate r)) = sha (entry_text num (row_entry num isoDate r')))"
  using assms entry_text_eq [OF assms(1)] by (auto simp: row_ok_def row_clean_def computeHash_def)

lemma entry_norm_fields:
  assumes "entry_norm (row_entry num isoDate r) = entry_norm (row_entry num isoDate r')"
  shows "al_adminId r = al_adminId r'" "al_action r = al_action r'" "al_targetType r = al_targetType r'"
    "al_targetId r = al_targetId r'" "al_previousHash r = al_previousHash r'"
    "isoDate (al_createdAt r) = isoDate (al_createdAt r')"
    "or_undefined (al_ipAddress r) = or_undefined (al_ipAddress r')"
    "or_undefined (al_userAgent r) = or_undefined (al_userAgent r')"
    "sort_props (he_payloadBefore (row_entry num isoDate r)) = sort_props (he_payloadBefore (row_entry num isoDate r'))"
    "sort_props (he_payloadAfter (row_entry num isoDate r)) = sort_props (he_payloadAfter (row_entry num isoDate r'))"
  using assms by (simp_all add: entry_norm_def row_entry_def Let_def)

text \<open>
  A payload that the database gives back as it was hashed: one that is given and has no undefined
  parts.
\<close>

definition payload_kept :: "json option \<Rightarrow> bool" where
  "payload_kept p \<longleftrightarrow> (case p of None \<Rightarrow> False | Some v \<Rightarrow> v \<noteq> JNull \<and> v \<noteq> JUndef \<and> sort_props (db_json v) = sort_props v)"

lemma json_prop_db:
  "jm_get kvs k = Some v \<Longrightarrow> v \<noteq> JUndef \<Longrightarrow> json_prop (db_json (JObj kvs)) k = db_json v"
  unfolding jm_get_def by (induction kvs) (auto split: if_splits)

lemma log_details_props:
  "json_prop (db_json (log_details cx)) ''_role'' = JStr (case cx_role cx of None \<Rightarrow> ''SYSTEM'' | Some r \<Rightarrow> r)"
  "json_prop (db_json (log_details cx)) ''_status''
     = JStr (audit_status_name (case cx_status cx of None \<Rightarrow> AuditSuccess | Some s \<Rightarrow> s))"
proof -
  have props: "json_prop (db_json (JObj kvs)) k = JStr s" if "jm_get kvs k = Some (JStr s)" for kvs k s
    using json_prop_db [OF that] by simp
  show "json_prop (db_json (log_details cx)) ''_role'' = JStr (case cx_role cx of None \<Rightarrow> ''SYSTEM'' | Some r \<Rightarrow> r)"
    unfolding log_details_def Let_def by (rule props) simp
  show "json_prop (db_json (log_details cx)) ''_status''
      = JStr (audit_status_name (case cx_status cx of None \<Rightarrow> AuditSuccess | Some s \<Rightarrow> s))"
    unfolding log_details_def Let_def by (rule props) simp
qed

lemma log_details_JObj: "\<exists>kvs. db_json (log_details cx) = JObj kvs"
  by (simp add: log_details_def Let_def)

text \<open>The entry the check recomputes for a row just written, against the one that was hashed.\<close>

lemma fresh_row_entry:
  assumes "log_entry sha num isoDate cx i now at' db = Inr (row, db')"
  shows "row_entry num isoDate row = (context_entry cx (isoDate now) (al_previousHash row))
    \<lparr>he_timestamp := isoDate at',
     he_payloadBefore := (case cx_payloadBefore cx of None \<Rightarrow> JObj [] | Some v \<Rightarrow> if db_json v = JNull then JUndef else db_json v),
     he_payloadAfter := (case cx_payloadAfter cx of None \<Rightarrow> JObj [] | Some v \<Rightarrow> if db_json v = JNull then JUndef else db_json v)\<rparr>"
    and "al_entryHash row = Some (computeHash sha num (context_entry cx (isoDate now) (al_previousHash row)))"
proof -
  obtain kvs where kvs: "db_json (log_details cx) = JObj kvs" using log_details_JObj by blast
  note props = log_details_props [of cx, unfolded kvs]
  from assms have row: "row =
      \<lparr>al_id = i, al_adminId = cx_userId cx, al_action = cx_action cx,
       al_targetType = cx_targetType cx, al_targetId = cx_targetId cx,
       al_details = Some (JObj kvs),
       al_requestId = cx_requestId cx, al_correlationId = cx_correlationId cx,
       al_snapshotBefore = Some (case cx_payloadBefore cx of None \<Rightarrow> JObj [] | Some v \<Rightarrow> db_json v),
       al_snapshotAfter = Some (case cx_payloadAfter cx of None \<Rightarrow> JObj [] | Some v \<Rightarrow> db_json v),
       al_ipAddress = cx_ipAddress cx, al_userAgent = cx_userAgent cx,
       al_entryHash = al_entryHash row, al_previousHash = al_previousHash row,
       al_anchoredAt = None, al_anchorTxId = None, al_redactedAt = None, al_createdAt = at'\<rparr>"
    unfolding log_entry_def Let_def kvs by (auto split: if_splits)
  show "row_entry num isoDate row = (context_entry cx (isoDate now) (al_previousHash row))
    \<lparr>he_timestamp := isoDate at',
     he_payloadBefore := (case cx_payloadBefore cx of None \<Rightarrow> JObj [] | Some v \<Rightarrow> if db_json v = JNull then JUndef else db_json v),
     he_payloadAfter := (case cx_payloadAfter cx of None \<Rightarrow> JObj [] | Some v \<Rightarrow> if db_json v = JNull then JUndef else db_json v)\<rparr>"
    by (subst row, cases "cx_payloadBefore cx"; cases "cx_payloadAfter cx")
      (simp_all add: row_entry_def context_entry_def props del: json_prop.simps)
  show "al_entryHash row = Some (computeHash sha num (context_entry cx (isoDate now) (al_previousHash row)))"
    using assms unfolding log_entry_def Let_def by (auto split: if_splits)
qed

lemma db_json_null:
  "db_json v = JNull \<longleftrightarrow> v = JNull" "db_json v = JUndef \<longleftrightarrow> v = JUndef" "JUndef = db_json v \<longleftrightarrow> v = JUndef"
  by (cases v; simp)+

lemma payload_keptI:
  "sort_props (case p of None \<Rightarrow> JObj [] | Some v \<Rightarrow> if db_json v = JNull then JUndef else db_json v) = sort_props (given p)
     \<longleftrightarrow> payload_kept p \<or> p = Some JUndef"
proof (cases p)
  case (Some v)
  then show ?thesis by (cases v) (auto simp: payload_kept_def given_def db_json_null)
qed (simp add: payload_kept_def given_def)

definition context_clean :: "audit_context \<Rightarrow> bool" where
  "context_clean cx \<longleftrightarrow> no_holes (given (cx_payloadBefore cx)) \<and> no_holes (given (cx_payloadAfter cx)) \<and>
     cx_payloadBefore cx \<noteq> Some JUndef \<and> cx_payloadAfter cx \<noteq> Some JUndef"

lemma no_holes_db_json: "no_holes (db_json v)"
  by (induction v rule: db_json.induct) (auto simp: db_json_null image_iff)

lemma fresh_entries_clean:
  assumes "log_entry sha num isoDate cx i now at' db = Inr (row, db')" and "context_clean cx"
  shows "entry_clean (row_entry num isoDate row)"
    and "entry_clean (context_entry cx (isoDate now) (al_previousHash row))"
  using assms(2) unfolding fresh_row_entry(1) [OF assms(1)]
  by (auto simp: entry_clean_def context_entry_def context_clean_def no_holes_db_json split: option.splits)

lemma fresh_norm_eq:
  assumes "log_entry sha num isoDate cx i now at' db = Inr (row, db')" and "context_clean cx"
  shows "entry_norm (row_entry num isoDate row) = entry_norm (context_entry cx (isoDate now) (al_previousHash row))
    \<longleftrightarrow> isoDate at' = isoDate now \<and> payload_kept (cx_payloadBefore cx) \<and> payload_kept (cx_payloadAfter cx)"
  using assms(2) payload_keptI unfolding fresh_row_entry(1) [OF assms(1)]
  by (auto simp: entry_norm_def context_entry_def context_clean_def)

section \<open>Properties\<close>


text \<open>A trail of one entry with both snapshots, under a hash function without collisions.\<close>

definition demo_sha :: "string \<Rightarrow> string" where
  "demo_sha t = CHR ''#'' # t"

definition demo_context :: audit_context where
  "demo_context = \<lparr>cx_userId = ''u'', cx_role = None, cx_action = ''KYC_APPROVE'', cx_status = None,
     cx_targetType = ''USER'', cx_targetId = ''v'', cx_ipAddress = Some ''1.2.3.4'', cx_userAgent = None,
     cx_requestId = None, cx_correlationId = None, cx_payloadBefore = Some (JObj [(''a'', JNum 1)]),
     cx_payloadAfter = Some (JObj [(''a'', JNum 2)]), cx_details = None\<rparr>"

definition demo_trail :: audit_db where
  "demo_trail = commit (log_entry demo_sha demo_num show_int demo_context ''i1'' 5 5
     \<lparr>au_users = [''u''], au_logs = []\<rparr>) \<lparr>au_users = [''u''], au_logs = []\<rparr>"


text \<open>
  When a new entry passes the check. Right after it was written an entry verifies exactly if the
  database gave it the time the service had read from its own clock and both snapshots were given
  and come back as they were hashed; otherwise, unless the hash function collides on the two texts,
  the check reports the new entry as tampered although nobody touched it. In particular every entry
  without snapshots is reported.
\<close>

theorem fresh_audit_entry_checked:
  assumes "number_format num" and "log_entry sha num isoDate cx i now at' db = Inr (row, db')"
    and "context_clean cx" and "\<And>t. sha t \<noteq> []"
    and "sha (entry_text num (row_entry num isoDate row))
           = sha (entry_text num (context_entry cx (isoDate now) (al_previousHash row)))
         \<Longrightarrow> entry_text num (row_entry num isoDate row)
           = entry_text num (context_entry cx (isoDate now) (al_previousHash row))"
  shows "(ir_ok (verifyIntegrity sha num isoDate (length (au_logs db')) db') \<longleftrightarrow>
      ir_ok (verifyIntegrity sha num isoDate (length (au_logs db)) db) \<and>
      isoDate at' = isoDate now \<and> payload_kept (cx_payloadBefore cx) \<and> payload_kept (cx_payloadAfter cx))
    \<and> \<not> payload_kept None"
proof -
  note clean = fresh_entries_clean [OF assms(2,3)]
  have logs: "au_logs db' = au_logs db @ [row]"
    using assms(2) unfolding log_entry_def Let_def by (auto split: if_splits)
  have "row_ok sha num isoDate row \<longleftrightarrow>
      sha (entry_text num (context_entry cx (isoDate now) (al_previousHash row)))
        = sha (entry_text num (row_entry num isoDate row))"
    using assms(4) by (simp add: row_ok_def fresh_row_entry(2) [OF assms(2)] computeHash_def)
  also have "\<dots> \<longleftrightarrow> entry_norm (row_entry num isoDate row)
      = entry_norm (context_entry cx (isoDate now) (al_previousHash row))"
    using assms(5) entry_text_eq [OF assms(1) clean] by metis
  finally show ?thesis
    using fresh_norm_eq [OF assms(2,3)] by (auto simp: verify_ok logs payload_kept_def)
qed

theorem fresh_audit_entry_checked_witness:
  "let cx = demo_context\<lparr>cx_payloadBefore := None\<rparr>; db = \<lparr>au_users = [''u''], au_logs = []\<rparr>
   in (case log_entry demo_sha demo_num show_int cx ''i1'' 5 5 db of
         Inl e \<Rightarrow> False
       | Inr (row, db') \<Rightarrow> \<not> ir_ok (verifyIntegrity demo_sha demo_num show_int (length (au_logs db')) db'))"
proof -
  let ?cx = "demo_context\<lparr>cx_payloadBefore := None\<rparr>" and ?db = "\<lparr>au_users = [''u''], au_logs = []\<rparr>"
  have "\<not> isl (log_entry demo_sha demo_num show_int ?cx ''i1'' 5 5 ?db)" "context_clean ?cx" by code_simp+
  then obtain row db' where l: "log_entry demo_sha demo_num show_int ?cx ''i1'' 5 5 ?db = Inr (row, db')"
    by (cases "log_entry demo_sha demo_num show_int ?cx ''i1'' 5 5 ?db") auto
  from fresh_audit_entry_checked [OF demo_num_format l \<open>context_clean ?cx\<close>]
  show ?thesis unfolding Let_def l by (simp add: demo_sha_def)
qed

text \<open>
  Redaction breaks the check. Take a trail that passes, with a hashed entry of the user that has
  an address and is not yet redacted. After redacting the user the check fails, unless the hash
  function collides on the two texts: the hash is kept, but the fields it was computed from are
  cleared.
\<close>

theorem redaction_breaks_integrity:
  assumes "number_format num" and "ir_ok (verifyIntegrity sha num isoDate n db)" and "length (au_logs db) \<le> n"
    and "r \<in> set (au_logs db)" and "al_adminId r = u" and "al_redactedAt r = None"
    and "al_entryHash r = Some h" and "h \<noteq> []" and "al_ipAddress r = Some ip" and "ip \<noteq> []"
    and "row_clean num isoDate r"
    and "sha (entry_text num (row_entry num isoDate (redact_row now r))) = sha (entry_text num (row_entry num isoDate r))
         \<Longrightarrow> entry_text num (row_entry num isoDate (redact_row now r)) = entry_text num (row_entry num isoDate r)"
  shows "\<not> ir_ok (verifyIntegrity sha num isoDate n (snd (redactUser u now db)))"
proof -
  let ?r = "redact_row now r"
  have clean: "row_clean num isoDate ?r"
    by (simp add: row_clean_def row_entry_def entry_clean_def redact_row_def)
  have "row_ok sha num isoDate r" using assms(2-4) by (simp add: verify_ok)
  moreover have "entry_norm (row_entry num isoDate ?r) \<noteq> entry_norm (row_entry num isoDate r)"
    using entry_norm_fields(7) [of num isoDate ?r r] assms(9,10) by (auto simp: redact_row_def or_undefined_def)
  ultimately have "\<not> row_ok sha num isoDate ?r"
    using assms(7,8,12) entry_text_eq [OF assms(1) clean [unfolded row_clean_def] assms(11) [unfolded row_clean_def]]
    by (auto simp: row_ok_def computeHash_def redact_row_def)
  moreover have "?r \<in> set (au_logs (snd (redactUser u now db)))"
    using assms(4-6) by (force simp: redactUser_def Let_def)
  moreover have "length (au_logs (snd (redactUser u now db))) \<le> n"
    using assms(3) by (simp add: redactUser_def Let_def)
  ultimately show ?thesis by (auto simp: verify_ok)
qed

theorem redaction_breaks_integrity_witness:
  "ir_ok (verifyIntegrity demo_sha demo_num show_int 1 demo_trail) \<and>
   \<not> ir_ok (verifyIntegrity demo_sha demo_num show_int 1 (snd (redactUser ''u'' 9 demo_trail)))"
proof -
  let ?r = "hd (au_logs demo_trail)"
  have t: "ir_ok (verifyIntegrity demo_sha demo_num show_int 1 demo_trail)" "length (au_logs demo_trail) \<le> 1"
    "?r \<in> set (au_logs demo_trail)" "al_adminId ?r = ''u''" "al_redactedAt ?r = None"
    "al_entryHash ?r = Some (the (al_entryHash ?r))" "the (al_entryHash ?r) \<noteq> []"
    "al_ipAddress ?r = Some ''1.2.3.4''" "''1.2.3.4'' \<noteq> []" "row_clean demo_num show_int ?r"
    by code_simp+
  from redaction_breaks_integrity [OF demo_num_format t, of 9] t(1) show ?thesis by (simp add: demo_sha_def)
qed

text \<open>
  Removed entries are not missed. The check looks at each entry by itself and never compares the
  previous hash of an entry with the entry before it: whatever entries are deleted from a trail that
  passes, by the retention policy or by hand, the rest passes.
\<close>

theorem removal_undetected:
  assumes "ir_ok (verifyIntegrity sha num isoDate n db)" and "length (au_logs db) \<le> n"
  shows "ir_ok (verifyIntegrity sha num isoDate n (db\<lparr>au_logs := filter P (au_logs db)\<rparr>)) \<and>
    ir_ok (verifyIntegrity sha num isoDate n (snd (applyRetentionPolicy days now db)))"
proof -
  have "ir_ok (verifyIntegrity sha num isoDate n (db\<lparr>au_logs := filter Q (au_logs db)\<rparr>))" for Q
    using assms le_trans [OF length_filter_le assms(2)] by (simp add: verify_ok)
  then show ?thesis by (simp add: applyRetentionPolicy_def Let_def)
qed

theorem removal_undetected_witness:
  "ir_ok (verifyIntegrity demo_sha demo_num show_int 1 (demo_trail\<lparr>au_logs := []\<rparr>))"
proof -
  have "ir_ok (verifyIntegrity demo_sha demo_num show_int 1 demo_trail)" "length (au_logs demo_trail) \<le> 1"
    by code_simp+
  from removal_undetected [OF this, of "\<lambda>_. False"] show ?thesis by simp
qed

end
