(* ===== verification/Anchors.thy ===== *)
theory Anchors
  imports AuditTrail
begin

text \<open>
  Anchoring the audit trail: \<^verbatim>\<open>server/src/services/audit-anchor.service.ts\<close> collects the hashes of the
  entries that are not anchored yet, folds them into a Merkle root, hands the root to a ledger and
  stamps the entries. The ledger is an argument; \<open>sha\<close> is the hash function in hexadecimal, of
  which \<open>hex_sha\<close> states the documented length of its results.
\<close>

section \<open>The Merkle root\<close>

text \<open>One round of the loop: neighbours are hashed together, a last single one with itself.\<close>

fun next_layer :: "(string \<Rightarrow> string) \<Rightarrow> string list \<Rightarrow> string list" where
  "next_layer sha [] = []"
| "next_layer sha [left] = [sha (left @ left)]"
| "next_layer sha (left # right # rest) = sha (left @ right) # next_layer sha rest"

lemma length_next_layer: "length (next_layer sha xs) = (length xs + 1) div 2"
  by (induction sha xs rule: next_layer.induct) auto

function merkle_layers :: "(string \<Rightarrow> string) \<Rightarrow> string list \<Rightarrow> string list" where
  "merkle_layers sha layer = (if length layer > 1 then merkle_layers sha (next_layer sha layer) else layer)"
  by auto
termination by (relation "measure (length \<circ> snd)") (auto simp: length_next_layer)

declare merkle_layers.simps [simp del]

definition buildMerkleRoot :: "(string \<Rightarrow> string) \<Rightarrow> string list \<Rightarrow> string" where
  "buildMerkleRoot sha hashes = (if hashes = [] then [] else hd (merkle_layers sha hashes))"

section \<open>Anchoring\<close>

definition is_pending :: "audit_row \<Rightarrow> bool" where
  "is_pending r \<longleftrightarrow> al_anchoredAt r = None \<and> al_entryHash r \<noteq> None"

definition pending_logs :: "audit_db \<Rightarrow> audit_row list" where
  "pending_logs db = take 1000 (sort_key al_createdAt (filter is_pending (au_logs db)))"

record anchor_result =
  an_anchored :: nat
  an_txId :: "string option"
  an_merkleRoot :: "string option"

definition anchorPending ::
  "(string \<Rightarrow> string) \<Rightarrow> (string \<Rightarrow> nat \<Rightarrow> string result) \<Rightarrow> int \<Rightarrow> audit_db \<Rightarrow> anchor_result result \<times> audit_db" where
  "anchorPending sha anchorHash now db =
     (let pending = pending_logs db
      in if pending = [] then (Inr \<lparr>an_anchored = 0, an_txId = None, an_merkleRoot = None\<rparr>, db)
         else (let root = buildMerkleRoot sha (map (the \<circ> al_entryHash) pending)
               in case anchorHash root (length pending) of
                    Inl e \<Rightarrow> (Inl e, db)
                  | Inr txId \<Rightarrow>
                      (let ids = map al_id pending
                       in (Inr \<lparr>an_anchored = length ids, an_txId = Some txId, an_merkleRoot = Some root\<rparr>,
                           db\<lparr>au_logs := map (\<lambda>r. if al_id r \<in> set ids
                              then r\<lparr>al_anchoredAt := Some now, al_anchorTxId := Some txId\<rparr> else r) (au_logs db)\<rparr>))))"

definition verifyAnchor :: "string \<Rightarrow> audit_db \<Rightarrow> bool \<times> string option" where
  "verifyAnchor i db =
     (case List.find (\<lambda>r. al_id r = i) (au_logs db) of
        None \<Rightarrow> (False, None) | Some r \<Rightarrow> (al_anchoredAt r \<noteq> None, al_anchorTxId r))"

section \<open>The root binds the hashes\<close>

text \<open>The texts that are hashed on the way to the root.\<close>

fun layer_inputs :: "string list \<Rightarrow> string list" where
  "layer_inputs [] = []"
| "layer_inputs [left] = [left @ left]"
| "layer_inputs (left # right # rest) = (left @ right) # layer_inputs rest"

function merkle_inputs :: "(string \<Rightarrow> string) \<Rightarrow> string list \<Rightarrow> string list" where
  "merkle_inputs sha layer =
     (if length layer > 1 then layer_inputs layer @ merkle_inputs sha (next_layer sha layer) else [])"
  by auto
termination by (relation "measure (length \<circ> snd)") (auto simp: length_next_layer)

declare merkle_inputs.simps [simp del]

definition hex_sha :: "(string \<Rightarrow> string) \<Rightarrow> bool" where
  "hex_sha sha \<longleftrightarrow> (\<forall>t. length (sha t) = 64)"

definition hex_hashes :: "string list \<Rightarrow> bool" where
  "hex_hashes xs \<longleftrightarrow> list_all (\<lambda>h. length h = 64) xs"

lemma next_layer_map: "next_layer sha xs = map sha (layer_inputs xs)"
  by (induction xs rule: layer_inputs.induct) auto

lemma hex_next_layer: "hex_sha sha \<Longrightarrow> hex_hashes (next_layer sha xs)"
  by (simp add: hex_hashes_def next_layer_map list_all_iff hex_sha_def)

text \<open>Equal texts come from equal hashes, because all hashes have the same length.\<close>

lemma layer_inputs_inj:
  "length xs = length ys \<Longrightarrow> hex_hashes xs \<Longrightarrow> hex_hashes ys \<Longrightarrow> layer_inputs xs = layer_inputs ys \<Longrightarrow> xs = ys"
proof (induction xs arbitrary: ys rule: layer_inputs.induct)
  case (2 left)
  then obtain l where "ys = [l]" by (cases ys) auto
  with 2 show ?case by (simp add: hex_hashes_def)
next
  case (3 left right rest)
  then obtain l r rest' where ys: "ys = l # r # rest'" by (cases ys; cases "tl ys") auto
  with 3 show ?case by (simp add: hex_hashes_def)
qed simp

definition collision :: "(string \<Rightarrow> string) \<Rightarrow> string list \<Rightarrow> string list \<Rightarrow> bool" where
  "collision sha xs ys \<longleftrightarrow> (\<exists>s\<in>set xs. \<exists>t\<in>set ys. s \<noteq> t \<and> sha s = sha t)"

lemma map_sha_collision:
  "map sha xs = map sha ys \<Longrightarrow> xs = ys \<or> collision sha xs ys"
proof (induction xs arbitrary: ys)
  case (Cons x xs)
  then obtain y ys' where ys: "ys = y # ys'" "sha x = sha y" "map sha xs = map sha ys'" by (cases ys) auto
  with Cons.IH [of ys'] show ?case by (auto simp: collision_def)
qed simp

lemma collision_append:
  "collision sha xs ys \<Longrightarrow> collision sha (xs @ xs') (ys @ ys')"
  "collision sha xs' ys' \<Longrightarrow> collision sha (xs @ xs') (ys @ ys')"
  unfolding collision_def by auto

lemma layers_binding:
  assumes "hex_sha sha" and "length xs = length ys" and "hex_hashes xs" and "hex_hashes ys"
    and "merkle_layers sha xs = merkle_layers sha ys"
  shows "xs = ys \<or> collision sha (merkle_inputs sha xs) (merkle_inputs sha ys)"
  using assms
proof (induction sha xs arbitrary: ys rule: merkle_layers.induct)
  case (1 sha xs)
  show ?case
  proof (cases "length xs > 1")
    case True
    have "next_layer sha xs = next_layer sha ys \<or>
        collision sha (merkle_inputs sha (next_layer sha xs)) (merkle_inputs sha (next_layer sha ys))"
      using 1 True merkle_layers.simps [of sha xs] merkle_layers.simps [of sha ys]
      by (intro "1.IH") (auto simp: length_next_layer hex_next_layer)
    moreover have "xs = ys \<or> collision sha (layer_inputs xs) (layer_inputs ys)" if "next_layer sha xs = next_layer sha ys"
      using map_sha_collision [OF that [unfolded next_layer_map]] layer_inputs_inj 1 by blast
    ultimately show ?thesis
      using True 1(3) merkle_inputs.simps [of sha xs] merkle_inputs.simps [of sha ys]
      by (auto intro: collision_append)
  next
    case False
    with 1 show ?thesis by (simp add: merkle_layers.simps)
  qed
qed

lemma length_layers: "xs \<noteq> [] \<Longrightarrow> length (merkle_layers sha xs) = 1"
proof (induction sha xs rule: merkle_layers.induct)
  case (1 sha xs)
  show ?case
  proof (cases "length xs > 1")
    case True
    have "next_layer sha xs \<noteq> []" using length_next_layer [of sha xs] True by auto
    with "1.IH" [OF True] True show ?thesis by (subst merkle_layers.simps) simp
  next
    case False
    with 1(2) have "length xs = 1" by (cases xs) auto
    then show ?thesis by (subst merkle_layers.simps) simp
  qed
qed

lemma filter_split: "length (filter (\<lambda>x. P x \<and> \<not> Q x) xs) + length (filter (\<lambda>x. P x \<and> Q x) xs) = length (filter P xs)"
  by (induction xs) auto

section \<open>Properties\<close>

text \<open>
  C24. The root binds a batch of known size. Two batches of the same number of hashes with the same
  Merkle root are equal, or the hash function collides on two of the texts hashed on the way.
\<close>

theorem merkle_root_binding:
  assumes "hex_sha sha" and "length xs = length ys" and "hex_hashes xs" and "hex_hashes ys"
    and "buildMerkleRoot sha xs = buildMerkleRoot sha ys"
  shows "xs = ys \<or> collision sha (merkle_inputs sha xs) (merkle_inputs sha ys)"
proof (cases "xs = []")
  case False
  then have "ys \<noteq> []" using assms(2) by auto
  have "merkle_layers sha xs = merkle_layers sha ys"
    using assms(5) False \<open>ys \<noteq> []\<close> length_layers [OF False, of sha] length_layers [OF \<open>ys \<noteq> []\<close>, of sha]
    by (auto simp: buildMerkleRoot_def length_Suc_conv)
  with assms show ?thesis by (intro layers_binding)
qed (use assms(2) in simp)

text \<open>A function of the length of a hash in hexadecimal.\<close>

definition demo_hex :: "string \<Rightarrow> string" where
  "demo_hex t = take 64 (t @ replicate 64 CHR ''0'')"

theorem merkle_root_binding_witness:
  "let xs = [demo_hex ''a'', demo_hex ''b'']; ys = [demo_hex ''a'', demo_hex ''c'']
   in xs \<noteq> ys \<and> collision demo_hex (merkle_inputs demo_hex xs) (merkle_inputs demo_hex ys)"
proof -
  let ?xs = "[demo_hex ''a'', demo_hex ''b'']" and ?ys = "[demo_hex ''a'', demo_hex ''c'']"
  have sha: "hex_sha demo_hex" by (auto simp: hex_sha_def demo_hex_def min_def)
  have t: "length ?xs = length ?ys" "hex_hashes ?xs" "hex_hashes ?ys"
    "buildMerkleRoot demo_hex ?xs = buildMerkleRoot demo_hex ?ys" "?xs \<noteq> ?ys" by code_simp+
  from merkle_root_binding [OF sha t(1-4)] t(5) show ?thesis unfolding Let_def by blast
qed

text \<open>
  The root does not bind the size. A batch with an odd number of hashes, at least three, has the
  same root as the batch in which its last hash is repeated.
\<close>

theorem merkle_root_repeats:
  assumes "odd (length xs)" and "1 < length xs"
  shows "buildMerkleRoot sha (xs @ [last xs]) = buildMerkleRoot sha xs"
proof -
  have "next_layer sha (ys @ [last ys]) = next_layer sha ys" if "odd (length ys)" for ys
    using that by (induction sha ys rule: next_layer.induct) auto
  moreover have "xs \<noteq> []" using assms by auto
  ultimately have "merkle_layers sha (xs @ [last xs]) = merkle_layers sha xs" using assms
    by (subst (1 2) merkle_layers.simps) simp
  with assms show ?thesis by (auto simp: buildMerkleRoot_def)
qed

theorem merkle_root_repeats_witness:
  "buildMerkleRoot demo_hex [''a'', ''b'', ''c'', ''c''] = buildMerkleRoot demo_hex [''a'', ''b'', ''c'']"
  using merkle_root_repeats [of "[''a'', ''b'', ''c'']" demo_hex] by simp

text \<open>
  Anchoring. A successful call stamps the oldest entries that have a hash and no stamp, a
  thousand at most, and hands out the root of their hashes; it changes no hash, and so many fewer
  entries are pending afterwards. A call whose ledger fails changes nothing.
\<close>

theorem anchorPending_effect:
  assumes "anchorPending sha anchorHash now db = (res, db')" and "distinct (map al_id (au_logs db))"
  shows "case res of
      Inl e \<Rightarrow> db' = db
    | Inr a \<Rightarrow> an_anchored a = min 1000 (length (filter is_pending (au_logs db))) \<and>
        map al_entryHash (au_logs db') = map al_entryHash (au_logs db) \<and>
        length (filter is_pending (au_logs db')) + an_anchored a = length (filter is_pending (au_logs db)) \<and>
        (0 < an_anchored a \<longrightarrow>
           an_merkleRoot a = Some (buildMerkleRoot sha (map (the \<circ> al_entryHash) (pending_logs db))))"
proof -
  let ?ids = "al_id ` set (pending_logs db)"
  have sub: "set (pending_logs db) \<subseteq> set (filter is_pending (au_logs db))"
    unfolding pending_logs_def by (auto dest: in_set_takeD)
  have n: "length (pending_logs db) = min 1000 (length (filter is_pending (au_logs db)))"
    by (simp add: pending_logs_def)
  have hit: "set (filter (\<lambda>r. is_pending r \<and> al_id r \<in> ?ids) (au_logs db)) = set (pending_logs db)"
  proof (intro equalityI subsetI)
    fix r assume "r \<in> set (filter (\<lambda>r. is_pending r \<and> al_id r \<in> ?ids) (au_logs db))"
    then obtain r' where "r \<in> set (au_logs db)" "r' \<in> set (pending_logs db)" "al_id r = al_id r'" by auto
    moreover have "inj_on al_id (set (au_logs db))" using assms(2) by (simp add: distinct_map)
    ultimately show "r \<in> set (pending_logs db)" using sub by (auto dest: inj_onD)
  qed (use sub in auto)
  have "distinct (pending_logs db)" "distinct (filter (\<lambda>r. is_pending r \<and> al_id r \<in> ?ids) (au_logs db))"
    using assms(2) by (simp_all add: pending_logs_def distinct_map)
  with hit have len: "length (filter (\<lambda>r. is_pending r \<and> al_id r \<in> ?ids) (au_logs db)) = length (pending_logs db)"
    by (metis distinct_card)
  have rest: "length (filter (\<lambda>r. is_pending r \<and> al_id r \<notin> ?ids) (au_logs db)) + length (pending_logs db)
      = length (filter is_pending (au_logs db))"
    using filter_split [of is_pending "\<lambda>r. al_id r \<in> ?ids" "au_logs db"] unfolding len .
  let ?f = "\<lambda>tx r. if al_id r \<in> ?ids then r\<lparr>al_anchoredAt := Some now, al_anchorTxId := Some tx\<rparr> else r"
  have stamp: "is_pending (?f tx r) \<longleftrightarrow> is_pending r \<and> al_id r \<notin> ?ids" "al_entryHash (?f tx r) = al_entryHash r" for tx r
    by (simp_all add: is_pending_def)
  have stamped: "length (filter is_pending (map (?f tx) xs)) = length (filter (\<lambda>r. is_pending r \<and> al_id r \<notin> ?ids) xs)"
    "map al_entryHash (map (?f tx) xs) = map al_entryHash xs" for tx xs
    by (simp_all only: filter_map map_map comp_def length_map stamp)
  show ?thesis
  proof (cases "pending_logs db = []")
    case True
    with n assms(1) show ?thesis by (auto simp: anchorPending_def)
  next
    case False
    let ?root = "buildMerkleRoot sha (map (the \<circ> al_entryHash) (pending_logs db))"
    show ?thesis
    proof (cases "anchorHash ?root (length (pending_logs db))")
      case (Inl e)
      with assms(1) False show ?thesis by (auto simp: anchorPending_def Let_def)
    next
      case (Inr tx)
      with assms(1) False have "res = Inr \<lparr>an_anchored = length (pending_logs db), an_txId = Some tx, an_merkleRoot = Some ?root\<rparr>"
        "au_logs db' = map (?f tx) (au_logs db)" by (auto simp: anchorPending_def Let_def)
      then show ?thesis using n rest by (simp only: sum.case anchor_result.select_convs stamped simp_thms)
    qed
  qed
qed

theorem anchorPending_effect_witness:
  "let (res, db') = anchorPending demo_hex (\<lambda>_ _. Inr ''tx'') 9 demo_trail
   in (case res of Inl e \<Rightarrow> False | Inr a \<Rightarrow> an_anchored a = 1 \<and> length (filter is_pending (au_logs db')) = 0)"
proof -
  obtain res db' where r: "anchorPending demo_hex (\<lambda>_ _. Inr ''tx'') 9 demo_trail = (res, db')" by fastforce
  have t: "distinct (map al_id (au_logs demo_trail))" "length (filter is_pending (au_logs demo_trail)) = 1"
    "\<not> isl (fst (anchorPending demo_hex (\<lambda>_ _. Inr ''tx'') 9 demo_trail))"
    by code_simp+
  from anchorPending_effect [OF r t(1)] t(2,3) r show ?thesis by (cases res) auto
qed

end
