(* ===== verification/Custody.thy ===== *)
theory Custody
  imports Json Stores Text
begin

text \<open>
  Custody of the players' Stellar keys: the encryption service
  (\<^verbatim>\<open>server/src/services/encryption.service.ts\<close>), the trail of key accesses
  (\<^verbatim>\<open>server/src/services/wallet-audit.service.ts\<close>), the wallets themselves
  (\<^verbatim>\<open>server/src/services/stellar-wallet.service.ts\<close>) and the recovery of a secret key with a mailed code
  (\<^verbatim>\<open>server/src/services/wallet-recovery.service.ts\<close>).

  The cryptography is a record of arguments: the authenticated cipher on base64 texts, the
  derivation of keys, the hash, the comparison of passwords, \<^verbatim>\<open>JSON.parse\<close> and the printing of numbers
  and dates. Key pairs, codes, initialisation vectors, identifiers and times are arguments of the
  calls.
\<close>

section \<open>Tables\<close>

record user =
  us_email :: string
  us_username :: string
  us_passwordHash :: string
  us_role :: string
  us_isVerified :: bool
  us_walletAddress :: "string option"
  us_verificationToken :: "string option"
  us_verificationTokenExpires :: "int option"
  us_passwordResetToken :: "string option"
  us_passwordResetExpires :: "int option"
  us_provider :: "string option"
  us_providerId :: "string option"

record user_wallet =
  uw_id :: string
  uw_publicKey :: string
  uw_encryptedSecretKey :: string
  uw_encryptionVersion :: rat
  uw_createdAt :: int
  uw_lastRotatedAt :: "int option"

datatype key_action = SIGN | EXPORT | RECOVERY_CHALLENGE_CREATED | RECOVERY_CHALLENGE_COMPLETED | ROTATION

fun key_action_name :: "key_action \<Rightarrow> string" where
  "key_action_name SIGN = ''SIGN''"
| "key_action_name EXPORT = ''EXPORT''"
| "key_action_name RECOVERY_CHALLENGE_CREATED = ''RECOVERY_CHALLENGE_CREATED''"
| "key_action_name RECOVERY_CHALLENGE_COMPLETED = ''RECOVERY_CHALLENGE_COMPLETED''"
| "key_action_name ROTATION = ''ROTATION''"

record key_access =
  ka_walletId :: string
  ka_actorUserId :: "string option"
  ka_action :: key_action
  ka_success :: bool
  ka_requestId :: "string option"
  ka_ipAddress :: "string option"
  ka_userAgent :: "string option"
  ka_reason :: "string option"
  ka_keyVersion :: "rat option"
  ka_metadata :: "json option"

record key_access_row = key_access +
  ka_previousHash :: "string option"
  ka_createdAt :: int

datatype challenge_status = ChPending | ChCompleted | ChExpired | ChCancelled

record challenge =
  ch_userId :: string
  ch_walletId :: string
  ch_codeHash :: string
  ch_expiresAt :: int
  ch_completedAt :: "int option"
  ch_status :: challenge_status
  ch_attempts :: int
  ch_maxAttempts :: int
  ch_requestId :: "string option"
  ch_requestedFromIp :: "string option"
  ch_requestedUserAgent :: "string option"
  ch_lastAttemptAt :: "int option"
  ch_createdAt :: int

text \<open>Users by identifier, wallets by user, accesses by their hash (a unique column), challenges by identifier.\<close>

record custody_db =
  cu_users :: "(string, user) jsmap"
  cu_wallets :: "(string, user_wallet) jsmap"
  cu_accesses :: "(string, key_access_row) jsmap"
  cu_challenges :: "(string, challenge) jsmap"

section \<open>Encryption service\<close>

record crypto =
  cr_seal :: "string \<Rightarrow> string \<Rightarrow> string \<Rightarrow> string \<times> string"
  cr_unseal :: "string \<Rightarrow> string \<Rightarrow> string \<Rightarrow> string \<Rightarrow> string option"
  cr_deriveKey :: "string \<Rightarrow> rat \<Rightarrow> string"
  cr_sha :: "string \<Rightarrow> string"
  cr_comparePassword :: "string \<Rightarrow> string \<Rightarrow> bool"
  cr_parse :: "string \<Rightarrow> json option"
  cr_num :: "rat \<Rightarrow> string"
  cr_isoDate :: "int \<Rightarrow> string"

record key_ring =
  kr_masterKeys :: "(rat, string) jsmap"
  kr_activeKeyVersion :: rat
  kr_encryptionSecret :: "string option"

text \<open>
  The constructor: the configured keys, or the one from the legacy secret; the active version must
  be the integer version of a configured key.
\<close>

definition loadConfiguredKeys :: "crypto \<Rightarrow> (rat \<times> string) list option \<Rightarrow> string option \<Rightarrow> (rat \<times> string) list" where
  "loadConfiguredKeys c masterKeys legacySecret =
     (case masterKeys of
        Some entries \<Rightarrow> map (\<lambda>(version, secret). (version, cr_deriveKey c secret version)) entries
      | None \<Rightarrow>
          (case legacySecret of
             None \<Rightarrow> []
           | Some secret \<Rightarrow> if secret = [] then [] else [(1, cr_deriveKey c secret 1)]))"

definition new_key_ring ::
  "crypto \<Rightarrow> (rat \<times> string) list option \<Rightarrow> string option \<Rightarrow> rat option \<Rightarrow> key_ring result" where
  "new_key_ring c masterKeys legacySecret configuredActive =
     (let configured = loadConfiguredKeys c masterKeys legacySecret;
          keys = foldl (\<lambda>m (v, k). jm_set m v k) jm_empty configured
      in if configured = []
         then Inl (PlainError ''Wallet encryption master keys are not configured. Set WALLET_MASTER_KEYS or ENCRYPTION_SECRET.'')
         else (let active = (case configuredActive of
                       Some v \<Rightarrow> v | None \<Rightarrow> fold max (map fst configured) (fst (hd configured)))
               in if snd (quotient_of active) \<noteq> 1 \<or> jm_get keys active = None
                  then Inl (PlainError ''WALLET_ACTIVE_MASTER_KEY_VERSION must reference a configured wallet master key version.'')
                  else Inr \<lparr>kr_masterKeys = keys, kr_activeKeyVersion = active, kr_encryptionSecret = legacySecret\<rparr>))"

record encrypted_payload =
  ep_keyVersion :: rat
  ep_iv :: string
  ep_authTag :: string
  ep_ciphertext :: string

definition payload_json :: "encrypted_payload \<Rightarrow> json" where
  "payload_json p = JObj [(''format'', JStr ''arenax-wallet-v1''), (''algorithm'', JStr ''aes-256-gcm''),
     (''keyVersion'', JNum (ep_keyVersion p)), (''iv'', JStr (ep_iv p)), (''authTag'', JStr (ep_authTag p)),
     (''ciphertext'', JStr (ep_ciphertext p))]"

definition isEncryptedPayload :: "json \<Rightarrow> encrypted_payload option" where
  "isEncryptedPayload v =
     (if json_prop v ''format'' = JStr ''arenax-wallet-v1'' \<and> json_prop v ''algorithm'' = JStr ''aes-256-gcm''
      then (case (json_prop v ''keyVersion'', json_prop v ''iv'', json_prop v ''authTag'', json_prop v ''ciphertext'') of
              (JNum k, JStr iv, JStr tag, JStr ct) \<Rightarrow>
                Some \<lparr>ep_keyVersion = k, ep_iv = iv, ep_authTag = tag, ep_ciphertext = ct\<rparr>
            | _ \<Rightarrow> None)
      else None)"

definition tryParsePayload :: "crypto \<Rightarrow> string \<Rightarrow> encrypted_payload option" where
  "tryParsePayload c text = Option.bind (cr_parse c text) isEncryptedPayload"

definition getKeyByVersion :: "crypto \<Rightarrow> key_ring \<Rightarrow> rat \<Rightarrow> string result" where
  "getKeyByVersion c kr version =
     (case jm_get (kr_masterKeys kr) version of
        None \<Rightarrow> Inl (PlainError (''Wallet master key version '' @ cr_num c version @ '' is not configured.''))
      | Some key \<Rightarrow> Inr key)"

definition encrypt :: "crypto \<Rightarrow> key_ring \<Rightarrow> string \<Rightarrow> string \<Rightarrow> rat \<Rightarrow> string result" where
  "encrypt c kr iv plainText version =
     bind_res (getKeyByVersion c kr version) (\<lambda>key.
       (let (ciphertext, authTag) = cr_seal c key iv plainText
        in Inr (write_json (cr_num c) (payload_json
             \<lparr>ep_keyVersion = version, ep_iv = iv, ep_authTag = authTag, ep_ciphertext = ciphertext\<rparr>))))"

definition cannot_open :: error where
  "cannot_open = PlainError ''Unsupported state or unable to authenticate data''"

definition decryptPayload :: "crypto \<Rightarrow> key_ring \<Rightarrow> encrypted_payload \<Rightarrow> string result" where
  "decryptPayload c kr p =
     bind_res (getKeyByVersion c kr (ep_keyVersion p)) (\<lambda>key.
       (case cr_unseal c key (ep_iv p) (ep_authTag p) (ep_ciphertext p) of None \<Rightarrow> Inl cannot_open | Some t \<Rightarrow> Inr t))"

definition decryptLegacyPayload :: "crypto \<Rightarrow> key_ring \<Rightarrow> string \<Rightarrow> string result" where
  "decryptLegacyPayload c kr text =
     (case kr_encryptionSecret kr of
        None \<Rightarrow> Inl (PlainError ''Legacy encrypted wallet secret encountered but ENCRYPTION_SECRET is unavailable.'')
      | Some secret \<Rightarrow>
          if secret = []
          then Inl (PlainError ''Legacy encrypted wallet secret encountered but ENCRYPTION_SECRET is unavailable.'')
          else (case js_split CHR '':'' text of
              iv # tag # ct # rest \<Rightarrow>
                if iv = [] \<or> tag = [] \<or> ct = []
                then Inl (PlainError ''Invalid encrypted wallet payload format.'')
                else (case cr_unseal c (cr_deriveKey c secret 1) iv tag ct of None \<Rightarrow> Inl cannot_open | Some t \<Rightarrow> Inr t)
            | _ \<Rightarrow> Inl (PlainError ''Invalid encrypted wallet payload format.'')))"

text \<open>\<^verbatim>\<open>maskError\<close>: a run of \<^verbatim>\<open>S\<close> and 55 characters of a Stellar secret is replaced.\<close>

definition secret_char :: "char \<Rightarrow> bool" where
  "secret_char c \<longleftrightarrow> (let n = of_char c :: nat in 65 \<le> n \<and> n \<le> 90 \<or> 50 \<le> n \<and> n \<le> 55)"

definition secret_at :: "string \<Rightarrow> bool" where
  "secret_at s \<longleftrightarrow> length s \<ge> 56 \<and> hd s = CHR ''S'' \<and> list_all secret_char (take 55 (tl s))"

function mask_secrets :: "string \<Rightarrow> string" where
  "mask_secrets s =
     (if s = [] then []
      else if secret_at s then ''[REDACTED_STELLAR_SECRET]'' @ mask_secrets (drop 56 s)
      else hd s # mask_secrets (tl s))"
  by auto
termination by (relation "measure length") auto

declare mask_secrets.simps [simp del]

fun maskError :: "error \<Rightarrow> error" where
  "maskError (PlainError m) = PlainError (mask_secrets m)"
| "maskError (HttpError k m) = PlainError (mask_secrets m)"
| "maskError (PrismaError m) = PlainError (mask_secrets m)"

record decryption_result =
  dr_plainText :: string
  dr_keyVersion :: rat
  dr_usedLegacyFormat :: bool

definition decryptWithMetadata :: "crypto \<Rightarrow> key_ring \<Rightarrow> string \<Rightarrow> decryption_result result" where
  "decryptWithMetadata c kr text =
     (case (case tryParsePayload c text of
              Some p \<Rightarrow> bind_res (decryptPayload c kr p) (\<lambda>t. Inr
                \<lparr>dr_plainText = t, dr_keyVersion = ep_keyVersion p, dr_usedLegacyFormat = False\<rparr>)
            | None \<Rightarrow> bind_res (decryptLegacyPayload c kr text) (\<lambda>t. Inr
                \<lparr>dr_plainText = t, dr_keyVersion = 1, dr_usedLegacyFormat = True\<rparr>)) of
        Inl e \<Rightarrow> Inl (maskError e) | Inr r \<Rightarrow> Inr r)"

definition decrypt :: "crypto \<Rightarrow> key_ring \<Rightarrow> string \<Rightarrow> string result" where
  "decrypt c kr text = bind_res (decryptWithMetadata c kr text) (\<lambda>r. Inr (dr_plainText r))"

definition needsRotation :: "crypto \<Rightarrow> key_ring \<Rightarrow> string \<Rightarrow> bool" where
  "needsRotation c kr text =
     (case tryParsePayload c text of None \<Rightarrow> True | Some p \<Rightarrow> ep_keyVersion p \<noteq> kr_activeKeyVersion kr)"

record rotation =
  ro_encrypted :: string
  ro_previousVersion :: rat
  ro_keyVersion :: rat

definition rotate_secret :: "crypto \<Rightarrow> key_ring \<Rightarrow> string \<Rightarrow> string \<Rightarrow> rotation result" where
  "rotate_secret c kr iv text =
     bind_res (decryptWithMetadata c kr text) (\<lambda>d.
       bind_res (encrypt c kr iv (dr_plainText d) (kr_activeKeyVersion kr)) (\<lambda>enc.
         Inr \<lparr>ro_encrypted = enc, ro_previousVersion = dr_keyVersion d, ro_keyVersion = kr_activeKeyVersion kr\<rparr>))"

section \<open>Trail of key accesses\<close>

definition str_or_null :: "string option \<Rightarrow> json" where
  "str_or_null x = (case x of None \<Rightarrow> JNull | Some s \<Rightarrow> JStr s)"

definition access_json :: "key_access \<Rightarrow> string option \<Rightarrow> json" where
  "access_json a previousHash = JObj
     [(''walletId'', JStr (ka_walletId a)), (''actorUserId'', str_or_null (ka_actorUserId a)),
      (''action'', JStr (key_action_name (ka_action a))), (''success'', JBool (ka_success a)),
      (''requestId'', str_or_null (ka_requestId a)), (''ipAddress'', str_or_null (ka_ipAddress a)),
      (''userAgent'', str_or_null (ka_userAgent a)), (''reason'', str_or_null (ka_reason a)),
      (''keyVersion'', case ka_keyVersion a of None \<Rightarrow> JNull | Some v \<Rightarrow> JNum v),
      (''metadata'', case ka_metadata a of None \<Rightarrow> JUndef | Some m \<Rightarrow> m),
      (''previousHash'', str_or_null previousHash)]"

text \<open>The hash of the entry with the greatest time, the last written where several have it.\<close>

definition latest_access :: "(string, key_access_row) jsmap \<Rightarrow> string option" where
  "latest_access rows = (if rows = [] then None else Some (fst (last (sort_key (\<lambda>(h, r). ka_createdAt r) rows))))"

definition record_access ::
  "crypto \<Rightarrow> key_access \<Rightarrow> int \<Rightarrow> 'a custody_db_scheme \<Rightarrow> unit result \<times> 'a custody_db_scheme" where
  "record_access c a now db =
     (let previousHash = latest_access (cu_accesses db);
          entryHash = cr_sha c (stableStringify (cr_num c) (access_json a previousHash))
      in case row_create (cu_accesses db) entryHash
                (key_access.extend a (key_access_row.fields previousHash now)) of
           Inl e \<Rightarrow> (Inl e, db)
         | Inr t \<Rightarrow> (Inr (), db\<lparr>cu_accesses := t\<rparr>))"

section \<open>Users and wallets\<close>

text \<open>Unique columns of the user table: the first one in which two rows agree.\<close>

definition user_clash :: "user \<Rightarrow> user \<Rightarrow> string option" where
  "user_clash u v =
     (if us_email u = us_email v then Some ''email''
      else if us_username u = us_username v then Some ''username''
      else if us_walletAddress u \<noteq> None \<and> us_walletAddress u = us_walletAddress v then Some ''walletAddress''
      else if us_verificationToken u \<noteq> None \<and> us_verificationToken u = us_verificationToken v
        then Some ''verificationToken''
      else if us_passwordResetToken u \<noteq> None \<and> us_passwordResetToken u = us_passwordResetToken v
        then Some ''passwordResetToken''
      else None)"

definition user_conflict :: "(string, user) jsmap \<Rightarrow> string \<Rightarrow> user \<Rightarrow> string option" where
  "user_conflict t i u =
     (case List.find (\<lambda>(j, v). j \<noteq> i \<and> user_clash u v \<noteq> None) t of
        None \<Rightarrow> None | Some (j, v) \<Rightarrow> user_clash u v)"

definition unique_error :: "string \<Rightarrow> error" where
  "unique_error column = PrismaError (''P2002:'' @ column)"

definition user_create :: "string \<Rightarrow> user \<Rightarrow> 'a custody_db_scheme \<Rightarrow> 'a custody_db_scheme result" where
  "user_create i u db =
     (if jm_get (cu_users db) i \<noteq> None then Inl (unique_error ''id'')
      else case user_conflict (cu_users db) i u of
          Some column \<Rightarrow> Inl (unique_error column)
        | None \<Rightarrow> Inr (db\<lparr>cu_users := jm_set (cu_users db) i u\<rparr>))"

definition user_update :: "string \<Rightarrow> (user \<Rightarrow> user) \<Rightarrow> 'a custody_db_scheme \<Rightarrow> 'a custody_db_scheme result" where
  "user_update i f db =
     (case jm_get (cu_users db) i of
        None \<Rightarrow> Inl (PrismaError ''P2025'')
      | Some u \<Rightarrow>
          (case user_conflict (cu_users db) i (f u) of
             Some column \<Rightarrow> Inl (unique_error column)
           | None \<Rightarrow> Inr (db\<lparr>cu_users := jm_set (cu_users db) i (f u)\<rparr>)))"

text \<open>
  A new key pair is an argument of the call, with the vector of its encryption and the identifier
  of the wallet.
\<close>

record wallet_seed =
  ws_id :: string
  ws_publicKey :: string
  ws_secret :: string
  ws_iv :: string

record wallet_summary =
  sm_id :: string
  sm_publicKey :: string
  sm_encryptionVersion :: rat
  sm_createdAt :: int
  sm_lastRotatedAt :: "int option"

definition toWalletSummary :: "user_wallet \<Rightarrow> wallet_summary" where
  "toWalletSummary w = \<lparr>sm_id = uw_id w, sm_publicKey = uw_publicKey w,
     sm_encryptionVersion = uw_encryptionVersion w, sm_createdAt = uw_createdAt w,
     sm_lastRotatedAt = uw_lastRotatedAt w\<rparr>"

definition wallet_create :: "string \<Rightarrow> user_wallet \<Rightarrow> 'a custody_db_scheme \<Rightarrow> 'a custody_db_scheme result" where
  "wallet_create userId w db =
     (if jm_get (cu_wallets db) userId \<noteq> None then Inl (unique_error ''userId'')
      else if list_ex (\<lambda>v. uw_id v = uw_id w \<or> uw_publicKey v = uw_publicKey w) (jm_values (cu_wallets db))
      then Inl (unique_error ''publicKey'')
      else Inr (db\<lparr>cu_wallets := jm_set (cu_wallets db) userId w\<rparr>))"

definition registerUserWallet ::
  "crypto \<Rightarrow> key_ring \<Rightarrow> string \<Rightarrow> wallet_seed \<Rightarrow> int \<Rightarrow> 'a custody_db_scheme
     \<Rightarrow> wallet_summary result \<times> 'a custody_db_scheme" where
  "registerUserWallet c kr userId seed now db =
     (case jm_get (cu_wallets db) userId of
        Some w \<Rightarrow> (Inr (toWalletSummary w), db)
      | None \<Rightarrow>
          (case encrypt c kr (ws_iv seed) (ws_secret seed) (kr_activeKeyVersion kr) of
             Inl e \<Rightarrow> (Inl e, db)
           | Inr enc \<Rightarrow>
               (let w = \<lparr>uw_id = ws_id seed, uw_publicKey = ws_publicKey seed, uw_encryptedSecretKey = enc,
                         uw_encryptionVersion = kr_activeKeyVersion kr, uw_createdAt = now,
                         uw_lastRotatedAt = Some now\<rparr>
                in case wallet_create userId w db of
                     Inl e \<Rightarrow> (Inl e, db)
                   | Inr db1 \<Rightarrow>
                       (case user_update userId (\<lambda>u. u\<lparr>us_walletAddress := Some (ws_publicKey seed)\<rparr>) db1 of
                          Inl e \<Rightarrow> (Inl e, db1)
                        | Inr db2 \<Rightarrow> (Inr (toWalletSummary w), db2)))))"

definition ensureUserWallet ::
  "crypto \<Rightarrow> key_ring \<Rightarrow> string \<Rightarrow> wallet_seed \<Rightarrow> int \<Rightarrow> 'a custody_db_scheme
     \<Rightarrow> wallet_summary result \<times> 'a custody_db_scheme" where
  "ensureUserWallet c kr userId seed now db =
     (case jm_get (cu_wallets db) userId of
        Some w \<Rightarrow> (Inr (toWalletSummary w), db)
      | None \<Rightarrow> registerUserWallet c kr userId seed now db)"

definition getPublicKey :: "string \<Rightarrow> 'a custody_db_scheme \<Rightarrow> string option" where
  "getPublicKey userId db = map_option uw_publicKey (jm_get (cu_wallets db) userId)"

definition getWalletSummary :: "string \<Rightarrow> 'a custody_db_scheme \<Rightarrow> wallet_summary option" where
  "getWalletSummary userId db = map_option toWalletSummary (jm_get (cu_wallets db) userId)"

record access_context =
  ax_actorUserId :: "string option"
  ax_requestId :: "string option"
  ax_ipAddress :: "string option"
  ax_userAgent :: "string option"
  ax_reason :: "string option"
  ax_metadata :: "(string \<times> json) list option"

definition wallet_rotated :: "rotation \<Rightarrow> int \<Rightarrow> user_wallet \<Rightarrow> user_wallet" where
  "wallet_rotated r now w = w\<lparr>uw_encryptedSecretKey := ro_encrypted r, uw_encryptionVersion := ro_keyVersion r,
     uw_lastRotatedAt := Some now\<rparr>"

definition rotation_access :: "access_context \<Rightarrow> string \<Rightarrow> user_wallet \<Rightarrow> string \<Rightarrow> rotation \<Rightarrow> json \<Rightarrow> key_access" where
  "rotation_access ax userId w reason r metadata =
     \<lparr>ka_walletId = uw_id w,
      ka_actorUserId = (case ax_actorUserId ax of None \<Rightarrow> Some userId | Some u \<Rightarrow> Some u),
      ka_action = ROTATION, ka_success = True, ka_requestId = ax_requestId ax, ka_ipAddress = ax_ipAddress ax,
      ka_userAgent = ax_userAgent ax, ka_reason = Some reason, ka_keyVersion = Some (ro_keyVersion r),
      ka_metadata = Some metadata\<rparr>"

text \<open>The rotation that happens on the way when a secret is read with an old key.\<close>

definition lazy_rotation ::
  "crypto \<Rightarrow> key_ring \<Rightarrow> string \<Rightarrow> user_wallet \<Rightarrow> decryption_result \<Rightarrow> access_context \<Rightarrow> string \<Rightarrow> int
     \<Rightarrow> 'a custody_db_scheme \<Rightarrow> unit result \<times> 'a custody_db_scheme" where
  "lazy_rotation c kr userId w d ax iv now db =
     (if dr_usedLegacyFormat d \<or> dr_keyVersion d \<noteq> kr_activeKeyVersion kr then
        (case rotate_secret c kr iv (uw_encryptedSecretKey w) of
           Inl e \<Rightarrow> (Inl e, db)
         | Inr r \<Rightarrow>
             (let db1 = db\<lparr>cu_wallets := jm_set (cu_wallets db) userId (wallet_rotated r now w)\<rparr>
              in record_access c (rotation_access ax userId w
                   ''Lazy wallet master key rotation during secure access'' r
                   (JObj [(''previousVersion'', JNum (ro_previousVersion r))])) now db1))
      else (Inr (), db))"

definition error_text :: "error \<Rightarrow> string" where
  "error_text e = (case e of HttpError k m \<Rightarrow> m | PlainError m \<Rightarrow> m | PrismaError m \<Rightarrow> m)"

definition success_access :: "access_context \<Rightarrow> string \<Rightarrow> user_wallet \<Rightarrow> key_action \<Rightarrow> rat \<Rightarrow> key_access" where
  "success_access ax userId w action version =
     \<lparr>ka_walletId = uw_id w,
      ka_actorUserId = (case ax_actorUserId ax of None \<Rightarrow> Some userId | Some u \<Rightarrow> Some u),
      ka_action = action, ka_success = True, ka_requestId = ax_requestId ax, ka_ipAddress = ax_ipAddress ax,
      ka_userAgent = ax_userAgent ax, ka_reason = ax_reason ax, ka_keyVersion = Some version,
      ka_metadata = map_option JObj (ax_metadata ax)\<rparr>"

definition failure_access :: "access_context \<Rightarrow> string \<Rightarrow> user_wallet \<Rightarrow> key_action \<Rightarrow> error \<Rightarrow> key_access" where
  "failure_access ax userId w action e =
     (success_access ax userId w action (uw_encryptionVersion w))
       \<lparr>ka_success := False,
        ka_reason := Some (case ax_reason ax of
            None \<Rightarrow> ''Wallet secret access denied due to decryption failure''
          | Some r \<Rightarrow> if r = [] then ''Wallet secret access denied due to decryption failure'' else r),
        ka_metadata := Some (JObj (jm_set (case ax_metadata ax of None \<Rightarrow> [] | Some m \<Rightarrow> m) ''error'' (JStr (error_text e))))\<rparr>"

text \<open>The body of the \<^verbatim>\<open>try\<close>; a failure is recorded and thrown again.\<close>

definition access_secret ::
  "crypto \<Rightarrow> key_ring \<Rightarrow> string \<Rightarrow> user_wallet \<Rightarrow> key_action \<Rightarrow> access_context \<Rightarrow> string \<Rightarrow> int \<Rightarrow> 'a custody_db_scheme
     \<Rightarrow> (string \<times> user_wallet) result \<times> 'a custody_db_scheme" where
  "access_secret c kr userId w action ax iv now db =
     (case decryptWithMetadata c kr (uw_encryptedSecretKey w) of
        Inl e \<Rightarrow> (Inl e, db)
      | Inr d \<Rightarrow>
          and_then (lazy_rotation c kr userId w d ax iv now db) (\<lambda>_ db1.
            and_then (record_access c (success_access ax userId w action (kr_activeKeyVersion kr)) now db1)
              (\<lambda>_ db2. (Inr (dr_plainText d, w), db2))))"

definition decryptSecretForUser ::
  "crypto \<Rightarrow> key_ring \<Rightarrow> string \<Rightarrow> key_action \<Rightarrow> access_context \<Rightarrow> string \<Rightarrow> int \<Rightarrow> 'a custody_db_scheme
     \<Rightarrow> (string \<times> user_wallet) result \<times> 'a custody_db_scheme" where
  "decryptSecretForUser c kr userId action ax iv now db =
     (case jm_get (cu_wallets db) userId of
        None \<Rightarrow> (Inl (PlainError (''No wallet found for user '' @ userId)), db)
      | Some w \<Rightarrow>
          (case access_secret c kr userId w action ax iv now db of
             (Inr r, db') \<Rightarrow> (Inr r, db')
           | (Inl e, db') \<Rightarrow>
               and_then (record_access c (failure_access ax userId w action e) now db') (\<lambda>_ db2. (Inl e, db2))))"

definition rotateUserWallet ::
  "crypto \<Rightarrow> key_ring \<Rightarrow> string \<Rightarrow> access_context \<Rightarrow> string \<Rightarrow> int \<Rightarrow> 'a custody_db_scheme
     \<Rightarrow> wallet_summary result \<times> 'a custody_db_scheme" where
  "rotateUserWallet c kr userId ax iv now db =
     (case jm_get (cu_wallets db) userId of
        None \<Rightarrow> (Inl (PlainError (''No wallet found for user '' @ userId)), db)
      | Some w \<Rightarrow>
          if \<not> needsRotation c kr (uw_encryptedSecretKey w) then (Inr (toWalletSummary w), db)
          else (case rotate_secret c kr iv (uw_encryptedSecretKey w) of
              Inl e \<Rightarrow> (Inl e, db)
            | Inr r \<Rightarrow>
                (let w' = wallet_rotated r now w;
                     db1 = db\<lparr>cu_wallets := jm_set (cu_wallets db) userId w'\<rparr>;
                     reason = (case ax_reason ax of None \<Rightarrow> ''Manual wallet master key rotation''
                       | Some t \<Rightarrow> if t = [] then ''Manual wallet master key rotation'' else t)
                 in and_then (record_access c (rotation_access ax userId w reason r
                      (JObj (jm_set (case ax_metadata ax of None \<Rightarrow> [] | Some m \<Rightarrow> m) ''previousVersion''
                         (JNum (ro_previousVersion r))))) now db1)
                      (\<lambda>_ db2. (Inr (toWalletSummary w'), db2)))))"

section \<open>Recovery\<close>

definition RECOVERY_CODE_TTL_MS :: int where "RECOVERY_CODE_TTL_MS = 10 * 60 * 1000"

definition RECOVERY_CODE_MAX_ATTEMPTS :: int where "RECOVERY_CODE_MAX_ATTEMPTS = 5"

text \<open>The six digits of a random number below a million.\<close>

definition generateRecoveryCode :: "nat \<Rightarrow> string" where
  "generateRecoveryCode r = js_padStart 6 CHR ''0'' (show_nat r)"

definition recovery_access ::
  "access_context \<Rightarrow> string \<Rightarrow> string \<Rightarrow> key_action \<Rightarrow> bool \<Rightarrow> string \<Rightarrow> json \<Rightarrow> key_access" where
  "recovery_access ax walletId userId action success reason metadata =
     \<lparr>ka_walletId = walletId, ka_actorUserId = Some userId, ka_action = action, ka_success = success,
      ka_requestId = ax_requestId ax, ka_ipAddress = ax_ipAddress ax, ka_userAgent = ax_userAgent ax,
      ka_reason = Some reason, ka_keyVersion = None, ka_metadata = Some metadata\<rparr>"

definition cancel_pending :: "string \<Rightarrow> (string, challenge) jsmap \<Rightarrow> (string, challenge) jsmap" where
  "cancel_pending userId t =
     row_update_many t (\<lambda>ch. ch_userId ch = userId \<and> ch_status ch = ChPending) (\<lambda>ch. ch\<lparr>ch_status := ChCancelled\<rparr>)"

definition latest_pending :: "string \<Rightarrow> string \<Rightarrow> (string, challenge) jsmap \<Rightarrow> string option" where
  "latest_pending userId walletId t =
     (let hits = filter (\<lambda>(i, ch). ch_userId ch = userId \<and> ch_walletId ch = walletId \<and> ch_status ch = ChPending) t
      in if hits = [] then None else Some (fst (last (sort_key (\<lambda>(i, ch). ch_createdAt ch) hits))))"

definition createRecoveryChallenge ::
  "crypto \<Rightarrow> key_ring \<Rightarrow> bool \<Rightarrow> string \<Rightarrow> string \<Rightarrow> access_context \<Rightarrow> wallet_seed \<Rightarrow> string \<Rightarrow> nat \<Rightarrow> int
     \<Rightarrow> 'a custody_db_scheme \<Rightarrow> (string \<times> int \<times> string option) result \<times> 'a custody_db_scheme" where
  "createRecoveryChallenge c kr production userId password ax seed newId r now db =
     (case jm_get (cu_users db) userId of
        None \<Rightarrow> (Inl (HttpError 404 ''User not found''), db)
      | Some u \<Rightarrow>
          if \<not> cr_comparePassword c password (us_passwordHash u) then (Inl (HttpError 401 ''Invalid credentials''), db)
          else and_then (ensureUserWallet c kr userId seed now db) (\<lambda>summary db1.
            (case List.find (\<lambda>w. uw_id w = sm_id summary) (jm_values (cu_wallets db1)) of
               None \<Rightarrow> (Inl (HttpError 404 ''Wallet not found''), db1)
             | Some w \<Rightarrow>
                 (let code = generateRecoveryCode r; expiresAt = now + RECOVERY_CODE_TTL_MS;
                      ch = \<lparr>ch_userId = userId, ch_walletId = uw_id w, ch_codeHash = cr_sha c code,
                            ch_expiresAt = expiresAt, ch_completedAt = None, ch_status = ChPending,
                            ch_attempts = 0, ch_maxAttempts = RECOVERY_CODE_MAX_ATTEMPTS,
                            ch_requestId = ax_requestId ax, ch_requestedFromIp = ax_ipAddress ax,
                            ch_requestedUserAgent = ax_userAgent ax, ch_lastAttemptAt = None, ch_createdAt = now\<rparr>
                  in case row_create (cancel_pending userId (cu_challenges db1)) newId ch of
                       Inl e \<Rightarrow> (Inl e, db1)
                     | Inr t \<Rightarrow>
                         (let db2 = db1\<lparr>cu_challenges := t\<rparr>
                          in case latest_pending userId (uw_id w) t of
                               None \<Rightarrow> (Inl (HttpError 500 ''Unable to create wallet recovery challenge''), db2)
                             | Some i \<Rightarrow>
                                 and_then (record_access c (recovery_access ax (uw_id w) userId
                                     RECOVERY_CHALLENGE_CREATED True ''User initiated wallet recovery export flow''
                                     (JObj [(''expiresAt'', JStr (cr_isoDate c expiresAt))])) now db2)
                                   (\<lambda>_ db3. (Inr (i, expiresAt, if production then None else Some code), db3)))))))"

definition put_challenge :: "string \<Rightarrow> challenge \<Rightarrow> 'a custody_db_scheme \<Rightarrow> 'a custody_db_scheme" where
  "put_challenge i ch db = db\<lparr>cu_challenges := jm_set (cu_challenges db) i ch\<rparr>"

definition export_context :: "access_context \<Rightarrow> string \<Rightarrow> string \<Rightarrow> access_context" where
  "export_context ax userId challengeId = ax
     \<lparr>ax_actorUserId := Some userId,
      ax_reason := Some ''User exported Stellar secret key after MFA verification'',
      ax_metadata := Some (jm_set (case ax_metadata ax of None \<Rightarrow> [] | Some m \<Rightarrow> m) ''challengeId'' (JStr challengeId))\<rparr>"

definition failed_guess :: "int \<Rightarrow> challenge \<Rightarrow> challenge" where
  "failed_guess now ch = ch\<lparr>ch_attempts := ch_attempts ch + 1, ch_lastAttemptAt := Some now,
     ch_status := (if ch_attempts ch + 1 \<ge> ch_maxAttempts ch then ChCancelled else ChPending)\<rparr>"

definition completed_guess :: "int \<Rightarrow> challenge \<Rightarrow> challenge" where
  "completed_guess now ch = ch\<lparr>ch_status := ChCompleted, ch_completedAt := Some now,
     ch_attempts := ch_attempts ch + 1, ch_lastAttemptAt := Some now\<rparr>"

definition exportSecretKey ::
  "crypto \<Rightarrow> key_ring \<Rightarrow> string \<Rightarrow> string \<Rightarrow> string \<Rightarrow> string \<Rightarrow> access_context \<Rightarrow> string \<Rightarrow> int
     \<Rightarrow> 'a custody_db_scheme \<Rightarrow> (string \<times> string) result \<times> 'a custody_db_scheme" where
  "exportSecretKey c kr userId password challengeId code ax iv now db =
     (case jm_get (cu_users db) userId of
        None \<Rightarrow> (Inl (HttpError 404 ''User not found''), db)
      | Some u \<Rightarrow>
          if \<not> cr_comparePassword c password (us_passwordHash u) then (Inl (HttpError 401 ''Invalid credentials''), db)
          else (case jm_get (cu_challenges db) challengeId of
              None \<Rightarrow> (Inl (HttpError 404 ''Recovery challenge not found''), db)
            | Some ch \<Rightarrow>
                if ch_userId ch \<noteq> userId then (Inl (HttpError 404 ''Recovery challenge not found''), db)
                else if ch_status ch \<noteq> ChPending
                then (Inl (HttpError 400 ''Recovery challenge is no longer active''), db)
                else if ch_expiresAt ch \<le> now
                then (Inl (HttpError 400 ''Recovery challenge has expired''),
                      put_challenge challengeId (ch\<lparr>ch_status := ChExpired\<rparr>) db)
                else if ch_attempts ch \<ge> ch_maxAttempts ch
                then (Inl (HttpError 429 ''Recovery challenge attempt limit reached''),
                      put_challenge challengeId (ch\<lparr>ch_status := ChCancelled\<rparr>) db)
                else if ch_codeHash ch \<noteq> cr_sha c code
                then (let ch' = failed_guess now ch
                      in and_then (record_access c (recovery_access ax (ch_walletId ch) userId
                             RECOVERY_CHALLENGE_COMPLETED False ''Invalid wallet recovery verification code submitted''
                             (JObj [(''challengeId'', JStr challengeId), (''attempts'', JNum (of_int (ch_attempts ch')))]))
                             now (put_challenge challengeId ch' db))
                           (\<lambda>_ db1. (Inl (HttpError 401 ''Invalid recovery verification code''), db1)))
                else and_then (decryptSecretForUser c kr userId EXPORT (export_context ax userId challengeId) iv now db)
                       (\<lambda>(secret, w) db1.
                          and_then (record_access c (recovery_access ax (ch_walletId ch) userId
                              RECOVERY_CHALLENGE_COMPLETED True
                              ''Wallet recovery challenge satisfied and key export released''
                              (JObj [(''challengeId'', JStr challengeId)]))
                              now (put_challenge challengeId (completed_guess now ch) db1))
                            (\<lambda>_ db2. (Inr (uw_publicKey w, secret), db2)))))"

section \<open>Encryption and rotation\<close>

text \<open>
  What the cryptography promises: the cipher works on base64 texts, a sealed text opens, and a
  written payload of a configured key is read back by \<^verbatim>\<open>JSON.parse\<close>.
\<close>

definition base64_char :: "char \<Rightarrow> bool" where
  "base64_char c \<longleftrightarrow> (let n = of_char c :: nat in 65 \<le> n \<and> n \<le> 90 \<or> 97 \<le> n \<and> n \<le> 122 \<or> 48 \<le> n \<and> n \<le> 57
     \<or> c \<in> {CHR ''+'', CHR ''/'', CHR ''=''})"

abbreviation base64 :: "string \<Rightarrow> bool" where "base64 \<equiv> list_all base64_char"

definition crypto_ok :: "crypto \<Rightarrow> key_ring \<Rightarrow> bool" where
  "crypto_ok c kr \<longleftrightarrow>
     (\<forall>key iv t ct tag. cr_seal c key iv t = (ct, tag) \<longrightarrow> base64 ct \<and> base64 tag \<and> cr_unseal c key iv tag ct = Some t) \<and>
     (\<forall>p. jm_get (kr_masterKeys kr) (ep_keyVersion p) \<noteq> None \<and> base64 (ep_iv p) \<and> base64 (ep_authTag p) \<and>
        base64 (ep_ciphertext p) \<longrightarrow> cr_parse c (write_json (cr_num c) (payload_json p)) = Some (payload_json p))"

lemma payload_read: "isEncryptedPayload (payload_json p) = Some p"
  by (simp add: isEncryptedPayload_def payload_json_def)

lemma encrypt_configured: "encrypt c kr iv t v = Inr x \<Longrightarrow> jm_get (kr_masterKeys kr) v \<noteq> None"
  by (auto simp: encrypt_def bind_res_Inr_iff getKeyByVersion_def split: option.splits)

lemma encrypt_total: "jm_get (kr_masterKeys kr) v \<noteq> None \<Longrightarrow> \<exists>x. encrypt c kr iv t v = Inr x"
  by (auto simp: encrypt_def getKeyByVersion_def split: prod.splits)

lemma encrypt_decrypt:
  assumes "crypto_ok c kr" and "base64 iv" and "encrypt c kr iv t v = Inr x"
  shows "needsRotation c kr x \<longleftrightarrow> v \<noteq> kr_activeKeyVersion kr"
    and "decryptWithMetadata c kr x = Inr \<lparr>dr_plainText = t, dr_keyVersion = v, dr_usedLegacyFormat = False\<rparr>"
proof -
  from assms(3) obtain key where key: "getKeyByVersion c kr v = Inr key" by (auto simp: encrypt_def bind_res_Inr_iff)
  obtain ct tag where seal: "cr_seal c key iv t = (ct, tag)" by fastforce
  let ?p = "\<lparr>ep_keyVersion = v, ep_iv = iv, ep_authTag = tag, ep_ciphertext = ct\<rparr>"
  from assms(3) key seal have x: "x = write_json (cr_num c) (payload_json ?p)"
    by (simp add: encrypt_def)
  have "jm_get (kr_masterKeys kr) v \<noteq> None" using encrypt_configured [OF assms(3)] .
  with assms(1,2) seal have "cr_parse c (write_json (cr_num c) (payload_json ?p)) = Some (payload_json ?p)"
    and un: "cr_unseal c key iv tag ct = Some t"
    unfolding crypto_ok_def by (metis encrypted_payload.simps(1-4))+
  with x have p: "tryParsePayload c x = Some ?p" by (simp add: tryParsePayload_def payload_read)
  from p show "needsRotation c kr x \<longleftrightarrow> v \<noteq> kr_activeKeyVersion kr" by (simp add: needsRotation_def)
  from p key un show "decryptWithMetadata c kr x = Inr \<lparr>dr_plainText = t, dr_keyVersion = v, dr_usedLegacyFormat = False\<rparr>"
    by (simp add: decryptWithMetadata_def decryptPayload_def)
qed

lemma rotate_reads:
  assumes "crypto_ok c kr" and "base64 iv" and "rotate_secret c kr iv x = Inr r"
    and "decryptWithMetadata c kr x = Inr d"
  shows "decrypt c kr (ro_encrypted r) = Inr (dr_plainText d)" and "\<not> needsRotation c kr (ro_encrypted r)"
    and "ro_previousVersion r = dr_keyVersion d" and "ro_keyVersion r = kr_activeKeyVersion kr"
proof -
  from assms(3,4) have e: "encrypt c kr iv (dr_plainText d) (kr_activeKeyVersion kr) = Inr (ro_encrypted r)"
    and "ro_previousVersion r = dr_keyVersion d" and "ro_keyVersion r = kr_activeKeyVersion kr"
    by (auto simp: rotate_secret_def bind_res_Inr_iff)
  then show "decrypt c kr (ro_encrypted r) = Inr (dr_plainText d)" "\<not> needsRotation c kr (ro_encrypted r)"
    "ro_previousVersion r = dr_keyVersion d" "ro_keyVersion r = kr_activeKeyVersion kr"
    using encrypt_decrypt [OF assms(1,2) e] by (simp_all add: decrypt_def)
qed

lemma new_key_ring_active: "new_key_ring c mk legacy act = Inr kr \<Longrightarrow> jm_get (kr_masterKeys kr) (kr_activeKeyVersion kr) \<noteq> None"
  by (auto simp: new_key_ring_def Let_def split: if_splits option.splits)

section \<open>Frames\<close>

text \<open>Reading a secret leaves the users and the challenges alone.\<close>

definition same_people :: "'a custody_db_scheme \<Rightarrow> 'a custody_db_scheme \<Rightarrow> bool" where
  "same_people db db' \<longleftrightarrow> cu_users db' = cu_users db \<and> cu_challenges db' = cu_challenges db"

lemma same_people_refl [simp]: "same_people db db"
  by (simp add: same_people_def)

lemma record_access_same [simp]: "same_people db (snd (record_access c a now db1)) = same_people db db1"
  by (auto simp: record_access_def Let_def same_people_def split: sum.splits)

lemma record_access_wallets [simp]: "cu_wallets (snd (record_access c a now db)) = cu_wallets db"
  by (auto simp: record_access_def Let_def split: sum.splits)

lemma record_access_keeps:
  "jm_get (cu_accesses db) h = Some r \<Longrightarrow> jm_get (cu_accesses (snd (record_access c a now db))) h = Some r"
  by (auto simp: record_access_def Let_def row_create_def split: option.splits)

lemma record_access_written:
  assumes "record_access c a now db = (Inr (), db')"
  shows "\<exists>h r. jm_get (cu_accesses db') h = Some r \<and> key_access.truncate r = a"
  using assms
  by (cases a) (auto simp: record_access_def Let_def row_create_def key_access.defs key_access_row.defs
      split: option.splits)

lemmas people_then = and_then_keeps [where P = "same_people db" for db]

lemma lazy_rotation_same: "same_people db0 db \<Longrightarrow> same_people db0 (snd (lazy_rotation c kr u w d ax iv now db))"
  by (auto simp: lazy_rotation_def Let_def same_people_def record_access_def split: sum.splits)

lemma access_secret_same: "same_people db0 db \<Longrightarrow> same_people db0 (snd (access_secret c kr u w act ax iv now db))"
  by (auto simp: access_secret_def split: sum.splits intro!: people_then lazy_rotation_same)

lemma decryptSecret_same: "same_people db0 db \<Longrightarrow> same_people db0 (snd (decryptSecretForUser c kr u act ax iv now db))"
proof (cases "jm_get (cu_wallets db) u")
  case (Some w)
  obtain r db1 where a: "access_secret c kr u w act ax iv now db = (r, db1)" by fastforce
  assume "same_people db0 db"
  with access_secret_same [of db0 db c kr u w act ax iv now] a have "same_people db0 db1" by simp
  with Some a show ?thesis
    by (cases r) (auto simp: decryptSecretForUser_def intro!: people_then)
qed (simp add: decryptSecretForUser_def)

lemma ensureUserWallet_challenges [simp]:
  "cu_challenges (snd (ensureUserWallet c kr u seed now db)) = cu_challenges db"
  by (auto simp: ensureUserWallet_def registerUserWallet_def wallet_create_def user_update_def Let_def
      split: option.splits sum.splits if_splits)

section \<open>The life of a challenge\<close>

inductive challenge_step :: "challenge_status \<Rightarrow> challenge_status \<Rightarrow> bool" where
  complete: "challenge_step ChPending ChCompleted"
| expire: "challenge_step ChPending ChExpired"
| cancel: "challenge_step ChPending ChCancelled"

inductive_simps challenge_step_simps [simp]: "challenge_step a b"

fun challenge_rank :: "challenge_status \<Rightarrow> nat" where
  "challenge_rank ChPending = 0"
| "challenge_rank _ = 1"

interpretation challenges: ranked_steps challenge_step challenge_rank
  by unfold_locales auto

datatype recovery_op =
  NewChallenge bool string string access_context wallet_seed string nat int
| ExportKey string string string string access_context string int
| ReadSecret string key_action access_context string int
| RotateWallet string access_context string int

fun recovery_exec :: "crypto \<Rightarrow> key_ring \<Rightarrow> custody_db \<Rightarrow> recovery_op \<Rightarrow> custody_db" where
  "recovery_exec c kr db (NewChallenge live u pw ax seed i r now) =
     snd (createRecoveryChallenge c kr live u pw ax seed i r now db)"
| "recovery_exec c kr db (ExportKey u pw i code ax iv now) = snd (exportSecretKey c kr u pw i code ax iv now db)"
| "recovery_exec c kr db (ReadSecret u act ax iv now) = snd (decryptSecretForUser c kr u act ax iv now db)"
| "recovery_exec c kr db (RotateWallet u ax iv now) = snd (rotateUserWallet c kr u ax iv now db)"

text \<open>The operation submits a code for the challenge, and the code is compared: right or wrong.\<close>

fun released :: "crypto \<Rightarrow> key_ring \<Rightarrow> string \<Rightarrow> custody_db \<Rightarrow> recovery_op \<Rightarrow> bool" where
  "released c kr i db (ExportKey u pw j code ax iv now) =
     (j = i \<and> \<not> isl (fst (exportSecretKey c kr u pw j code ax iv now db)))"
| "released c kr i db _ = False"

fun guessed_wrong :: "crypto \<Rightarrow> key_ring \<Rightarrow> string \<Rightarrow> custody_db \<Rightarrow> recovery_op \<Rightarrow> bool" where
  "guessed_wrong c kr i db (ExportKey u pw j code ax iv now) =
     (j = i \<and> fst (exportSecretKey c kr u pw j code ax iv now db)
        = Inl (HttpError 401 ''Invalid recovery verification code''))"
| "guessed_wrong c kr i db _ = False"

fun count_ops :: "('s \<Rightarrow> 'e \<Rightarrow> 's) \<Rightarrow> ('s \<Rightarrow> 'e \<Rightarrow> bool) \<Rightarrow> 's \<Rightarrow> 'e list \<Rightarrow> nat" where
  "count_ops exec P s [] = 0"
| "count_ops exec P s (e # es) = (if P s e then 1 else 0) + count_ops exec P (exec s e) es"

text \<open>How a challenge may change in one operation.\<close>

definition challenge_moves :: "bool \<Rightarrow> bool \<Rightarrow> challenge \<Rightarrow> challenge \<Rightarrow> bool" where
  "challenge_moves good bad ch ch' \<longleftrightarrow>
     ch_userId ch' = ch_userId ch \<and> ch_codeHash ch' = ch_codeHash ch \<and> ch_expiresAt ch' = ch_expiresAt ch \<and>
     ch_maxAttempts ch' = ch_maxAttempts ch \<and>
     challenge_step\<^sup>=\<^sup>= (ch_status ch) (ch_status ch') \<and>
     (if good \<or> bad then ch_status ch = ChPending \<and> ch_attempts ch < ch_maxAttempts ch \<and> ch_attempts ch' = ch_attempts ch + 1
      else ch_attempts ch \<le> ch_attempts ch') \<and>
     (good \<longrightarrow> ch_status ch' = ChCompleted)"

lemma challenge_moves_refl [simp]: "challenge_moves False False ch ch"
  by (simp add: challenge_moves_def)

text \<open>Errors of reading a secret are not those of the recovery itself.\<close>

definition inner_error :: "'b result \<Rightarrow> bool" where
  "inner_error r \<longleftrightarrow> (\<forall>k m. r \<noteq> Inl (HttpError k m))"

lemma maskError_plain: "\<exists>m. maskError e = PlainError m"
  by (cases e) auto

lemma decryptWithMetadata_error: "decryptWithMetadata c kr t = Inl e \<Longrightarrow> \<exists>m. e = PlainError m"
  unfolding decryptWithMetadata_def using maskError_plain by (auto split: sum.splits)

lemma encrypt_error: "encrypt c kr iv t v = Inl e \<Longrightarrow> \<exists>m. e = PlainError m"
  by (auto simp: encrypt_def getKeyByVersion_def bind_res_def split: option.splits prod.splits)

lemma rotate_error: "rotate_secret c kr iv t = Inl e \<Longrightarrow> \<exists>m. e = PlainError m"
  by (cases "decryptWithMetadata c kr t")
    (auto simp: rotate_secret_def bind_res_def dest: encrypt_error decryptWithMetadata_error split: sum.splits)

lemma record_access_error: "inner_error (fst (record_access c a now db))"
  by (auto simp: inner_error_def record_access_def Let_def row_create_def split: option.splits)

lemma and_then_inner: "inner_error (fst r) \<Longrightarrow> (\<And>x s. inner_error (fst (f x s))) \<Longrightarrow> inner_error (fst (and_then r f))"
  by (cases r) (auto simp: and_then_def inner_error_def split: sum.splits)

lemma lazy_rotation_error: "inner_error (fst (lazy_rotation c kr u w d ax iv now db))"
proof (cases "rotate_secret c kr iv (uw_encryptedSecretKey w)")
  case (Inl e)
  with rotate_error [OF Inl] show ?thesis by (auto simp: lazy_rotation_def inner_error_def)
next
  case (Inr r)
  then show ?thesis by (simp add: lazy_rotation_def Let_def record_access_error) (simp add: inner_error_def)
qed

lemma access_secret_error: "inner_error (fst (access_secret c kr u w act ax iv now db))"
proof (cases "decryptWithMetadata c kr (uw_encryptedSecretKey w)")
  case (Inl e)
  with decryptWithMetadata_error [OF Inl] show ?thesis by (auto simp: access_secret_def inner_error_def)
next
  case (Inr d)
  then show ?thesis
    by (auto simp: access_secret_def intro!: and_then_inner lazy_rotation_error record_access_error)
      (simp add: inner_error_def)
qed

lemma decryptSecret_error: "inner_error (fst (decryptSecretForUser c kr u act ax iv now db))"
proof (cases "jm_get (cu_wallets db) u")
  case (Some w)
  obtain r db1 where a: "access_secret c kr u w act ax iv now db = (r, db1)" by fastforce
  then have "inner_error r" using access_secret_error [of c kr u w act ax iv now db] by simp
  show ?thesis
  proof (cases r)
    case (Inl e)
    have "inner_error (fst (and_then (record_access c (failure_access ax u w act e) now db1)
        (\<lambda>_ db2. (Inl e :: (string \<times> user_wallet) result, db2))))"
      using \<open>inner_error r\<close> Inl by (intro and_then_inner record_access_error) (simp add: inner_error_def)
    with Some a Inl show ?thesis by (simp add: decryptSecretForUser_def)
  next
    case (Inr y)
    with Some a show ?thesis by (simp add: decryptSecretForUser_def inner_error_def)
  qed
qed (simp add: decryptSecretForUser_def inner_error_def)

text \<open>An export call is one of four things for its challenge.\<close>

lemma export_moves:
  assumes ch: "jm_get (cu_challenges db) i = Some ch" and e: "exportSecretKey c kr u pw i code ax iv now db = (res, db')"
  shows "\<exists>ch'. (cu_challenges db' = cu_challenges db \<and> ch' = ch \<or> cu_challenges db' = jm_set (cu_challenges db) i ch') \<and>
    challenge_moves (\<not> isl res) (res = Inl (HttpError 401 ''Invalid recovery verification code'')) ch ch'"
proof (cases "\<exists>us. jm_get (cu_users db) u = Some us \<and> cr_comparePassword c pw (us_passwordHash us) \<and> ch_userId ch = u \<and>
    ch_status ch = ChPending")
  case False
  with ch e show ?thesis
    by (intro exI [of _ ch]) (auto simp: exportSecretKey_def split: option.splits if_splits)
next
  case True
  then obtain us where us: "jm_get (cu_users db) u = Some us" "cr_comparePassword c pw (us_passwordHash us)"
    "ch_userId ch = u" "ch_status ch = ChPending" by blast
  consider "ch_expiresAt ch \<le> now" | "\<not> ch_expiresAt ch \<le> now" "ch_maxAttempts ch \<le> ch_attempts ch"
    | "\<not> ch_expiresAt ch \<le> now" "ch_attempts ch < ch_maxAttempts ch" "ch_codeHash ch \<noteq> cr_sha c code"
    | "\<not> ch_expiresAt ch \<le> now" "ch_attempts ch < ch_maxAttempts ch" "ch_codeHash ch = cr_sha c code"
    by linarith
  then show ?thesis
  proof cases
    case 1
    with e ch us show ?thesis
      by (intro exI [of _ "ch\<lparr>ch_status := ChExpired\<rparr>"])
        (auto simp: exportSecretKey_def put_challenge_def challenge_moves_def)
  next
    case 2
    with e ch us show ?thesis
      by (intro exI [of _ "ch\<lparr>ch_status := ChCancelled\<rparr>"])
        (auto simp: exportSecretKey_def put_challenge_def challenge_moves_def)
  next
    case 3
    define a where "a = recovery_access ax (ch_walletId ch) u RECOVERY_CHALLENGE_COMPLETED False
      ''Invalid wallet recovery verification code submitted''
      (JObj [(''challengeId'', JStr i), (''attempts'', JNum (of_int (ch_attempts (failed_guess now ch))))])"
    obtain rr db1 where r: "record_access c a now (put_challenge i (failed_guess now ch) db) = (rr, db1)" by fastforce
    then have "cu_challenges db1 = jm_set (cu_challenges db) i (failed_guess now ch)"
      using record_access_same [of "put_challenge i (failed_guess now ch) db" c a now "put_challenge i (failed_guess now ch) db"]
      by (simp add: same_people_def put_challenge_def)
    moreover from 3 e ch us r have "db' = db1" "isl res"
      by (cases rr; auto simp: exportSecretKey_def Let_def a_def)+
    ultimately show ?thesis using 3 us
      by (intro exI [of _ "failed_guess now ch"]) (auto simp: failed_guess_def challenge_moves_def)
  next
    case 4
    obtain ds db1 where d: "decryptSecretForUser c kr u EXPORT (export_context ax u i) iv now db = (ds, db1)" by fastforce
    have same: "cu_challenges db1 = cu_challenges db"
      using decryptSecret_same [of db db c kr u EXPORT "export_context ax u i" iv now] d by (simp add: same_people_def)
    show ?thesis
    proof (cases ds)
      case (Inl e2)
      with 4 e ch us d have "res = Inl e2" "db' = db1" by (simp_all add: exportSecretKey_def)
      moreover have "inner_error ds" using decryptSecret_error [of c kr u EXPORT "export_context ax u i" iv now db] d by simp
      ultimately show ?thesis using same Inl by (intro exI [of _ ch]) (simp add: inner_error_def)
    next
      case (Inr sw)
      define a where "a = recovery_access ax (ch_walletId ch) u RECOVERY_CHALLENGE_COMPLETED True
        ''Wallet recovery challenge satisfied and key export released'' (JObj [(''challengeId'', JStr i)])"
      obtain rr db2 where r: "record_access c a now (put_challenge i (completed_guess now ch) db1) = (rr, db2)" by fastforce
      then have "cu_challenges db2 = jm_set (cu_challenges db) i (completed_guess now ch)"
        using record_access_same [of "put_challenge i (completed_guess now ch) db1" c a now "put_challenge i (completed_guess now ch) db1"] same
        by (simp add: same_people_def put_challenge_def)
      moreover from 4 e ch us d Inr r have "db' = db2"
        by (cases rr; cases sw; auto simp: exportSecretKey_def Let_def a_def)+
      moreover from 4 e ch us d Inr r record_access_error [of c a now "put_challenge i (completed_guess now ch) db1"]
      have "res \<noteq> Inl (HttpError 401 ''Invalid recovery verification code'')"
        by (cases rr; cases sw; auto simp: exportSecretKey_def Let_def a_def inner_error_def)
      ultimately show ?thesis using 4 us
        by (intro exI [of _ "completed_guess now ch"]) (auto simp: completed_guess_def challenge_moves_def)
    qed
  qed
qed

lemma record_access_challenges [simp]: "cu_challenges (snd (record_access c a now db)) = cu_challenges db"
  by (auto simp: record_access_def Let_def split: sum.splits)

lemma rotateUserWallet_challenges [simp]: "cu_challenges (snd (rotateUserWallet c kr u ax iv now db)) = cu_challenges db"
proof (cases "jm_get (cu_wallets db) u")
  case (Some w)
  have "cu_challenges (snd (and_then (record_access c a now (db\<lparr>cu_wallets := ws\<rparr>))
      (\<lambda>_ db2. (Inr x :: wallet_summary result, db2)))) = cu_challenges db" for a ws x
    by (rule and_then_keeps [where P = "\<lambda>d. cu_challenges d = cu_challenges db"]) simp_all
  with Some show ?thesis
    by (auto simp: rotateUserWallet_def Let_def split: sum.splits)
qed (simp add: rotateUserWallet_def)

text \<open>A new challenge cancels the pending ones of its user and touches no other.\<close>

lemma createRecoveryChallenge_challenges:
  fixes db :: custody_db
  assumes t'_def: "t' = cu_challenges (snd (createRecoveryChallenge c kr live u pw ax seed i r now db))"
  shows "t' = cu_challenges db \<or>
    (\<exists>ch. row_create (cancel_pending u (cu_challenges db)) i ch = Inr t')"
proof (cases "\<exists>us. jm_get (cu_users db) u = Some us \<and> cr_comparePassword c pw (us_passwordHash us)")
  case False
  then show ?thesis by (auto simp: t'_def createRecoveryChallenge_def split: option.splits)
next
  case True
  obtain er db1 where en: "ensureUserWallet c kr u seed now db = (er, db1)" by fastforce
  then have same: "cu_challenges db1 = cu_challenges db" using ensureUserWallet_challenges [of c kr u seed now db] by simp
  have keep: "cu_challenges (snd (and_then (record_access c a now d)
      (\<lambda>_ d3. (Inr x :: (string \<times> int \<times> string option) result, d3)))) = cu_challenges d" for a x and d :: custody_db
    by (rule and_then_keeps [where P = "\<lambda>e. cu_challenges e = cu_challenges d"]) simp_all
  from True en same keep show ?thesis
    by (cases er) (auto simp: t'_def createRecoveryChallenge_def Let_def split: option.splits sum.splits)
qed

lemma recovery_op_moves:
  assumes "jm_get (cu_challenges db) i = Some ch"
  shows "\<exists>ch'. jm_get (cu_challenges (recovery_exec c kr db op)) i = Some ch' \<and>
    challenge_moves (released c kr i db op) (guessed_wrong c kr i db op) ch ch'"
proof (cases op)
  case (NewChallenge live u pw ax seed j r now)
  from createRecoveryChallenge_challenges [OF refl, of c kr live u pw ax seed j r now db] assms show ?thesis
    by (auto simp: NewChallenge row_create_Inr_iff cancel_pending_def jm_get_update_many challenge_moves_def)
next
  case (ExportKey u pw j code ax iv now)
  obtain res db' where e: "exportSecretKey c kr u pw j code ax iv now db = (res, db')" by fastforce
  show ?thesis
  proof (cases "jm_get (cu_challenges db) j")
    case None
    with e have "db' = db" by (auto simp: exportSecretKey_def split: option.splits if_splits)
    moreover from None assms have "j \<noteq> i" by auto
    ultimately show ?thesis using assms e ExportKey by (intro exI [of _ ch]) simp
  next
    case (Some chj)
    from export_moves [OF Some e] Some assms e show ?thesis by (cases "j = i") (auto simp: ExportKey)
  qed
next
  case (ReadSecret u act ax iv now)
  with assms decryptSecret_same [of db db c kr u act ax iv now] show ?thesis
    by (intro exI [of _ ch]) (simp add: same_people_def)
next
  case (RotateWallet u ax iv now)
  with assms show ?thesis by (intro exI [of _ ch]) simp
qed

lemma recovery_run_moves:
  assumes "jm_get (cu_challenges db) i = Some ch"
  shows "\<exists>ch'. jm_get (cu_challenges (foldl (recovery_exec c kr) db ops)) i = Some ch' \<and>
    challenge_step\<^sup>*\<^sup>* (ch_status ch) (ch_status ch') \<and>
    count_ops (recovery_exec c kr) (released c kr i) db ops
      \<le> (if ch_status ch = ChPending \<and> ch_status ch' = ChCompleted then 1 else 0) \<and>
    int (count_ops (recovery_exec c kr) (\<lambda>s e. released c kr i s e \<or> guessed_wrong c kr i s e) db ops)
      \<le> (if ch_status ch = ChPending then max 0 (ch_maxAttempts ch - ch_attempts ch) else 0)"
  using assms
proof (induction ops arbitrary: db ch)
  case (Cons op ops)
  obtain ch1 where ch1: "jm_get (cu_challenges (recovery_exec c kr db op)) i = Some ch1"
    and mv: "challenge_moves (released c kr i db op) (guessed_wrong c kr i db op) ch ch1"
    using recovery_op_moves [OF Cons.prems] by blast
  obtain ch' where IH: "jm_get (cu_challenges (foldl (recovery_exec c kr) (recovery_exec c kr db op) ops)) i = Some ch'"
    "challenge_step\<^sup>*\<^sup>* (ch_status ch1) (ch_status ch')"
    "count_ops (recovery_exec c kr) (released c kr i) (recovery_exec c kr db op) ops
      \<le> (if ch_status ch1 = ChPending \<and> ch_status ch' = ChCompleted then 1 else 0)"
    "int (count_ops (recovery_exec c kr) (\<lambda>s e. released c kr i s e \<or> guessed_wrong c kr i s e) (recovery_exec c kr db op) ops)
      \<le> (if ch_status ch1 = ChPending then max 0 (ch_maxAttempts ch1 - ch_attempts ch1) else 0)"
    using Cons.IH [OF ch1] by blast
  have st: "challenge_step\<^sup>=\<^sup>= (ch_status ch) (ch_status ch1)" using mv by (simp add: challenge_moves_def)
  have fin: "ch_status ch1 = ChCompleted \<Longrightarrow> ch_status ch' = ChCompleted"
    using challenges.final_stays [OF IH(2)] by auto
  from st IH(2) have "challenge_step\<^sup>*\<^sup>* (ch_status ch) (ch_status ch')"
    by (auto intro: converse_rtranclp_into_rtranclp)
  moreover have "ch_status ch1 = ch_status ch \<or> ch_status ch = ChPending \<and> ch_status ch1 \<noteq> ChPending" using st by auto
  ultimately show ?case using IH mv fin
    by (intro exI [of _ ch']) (auto simp: challenge_moves_def simp del: challenge_step_simps split: if_splits)
qed auto

section \<open>Reading a secret\<close>

lemma lazy_rotation_done:
  assumes "lazy_rotation c kr u w d ax iv now db = (Inr x, db')"
  shows "if dr_usedLegacyFormat d \<or> dr_keyVersion d \<noteq> kr_activeKeyVersion kr
    then \<exists>r. rotate_secret c kr iv (uw_encryptedSecretKey w) = Inr r \<and>
      cu_wallets db' = jm_set (cu_wallets db) u (wallet_rotated r now w)
    else db' = db"
proof (cases "dr_usedLegacyFormat d \<or> dr_keyVersion d \<noteq> kr_activeKeyVersion kr")
  case True
  with assms obtain r a where r: "rotate_secret c kr iv (uw_encryptedSecretKey w) = Inr r"
    and rec: "record_access c a now (db\<lparr>cu_wallets := jm_set (cu_wallets db) u (wallet_rotated r now w)\<rparr>) = (Inr x, db')"
    by (auto simp: lazy_rotation_def Let_def split: sum.splits)
  from record_access_wallets [of c a now "db\<lparr>cu_wallets := jm_set (cu_wallets db) u (wallet_rotated r now w)\<rparr>"] rec r True
  show ?thesis by simp
qed (use assms in \<open>simp add: lazy_rotation_def\<close>)

lemma decryptSecret_success:
  assumes "decryptSecretForUser c kr u act ax iv now db = (Inr (secret, w), db')"
  obtains d h r where "jm_get (cu_wallets db) u = Some w" "decryptWithMetadata c kr (uw_encryptedSecretKey w) = Inr d"
    "secret = dr_plainText d"
    "jm_get (cu_accesses db') h = Some r" "key_access.truncate r = success_access ax u w act (kr_activeKeyVersion kr)"
    "if dr_usedLegacyFormat d \<or> dr_keyVersion d \<noteq> kr_activeKeyVersion kr
     then \<exists>ro. rotate_secret c kr iv (uw_encryptedSecretKey w) = Inr ro \<and>
       cu_wallets db' = jm_set (cu_wallets db) u (wallet_rotated ro now w)
     else cu_wallets db' = cu_wallets db"
proof -
  from assms obtain w0 where w0: "jm_get (cu_wallets db) u = Some w0" "access_secret c kr u w0 act ax iv now db = (Inr (secret, w), db')"
    by (auto simp: decryptSecretForUser_def and_then_Inr_iff split: option.splits sum.splits prod.splits)
  from w0(2) obtain d x db1 where d: "decryptWithMetadata c kr (uw_encryptedSecretKey w0) = Inr d" "w = w0" "secret = dr_plainText d"
    and l: "lazy_rotation c kr u w0 d ax iv now db = (Inr x, db1)"
    and r: "record_access c (success_access ax u w0 act (kr_activeKeyVersion kr)) now db1 = (Inr (), db')"
    by (auto simp: access_secret_def and_then_Inr_iff split: sum.splits)
  from record_access_written [OF r] obtain h row where "jm_get (cu_accesses db') h = Some row"
    "key_access.truncate row = success_access ax u w0 act (kr_activeKeyVersion kr)" by blast
  moreover have "cu_wallets db' = cu_wallets db1"
    using record_access_wallets [of c "success_access ax u w0 act (kr_activeKeyVersion kr)" now db1] r by simp
  ultimately show thesis using that [OF _ _ d(3)] w0(1) d(1,2) lazy_rotation_done [OF l] by simp
qed

lemma decrypted_current:
  assumes "decryptWithMetadata c kr x = Inr d" "\<not> dr_usedLegacyFormat d" "dr_keyVersion d = kr_activeKeyVersion kr"
  shows "\<not> needsRotation c kr x"
  using assms by (auto simp: decryptWithMetadata_def needsRotation_def bind_res_Inr_iff split: option.splits sum.splits)

section \<open>Properties\<close>

text \<open>
  C25. What the encryption service seals it opens again: with a ring of keys that the constructor
  accepts and a cipher that opens what it sealed, decryption gives the text back whatever configured
  version sealed it; rotation never fails on such a text, keeps the text, reports the version it came
  from, and leaves nothing to rotate, and a rotation is due exactly when the version is not the
  active one.
\<close>

theorem encryption_roundtrip:
  assumes "new_key_ring c mk legacy act = Inr kr" and "crypto_ok c kr" and "base64 iv" and "base64 iv2"
    and "encrypt c kr iv t v = Inr x"
  shows "decrypt c kr x = Inr t \<and> (needsRotation c kr x \<longleftrightarrow> v \<noteq> kr_activeKeyVersion kr) \<and>
    (\<exists>r. rotate_secret c kr iv2 x = Inr r \<and> ro_previousVersion r = v \<and> ro_keyVersion r = kr_activeKeyVersion kr \<and>
       decrypt c kr (ro_encrypted r) = Inr t \<and> \<not> needsRotation c kr (ro_encrypted r))"
proof -
  note e = encrypt_decrypt [OF assms(2,3,5)]
  obtain y where "encrypt c kr iv2 t (kr_activeKeyVersion kr) = Inr y"
    using encrypt_total [OF new_key_ring_active [OF assms(1)]] by blast
  with e(2) obtain r where r: "rotate_secret c kr iv2 x = Inr r" by (simp add: rotate_secret_def)
  from rotate_reads [OF assms(2,4) r e(2)] e r show ?thesis by (simp add: decrypt_def)
qed

text \<open>
  A secret that was read stays readable and is current: when a read succeeds, the secret returned
  is the decryption of the stored text, the access is in the trail under the acting user, and
  afterwards the stored wallet has the same public key, opens to the same secret and is sealed with
  the active key, even if it was stored with an older key or in the legacy format; the wallets of
  other users, the users and the challenges are untouched.
\<close>

theorem secret_read_migrates:
  assumes "crypto_ok c kr" and "base64 iv"
    and "decryptSecretForUser c kr u action ax iv now db = (Inr (secret, w), db')"
  shows "jm_get (cu_wallets db) u = Some w \<and> decrypt c kr (uw_encryptedSecretKey w) = Inr secret \<and>
    (\<exists>w'. jm_get (cu_wallets db') u = Some w' \<and> uw_publicKey w' = uw_publicKey w \<and>
       decrypt c kr (uw_encryptedSecretKey w') = Inr secret \<and> \<not> needsRotation c kr (uw_encryptedSecretKey w')) \<and>
    (\<exists>h r. jm_get (cu_accesses db') h = Some r \<and> ka_action r = action \<and> ka_success r \<and> ka_walletId r = uw_id w \<and>
       ka_actorUserId r = Some (case ax_actorUserId ax of None \<Rightarrow> u | Some a \<Rightarrow> a)) \<and>
    (\<forall>v. v \<noteq> u \<longrightarrow> jm_get (cu_wallets db') v = jm_get (cu_wallets db) v) \<and>
    cu_users db' = cu_users db \<and> cu_challenges db' = cu_challenges db"
proof -
  from assms(3) obtain d h r where w: "jm_get (cu_wallets db) u = Some w"
    and d: "decryptWithMetadata c kr (uw_encryptedSecretKey w) = Inr d" and sec: "secret = dr_plainText d"
    and h: "jm_get (cu_accesses db') h = Some r" "key_access.truncate r = success_access ax u w action (kr_activeKeyVersion kr)"
    and rot: "if dr_usedLegacyFormat d \<or> dr_keyVersion d \<noteq> kr_activeKeyVersion kr
     then \<exists>ro. rotate_secret c kr iv (uw_encryptedSecretKey w) = Inr ro \<and>
       cu_wallets db' = jm_set (cu_wallets db) u (wallet_rotated ro now w)
     else cu_wallets db' = cu_wallets db"
    by (rule decryptSecret_success)
  have "ka_action r = action \<and> ka_success r \<and> ka_walletId r = uw_id w \<and>
      ka_actorUserId r = Some (case ax_actorUserId ax of None \<Rightarrow> u | Some a \<Rightarrow> a)"
    using h(2) by (auto simp: key_access.defs success_access_def split: option.splits)
  moreover have "same_people db db'"
    using decryptSecret_same [of db db c kr u action ax iv now] assms(3) by simp
  moreover have "(\<exists>w'. jm_get (cu_wallets db') u = Some w' \<and> uw_publicKey w' = uw_publicKey w \<and>
       decrypt c kr (uw_encryptedSecretKey w') = Inr secret \<and> \<not> needsRotation c kr (uw_encryptedSecretKey w')) \<and>
    (\<forall>v. v \<noteq> u \<longrightarrow> jm_get (cu_wallets db') v = jm_get (cu_wallets db) v)"
  proof (cases "dr_usedLegacyFormat d \<or> dr_keyVersion d \<noteq> kr_activeKeyVersion kr")
    case True
    with rot obtain ro where ro: "rotate_secret c kr iv (uw_encryptedSecretKey w) = Inr ro"
      "cu_wallets db' = jm_set (cu_wallets db) u (wallet_rotated ro now w)" by auto
    from rotate_reads [OF assms(1,2) ro(1) d] ro(2) sec show ?thesis by (simp add: wallet_rotated_def)
  next
    case False
    with rot w d sec decrypted_current [OF d] show ?thesis by (simp add: decrypt_def)
  qed
  ultimately show ?thesis using w d sec h(1) by (auto simp: decrypt_def same_people_def)
qed


text \<open>
  C27. A secret key is released only to its owner: an export that succeeds had the user's password, a
  pending challenge of that user that had not expired and had attempts left, and the code whose hash the
  challenge stores; it returns the public key and the decrypted secret of the user's own wallet, completes the
  challenge, and leaves a successful export in the trail with the user as actor.
\<close>

theorem export_authorised:
  assumes "exportSecretKey c kr u password i code ax iv now db = (Inr (publicKey, secret), db')"
  shows "\<exists>us ch w. jm_get (cu_users db) u = Some us \<and> cr_comparePassword c password (us_passwordHash us) \<and>
    jm_get (cu_challenges db) i = Some ch \<and> ch_userId ch = u \<and> ch_status ch = ChPending \<and> now < ch_expiresAt ch \<and>
    ch_attempts ch < ch_maxAttempts ch \<and> ch_codeHash ch = cr_sha c code \<and>
    jm_get (cu_wallets db) u = Some w \<and> publicKey = uw_publicKey w \<and> decrypt c kr (uw_encryptedSecretKey w) = Inr secret \<and>
    map_option ch_status (jm_get (cu_challenges db') i) = Some ChCompleted \<and>
    (\<exists>h r. jm_get (cu_accesses db') h = Some r \<and> ka_action r = EXPORT \<and> ka_success r \<and> ka_walletId r = uw_id w \<and>
       ka_actorUserId r = Some u)"
proof -
  from assms obtain us ch where g: "jm_get (cu_users db) u = Some us" "cr_comparePassword c password (us_passwordHash us)"
    "jm_get (cu_challenges db) i = Some ch" "ch_userId ch = u" "ch_status ch = ChPending" "now < ch_expiresAt ch"
    "ch_attempts ch < ch_maxAttempts ch" "ch_codeHash ch = cr_sha c code"
    by (auto simp: exportSecretKey_def and_then_Inr_iff Let_def split: option.splits if_splits)
  define a where "a = recovery_access ax (ch_walletId ch) u RECOVERY_CHALLENGE_COMPLETED True
    ''Wallet recovery challenge satisfied and key export released'' (JObj [(''challengeId'', JStr i)])"
  from assms g obtain w db1 where
    ds: "decryptSecretForUser c kr u EXPORT (export_context ax u i) iv now db = (Inr (secret, w), db1)"
    and r: "record_access c a now (put_challenge i (completed_guess now ch) db1) = (Inr (), db')" and pk: "publicKey = uw_publicKey w"
    by (auto simp: exportSecretKey_def and_then_Inr_iff a_def split: if_splits)
  have "cu_challenges db' = jm_set (cu_challenges db1) i (completed_guess now ch)"
    using record_access_challenges [of c a now "put_challenge i (completed_guess now ch) db1"] unfolding r by (simp add: put_challenge_def)
  then have st: "map_option ch_status (jm_get (cu_challenges db') i) = Some ChCompleted" by (simp add: completed_guess_def)
  from ds obtain d h row where w: "jm_get (cu_wallets db) u = Some w"
    "decryptWithMetadata c kr (uw_encryptedSecretKey w) = Inr d" "secret = dr_plainText d"
    and h: "jm_get (cu_accesses db1) h = Some row"
      "key_access.truncate row = success_access (export_context ax u i) u w EXPORT (kr_activeKeyVersion kr)"
    by (rule decryptSecret_success)
  have "jm_get (cu_accesses db') h = Some row"
    using record_access_keeps [of "put_challenge i (completed_guess now ch) db1" h row c a now] h(1) unfolding r by (simp add: put_challenge_def)
  moreover have "ka_action row = EXPORT \<and> ka_success row \<and> ka_walletId row = uw_id w \<and> ka_actorUserId row = Some u"
    using h(2) by (auto simp: key_access.defs success_access_def export_context_def)
  ultimately show ?thesis using g w pk st by (auto simp: decrypt_def)
qed

section \<open>Witnesses\<close>

text \<open>
  A cipher that writes the bits of the text, with the bits of the key as its tag; a reader of
  payloads that cuts the text at the quotes; two master keys, the second of them active.
\<close>

fun to_bits :: "string \<Rightarrow> string" where
  "to_bits [] = []"
| "to_bits (Char a b c d e f g h # cs) =
     map (\<lambda>x. if x then CHR ''1'' else CHR ''0'') [a, b, c, d, e, f, g, h] @ to_bits cs"

fun from_bits :: "string \<Rightarrow> string" where
  "from_bits (a # b # c # d # e # f # g # h # cs) =
     (let t = (\<lambda>x. x = CHR ''1'') in Char (t a) (t b) (t c) (t d) (t e) (t f) (t g) (t h) # from_bits cs)"
| "from_bits _ = []"

lemma from_to_bits: "from_bits (to_bits t) = t" and to_bits_base64: "base64 (to_bits t)"
  by (induction t rule: to_bits.induct) (simp_all add: base64_char_def)

definition demo_payload :: "string \<Rightarrow> json option" where
  "demo_payload text =
     (let p = js_split CHR 0x22 text
      in if length p = 23 then Some (payload_json \<lparr>ep_keyVersion = (if p ! 10 = '':1,'' then 1 else 2),
           ep_iv = p ! 13, ep_authTag = p ! 17, ep_ciphertext = p ! 21\<rparr>) else None)"

definition demo_crypto :: crypto where
  "demo_crypto = \<lparr>cr_seal = (\<lambda>key iv t. (to_bits t, to_bits key)),
     cr_unseal = (\<lambda>key iv tag ct. if tag = to_bits key then Some (from_bits ct) else None),
     cr_deriveKey = (\<lambda>secret version. secret), cr_sha = (\<lambda>t. CHR ''#'' # filter is_ascii_digit t @ (if length t \<le> 6 then [] else ''0'')),
     cr_comparePassword = (\<lambda>pw h. h = CHR ''#'' # pw), cr_parse = demo_payload,
     cr_num = (\<lambda>v. if v = 1 then ''1'' else ''2''), cr_isoDate = (\<lambda>_. ''1970-01-01T00:00:00.000Z'')\<rparr>"

definition demo_ring :: key_ring where
  "demo_ring = \<lparr>kr_masterKeys = [(1, ''k1''), (2, ''k2'')], kr_activeKeyVersion = 2, kr_encryptionSecret = None\<rparr>"

lemma esc_base64: "base64_char c \<Longrightarrow> esc_char c = [c]"
  by (auto simp: base64_char_def esc_char_def Let_def)

lemma quote_base64: "base64 s \<Longrightarrow> json_quote s = CHR 0x22 # s @ [CHR 0x22]"
  by (induction s) (auto simp: json_quote_def esc_base64)

lemma base64_no_quote: "base64 s \<Longrightarrow> CHR 0x22 \<notin> set s"
  by (induction s) (auto simp: base64_char_def)

lemma demo_crypto_ok: "crypto_ok demo_crypto demo_ring"
proof -
  have "demo_payload (write_json (cr_num demo_crypto) (payload_json p)) = Some (payload_json p)"
    if v: "jm_get (kr_masterKeys demo_ring) (ep_keyVersion p) \<noteq> None" and b: "base64 (ep_iv p)" "base64 (ep_authTag p)"
      "base64 (ep_ciphertext p)" for p
  proof -
    from v have "ep_keyVersion p = 1 \<or> ep_keyVersion p = 2"
      by (auto simp: demo_ring_def jm_get_def split: if_splits)
    moreover have "json_quote ''format'' = CHR 0x22 # ''format'' @ [CHR 0x22]" 
      "json_quote ''arenax-wallet-v1'' = CHR 0x22 # ''arenax-wallet-v1'' @ [CHR 0x22]"
      "json_quote ''algorithm'' = CHR 0x22 # ''algorithm'' @ [CHR 0x22]"
      "json_quote ''aes-256-gcm'' = CHR 0x22 # ''aes-256-gcm'' @ [CHR 0x22]"
      "json_quote ''keyVersion'' = CHR 0x22 # ''keyVersion'' @ [CHR 0x22]"
      "json_quote ''iv'' = CHR 0x22 # ''iv'' @ [CHR 0x22]"
      "json_quote ''authTag'' = CHR 0x22 # ''authTag'' @ [CHR 0x22]"
      "json_quote ''ciphertext'' = CHR 0x22 # ''ciphertext'' @ [CHR 0x22]"
      by code_simp+
    ultimately show ?thesis using b
      by (auto simp: payload_json_def demo_payload_def demo_crypto_def quote_base64 base64_no_quote js_split_append)
  qed
  then show ?thesis
    by (simp add: crypto_ok_def from_to_bits to_bits_base64) (simp add: demo_crypto_def from_to_bits to_bits_base64)
qed

definition demo_sealed :: string where
  "demo_sealed = (case encrypt demo_crypto demo_ring ''AA=='' ''SK'' 1 of Inr x \<Rightarrow> x | Inl _ \<Rightarrow> [])"

definition demo_custody :: custody_db where
  "demo_custody =
     \<lparr>cu_users = [(''u'', \<lparr>us_email = ''u@x'', us_username = ''u'', us_passwordHash = ''#pw'', us_role = ''PLAYER'',
        us_isVerified = True, us_walletAddress = Some ''GU'', us_verificationToken = None,
        us_verificationTokenExpires = None, us_passwordResetToken = None, us_passwordResetExpires = None,
        us_provider = None, us_providerId = None\<rparr>)],
      cu_wallets = [(''u'', \<lparr>uw_id = ''w'', uw_publicKey = ''GU'', uw_encryptedSecretKey = demo_sealed,
        uw_encryptionVersion = 1, uw_createdAt = 0, uw_lastRotatedAt = Some 0\<rparr>)],
      cu_accesses = [],
      cu_challenges = [(''i'', \<lparr>ch_userId = ''u'', ch_walletId = ''w'', ch_codeHash = ''#123456'', ch_expiresAt = 600000,
        ch_completedAt = None, ch_status = ChPending, ch_attempts = 3, ch_maxAttempts = 5, ch_requestId = None,
        ch_requestedFromIp = None, ch_requestedUserAgent = None, ch_lastAttemptAt = None, ch_createdAt = 0\<rparr>)]\<rparr>"

definition demo_access :: access_context where
  "demo_access = \<lparr>ax_actorUserId = None, ax_requestId = None, ax_ipAddress = None, ax_userAgent = None,
     ax_reason = None, ax_metadata = None\<rparr>"

lemma demo_sealed_eq: "encrypt demo_crypto demo_ring ''AA=='' ''SK'' 1 = Inr demo_sealed"
proof -
  have "\<not> isl (encrypt demo_crypto demo_ring ''AA=='' ''SK'' 1)" by code_simp
  then show ?thesis by (auto simp: demo_sealed_def split: sum.splits)
qed

lemma demo_iv: "base64 ''AA==''" "base64 ''BB==''"
  by code_simp+

lemma demo_ring_new: "new_key_ring demo_crypto (Some [(1, ''k1''), (2, ''k2'')]) None None = Inr demo_ring"
  by code_simp

theorem encryption_roundtrip_witness:
  "decrypt demo_crypto demo_ring demo_sealed = Inr ''SK'' \<and> needsRotation demo_crypto demo_ring demo_sealed"
proof -
  have "(1 :: rat) \<noteq> kr_activeKeyVersion demo_ring" by (simp add: demo_ring_def)
  with encryption_roundtrip [OF demo_ring_new demo_crypto_ok demo_iv(1) demo_iv(2) demo_sealed_eq] show ?thesis by blast
qed

theorem secret_read_migrates_witness:
  "(case decryptSecretForUser demo_crypto demo_ring ''u'' SIGN demo_access ''BB=='' 7 demo_custody of
      (Inl e, db') \<Rightarrow> False
    | (Inr (secret, w), db') \<Rightarrow> \<exists>w'. jm_get (cu_wallets db') ''u'' = Some w' \<and> uw_publicKey w' = uw_publicKey w \<and>
        decrypt demo_crypto demo_ring (uw_encryptedSecretKey w') = Inr secret \<and>
        \<not> needsRotation demo_crypto demo_ring (uw_encryptedSecretKey w'))"
proof -
  have "\<not> isl (fst (decryptSecretForUser demo_crypto demo_ring ''u'' SIGN demo_access ''BB=='' 7 demo_custody))"
    by code_simp
  then obtain secret w db' where
    d: "decryptSecretForUser demo_crypto demo_ring ''u'' SIGN demo_access ''BB=='' 7 demo_custody = (Inr (secret, w), db')"
    by (metis isl_def obj_sumE prod.exhaust_sel surj_pair)
  from secret_read_migrates [OF demo_crypto_ok demo_iv(2) d] d show ?thesis by simp
qed


theorem export_authorised_witness:
  "(case exportSecretKey demo_crypto demo_ring ''u'' ''pw'' ''i'' ''123456'' demo_access ''BB=='' 7 demo_custody of
      (Inl e, db') \<Rightarrow> False
    | (Inr (publicKey, secret), db') \<Rightarrow> map_option ch_status (jm_get (cu_challenges db') ''i'') = Some ChCompleted)"
proof -
  have "\<not> isl (fst (exportSecretKey demo_crypto demo_ring ''u'' ''pw'' ''i'' ''123456'' demo_access ''BB=='' 7 demo_custody))"
    by code_simp
  then obtain pk secret db' where
    e: "exportSecretKey demo_crypto demo_ring ''u'' ''pw'' ''i'' ''123456'' demo_access ''BB=='' 7 demo_custody = (Inr (pk, secret), db')"
    by (metis isl_def obj_sumE prod.exhaust_sel surj_pair)
  from export_authorised [OF e] e show ?thesis by auto
qed

end
