(* ===== verification/Sessions.thy ===== *)
theory Sessions
  imports Custody
begin

text \<open>
  Accounts and sessions (\<^verbatim>\<open>server/src/services/auth.service.ts\<close>): registration, login, rotation of
  refresh tokens and detection of their reuse, social login, guests, and the links for verification
  and password reset.

  Password hashing, the signature of access tokens and the answers of the identity providers are
  arguments, as are times, identifiers and random values. Sending mail never changes the outcome, since its
  failure is caught; it is left out, as are the profile columns that these functions only hand on
  (\<^verbatim>\<open>bio\<close>, \<^verbatim>\<open>socials\<close> and the times of the row).
\<close>

section \<open>State\<close>

record refresh_token =
  rt_userId :: string
  rt_familyId :: string
  rt_tokenHash :: string
  rt_expiresAt :: int
  rt_revokedAt :: "int option"
  rt_parentTokenId :: "string option"
  rt_replacedByTokenId :: "string option"

record auth_db = custody_db +
  se_tokens :: "(string, refresh_token) jsmap"

record auth_env =
  en_crypto :: crypto
  en_keys :: key_ring
  en_hashPassword :: "string \<Rightarrow> string \<Rightarrow> string"
  en_sign :: "string \<Rightarrow> string \<Rightarrow> string \<Rightarrow> string \<Rightarrow> string"
  en_accessTokenTtl :: string
  en_refreshTokenTtl :: string
  en_refreshTokenTtlMs :: int

record session_seed =
  ss_token :: string
  ss_id :: string
  ss_family :: string

record account_seed =
  as_random :: nat
  as_userId :: string
  as_wallet :: wallet_seed
  as_verification :: string
  as_session :: session_seed

record safe_user =
  sf_id :: string
  sf_email :: string
  sf_username :: string
  sf_role :: string
  sf_isVerified :: bool

record session_reply =
  sr_user :: safe_user
  sr_accessToken :: string
  sr_refreshToken :: string
  sr_accessTokenTtl :: string
  sr_refreshTokenTtl :: string

section \<open>Names\<close>

definition MAX_USERNAME_LENGTH :: nat where "MAX_USERNAME_LENGTH = 24"

definition MIN_USERNAME_LENGTH :: nat where "MIN_USERNAME_LENGTH = 3"

definition MAX_USERNAME_ATTEMPTS :: nat where "MAX_USERNAME_ATTEMPTS = 25"

definition toTokenHash :: "auth_env \<Rightarrow> string \<Rightarrow> string" where
  "toTokenHash env token = cr_sha (en_crypto env) token"

definition constantTimeEquals :: "string \<Rightarrow> string \<Rightarrow> bool" where
  "constantTimeEquals left right \<longleftrightarrow> length left = length right \<and> left = right"

definition normalizeEmail :: "string \<Rightarrow> string" where
  "normalizeEmail email = js_toLowerCase (js_trim email)"

definition username_char :: "char \<Rightarrow> bool" where
  "username_char c \<longleftrightarrow> is_lower_letter c \<or> is_ascii_digit c \<or> c = CHR ''_''"

definition sanitizeUsername :: "string \<Rightarrow> string" where
  "sanitizeUsername username = take MAX_USERNAME_LENGTH (filter username_char (js_toLowerCase (js_trim username)))"

text \<open>The random number is the one drawn where the name is made up.\<close>

definition buildUsernameBase :: "string \<Rightarrow> string option \<Rightarrow> nat \<Rightarrow> string result" where
  "buildUsernameBase email username r =
     (case username of
        Some (c # cs) \<Rightarrow>
          (let sanitized = sanitizeUsername (c # cs)
           in if length sanitized < MIN_USERNAME_LENGTH
              then Inl (HttpError 400 (''username must contain at least '' @ show_nat MIN_USERNAME_LENGTH @ '' characters''))
              else Inr sanitized)
      | _ \<Rightarrow>
          (let first = before_char CHR ''@'' email;
               localPart = (if first = [] then ''player'' else first);
               sanitizedLocalPart = sanitizeUsername localPart
           in if length sanitizedLocalPart \<ge> MIN_USERNAME_LENGTH then Inr sanitizedLocalPart
              else Inr (''player'' @ show_nat r)))"

definition buildCandidateUsername :: "string \<Rightarrow> nat \<Rightarrow> nat \<Rightarrow> string" where
  "buildCandidateUsername base attempt r =
     (if attempt = 0 then base
      else (let suffix = show_nat r
            in js_slice0 (int MAX_USERNAME_LENGTH - int (length suffix)) base @ suffix))"

definition isUniqueConstraintError :: "error \<Rightarrow> string \<Rightarrow> bool" where
  "isUniqueConstraintError e field \<longleftrightarrow> e = unique_error field"

definition mapUserToSafeUser :: "string \<Rightarrow> user \<Rightarrow> safe_user" where
  "mapUserToSafeUser i u = \<lparr>sf_id = i, sf_email = us_email u, sf_username = us_username u, sf_role = us_role u,
     sf_isVerified = us_isVerified u\<rparr>"

lemma constantTimeEquals_iff [simp]: "constantTimeEquals l r \<longleftrightarrow> l = r"
  by (auto simp: constantTimeEquals_def)

section \<open>Tokens\<close>

definition createAccessToken :: "auth_env \<Rightarrow> string \<Rightarrow> user \<Rightarrow> string" where
  "createAccessToken env i u = en_sign env i (us_email u) (us_username u) (us_role u)"

definition token_revoked :: "int \<Rightarrow> refresh_token \<Rightarrow> refresh_token" where
  "token_revoked now t = t\<lparr>rt_revokedAt := Some now\<rparr>"

definition revokeTokenFamily :: "string \<Rightarrow> int \<Rightarrow> (string, refresh_token) jsmap \<Rightarrow> (string, refresh_token) jsmap" where
  "revokeTokenFamily familyId now tokens =
     row_update_many tokens (\<lambda>t. rt_familyId t = familyId \<and> rt_revokedAt t = None) (token_revoked now)"

definition createRefreshTokenRecord ::
  "auth_env \<Rightarrow> string \<Rightarrow> string \<Rightarrow> string option \<Rightarrow> session_seed \<Rightarrow> int \<Rightarrow> (string, refresh_token) jsmap
     \<Rightarrow> (string, refresh_token) jsmap result" where
  "createRefreshTokenRecord env userId familyId parentTokenId seed now tokens =
     (let tokenHash = toTokenHash env (ss_token seed)
      in if list_ex (\<lambda>t. rt_tokenHash t = tokenHash) (jm_values tokens) then Inl (unique_error ''tokenHash'')
         else row_create tokens (ss_id seed)
           \<lparr>rt_userId = userId, rt_familyId = familyId, rt_tokenHash = tokenHash,
            rt_expiresAt = now + en_refreshTokenTtlMs env, rt_revokedAt = None,
            rt_parentTokenId = parentTokenId, rt_replacedByTokenId = None\<rparr>)"

definition token_replaced :: "string \<Rightarrow> int \<Rightarrow> refresh_token \<Rightarrow> refresh_token" where
  "token_replaced recordId now t = t\<lparr>rt_revokedAt := Some now, rt_replacedByTokenId := Some recordId\<rparr>"

text \<open>A parameter that is absent or empty counts as not given.\<close>

definition nonempty :: "string option \<Rightarrow> string option" where
  "nonempty x = (case x of Some (c # cs) \<Rightarrow> Some (c # cs) | _ \<Rightarrow> None)"

definition issueSessionTokens ::
  "auth_env \<Rightarrow> string \<Rightarrow> user \<Rightarrow> string option \<Rightarrow> string option \<Rightarrow> session_seed \<Rightarrow> int \<Rightarrow> auth_db
     \<Rightarrow> (string \<times> string) result \<times> auth_db" where
  "issueSessionTokens env i u familyId parentTokenId seed now db =
     (let accessToken = createAccessToken env i u;
          family = (case nonempty familyId of None \<Rightarrow> ss_family seed | Some f \<Rightarrow> f)
      in case bind_res (createRefreshTokenRecord env i family parentTokenId seed now (se_tokens db)) (\<lambda>ts.
                case nonempty parentTokenId of
                  None \<Rightarrow> Inr ts
                | Some p \<Rightarrow> row_update ts p (token_replaced (ss_id seed) now)) of
           Inl e \<Rightarrow> (Inl e, db)
         | Inr ts \<Rightarrow> (Inr (accessToken, ss_token seed), db\<lparr>se_tokens := ts\<rparr>))"

definition session_reply_of :: "auth_env \<Rightarrow> string \<Rightarrow> user \<Rightarrow> string \<times> string \<Rightarrow> session_reply" where
  "session_reply_of env i u tokens =
     \<lparr>sr_user = mapUserToSafeUser i u, sr_accessToken = fst tokens, sr_refreshToken = snd tokens,
      sr_accessTokenTtl = en_accessTokenTtl env, sr_refreshTokenTtl = en_refreshTokenTtl env\<rparr>"

definition start_session ::
  "auth_env \<Rightarrow> string \<Rightarrow> user \<Rightarrow> session_seed \<Rightarrow> int \<Rightarrow> auth_db \<Rightarrow> session_reply result \<times> auth_db" where
  "start_session env i u seed now db =
     and_then (issueSessionTokens env i u None None seed now db)
       (\<lambda>tokens db1. (Inr (session_reply_of env i u tokens), db1))"

section \<open>Accounts\<close>

definition find_user :: "(user \<Rightarrow> bool) \<Rightarrow> auth_db \<Rightarrow> (string \<times> user) option" where
  "find_user P db = List.find (\<lambda>(i, u). P u) (cu_users db)"

definition update_user :: "string \<Rightarrow> (user \<Rightarrow> user) \<Rightarrow> auth_db \<Rightarrow> unit result \<times> auth_db" where
  "update_user i f db = (case user_update i f db of Inl e \<Rightarrow> (Inl e, db) | Inr db1 \<Rightarrow> (Inr (), db1))"

text \<open>The defaults of the columns, and the transaction that creates an account with its wallet.\<close>

definition new_user :: "string \<Rightarrow> string \<Rightarrow> string \<Rightarrow> user" where
  "new_user email username passwordHash =
     \<lparr>us_email = email, us_username = username, us_passwordHash = passwordHash, us_role = ''USER'',
      us_isVerified = False, us_walletAddress = None, us_verificationToken = None,
      us_verificationTokenExpires = None, us_passwordResetToken = None, us_passwordResetExpires = None,
      us_provider = Some ''EMAIL'', us_providerId = None\<rparr>"

definition create_account ::
  "auth_env \<Rightarrow> string \<Rightarrow> user \<Rightarrow> wallet_seed \<Rightarrow> int \<Rightarrow> auth_db \<Rightarrow> user result \<times> auth_db" where
  "create_account env i u seed now db =
     (case user_create i u db of
        Inl e \<Rightarrow> (Inl e, db)
      | Inr db1 \<Rightarrow>
          (case registerUserWallet (en_crypto env) (en_keys env) i seed now db1 of
             (Inl e, _) \<Rightarrow> (Inl e, db)
           | (Inr _, db2) \<Rightarrow> (Inr u, db2)))"

definition DAY_MS :: int where "DAY_MS = 24 * 60 * 60 * 1000"

definition verification_sent :: "auth_env \<Rightarrow> string \<Rightarrow> int \<Rightarrow> user \<Rightarrow> user" where
  "verification_sent env token now u = u\<lparr>us_verificationToken := Some (toTokenHash env token),
     us_verificationTokenExpires := Some (now + DAY_MS)\<rparr>"

definition register_attempt ::
  "auth_env \<Rightarrow> string \<Rightarrow> string \<Rightarrow> string \<Rightarrow> account_seed \<Rightarrow> int \<Rightarrow> auth_db \<Rightarrow> session_reply result \<times> auth_db" where
  "register_attempt env email passwordHash candidate seed now db =
     and_then (create_account env (as_userId seed) (new_user email candidate passwordHash) (as_wallet seed) now db) (\<lambda>u db1.
       and_then (update_user (as_userId seed) (verification_sent env (as_verification seed) now) db1) (\<lambda>_ db2.
         start_session env (as_userId seed) u (as_session seed) now db2))"

fun register_loop ::
  "auth_env \<Rightarrow> string \<Rightarrow> string \<Rightarrow> string \<Rightarrow> (nat \<Rightarrow> account_seed) \<Rightarrow> int \<Rightarrow> nat list \<Rightarrow> auth_db
     \<Rightarrow> session_reply result \<times> auth_db" where
  "register_loop env email passwordHash base seeds now [] db =
     (Inl (HttpError 500 ''Unable to generate a unique username''), db)"
| "register_loop env email passwordHash base seeds now (attempt # rest) db =
     (case register_attempt env email passwordHash (buildCandidateUsername base attempt (as_random (seeds attempt)))
             (seeds attempt) now db of
        (Inr reply, db1) \<Rightarrow> (Inr reply, db1)
      | (Inl e, db1) \<Rightarrow>
          if isUniqueConstraintError e ''email'' then (Inl (HttpError 409 ''Email already in use''), db1)
          else if isUniqueConstraintError e ''username''
          then register_loop env email passwordHash base seeds now rest db1
          else (Inl e, db1))"

definition registerUser ::
  "auth_env \<Rightarrow> string \<Rightarrow> string \<Rightarrow> string option \<Rightarrow> string \<Rightarrow> nat \<Rightarrow> (nat \<Rightarrow> account_seed) \<Rightarrow> int \<Rightarrow> auth_db
     \<Rightarrow> session_reply result \<times> auth_db" where
  "registerUser env email password username salt r seeds now db =
     (let normalizedEmail = normalizeEmail email
      in case find_user (\<lambda>u. us_email u = normalizedEmail) db of
           Some _ \<Rightarrow> (Inl (HttpError 409 ''Email already in use''), db)
         | None \<Rightarrow>
             (case buildUsernameBase normalizedEmail username r of
                Inl e \<Rightarrow> (Inl e, db)
              | Inr base \<Rightarrow> register_loop env normalizedEmail (en_hashPassword env salt password) base seeds now
                  [0..<MAX_USERNAME_ATTEMPTS] db))"

section \<open>Login, refresh and logout\<close>

definition loginUser ::
  "auth_env \<Rightarrow> string \<Rightarrow> string \<Rightarrow> session_seed \<Rightarrow> int \<Rightarrow> auth_db \<Rightarrow> session_reply result \<times> auth_db" where
  "loginUser env email password seed now db =
     (case find_user (\<lambda>u. us_email u = normalizeEmail email) db of
        None \<Rightarrow> (Inl (HttpError 401 ''Invalid credentials''), db)
      | Some (i, u) \<Rightarrow>
          if \<not> cr_comparePassword (en_crypto env) password (us_passwordHash u)
          then (Inl (HttpError 401 ''Invalid credentials''), db)
          else start_session env i u seed now db)"

definition find_token :: "string \<Rightarrow> auth_db \<Rightarrow> (string \<times> refresh_token) option" where
  "find_token tokenHash db = List.find (\<lambda>(k, t). rt_tokenHash t = tokenHash) (se_tokens db)"

definition refreshSession ::
  "auth_env \<Rightarrow> string \<Rightarrow> session_seed \<Rightarrow> int \<Rightarrow> auth_db \<Rightarrow> session_reply result \<times> auth_db" where
  "refreshSession env refreshToken seed now db =
     (case find_token (toTokenHash env refreshToken) db of
        None \<Rightarrow> (Inl (HttpError 401 ''Invalid refresh token''), db)
      | Some (k, t) \<Rightarrow>
          if \<not> constantTimeEquals (rt_tokenHash t) (toTokenHash env refreshToken)
          then (Inl (HttpError 401 ''Invalid refresh token''), db)
          else (case rt_revokedAt t of
             Some _ \<Rightarrow>
               (case nonempty (rt_replacedByTokenId t) of
                  Some _ \<Rightarrow> (Inl (HttpError 401 ''Refresh token reuse detected, please login again''),
                     db\<lparr>se_tokens := revokeTokenFamily (rt_familyId t) now (se_tokens db)\<rparr>)
                | None \<Rightarrow> (Inl (HttpError 401 ''Invalid refresh token''), db))
           | None \<Rightarrow>
               if rt_expiresAt t \<le> now
               then (Inl (HttpError 401 ''Refresh token expired''),
                     db\<lparr>se_tokens := jm_set (se_tokens db) k (token_revoked now t)\<rparr>)
               else (case jm_get (cu_users db) (rt_userId t) of
                   None \<Rightarrow> (Inl (PrismaError ''Inconsistent query result''), db)
                 | Some u \<Rightarrow>
                     and_then (issueSessionTokens env (rt_userId t) u (Some (rt_familyId t)) (Some k) seed now db)
                       (\<lambda>tokens db1. (Inr (session_reply_of env (rt_userId t) u tokens), db1)))))"

definition logoutUser :: "auth_env \<Rightarrow> string \<Rightarrow> int \<Rightarrow> auth_db \<Rightarrow> auth_db" where
  "logoutUser env refreshToken now db =
     (case find_token (toTokenHash env refreshToken) db of
        None \<Rightarrow> db
      | Some (k, t) \<Rightarrow>
          if \<not> constantTimeEquals (rt_tokenHash t) (toTokenHash env refreshToken) then db
          else (case rt_revokedAt t of
             Some _ \<Rightarrow> db
           | None \<Rightarrow> db\<lparr>se_tokens := jm_set (se_tokens db) k (token_revoked now t)\<rparr>))"

section \<open>Social login and guests\<close>

datatype provider = Google | Discord | Twitch

fun provider_name :: "provider \<Rightarrow> string" where
  "provider_name Google = ''GOOGLE''"
| "provider_name Discord = ''DISCORD''"
| "provider_name Twitch = ''TWITCH''"

record oauth_data =
  od_email :: "string option"
  od_id :: string
  od_name :: "string option"
  od_username :: "string option"

record profile =
  pf_email :: string
  pf_username :: string
  pf_providerId :: string

definition validateGoogleToken :: "oauth_data \<Rightarrow> profile result" where
  "validateGoogleToken d =
     (case od_email d of
        None \<Rightarrow> Inl (PlainError ''Cannot read properties of undefined'')
      | Some email \<Rightarrow>
          Inr \<lparr>pf_email = email,
               pf_username = (case nonempty (od_name d) of Some n \<Rightarrow> n | None \<Rightarrow> before_char CHR ''@'' email),
               pf_providerId = od_id d\<rparr>)"

definition validateDiscordToken :: "oauth_data \<Rightarrow> profile result" where
  "validateDiscordToken d = Inr
     \<lparr>pf_email = (case nonempty (od_email d) of Some e \<Rightarrow> e | None \<Rightarrow> od_id d @ ''@discord.local''),
      pf_username = (case nonempty (od_name d) of Some n \<Rightarrow> n
        | None \<Rightarrow> (case nonempty (od_username d) of Some n \<Rightarrow> n | None \<Rightarrow> ''discord_'' @ od_id d)),
      pf_providerId = od_id d\<rparr>"

definition validateTwitchToken :: "oauth_data \<Rightarrow> profile result" where
  "validateTwitchToken d = Inr
     \<lparr>pf_email = (case nonempty (od_email d) of Some e \<Rightarrow> e | None \<Rightarrow> od_id d @ ''@twitch.local''),
      pf_username = (case nonempty (od_username d) of Some n \<Rightarrow> n | None \<Rightarrow> ''twitch_'' @ od_id d),
      pf_providerId = od_id d\<rparr>"

fun validate_token :: "provider \<Rightarrow> oauth_data \<Rightarrow> profile result" where
  "validate_token Google d = validateGoogleToken d"
| "validate_token Discord d = validateDiscordToken d"
| "validate_token Twitch d = validateTwitchToken d"

definition social_user :: "string \<Rightarrow> string \<Rightarrow> provider \<Rightarrow> profile \<Rightarrow> user" where
  "social_user email username p pf = (new_user email username [])
     \<lparr>us_isVerified := True, us_provider := Some (provider_name p), us_providerId := Some (pf_providerId pf)\<rparr>"

fun social_loop ::
  "auth_env \<Rightarrow> string \<Rightarrow> provider \<Rightarrow> profile \<Rightarrow> string \<Rightarrow> (nat \<Rightarrow> account_seed) \<Rightarrow> int \<Rightarrow> nat list \<Rightarrow> auth_db
     \<Rightarrow> (string \<times> user) result \<times> auth_db" where
  "social_loop env email p pf base seeds now [] db =
     (Inl (HttpError 500 ''Unable to create user from social login''), db)"
| "social_loop env email p pf base seeds now (attempt # rest) db =
     (let seed = seeds attempt
      in case create_account env (as_userId seed)
                (social_user email (buildCandidateUsername base attempt (as_random seed)) p pf) (as_wallet seed) now db of
           (Inr u, db1) \<Rightarrow> (Inr (as_userId seed, u), db1)
         | (Inl e, db1) \<Rightarrow>
             if isUniqueConstraintError e ''email'' then (Inl (HttpError 409 ''Email already in use''), db1)
             else if isUniqueConstraintError e ''username'' then social_loop env email p pf base seeds now rest db1
             else (Inl e, db1))"

definition linked :: "provider \<Rightarrow> profile \<Rightarrow> user \<Rightarrow> user" where
  "linked p pf u = u\<lparr>us_provider := Some (provider_name p), us_providerId := Some (pf_providerId pf), us_isVerified := True\<rparr>"

text \<open>The user of a social login: known to the provider, linked by the address, or new.\<close>

definition social_account ::
  "auth_env \<Rightarrow> provider \<Rightarrow> profile \<Rightarrow> nat \<Rightarrow> (nat \<Rightarrow> account_seed) \<Rightarrow> int \<Rightarrow> auth_db \<Rightarrow> (string \<times> user) result \<times> auth_db" where
  "social_account env p pf r seeds now db =
     (let normalizedEmail = normalizeEmail (pf_email pf)
      in case find_user (\<lambda>u. us_provider u = Some (provider_name p) \<and> us_providerId u = Some (pf_providerId pf)) db of
           Some iu \<Rightarrow> (Inr iu, db)
         | None \<Rightarrow>
             (case find_user (\<lambda>u. us_email u = normalizedEmail) db of
                Some (i, u) \<Rightarrow> and_then (update_user i (linked p pf) db) (\<lambda>_ db1. (Inr (i, linked p pf u), db1))
              | None \<Rightarrow>
                  (case buildUsernameBase normalizedEmail (Some (pf_username pf)) r of
                     Inl e \<Rightarrow> (Inl e, db)
                   | Inr base \<Rightarrow> social_loop env normalizedEmail p pf base seeds now [0..<MAX_USERNAME_ATTEMPTS] db)))"

definition authenticateSocial ::
  "auth_env \<Rightarrow> provider \<Rightarrow> oauth_data result \<Rightarrow> nat \<Rightarrow> (nat \<Rightarrow> account_seed) \<Rightarrow> session_seed \<Rightarrow> int \<Rightarrow> auth_db
     \<Rightarrow> session_reply result \<times> auth_db" where
  "authenticateSocial env p response r seeds session now db =
     (case bind_res response (validate_token p) of
        Inl e \<Rightarrow> (Inl e, db)
      | Inr pf \<Rightarrow> and_then (social_account env p pf r seeds now db) (\<lambda>(i, u) db1. start_session env i u session now db1))"

definition guest_user :: "string \<Rightarrow> user" where
  "guest_user guestId = (new_user (''guest_'' @ guestId @ ''@arenax.gg'') (''guest_'' @ take 8 guestId) [])\<lparr>us_role := ''GUEST''\<rparr>"

definition createGuestSession ::
  "auth_env \<Rightarrow> string \<Rightarrow> account_seed \<Rightarrow> int \<Rightarrow> auth_db \<Rightarrow> session_reply result \<times> auth_db" where
  "createGuestSession env guestId seed now db =
     and_then (create_account env (as_userId seed) (guest_user guestId) (as_wallet seed) now db) (\<lambda>u db1.
       start_session env (as_userId seed) u (as_session seed) now db1)"

section \<open>Verification and password reset\<close>

definition email_verified :: "user \<Rightarrow> user" where
  "email_verified u = u\<lparr>us_isVerified := True, us_verificationToken := None, us_verificationTokenExpires := None\<rparr>"

definition expired :: "int option \<Rightarrow> int \<Rightarrow> bool" where
  "expired expires now \<longleftrightarrow> (case expires of None \<Rightarrow> True | Some e \<Rightarrow> e \<le> now)"

definition verifyEmail :: "auth_env \<Rightarrow> string \<Rightarrow> int \<Rightarrow> auth_db \<Rightarrow> string result \<times> auth_db" where
  "verifyEmail env token now db =
     (case find_user (\<lambda>u. us_verificationToken u = Some (toTokenHash env token)) db of
        None \<Rightarrow> (Inl (HttpError 400 ''Invalid verification token''), db)
      | Some (i, u) \<Rightarrow>
          if expired (us_verificationTokenExpires u) now
          then (Inl (HttpError 400 ''Verification token has expired''), db)
          else if us_isVerified u then (Inl (HttpError 400 ''Email already verified''), db)
          else and_then (update_user i email_verified db) (\<lambda>_ db1. (Inr ''Email verified successfully'', db1)))"

definition resendVerificationEmail :: "auth_env \<Rightarrow> string \<Rightarrow> string \<Rightarrow> int \<Rightarrow> auth_db \<Rightarrow> string result \<times> auth_db" where
  "resendVerificationEmail env email token now db =
     (case find_user (\<lambda>u. us_email u = normalizeEmail email) db of
        None \<Rightarrow> (Inr ''If the email exists, a verification link has been sent'', db)
      | Some (i, u) \<Rightarrow>
          if us_isVerified u then (Inr ''Email already verified'', db)
          else and_then (update_user i (verification_sent env token now) db)
            (\<lambda>_ db1. (Inr ''If the email exists, a verification link has been sent'', db1)))"

definition reset_sent :: "auth_env \<Rightarrow> string \<Rightarrow> int \<Rightarrow> user \<Rightarrow> user" where
  "reset_sent env token now u = u\<lparr>us_passwordResetToken := Some (toTokenHash env token),
     us_passwordResetExpires := Some (now + DAY_MS)\<rparr>"

definition forgotPassword :: "auth_env \<Rightarrow> string \<Rightarrow> string \<Rightarrow> int \<Rightarrow> auth_db \<Rightarrow> string result \<times> auth_db" where
  "forgotPassword env email token now db =
     (case find_user (\<lambda>u. us_email u = normalizeEmail email) db of
        None \<Rightarrow> (Inr ''If the email exists, a reset link has been sent'', db)
      | Some (i, u) \<Rightarrow>
          and_then (update_user i (reset_sent env token now) db)
            (\<lambda>_ db1. (Inr ''If the email exists, a reset link has been sent'', db1)))"

definition password_set :: "string \<Rightarrow> user \<Rightarrow> user" where
  "password_set h u = u\<lparr>us_passwordHash := h, us_passwordResetToken := None, us_passwordResetExpires := None\<rparr>"

definition resetPassword :: "auth_env \<Rightarrow> string \<Rightarrow> string \<Rightarrow> string \<Rightarrow> int \<Rightarrow> auth_db \<Rightarrow> string result \<times> auth_db" where
  "resetPassword env token newPassword salt now db =
     (case find_user (\<lambda>u. us_passwordResetToken u = Some (toTokenHash env token)) db of
        None \<Rightarrow> (Inl (HttpError 400 ''Invalid reset token''), db)
      | Some (i, u) \<Rightarrow>
          if expired (us_passwordResetExpires u) now then (Inl (HttpError 400 ''Reset token has expired''), db)
          else and_then (update_user i (password_set (en_hashPassword env salt newPassword)) db)
            (\<lambda>_ db1. (Inr ''Password reset successfully'', db1)))"

section \<open>Calls\<close>

datatype auth_call =
  Register string string "string option" string nat "nat \<Rightarrow> account_seed" int
| Login string string session_seed int
| Refresh string session_seed int
| Logout string int
| Social provider "oauth_data result" nat "nat \<Rightarrow> account_seed" session_seed int
| Guest string account_seed int
| Verify string int
| Resend string string int
| Forgot string string int
| Reset string string string int

fun auth_exec :: "auth_env \<Rightarrow> auth_db \<Rightarrow> auth_call \<Rightarrow> auth_db" where
  "auth_exec env db (Register email pw name salt r seeds now) = snd (registerUser env email pw name salt r seeds now db)"
| "auth_exec env db (Login email pw seed now) = snd (loginUser env email pw seed now db)"
| "auth_exec env db (Refresh raw seed now) = snd (refreshSession env raw seed now db)"
| "auth_exec env db (Logout raw now) = logoutUser env raw now db"
| "auth_exec env db (Social p resp r seeds session now) = snd (authenticateSocial env p resp r seeds session now db)"
| "auth_exec env db (Guest g seed now) = snd (createGuestSession env g seed now db)"
| "auth_exec env db (Verify tok now) = snd (verifyEmail env tok now db)"
| "auth_exec env db (Resend email tok now) = snd (resendVerificationEmail env email tok now db)"
| "auth_exec env db (Forgot email tok now) = snd (forgotPassword env email tok now db)"
| "auth_exec env db (Reset tok pw salt now) = snd (resetPassword env tok pw salt now db)"

text \<open>
  What the random values are like: families are new and not empty, identifiers are not empty, numbers
  have four digits, and an identifier of a guest consists of lower-case letters, digits and dashes,
  the first eight of them no dashes.
\<close>

definition session_ok :: "auth_db \<Rightarrow> session_seed \<Rightarrow> bool" where
  "session_ok db seed \<longleftrightarrow> ss_id seed \<noteq> [] \<and> ss_family seed \<noteq> [] \<and>
     list_all (\<lambda>t. rt_familyId t \<noteq> ss_family seed) (jm_values (se_tokens db))"

definition four_digits :: "nat \<Rightarrow> bool" where
  "four_digits r \<longleftrightarrow> 1000 \<le> r \<and> r \<le> 9999"

definition seeds_ok :: "auth_db \<Rightarrow> nat \<Rightarrow> (nat \<Rightarrow> account_seed) \<Rightarrow> bool" where
  "seeds_ok db r seeds \<longleftrightarrow> four_digits r \<and> list_all (\<lambda>a. four_digits (as_random (seeds a)) \<and>
     session_ok db (as_session (seeds a))) [0..<MAX_USERNAME_ATTEMPTS]"

definition guest_id_ok :: "string \<Rightarrow> bool" where
  "guest_id_ok g \<longleftrightarrow> list_all (\<lambda>c. is_lower_letter c \<or> is_ascii_digit c \<or> c = CHR ''-'') g \<and>
     list_all username_char (take 8 g)"

fun call_ok :: "auth_db \<Rightarrow> auth_call \<Rightarrow> bool" where
  "call_ok db (Register email pw name salt r seeds now) = seeds_ok db r seeds"
| "call_ok db (Login email pw seed now) = session_ok db seed"
| "call_ok db (Social p resp r seeds session now) = (seeds_ok db r seeds \<and> session_ok db session)"
| "call_ok db (Guest g seed now) = (guest_id_ok g \<and> session_ok db (as_session seed))"
| "call_ok db (Refresh raw seed now) = (ss_id seed \<noteq> [])"
| "call_ok db _ = True"

section \<open>Primitive writes\<close>

text \<open>
  Every call is a sequence of single writes of the two tables that this service owns, each under the
  guard that the call established before. What all writes keep, all calls keep.
\<close>

definition username_ok :: "string \<Rightarrow> bool" where
  "username_ok n \<longleftrightarrow> MIN_USERNAME_LENGTH \<le> length n \<and> length n \<le> MAX_USERNAME_LENGTH \<and> list_all username_char n"

fun may_create :: "auth_env \<Rightarrow> auth_call \<Rightarrow> user \<Rightarrow> bool" where
  "may_create env (Register email pw name salt r seeds now) u =
     (\<exists>n. username_ok n \<and> u = new_user (normalizeEmail email) n (en_hashPassword env salt pw))"
| "may_create env (Social p resp r seeds session now) u =
     (\<exists>pf n. bind_res resp (validate_token p) = Inr pf \<and> username_ok n \<and> u = social_user (normalizeEmail (pf_email pf)) n p pf)"
| "may_create env (Guest g seed now) u = (guest_id_ok g \<and> u = guest_user g)"
| "may_create env _ u = False"

fun may_change :: "auth_env \<Rightarrow> auth_call \<Rightarrow> user \<Rightarrow> user \<Rightarrow> bool" where
  "may_change env (Register email pw name salt r seeds now) u u' =
     (\<exists>tok. u' = verification_sent env tok now u)"
| "may_change env (Social p resp r seeds session now) u u' =
     (\<exists>pf. bind_res resp (validate_token p) = Inr pf \<and> us_email u = normalizeEmail (pf_email pf) \<and> u' = linked p pf u)"
| "may_change env (Verify tok now) u u' =
     (us_verificationToken u = Some (toTokenHash env tok) \<and> \<not> expired (us_verificationTokenExpires u) now \<and> u' = email_verified u)"
| "may_change env (Resend email tok now) u u' =
     (us_email u = normalizeEmail email \<and> \<not> us_isVerified u \<and> u' = verification_sent env tok now u)"
| "may_change env (Forgot email tok now) u u' = (us_email u = normalizeEmail email \<and> u' = reset_sent env tok now u)"
| "may_change env (Reset tok pw salt now) u u' =
     (us_passwordResetToken u = Some (toTokenHash env tok) \<and> \<not> expired (us_passwordResetExpires u) now \<and>
      u' = password_set (en_hashPassword env salt pw) u)"
| "may_change env _ u u' = False"

type_synonym auth_tables = "(string, user) jsmap \<times> (string, refresh_token) jsmap"

abbreviation tables :: "auth_db \<Rightarrow> auth_tables" where
  "tables db \<equiv> (cu_users db, se_tokens db)"

definition new_token :: "(string, refresh_token) jsmap \<Rightarrow> string \<Rightarrow> refresh_token \<Rightarrow> bool" where
  "new_token ts k t \<longleftrightarrow> k \<noteq> [] \<and> jm_get ts k = None \<and> (\<forall>t' \<in> set (jm_values ts). rt_tokenHash t' \<noteq> rt_tokenHash t) \<and>
     rt_revokedAt t = None \<and> rt_replacedByTokenId t = None \<and> rt_familyId t \<noteq> []"

inductive auth_write :: "auth_env \<Rightarrow> auth_call \<Rightarrow> auth_tables \<Rightarrow> auth_tables \<Rightarrow> bool" for env call where
  create: "jm_get us i = None \<Longrightarrow> user_conflict us i u = None \<Longrightarrow> may_create env call u \<Longrightarrow>
    auth_write env call (us, ts) (jm_set us i u, ts)"
| address: "jm_get us i = Some u \<Longrightarrow> u' = u\<lparr>us_walletAddress := a\<rparr> \<Longrightarrow> user_conflict us i u' = None \<Longrightarrow>
    auth_write env call (us, ts) (jm_set us i u', ts)"
| change: "jm_get us i = Some u \<Longrightarrow> user_conflict us i u' = None \<Longrightarrow> may_change env call u u' \<Longrightarrow>
    auth_write env call (us, ts) (jm_set us i u', ts)"
| issue: "new_token ts k t \<Longrightarrow> \<forall>t' \<in> set (jm_values ts). rt_familyId t' \<noteq> rt_familyId t \<Longrightarrow>
    auth_write env call (us, ts) (us, jm_set ts k t)"
| rotate: "new_token ts k t \<Longrightarrow> jm_get ts p = Some t0 \<Longrightarrow> rt_revokedAt t0 = None \<Longrightarrow> rt_familyId t = rt_familyId t0 \<Longrightarrow>
    rt_userId t = rt_userId t0 \<Longrightarrow> auth_write env call (us, ts) (us, jm_set (jm_set ts k t) p (token_replaced k now t0))"
| revoke: "jm_get ts k = Some t \<Longrightarrow> auth_write env call (us, ts) (us, jm_set ts k (token_revoked now t))"
| revoke_family: "auth_write env call (us, ts) (us, revokeTokenFamily f now ts)"

abbreviation auth_writes :: "auth_env \<Rightarrow> auth_call \<Rightarrow> auth_db \<Rightarrow> auth_db \<Rightarrow> bool" where
  "auth_writes env call db db' \<equiv> (auth_write env call)\<^sup>*\<^sup>* (tables db) (tables db')"

lemma user_create_Inr_iff:
  "user_create i u db = Inr db' \<longleftrightarrow> jm_get (cu_users db) i = None \<and> user_conflict (cu_users db) i u = None \<and>
     db' = db\<lparr>cu_users := jm_set (cu_users db) i u\<rparr>"
  by (auto simp: user_create_def split: option.splits)

lemma user_update_Inr_iff:
  "user_update i f db = Inr db' \<longleftrightarrow> (\<exists>u. jm_get (cu_users db) i = Some u \<and> user_conflict (cu_users db) i (f u) = None \<and>
     db' = db\<lparr>cu_users := jm_set (cu_users db) i (f u)\<rparr>)"
  by (auto simp: user_update_def split: option.splits)

lemma update_user_Inr_iff:
  "update_user i f db = (Inr x, db') \<longleftrightarrow> (\<exists>u. jm_get (cu_users db) i = Some u \<and> user_conflict (cu_users db) i (f u) = None \<and>
     db' = db\<lparr>cu_users := jm_set (cu_users db) i (f u)\<rparr>)"
  by (cases "user_update i f db") (auto simp: update_user_def user_update_Inr_iff user_update_def split: option.splits)

lemma update_user_Inl: "update_user i f db = (Inl e, db') \<Longrightarrow> db' = db"
  by (auto simp: update_user_def split: sum.splits)

lemma find_user_Some:
  assumes "jm_wf (cu_users db)" "find_user P db = Some (i, u)"
  shows "jm_get (cu_users db) i = Some u" "P u"
proof -
  from assms(2) have "(i, u) \<in> set (cu_users db)" and "P u"
    by (auto simp: find_user_def dest: find_SomeD)
  with assms(1) show "jm_get (cu_users db) i = Some u" "P u" by (simp_all add: jm_wf_def jm_get_def)
qed

lemma find_token_Some:
  assumes "jm_wf (se_tokens db)" "find_token h db = Some (k, t)"
  shows "jm_get (se_tokens db) k = Some t" "rt_tokenHash t = h"
proof -
  from assms(2) have "(k, t) \<in> set (se_tokens db)" and "rt_tokenHash t = h"
    by (auto simp: find_token_def dest: find_SomeD)
  with assms(1) show "jm_get (se_tokens db) k = Some t" "rt_tokenHash t = h" by (simp_all add: jm_wf_def jm_get_def)
qed

lemma update_user_writes:
  assumes "\<And>u. jm_get (cu_users db) i = Some u \<Longrightarrow> may_change env call u (f u)"
  shows "auth_writes env call db (snd (update_user i f db))"
proof (cases "user_update i f db")
  case (Inr db1)
  then have "snd (update_user i f db) = db1" by (simp add: update_user_def)
  with Inr assms show ?thesis
    by (auto simp: user_update_Inr_iff intro!: r_into_rtranclp auth_write.change)
qed (simp add: update_user_def)

text \<open>A new account: the user row, then the address of the new wallet in it.\<close>

lemma wallet_create_tables: "wallet_create i w db = Inr db1 \<Longrightarrow> tables db1 = tables db"
  by (auto simp: wallet_create_def split: if_splits)

lemma address_writes:
  assumes "user_update i (\<lambda>u. u\<lparr>us_walletAddress := a\<rparr>) db = Inr db'"
  shows "auth_writes env call db db'"
  using assms by (auto simp: user_update_Inr_iff intro!: r_into_rtranclp auth_write.address)

lemma registerUserWallet_writes:
  "auth_writes env call db (snd (registerUserWallet c kr i seed now db))"
proof (cases "jm_get (cu_wallets db) i")
  case None
  show ?thesis
  proof (cases "encrypt c kr (ws_iv seed) (ws_secret seed) (kr_activeKeyVersion kr)")
    case (Inr enc)
    define w where "w = \<lparr>uw_id = ws_id seed, uw_publicKey = ws_publicKey seed, uw_encryptedSecretKey = enc,
      uw_encryptionVersion = kr_activeKeyVersion kr, uw_createdAt = now, uw_lastRotatedAt = Some now\<rparr>"
    show ?thesis
    proof (cases "wallet_create i w db")
      case (Inr db1)
      have "tables (snd (registerUserWallet c kr i seed now db))
          = tables (case user_update i (\<lambda>u. u\<lparr>us_walletAddress := Some (ws_publicKey seed)\<rparr>) db1 of Inl e \<Rightarrow> db1 | Inr db2 \<Rightarrow> db2)"
        using None \<open>encrypt c kr (ws_iv seed) (ws_secret seed) (kr_activeKeyVersion kr) = Inr enc\<close> Inr
        by (auto simp: registerUserWallet_def w_def split: sum.splits)
      moreover have "auth_writes env call db1 (case user_update i (\<lambda>u. u\<lparr>us_walletAddress := Some (ws_publicKey seed)\<rparr>) db1 of
          Inl e \<Rightarrow> db1 | Inr db2 \<Rightarrow> db2)"
        by (auto split: sum.splits dest: address_writes)
      ultimately show ?thesis using wallet_create_tables [OF Inr] by simp
    qed (use None Inr in \<open>simp add: registerUserWallet_def w_def\<close>)
  qed (use None in \<open>simp add: registerUserWallet_def\<close>)
qed (simp add: registerUserWallet_def)

lemma create_account_writes:
  assumes "may_create env call u"
  shows "auth_writes env call db (snd (create_account env i u seed now db))"
proof (cases "user_create i u db")
  case (Inr db1)
  then have 1: "auth_write env call (tables db) (tables db1)"
    using assms by (auto simp: user_create_Inr_iff intro!: auth_write.create)
  obtain res db2 where r: "registerUserWallet (en_crypto env) (en_keys env) i seed now db1 = (res, db2)" by fastforce
  with registerUserWallet_writes [of env call db1 "en_crypto env" "en_keys env" i seed now] 1
  have "auth_writes env call db db2" by (auto intro: converse_rtranclp_into_rtranclp)
  with Inr r show ?thesis by (cases res) (simp_all add: create_account_def)
qed (simp add: create_account_def)

lemma create_account_tokens [simp]: "se_tokens (snd (create_account env i u seed now db)) = se_tokens db"
  by (auto simp: create_account_def user_create_Inr_iff registerUserWallet_def Let_def wallet_create_def user_update_def
      split: sum.splits option.splits if_splits prod.splits)

lemma create_account_Inr: "create_account env i u seed now db = (Inr u', db') \<Longrightarrow> u' = u"
  by (auto simp: create_account_def split: sum.splits prod.splits)

lemma session_ok_cong: "se_tokens db' = se_tokens db \<Longrightarrow> session_ok db' seed = session_ok db seed"
  by (simp add: session_ok_def)

lemma nonempty_simps [simp]: "nonempty None = None" "nonempty (Some (c # cs)) = Some (c # cs)" "nonempty (Some []) = None"
  by (simp_all add: nonempty_def)

lemma nonempty_Some [simp]: "x \<noteq> [] \<Longrightarrow> nonempty (Some x) = Some x"
  by (cases x) simp_all

lemma createRefreshTokenRecord_Inr:
  assumes "createRefreshTokenRecord env i f p seed now ts = Inr ts'" and "ss_id seed \<noteq> []" and "f \<noteq> []"
  obtains t where "new_token ts (ss_id seed) t" "ts' = jm_set ts (ss_id seed) t" "rt_familyId t = f" "rt_userId t = i"
    "rt_tokenHash t = toTokenHash env (ss_token seed)" "rt_expiresAt t = now + en_refreshTokenTtlMs env"
proof (rule that)
  show "rt_familyId \<lparr>rt_userId = i, rt_familyId = f, rt_tokenHash = toTokenHash env (ss_token seed),
    rt_expiresAt = now + en_refreshTokenTtlMs env, rt_revokedAt = None, rt_parentTokenId = p, rt_replacedByTokenId = None\<rparr> = f"
    by simp
qed (use assms in \<open>auto simp: createRefreshTokenRecord_def row_create_Inr_iff new_token_def Let_def list_ex_iff split: if_splits\<close>)

lemma start_session_writes:
  assumes "session_ok db seed"
  shows "auth_writes env call db (snd (start_session env i u seed now db))"
proof (cases "createRefreshTokenRecord env i (ss_family seed) None seed now (se_tokens db)")
  case (Inr ts)
  then obtain t where t: "new_token (se_tokens db) (ss_id seed) t" "ts = jm_set (se_tokens db) (ss_id seed) t"
    "rt_familyId t = ss_family seed"
    using assms by (auto simp: session_ok_def elim: createRefreshTokenRecord_Inr)
  with assms have "auth_write env call (tables db) (cu_users db, ts)"
    by (auto simp: session_ok_def list_all_iff intro!: auth_write.issue)
  with Inr show ?thesis by (auto simp: start_session_def issueSessionTokens_def)
qed (simp add: start_session_def issueSessionTokens_def)

lemma issue_fails: "isl (fst (issueSessionTokens env i u f p seed now db)) \<Longrightarrow> snd (issueSessionTokens env i u f p seed now db) = db"
  by (auto simp: issueSessionTokens_def Let_def split: sum.splits)

lemma start_session_fails: "isl (fst (start_session env i u seed now db)) \<Longrightarrow> snd (start_session env i u seed now db) = db"
  using issue_fails [of env i u None None seed now db]
  by (cases "issueSessionTokens env i u None None seed now db"; cases "fst (issueSessionTokens env i u None None seed now db)")
    (auto simp: start_session_def)

text \<open>Each call, from the guards it checks.\<close>

lemma register_attempt_writes:
  assumes call: "call = Register email pw name salt r seeds now" and "username_ok n" and "session_ok db (as_session seed)"
    and out_def: "out = register_attempt env (normalizeEmail email) (en_hashPassword env salt pw) n seed now db"
  shows "auth_writes env call db (snd out)" and "isl (fst out) \<Longrightarrow> se_tokens (snd out) = se_tokens db"
proof -
  let ?u = "new_user (normalizeEmail email) n (en_hashPassword env salt pw)"
  obtain r1 db1 where c: "create_account env (as_userId seed) ?u (as_wallet seed) now db = (r1, db1)" by fastforce
  have w1: "auth_writes env call db db1" and t1: "se_tokens db1 = se_tokens db"
    using create_account_writes [of env call ?u db "as_userId seed" "as_wallet seed" now]
      create_account_tokens [of env "as_userId seed" ?u "as_wallet seed" now db] c assms(1,2) by auto
  obtain r2 db2 where v: "update_user (as_userId seed) (verification_sent env (as_verification seed) now) db1 = (r2, db2)" by fastforce
  have w2: "auth_writes env call db1 db2"
    using update_user_writes [of db1 "as_userId seed" env call "verification_sent env (as_verification seed) now"] v call by auto
  have t2: "se_tokens db2 = se_tokens db1"
    using v by (cases r2) (auto simp: update_user_Inr_iff dest: update_user_Inl)
  have w3: "auth_writes env call db2 (snd (start_session env (as_userId seed) u (as_session seed) now db2))" for u
    using assms(3) t1 t2 by (intro start_session_writes) (simp add: session_ok_def)
  show "auth_writes env call db (snd out)"
    using w1 w2 w3 c v by (cases r1; cases r2) (auto simp: out_def register_attempt_def intro: rtranclp_trans)
  show "isl (fst out) \<Longrightarrow> se_tokens (snd out) = se_tokens db"
    using t1 t2 c v start_session_fails by (cases r1; cases r2) (auto simp: out_def register_attempt_def)
qed

lemma register_loop_writes:
  assumes call: "call = Register email pw name salt r seeds now"
    and "\<And>a. a \<in> set as \<Longrightarrow> username_ok (buildCandidateUsername base a (as_random (seeds a))) \<and> session_ok db (as_session (seeds a))"
  shows "auth_writes env call db (snd (register_loop env (normalizeEmail email) (en_hashPassword env salt pw) base seeds now as db))"
  using assms(2)
proof (induction as arbitrary: db)
  case (Cons a as)
  let ?out = "register_attempt env (normalizeEmail email) (en_hashPassword env salt pw)
    (buildCandidateUsername base a (as_random (seeds a))) (seeds a) now db"
  obtain res db1 where o: "?out = (res, db1)" by fastforce
  have w: "auth_writes env call db db1" and t: "isl res \<Longrightarrow> se_tokens db1 = se_tokens db"
    using register_attempt_writes [OF call _ _ o [symmetric]] Cons.prems by auto
  show ?case
  proof (cases res)
    case (Inl e)
    with t have "session_ok db1 x = session_ok db x" for x by (simp add: session_ok_def)
    with Cons have "auth_writes env call db1 (snd (register_loop env (normalizeEmail email) (en_hashPassword env salt pw) base seeds now as db1))"
      by simp
    with w o Inl show ?thesis by (auto intro: rtranclp_trans)
  qed (use w o in simp)
qed simp

section \<open>Names are well formed\<close>

lemma sanitize_chars: "list_all username_char (sanitizeUsername n)" "length (sanitizeUsername n) \<le> MAX_USERNAME_LENGTH"
  by (auto simp: sanitizeUsername_def list_all_iff dest!: in_set_takeD)

lemma four_digits_text:
  assumes "four_digits r"
  shows "length (show_nat r) = 4" and "list_all username_char (show_nat r)"
proof -
  have big: "show_nat n = show_nat (n div 10) @ [char_of (48 + n mod 10)]" if "10 \<le> n" for n
    using that by (subst show_nat.simps) simp
  have top: "r div 1000 < 10" using assms by (simp add: four_digits_def div_less_iff_less_mult)
  then have "show_nat (r div 1000) = [char_of (48 + r div 1000)]" by (subst show_nat.simps) simp
  moreover have "show_nat r = show_nat (r div 10) @ [char_of (48 + r mod 10)]"
    using assms by (intro big) (simp add: four_digits_def)
  moreover have "show_nat (r div 10) = show_nat (r div 100) @ [char_of (48 + r div 10 mod 10)]"
    using assms big [of "r div 10"] by (simp add: four_digits_def less_eq_div_iff_mult_less_eq flip: div_mult2_eq)
  moreover have "show_nat (r div 100) = show_nat (r div 1000) @ [char_of (48 + r div 100 mod 10)]"
    using assms big [of "r div 100"] by (simp add: four_digits_def less_eq_div_iff_mult_less_eq flip: div_mult2_eq)
  ultimately have "show_nat r = map (\<lambda>d. char_of (48 + d)) [r div 1000, r div 100 mod 10, r div 10 mod 10, r mod 10]"
    by simp
  moreover have "username_char (char_of (48 + d))" if "d < 10" for d :: nat
    using that by (simp add: username_char_def is_ascii_digit_def)
  ultimately show "length (show_nat r) = 4" "list_all username_char (show_nat r)" using top by simp_all
qed

lemma player_chars: "list_all username_char ''player''" by code_simp

lemma buildUsernameBase_ok:
  assumes "buildUsernameBase email name r = Inr base" and "four_digits r"
  shows "username_ok base"
proof -
  have "username_ok (''player'' @ show_nat r)"
    using four_digits_text [OF assms(2)] player_chars
    by (simp add: username_ok_def MIN_USERNAME_LENGTH_def MAX_USERNAME_LENGTH_def)
  then show ?thesis using assms(1) sanitize_chars
    by (auto simp: buildUsernameBase_def username_ok_def Let_def split: option.splits list.splits if_splits)
qed

lemma buildCandidateUsername_ok:
  assumes "username_ok base" and "four_digits r"
  shows "username_ok (buildCandidateUsername base attempt r)"
  using assms four_digits_text [OF assms(2)]
  by (auto simp: buildCandidateUsername_def username_ok_def js_slice0_def MIN_USERNAME_LENGTH_def MAX_USERNAME_LENGTH_def
      list_all_iff dest: in_set_takeD)

section \<open>The invariant\<close>

definition user_ok :: "user \<Rightarrow> bool" where
  "user_ok u \<longleftrightarrow> normalizeEmail (us_email u) = us_email u \<and> username_ok (us_username u)"

definition users_inv :: "(string, user) jsmap \<Rightarrow> bool" where
  "users_inv us \<longleftrightarrow> jm_wf us \<and> (\<forall>i u. jm_get us i = Some u \<longrightarrow> user_ok u) \<and>
     (\<forall>i j u v. jm_get us i = Some u \<longrightarrow> jm_get us j = Some v \<longrightarrow> i \<noteq> j \<longrightarrow> user_clash u v = None)"

definition tokens_inv :: "(string, refresh_token) jsmap \<Rightarrow> bool" where
  "tokens_inv ts \<longleftrightarrow> jm_wf ts \<and>
     (\<forall>k t. jm_get ts k = Some t \<longrightarrow> k \<noteq> [] \<and> rt_familyId t \<noteq> [] \<and> rt_replacedByTokenId t \<noteq> Some []) \<and>
     (\<forall>k k' t t'. jm_get ts k = Some t \<longrightarrow> jm_get ts k' = Some t' \<longrightarrow> rt_tokenHash t = rt_tokenHash t' \<longrightarrow> k = k') \<and>
     (\<forall>k k' t t'. jm_get ts k = Some t \<longrightarrow> jm_get ts k' = Some t' \<longrightarrow> rt_familyId t = rt_familyId t' \<longrightarrow>
        rt_revokedAt t = None \<longrightarrow> rt_revokedAt t' = None \<longrightarrow> k = k')"

definition auth_inv :: "auth_tables \<Rightarrow> bool" where
  "auth_inv s \<longleftrightarrow> users_inv (fst s) \<and> tokens_inv (snd s)"

lemma user_clash_None:
  "user_clash u v = None \<longleftrightarrow> us_email u \<noteq> us_email v \<and> us_username u \<noteq> us_username v \<and>
     (us_walletAddress u \<noteq> None \<longrightarrow> us_walletAddress u \<noteq> us_walletAddress v) \<and>
     (us_verificationToken u \<noteq> None \<longrightarrow> us_verificationToken u \<noteq> us_verificationToken v) \<and>
     (us_passwordResetToken u \<noteq> None \<longrightarrow> us_passwordResetToken u \<noteq> us_passwordResetToken v)"
  by (cases "us_walletAddress u"; cases "us_verificationToken u"; cases "us_passwordResetToken u")
    (auto simp: user_clash_def)

lemma users_inv_clash:
  "users_inv us \<Longrightarrow> jm_get us i = Some u \<Longrightarrow> jm_get us j = Some v \<Longrightarrow> i \<noteq> j \<Longrightarrow> user_clash u v = None"
  unfolding users_inv_def by blast

lemma linked_columns:
  "us_email (linked p pf u) = us_email u" "us_username (linked p pf u) = us_username u"
  "us_walletAddress (linked p pf u) = us_walletAddress u" "us_verificationToken (linked p pf u) = us_verificationToken u"
  "us_passwordResetToken (linked p pf u) = us_passwordResetToken u"
  by (simp_all add: linked_def)

lemma user_clash_changes [simp]:
  "user_clash (linked p pf u) v = user_clash u v"
  "user_clash u v = None \<Longrightarrow> user_clash (password_set h u) v = None"
  by (simp only: user_clash_def linked_columns) (simp add: user_clash_None password_set_def)

lemma user_clash_sym: "user_clash u v = None \<longleftrightarrow> user_clash v u = None"
  by (auto simp: user_clash_def)

lemma user_conflict_None:
  assumes "jm_wf us" "user_conflict us i u = None" "jm_get us j = Some v" "j \<noteq> i"
  shows "user_clash u v = None"
proof -
  have "(j, v) \<in> set us" using assms(3) by (auto simp: jm_get_def dest: map_of_SomeD)
  with assms(2,4) show ?thesis
    by (auto simp: user_conflict_def find_None_iff split: option.splits dest!: find_SomeD)
qed

lemma users_inv_set:
  assumes "users_inv us" "user_conflict us i u = None" "user_ok u"
  shows "users_inv (jm_set us i u)"
proof -
  have "user_clash u v = None" "user_clash v u = None" if "jm_get us j = Some v" "j \<noteq> i" for j v
    using user_conflict_None [OF _ assms(2) that] assms(1) user_clash_sym by (auto simp: users_inv_def)
  with assms(1,3) show ?thesis by (auto simp: users_inv_def split: if_splits)
qed

lemma normalizeEmail_idem: "normalizeEmail (normalizeEmail e) = normalizeEmail e"
  by (simp add: normalizeEmail_def js_trim_lower)

lemma guest_email_normal:
  assumes "guest_id_ok g"
  shows "normalizeEmail (''guest_'' @ g @ ''@arenax.gg'') = ''guest_'' @ g @ ''@arenax.gg''"
proof -
  have "map lower_char g = g"
    using assms by (auto simp: guest_id_ok_def list_all_iff lower_char_def intro!: map_idI)
      (auto simp: is_lower_letter_def is_ascii_digit_def)
  moreover have "map lower_char ''guest_'' = ''guest_''" "map lower_char ''@arenax.gg'' = ''@arenax.gg''" by code_simp+
  moreover have "js_trim (''guest_'' @ g @ ''@arenax.gg'') = ''guest_'' @ g @ ''@arenax.gg''"
    by (rule js_trim_fixed) (simp add: js_space_def)
  ultimately show ?thesis by (simp only: normalizeEmail_def js_toLowerCase_def map_append)
qed

lemma may_create_ok: "may_create env call u \<Longrightarrow> user_ok u"
proof (cases call)
  case (Guest g seed now)
  assume "may_create env call u"
  with Guest have g: "guest_id_ok g" "u = guest_user g" by simp_all
  have "list_all username_char ''guest_''" by code_simp
  with g have "username_ok (''guest_'' @ take 8 g)"
    by (simp add: username_ok_def guest_id_ok_def MIN_USERNAME_LENGTH_def MAX_USERNAME_LENGTH_def)
  with g guest_email_normal [OF g(1)] show ?thesis by (simp add: user_ok_def guest_user_def new_user_def)
qed (auto simp: user_ok_def new_user_def social_user_def normalizeEmail_idem)

lemma may_change_ok: "may_change env call u u' \<Longrightarrow> user_ok u' = user_ok u"
  by (cases call) (auto simp: user_ok_def verification_sent_def linked_def email_verified_def reset_sent_def password_set_def)

lemma tokens_invD:
  assumes "tokens_inv ts"
  shows "jm_wf ts"
    and "jm_get ts k = Some t \<Longrightarrow> k \<noteq> [] \<and> rt_familyId t \<noteq> [] \<and> rt_replacedByTokenId t \<noteq> Some []"
    and "jm_get ts k = Some t \<Longrightarrow> jm_get ts k' = Some t' \<Longrightarrow> rt_tokenHash t = rt_tokenHash t' \<Longrightarrow> k = k'"
    and "jm_get ts k = Some t \<Longrightarrow> jm_get ts k' = Some t' \<Longrightarrow> rt_familyId t = rt_familyId t' \<Longrightarrow>
      rt_revokedAt t = None \<Longrightarrow> rt_revokedAt t' = None \<Longrightarrow> k = k'"
  using assms unfolding tokens_inv_def by blast+

lemma new_token_inv:
  assumes "tokens_inv ts" "new_token ts k t" "\<forall>t' \<in> set (jm_values ts). rt_familyId t' \<noteq> rt_familyId t"
  shows "tokens_inv (jm_set ts k t)"
  using assms jm_get_in_values [of ts] unfolding tokens_inv_def new_token_def
  by (auto split: if_splits)

text \<open>The write that rotates: the new token takes the place of the old one in its family.\<close>

lemma tokens_inv_rotate:
  assumes inv: "tokens_inv ts" and new: "new_token ts k t" and t0: "jm_get ts p = Some t0" "rt_revokedAt t0 = None"
    and fam: "rt_familyId t = rt_familyId t0"
  shows "tokens_inv (jm_set (jm_set ts k t) p (token_replaced k now t0))"
proof -
  let ?ts = "jm_set (jm_set ts k t) p (token_replaced k now t0)"
  have pk: "p \<noteq> k" using new t0 by (auto simp: new_token_def)
  have new': "k \<noteq> []" "rt_replacedByTokenId t = None" "rt_familyId t \<noteq> []" using new by (simp_all add: new_token_def)
  have old: "\<exists>w. jm_get ts x = Some w \<and> rt_tokenHash v = rt_tokenHash w \<and> rt_familyId v = rt_familyId w \<and>
      (rt_revokedAt v = None \<longrightarrow> rt_revokedAt w = None \<and> x \<noteq> p) \<and>
      (rt_replacedByTokenId v = rt_replacedByTokenId w \<or> rt_replacedByTokenId v = Some k)"
    if "jm_get ?ts x = Some v" "x \<noteq> k" for x v
    using that t0 by (auto simp: token_replaced_def split: if_splits)
  have nw: "v = t" if "jm_get ?ts k = Some v" for v using that pk by simp
  have hash: "rt_tokenHash w \<noteq> rt_tokenHash t" if "jm_get ts x = Some w" for x w
    using new jm_get_in_values [OF that] by (simp add: new_token_def)
  have live: "rt_revokedAt w \<noteq> None" if "jm_get ts x = Some w" "x \<noteq> p" "rt_familyId w = rt_familyId t" for x w
    using tokens_invD(4) [OF inv that(1) t0(1)] t0(2) that(2,3) fam by auto
  have mh: "rt_tokenHash v \<noteq> rt_tokenHash t" if g: "jm_get ?ts x = Some v" "x \<noteq> k" for x v
    using old [OF g] hash by metis
  have ml: "rt_familyId v \<noteq> rt_familyId t" if g: "jm_get ?ts x = Some v" "x \<noteq> k" "rt_revokedAt v = None" for x v
    using old [OF g(1,2)] live g(3) by metis
  have "x \<noteq> [] \<and> rt_familyId v \<noteq> [] \<and> rt_replacedByTokenId v \<noteq> Some []" if g: "jm_get ?ts x = Some v" for x v
  proof (cases "x = k")
    case False
    from old [OF g False] obtain w where w: "jm_get ts x = Some w" "rt_familyId v = rt_familyId w"
      "rt_replacedByTokenId v = rt_replacedByTokenId w \<or> rt_replacedByTokenId v = Some k" by blast
    from tokens_invD(2) [OF inv w(1)] w(2,3) new' show ?thesis by auto
  qed (use nw g new' in auto)
  moreover have "x = y" if g: "jm_get ?ts x = Some v" "jm_get ?ts y = Some w" and h: "rt_tokenHash v = rt_tokenHash w" for x y v w
  proof (cases "x = k"; cases "y = k")
    assume n: "x \<noteq> k" "y \<noteq> k"
    from old [OF g(1) n(1)] old [OF g(2) n(2)] h show ?thesis by (auto intro: tokens_invD(3) [OF inv])
  next
    assume n: "x \<noteq> k" "y = k"
    from mh [OF g(1) n(1)] nw [OF g(2) [unfolded n(2)]] h show ?thesis by simp
  next
    assume n: "x = k" "y \<noteq> k"
    from mh [OF g(2) n(2)] nw [OF g(1) [unfolded n(1)]] h show ?thesis by simp
  qed simp
  moreover have "x = y" if g: "jm_get ?ts x = Some v" "jm_get ?ts y = Some w" and f: "rt_familyId v = rt_familyId w"
    and l: "rt_revokedAt v = None" "rt_revokedAt w = None" for x y v w
  proof (cases "x = k"; cases "y = k")
    assume n: "x \<noteq> k" "y \<noteq> k"
    from old [OF g(1) n(1)] old [OF g(2) n(2)] f l show ?thesis by (auto intro: tokens_invD(4) [OF inv])
  next
    assume n: "x \<noteq> k" "y = k"
    from ml [OF g(1) n(1) l(1)] nw [OF g(2) [unfolded n(2)]] f show ?thesis by simp
  next
    assume n: "x = k" "y \<noteq> k"
    from ml [OF g(2) n(2) l(2)] nw [OF g(1) [unfolded n(1)]] f show ?thesis by simp
  qed simp
  moreover have "jm_wf ?ts" using inv by (simp add: tokens_inv_def)
  ultimately show ?thesis unfolding tokens_inv_def by blast
qed

lemma tokens_inv_revoke: "tokens_inv ts \<Longrightarrow> jm_get ts k = Some t \<Longrightarrow> tokens_inv (jm_set ts k (token_revoked now t))"
  unfolding tokens_inv_def by (auto simp: token_revoked_def split: if_splits)

lemma tokens_inv_family: "tokens_inv ts \<Longrightarrow> tokens_inv (revokeTokenFamily f now ts)"
  unfolding tokens_inv_def revokeTokenFamily_def jm_get_update_many
  by (auto simp: token_revoked_def split: if_splits)

lemma auth_write_inv: "auth_write env call s s' \<Longrightarrow> auth_inv s \<Longrightarrow> auth_inv s'"
proof (induction rule: auth_write.induct)
  case (address us i u u' a ts)
  then have "user_ok u'" by (auto simp: auth_inv_def users_inv_def user_ok_def)
  with address show ?case by (simp add: auth_inv_def users_inv_set)
next
  case (change us i u u' ts)
  then have "user_ok u'" using may_change_ok by (auto simp: auth_inv_def users_inv_def)
  with change show ?case by (simp add: auth_inv_def users_inv_set)
qed (simp_all add: auth_inv_def users_inv_set may_create_ok new_token_inv tokens_inv_rotate tokens_inv_revoke tokens_inv_family)

section \<open>Calls are writes\<close>

lemma seeds_okD:
  assumes "seeds_ok db r seeds" and "buildUsernameBase e n r = Inr base" and "a \<in> set [0..<MAX_USERNAME_ATTEMPTS]"
  shows "username_ok (buildCandidateUsername base a (as_random (seeds a)))" and "session_ok db (as_session (seeds a))"
  using assms buildUsernameBase_ok [OF assms(2)] by (auto simp: seeds_ok_def list_all_iff intro!: buildCandidateUsername_ok)

lemma registerUser_writes:
  assumes "call = Register email pw name salt r seeds now" and "seeds_ok db r seeds"
  shows "auth_writes env call db (snd (registerUser env email pw name salt r seeds now db))"
  using register_loop_writes [OF assms(1), of "[0..<MAX_USERNAME_ATTEMPTS]"] seeds_okD [OF assms(2)]
  by (auto simp: registerUser_def Let_def split: option.splits sum.splits)

lemma loginUser_writes: "session_ok db seed \<Longrightarrow> auth_writes env call db (snd (loginUser env email pw seed now db))"
  by (auto simp: loginUser_def start_session_writes split: option.splits)

lemma refreshSession_writes:
  assumes inv: "auth_inv (tables db)" and id: "ss_id seed \<noteq> []"
  shows "auth_writes env call db (snd (refreshSession env raw seed now db))"
proof (cases "find_token (toTokenHash env raw) db")
  case (Some kt)
  obtain k t where kt: "kt = (k, t)" by fastforce
  have wf: "jm_wf (se_tokens db)" using inv by (simp add: auth_inv_def tokens_inv_def)
  note t = find_token_Some [OF wf Some [unfolded kt]]
  with inv have ne: "k \<noteq> []" "rt_familyId t \<noteq> []" by (auto simp: auth_inv_def tokens_inv_def)
  show ?thesis
  proof (cases "rt_revokedAt t = None \<and> \<not> rt_expiresAt t \<le> now \<and> jm_get (cu_users db) (rt_userId t) \<noteq> None")
    case False
    with Some kt t show ?thesis
      by (auto simp: refreshSession_def split: option.splits intro!: r_into_rtranclp auth_write.revoke auth_write.revoke_family)
  next
    case True
    then obtain u where u: "jm_get (cu_users db) (rt_userId t) = Some u" by auto
    show ?thesis
    proof (cases "createRefreshTokenRecord env (rt_userId t) (rt_familyId t) (Some k) seed now (se_tokens db)")
      case (Inl e)
      with True Some kt u ne t(2) show ?thesis by (simp add: refreshSession_def issueSessionTokens_def)
    next
      case (Inr ts)
      then obtain t' where t': "new_token (se_tokens db) (ss_id seed) t'" "ts = jm_set (se_tokens db) (ss_id seed) t'"
        "rt_familyId t' = rt_familyId t" "rt_userId t' = rt_userId t"
        using id ne by (auto elim: createRefreshTokenRecord_Inr)
      then have "k \<noteq> ss_id seed" using t by (auto simp: new_token_def)
      with t t' have "row_update ts k (token_replaced (ss_id seed) now) = Inr (jm_set ts k (token_replaced (ss_id seed) now t))"
        by (simp add: row_update_def)
      moreover have "auth_write env call (tables db) (cu_users db, jm_set ts k (token_replaced (ss_id seed) now t))"
        using t t' True by (auto intro!: auth_write.rotate)
      ultimately show ?thesis using True Some kt u ne t(2) Inr by (auto simp: refreshSession_def issueSessionTokens_def)
    qed
  qed
qed (simp add: refreshSession_def)

lemma logoutUser_writes:
  assumes "auth_inv (tables db)"
  shows "auth_writes env call db (logoutUser env raw now db)"
proof -
  have "jm_wf (se_tokens db)" using assms by (simp add: auth_inv_def tokens_inv_def)
  from find_token_Some [OF this] show ?thesis
    by (auto simp: logoutUser_def split: option.splits intro!: r_into_rtranclp auth_write.revoke)
qed

lemma social_loop_tokens [simp]: "se_tokens (snd (social_loop env email p pf base seeds now as db)) = se_tokens db"
proof (induction as arbitrary: db)
  case (Cons a as)
  let ?c = "create_account env (as_userId (seeds a))
    (social_user email (buildCandidateUsername base a (as_random (seeds a))) p pf) (as_wallet (seeds a)) now db"
  obtain res db1 where o: "?c = (res, db1)" by fastforce
  then have "se_tokens db1 = se_tokens db" using create_account_tokens by (metis snd_conv)
  with Cons o show ?case by (cases res) (auto simp: Let_def)
qed simp

lemma social_loop_writes:
  assumes call: "call = Social p resp r seeds session now" and pf: "bind_res resp (validate_token p) = Inr pf"
    and "\<And>a. a \<in> set as \<Longrightarrow> username_ok (buildCandidateUsername base a (as_random (seeds a)))"
  shows "auth_writes env call db (snd (social_loop env (normalizeEmail (pf_email pf)) p pf base seeds now as db))"
  using assms(3)
proof (induction as arbitrary: db)
  case (Cons a as)
  let ?u = "social_user (normalizeEmail (pf_email pf)) (buildCandidateUsername base a (as_random (seeds a))) p pf"
  obtain res db1 where o: "create_account env (as_userId (seeds a)) ?u (as_wallet (seeds a)) now db = (res, db1)" by fastforce
  have "may_create env call ?u" using call pf Cons.prems by auto
  then have w: "auth_writes env call db db1" using create_account_writes [of env call ?u db] o by (metis snd_conv)
  show ?case
  proof (cases res)
    case (Inl e)
    have "auth_writes env call db1 (snd (social_loop env (normalizeEmail (pf_email pf)) p pf base seeds now as db1))"
      by (rule Cons.IH) (simp add: Cons.prems)
    with w have "auth_writes env call db (snd (social_loop env (normalizeEmail (pf_email pf)) p pf base seeds now as db1))"
      by (rule rtranclp_trans)
    with w o Inl show ?thesis by (simp add: Let_def)
  qed (use w o in \<open>simp add: Let_def\<close>)
qed simp

lemma users_wf: "auth_inv (tables db) \<Longrightarrow> jm_wf (cu_users db)"
  by (simp add: auth_inv_def users_inv_def)

lemma update_user_tokens [simp]: "se_tokens (snd (update_user i f db)) = se_tokens db"
  by (auto simp: update_user_def user_update_Inr_iff split: sum.splits)

lemma social_account_writes:
  assumes call: "call = Social p resp r seeds session now" and pf: "bind_res resp (validate_token p) = Inr pf"
    and inv: "auth_inv (tables db)" and seeds: "seeds_ok db r seeds"
  shows "auth_writes env call db (snd (social_account env p pf r seeds now db)) \<and>
    se_tokens (snd (social_account env p pf r seeds now db)) = se_tokens db"
proof (cases "find_user (\<lambda>u. us_provider u = Some (provider_name p) \<and> us_providerId u = Some (pf_providerId pf)) db")
  case None
  let ?m = "normalizeEmail (pf_email pf)"
  show ?thesis
  proof (cases "find_user (\<lambda>u. us_email u = ?m) db")
    case (Some iu)
    obtain i u where iu: "iu = (i, u)" by fastforce
    note u = find_user_Some [OF users_wf [OF inv] Some [unfolded iu]]
    obtain res db1 where o: "update_user i (linked p pf) db = (res, db1)" by fastforce
    have "auth_writes env call db db1" "se_tokens db1 = se_tokens db"
      using update_user_writes [of db i env call "linked p pf"] update_user_tokens [of i "linked p pf" db] o u call pf by auto
    with None Some iu o show ?thesis by (cases res) (simp_all add: social_account_def Let_def)
  next
    case none: None
    show ?thesis
    proof (cases "buildUsernameBase ?m (Some (pf_username pf)) r")
      case (Inr base)
      from social_loop_writes [OF call pf, of "[0..<MAX_USERNAME_ATTEMPTS]" base env db] seeds_okD(1) [OF seeds Inr]
      show ?thesis using None none Inr by (simp add: social_account_def)
    qed (use None none in \<open>simp add: social_account_def Let_def\<close>)
  qed
qed (simp add: social_account_def Let_def)

lemma authenticateSocial_writes:
  assumes call: "call = Social p resp r seeds session now" and inv: "auth_inv (tables db)"
    and ok: "seeds_ok db r seeds" "session_ok db session"
  shows "auth_writes env call db (snd (authenticateSocial env p resp r seeds session now db))"
proof (cases "bind_res resp (validate_token p)")
  case (Inr pf)
  obtain res db1 where o: "social_account env p pf r seeds now db = (res, db1)" by fastforce
  have w: "auth_writes env call db db1" "se_tokens db1 = se_tokens db"
    using social_account_writes [OF call Inr inv ok(1), of env] o by auto
  then have "session_ok db1 session" using ok(2) by (simp add: session_ok_def)
  from start_session_writes [OF this] w(1) Inr o show ?thesis
    by (cases res) (auto simp: authenticateSocial_def intro: rtranclp_trans)
qed (simp add: authenticateSocial_def)

lemma createGuestSession_writes:
  assumes call: "call = Guest g seed now" and ok: "guest_id_ok g" "session_ok db (as_session seed)"
  shows "auth_writes env call db (snd (createGuestSession env g seed now db))"
proof -
  obtain res db1 where o: "create_account env (as_userId seed) (guest_user g) (as_wallet seed) now db = (res, db1)" by fastforce
  have w: "auth_writes env call db db1" "se_tokens db1 = se_tokens db"
    using create_account_writes [of env call "guest_user g" db "as_userId seed" "as_wallet seed" now]
      create_account_tokens [of env "as_userId seed" "guest_user g" "as_wallet seed" now db] o call ok by auto
  then have "session_ok db1 (as_session seed)" using ok(2) by (simp add: session_ok_def)
  from start_session_writes [OF this] w(1) o show ?thesis
    by (cases res) (auto simp: createGuestSession_def intro: rtranclp_trans)
qed

text \<open>A call that looks for a user and changes what it found.\<close>

lemma found_user_writes:
  assumes inv: "auth_inv (tables db)" and f: "find_user P db = Some (i, u)" and may: "P u \<Longrightarrow> may_change env call u (g u)"
  shows "auth_writes env call db (snd (and_then (update_user i g db) (\<lambda>_ db1. (Inr m, db1))))"
proof -
  note u = find_user_Some [OF users_wf [OF inv] f]
  from u have "auth_writes env call db (snd (update_user i g db))" by (intro update_user_writes) (simp add: may)
  then show ?thesis by (cases "update_user i g db"; cases "fst (update_user i g db)") auto
qed

lemma auth_exec_writes:
  assumes inv: "auth_inv (tables db)" and ok: "call_ok db call"
  shows "auth_writes env call db (auth_exec env db call)"
proof (cases call)
  case (Verify tok now)
  then show ?thesis
    by (auto simp: verifyEmail_def split: option.splits prod.splits intro: found_user_writes [OF inv])
next
  case (Resend email tok now)
  then show ?thesis
    by (auto simp: resendVerificationEmail_def split: option.splits prod.splits intro: found_user_writes [OF inv])
next
  case (Forgot email tok now)
  then show ?thesis
    by (auto simp: forgotPassword_def split: option.splits prod.splits intro: found_user_writes [OF inv])
next
  case (Reset tok pw salt now)
  then show ?thesis
    by (auto simp: resetPassword_def split: option.splits prod.splits intro: found_user_writes [OF inv])
qed (use inv ok in \<open>simp_all add: registerUser_writes loginUser_writes refreshSession_writes logoutUser_writes
  authenticateSocial_writes createGuestSession_writes\<close>)

lemma writes_keep:
  assumes "auth_writes env call db db'" and "\<And>s s'. auth_write env call s s' \<Longrightarrow> P s \<Longrightarrow> P s'" and "P (tables db)"
  shows "P (tables db')"
  using assms(1,3) by (induction rule: rtranclp_induct) (auto intro: assms(2))

definition new_auth_db :: auth_db where
  "new_auth_db = \<lparr>cu_users = jm_empty, cu_wallets = jm_empty, cu_accesses = jm_empty, cu_challenges = jm_empty, se_tokens = jm_empty\<rparr>"

lemma auth_exec_inv: "auth_inv (tables db) \<Longrightarrow> call_ok db call \<Longrightarrow> auth_inv (tables (auth_exec env db call))"
  by (rule writes_keep [OF auth_exec_writes auth_write_inv])

interpretation accounts: invariant_machine new_auth_db "auth_exec env" call_ok "\<lambda>db. auth_inv (tables db)" for env
proof
  show "auth_inv (tables new_auth_db)"
    by (simp add: auth_inv_def users_inv_def tokens_inv_def new_auth_db_def jm.get_empty jm.wf_empty)
qed (rule auth_exec_inv)

section \<open>What happens to one account, and to one family\<close>

inductive user_step :: "auth_env \<Rightarrow> auth_call \<Rightarrow> user \<Rightarrow> user \<Rightarrow> bool" for env call where
  changed: "may_change env call u u' \<Longrightarrow> user_step env call u u'"
| addressed: "user_step env call u (u\<lparr>us_walletAddress := a\<rparr>)"

lemma account_moves:
  assumes "auth_writes env call db db'" and "jm_get (cu_users db) i = Some u"
  shows "\<exists>u'. jm_get (cu_users db') i = Some u' \<and> (user_step env call)\<^sup>*\<^sup>* u u'"
proof -
  let ?P = "\<lambda>s :: auth_tables. \<exists>u'. jm_get (fst s) i = Some u' \<and> (user_step env call)\<^sup>*\<^sup>* u u'"
  have step: "?P s'" if "auth_write env call s s'" "?P s" for s s'
    using that
  proof (induction rule: auth_write.induct)
    case (address us j v v' a ts)
    then show ?case by (auto intro: rtranclp.rtrancl_into_rtrancl user_step.addressed)
  next
    case (change us j v v' ts)
    then show ?case by (auto intro: rtranclp.rtrancl_into_rtrancl user_step.changed)
  qed auto
  have "?P (tables db')" by (rule writes_keep [where P = ?P, OF assms(1) step]) (use assms(2) in auto)
  then show ?thesis by simp
qed

lemma user_steps_fixed:
  assumes "(user_step env call)\<^sup>*\<^sup>* u u'"
  shows "us_email u' = us_email u \<and> us_username u' = us_username u \<and> us_role u' = us_role u"
  using assms
proof (induction rule: rtranclp_induct)
  case (step v w)
  from step.hyps(2) have "us_email w = us_email v \<and> us_username w = us_username v \<and> us_role w = us_role v"
    by (induction rule: user_step.induct; cases call)
      (auto simp: verification_sent_def linked_def email_verified_def reset_sent_def password_set_def)
  with step.IH show ?case by simp
qed simp

text \<open>The guards of the two changes that matter most.\<close>

fun reset_guard :: "auth_env \<Rightarrow> auth_call \<Rightarrow> user \<Rightarrow> bool" where
  "reset_guard env (Reset tok pw salt now) u =
     (us_passwordResetToken u = Some (toTokenHash env tok) \<and> \<not> expired (us_passwordResetExpires u) now)"
| "reset_guard env _ u = False"

fun verify_guard :: "auth_env \<Rightarrow> auth_call \<Rightarrow> user \<Rightarrow> bool" where
  "verify_guard env (Verify tok now) u =
     (us_verificationToken u = Some (toTokenHash env tok) \<and> \<not> expired (us_verificationTokenExpires u) now)"
| "verify_guard env (Social p resp r seeds session now) u =
     (case bind_res resp (validate_token p) of Inl e \<Rightarrow> False | Inr pf \<Rightarrow> us_email u = normalizeEmail (pf_email pf))"
| "verify_guard env _ u = False"

lemma password_steps:
  assumes "(user_step env call)\<^sup>*\<^sup>* u u'"
  shows "reset_guard env call u \<or> us_passwordHash u' = us_passwordHash u \<and> (reset_guard env call u' \<longrightarrow> reset_guard env call u)"
  using assms
proof (induction rule: rtranclp_induct)
  case (step v w)
  from step.hyps(2) have "reset_guard env call v \<or> us_passwordHash w = us_passwordHash v \<and> (reset_guard env call w \<longrightarrow> reset_guard env call v)"
    by (induction rule: user_step.induct; cases call)
      (auto simp: verification_sent_def linked_def email_verified_def reset_sent_def)
  with step.IH show ?case by auto
qed simp

lemma verified_steps:
  assumes "(user_step env call)\<^sup>*\<^sup>* u u'"
  shows "verify_guard env call u \<or> us_isVerified u' = us_isVerified u \<and> (verify_guard env call u' \<longrightarrow> verify_guard env call u)"
  using assms
proof (induction rule: rtranclp_induct)
  case (step v w)
  from step.hyps(2) have "verify_guard env call v \<or> us_isVerified w = us_isVerified v \<and> (verify_guard env call w \<longrightarrow> verify_guard env call v)"
    by (induction rule: user_step.induct; cases call)
      (auto simp: verification_sent_def reset_sent_def password_set_def split: sum.splits)
  with step.IH show ?case by auto
qed simp

definition family_dead :: "string \<Rightarrow> auth_tables \<Rightarrow> bool" where
  "family_dead f s \<longleftrightarrow> (\<exists>k t. jm_get (snd s) k = Some t \<and> rt_familyId t = f) \<and>
     (\<forall>k t. jm_get (snd s) k = Some t \<longrightarrow> rt_familyId t = f \<longrightarrow> rt_revokedAt t \<noteq> None)"

lemma revokeTokenFamily_dead:
  assumes "jm_get ts k = Some t"
  shows "family_dead (rt_familyId t) (us, revokeTokenFamily (rt_familyId t) now ts)"
proof -
  let ?g = "\<lambda>v. if rt_familyId v = rt_familyId t \<and> rt_revokedAt v = None then token_revoked now v else v"
  have get: "jm_get (revokeTokenFamily (rt_familyId t) now ts) x = map_option ?g (jm_get ts x)" for x
    by (simp add: revokeTokenFamily_def jm_get_update_many)
  have fam: "rt_familyId (?g v) = rt_familyId v" and dead: "rt_familyId v = rt_familyId t \<Longrightarrow> rt_revokedAt (?g v) \<noteq> None" for v
    by (auto simp: token_revoked_def)
  have "jm_get (revokeTokenFamily (rt_familyId t) now ts) k = Some (?g t)" using assms get by simp
  moreover have "rt_revokedAt v \<noteq> None"
    if v: "jm_get (revokeTokenFamily (rt_familyId t) now ts) x = Some v" "rt_familyId v = rt_familyId t" for x v
  proof -
    from v(1) obtain w where "v = ?g w" unfolding get by auto
    with fam [of w] dead [of w] v(2) show ?thesis by simp
  qed
  ultimately show ?thesis unfolding family_dead_def using fam [of t] by (metis snd_conv)
qed

lemma family_stays_dead: "auth_write env call s s' \<Longrightarrow> family_dead f s \<Longrightarrow> family_dead f s'"
proof (induction rule: auth_write.induct)
  case (issue ts k t us)
  then obtain k0 t0 where k0: "jm_get ts k0 = Some t0" "rt_familyId t0 = f" by (auto simp: family_dead_def)
  with issue have "rt_familyId t \<noteq> f" "k \<noteq> k0" using jm_get_in_values [of ts] by (auto simp: new_token_def)
  with issue k0 show ?case by (auto simp: family_dead_def split: if_splits)
next
  case (rotate ts k t p t0 us now)
  then have "rt_familyId t0 \<noteq> f" unfolding family_dead_def by force
  moreover from this rotate have "rt_familyId t \<noteq> f" "p \<noteq> k" by (auto simp: new_token_def)
  moreover obtain k0 t1 where k0: "jm_get ts k0 = Some t1" "rt_familyId t1 = f" using rotate by (auto simp: family_dead_def)
  moreover have "k0 \<noteq> k" "k0 \<noteq> p" using rotate k0 \<open>rt_familyId t0 \<noteq> f\<close> by (auto simp: new_token_def)
  ultimately show ?case using rotate by (auto simp: family_dead_def token_replaced_def split: if_splits)
next
  case (revoke ts k t us now)
  then obtain k0 t0 where k0: "jm_get ts k0 = Some t0" "rt_familyId t0 = f" by (auto simp: family_dead_def)
  then have "jm_get (jm_set ts k (token_revoked now t)) k0 = Some (if k0 = k then token_revoked now t else t0)"
    "rt_familyId (if k0 = k then token_revoked now t else t0) = f"
    using revoke by (auto simp: token_revoked_def)
  moreover have "rt_revokedAt v \<noteq> None" if "jm_get (jm_set ts k (token_revoked now t)) x = Some v" "rt_familyId v = f" for x v
    using that revoke by (auto simp: family_dead_def token_revoked_def split: if_splits)
  ultimately show ?case unfolding family_dead_def by (metis snd_conv)
next
  case (revoke_family us ts g now)
  then show ?case unfolding family_dead_def revokeTokenFamily_def by (force simp: jm_get_update_many token_revoked_def split: if_splits)
qed (auto simp: family_dead_def)

lemma family_dead_run:
  assumes "auth_inv (tables db)" "allowed_run (auth_exec env) call_ok db calls" "family_dead f (tables db)"
  shows "auth_inv (tables (foldl (auth_exec env) db calls)) \<and> family_dead f (tables (foldl (auth_exec env) db calls))"
  using assms
proof (induction calls arbitrary: db)
  case (Cons c cs)
  have w: "auth_writes env c db (auth_exec env db c)" using Cons.prems by (intro auth_exec_writes) auto
  have "auth_inv (tables (auth_exec env db c))" "family_dead f (tables (auth_exec env db c))"
    using writes_keep [OF w auth_write_inv] writes_keep [OF w family_stays_dead] Cons.prems by auto
  with Cons show ?case by simp
qed simp

section \<open>Finding by a unique column\<close>

lemma find_unique:
  assumes "jm_wf m" "jm_get m i = Some u" "P u" "\<And>j v. jm_get m j = Some v \<Longrightarrow> P v \<Longrightarrow> j = i"
  shows "List.find (\<lambda>(j, v). P v) m = Some (i, u)"
proof -
  have "(i, u) \<in> set m" using assms(2) by (auto simp: jm_get_def dest: map_of_SomeD)
  then obtain x where x: "List.find (\<lambda>(j, v). P v) m = Some x"
    using assms(3) by (cases "List.find (\<lambda>(j, v). P v) m") (auto simp: find_None_iff)
  obtain j v where jv: "x = (j, v)" by fastforce
  with find_SomeD [OF x] have "(j, v) \<in> set m" "P v" by auto
  with assms(1) have "jm_get m j = Some v" by (simp add: jm_get_def jm_wf_def)
  with assms(2,4) \<open>P v\<close> have "j = i" "v = u" by auto
  with x jv show ?thesis by simp
qed

lemma find_user_unique:
  assumes "auth_inv (tables db)" "jm_get (cu_users db) i = Some u" "P u" "\<And>v. P v \<Longrightarrow> user_clash u v \<noteq> None"
  shows "find_user P db = Some (i, u)"
  unfolding find_user_def
proof (rule find_unique)
  show "j = i" if "jm_get (cu_users db) j = Some v" "P v" for j v
    using users_inv_clash [of "cu_users db" i u j v] assms(1,2) assms(4) [OF that(2)] that(1) by (auto simp: auth_inv_def)
qed (use assms in \<open>simp_all add: auth_inv_def users_inv_def\<close>)

lemma find_token_unique:
  assumes "auth_inv (tables db)" "jm_get (se_tokens db) k = Some t"
  shows "find_token (rt_tokenHash t) db = Some (k, t)"
  unfolding find_token_def
proof (rule find_unique)
  show "j = k" if "jm_get (se_tokens db) j = Some v" "rt_tokenHash v = rt_tokenHash t" for j v
    using tokens_invD(3) [of "se_tokens db" j v k t] assms that by (simp add: auth_inv_def)
qed (use assms in \<open>simp_all add: auth_inv_def tokens_inv_def\<close>)

lemma user_conflict_keep:
  assumes "users_inv us" "jm_get us i = Some u" "\<And>v. user_clash u v = None \<Longrightarrow> user_clash u' v = None"
  shows "user_conflict us i u' = None"
proof -
  have "user_clash u' v = None" if "(j, v) \<in> set us" "j \<noteq> i" for j v
  proof -
    have "jm_get us j = Some v" using assms(1) that(1) by (simp add: users_inv_def jm_wf_def jm_get_def)
    with users_inv_clash [OF assms(1,2)] that(2) have "user_clash u v = None" by blast
    then show ?thesis by (rule assms(3))
  qed
  then have "List.find (\<lambda>(j, v). j \<noteq> i \<and> user_clash u' v \<noteq> None) us = None" by (fastforce simp: find_None_iff)
  then show ?thesis by (simp add: user_conflict_def)
qed

section \<open>Properties\<close>

text \<open>
  C28. Accounts are well formed: after any sequence of calls on an empty service every stored address is
  trimmed and in lower case, every user name has 3 to 24 characters out of lower-case letters, digits and the
  underscore, and no two accounts share an address, a name, a wallet address or an outstanding link.
\<close>

theorem accounts_well_formed:
  assumes "allowed_run (auth_exec env) call_ok new_auth_db calls" and "db = foldl (auth_exec env) new_auth_db calls"
  shows "(\<forall>i u. jm_get (cu_users db) i = Some u \<longrightarrow> normalizeEmail (us_email u) = us_email u \<and>
      3 \<le> length (us_username u) \<and> length (us_username u) \<le> 24 \<and> list_all username_char (us_username u)) \<and>
    (\<forall>i j u v. jm_get (cu_users db) i = Some u \<longrightarrow> jm_get (cu_users db) j = Some v \<longrightarrow> i \<noteq> j \<longrightarrow>
      us_email u \<noteq> us_email v \<and> us_username u \<noteq> us_username v \<and>
      (us_walletAddress u \<noteq> None \<longrightarrow> us_walletAddress u \<noteq> us_walletAddress v) \<and>
      (us_verificationToken u \<noteq> None \<longrightarrow> us_verificationToken u \<noteq> us_verificationToken v) \<and>
      (us_passwordResetToken u \<noteq> None \<longrightarrow> us_passwordResetToken u \<noteq> us_passwordResetToken v))"
proof -
  have inv: "users_inv (cu_users db)" using accounts.inv_reachable [OF assms(1)] assms(2) by (simp add: auth_inv_def)
  then show ?thesis
    unfolding users_inv_def user_ok_def username_ok_def MIN_USERNAME_LENGTH_def MAX_USERNAME_LENGTH_def user_clash_None by blast
qed

text \<open>
  C29. A family of refresh tokens has at most one token that is not revoked, whatever calls are made in
  whatever order, and a token hash belongs to one row only.
\<close>

theorem one_live_token_per_family:
  assumes "allowed_run (auth_exec env) call_ok new_auth_db calls" and "db = foldl (auth_exec env) new_auth_db calls"
    and "jm_get (se_tokens db) k = Some t" and "jm_get (se_tokens db) k' = Some t'"
  shows "(rt_familyId t = rt_familyId t' \<and> rt_revokedAt t = None \<and> rt_revokedAt t' = None \<longrightarrow> k = k') \<and>
    (rt_tokenHash t = rt_tokenHash t' \<longrightarrow> k = k')"
proof -
  have inv: "tokens_inv (se_tokens db)" using accounts.inv_reachable [OF assms(1)] assms(2) by (simp add: auth_inv_def)
  from tokens_invD(3,4) [OF inv assms(3,4)] show ?thesis by blast
qed

text \<open>
  C30. Presenting a refresh token a second time ends the session for good: the call reports the reuse, and
  whatever happens afterwards every token of the family stays revoked, so no token that the thief or
  the owner holds in this family refreshes anything again.
\<close>

theorem token_reuse_ends_session:
  assumes inv: "auth_inv (tables db)" and t: "jm_get (se_tokens db) k = Some t" "rt_tokenHash t = toTokenHash env raw"
    and used: "rt_revokedAt t \<noteq> None" "rt_replacedByTokenId t \<noteq> None"
    and run: "allowed_run (auth_exec env) call_ok (snd (refreshSession env raw seed now db)) calls"
    and db': "db' = foldl (auth_exec env) (snd (refreshSession env raw seed now db)) calls"
  shows "fst (refreshSession env raw seed now db) = Inl (HttpError 401 ''Refresh token reuse detected, please login again'') \<and>
    (\<forall>k' t'. jm_get (se_tokens db') k' = Some t' \<longrightarrow> rt_familyId t' = rt_familyId t \<longrightarrow>
       rt_revokedAt t' \<noteq> None \<and>
       (\<forall>raw' seed' now'. toTokenHash env raw' = rt_tokenHash t' \<longrightarrow> isl (fst (refreshSession env raw' seed' now' db'))))"
proof -
  let ?db1 = "db\<lparr>se_tokens := revokeTokenFamily (rt_familyId t) now (se_tokens db)\<rparr>"
  have "rt_replacedByTokenId t \<noteq> Some []" using tokens_invD(2) [OF _ t(1)] inv by (simp add: auth_inv_def)
  with used obtain n where n: "nonempty (rt_replacedByTokenId t) = Some n" by fastforce
  then have r: "refreshSession env raw seed now db = (Inl (HttpError 401 ''Refresh token reuse detected, please login again''), ?db1)"
    using find_token_unique [OF inv t(1)] used t(2) by (auto simp: refreshSession_def)
  have "auth_write env (Refresh raw seed now) (tables db) (tables ?db1)" by (auto intro: auth_write.revoke_family)
  then have inv1: "auth_inv (tables ?db1)" using inv by (rule auth_write_inv)
  have "family_dead (rt_familyId t) (tables ?db1)"
    using revokeTokenFamily_dead [OF t(1), of "cu_users db" now] by simp
  then have "auth_inv (tables db') \<and> family_dead (rt_familyId t) (tables db')"
    using family_dead_run [OF inv1, of env calls] run db' r by simp
  moreover have "isl (fst (refreshSession env raw' seed' now' db'))"
    if "auth_inv (tables db')" "jm_get (se_tokens db') k' = Some t'" "rt_revokedAt t' \<noteq> None" "toTokenHash env raw' = rt_tokenHash t'"
    for k' t' raw' seed' now'
    using find_token_unique [OF that(1,2)] that(3,4) by (auto simp: refreshSession_def split: option.splits)
  ultimately show ?thesis using r unfolding family_dead_def by auto
qed

text \<open>
  Refreshing works and rotates: a token that is not revoked and not expired is exchanged for a
  new one of the same user and family that lives for the configured time; the old one is revoked and points
  to the new one, so presenting it again is a reuse; and the new one is a live token.
\<close>

theorem refresh_rotates:
  assumes inv: "auth_inv (tables db)" and t: "jm_get (se_tokens db) k = Some t" "rt_tokenHash t = toTokenHash env raw"
    and live: "rt_revokedAt t = None" "now < rt_expiresAt t" and u: "jm_get (cu_users db) (rt_userId t) = Some u"
    and seed: "ss_id seed \<noteq> []" "jm_get (se_tokens db) (ss_id seed) = None"
      "\<forall>t' \<in> set (jm_values (se_tokens db)). rt_tokenHash t' \<noteq> toTokenHash env (ss_token seed)"
  shows "\<exists>reply db' t' t0. refreshSession env raw seed now db = (Inr reply, db') \<and> sr_refreshToken reply = ss_token seed \<and>
    sf_id (sr_user reply) = rt_userId t \<and> jm_get (se_tokens db') (ss_id seed) = Some t' \<and>
    rt_tokenHash t' = toTokenHash env (ss_token seed) \<and> rt_userId t' = rt_userId t \<and> rt_familyId t' = rt_familyId t \<and>
    rt_revokedAt t' = None \<and> rt_expiresAt t' = now + en_refreshTokenTtlMs env \<and>
    jm_get (se_tokens db') k = Some t0 \<and> rt_revokedAt t0 = Some now \<and> rt_replacedByTokenId t0 = Some (ss_id seed) \<and>
    cu_users db' = cu_users db \<and>
    (\<forall>seed' now'. fst (refreshSession env raw seed' now' db') = Inl (HttpError 401 ''Refresh token reuse detected, please login again''))"
proof -
  have ne: "k \<noteq> []" "rt_familyId t \<noteq> []" using tokens_invD(2) [OF _ t(1)] inv by (auto simp: auth_inv_def)
  have f: "find_token (toTokenHash env raw) db = Some (k, t)" using find_token_unique [OF inv t(1)] t(2) by simp
  define t' where "t' = \<lparr>rt_userId = rt_userId t, rt_familyId = rt_familyId t, rt_tokenHash = toTokenHash env (ss_token seed),
    rt_expiresAt = now + en_refreshTokenTtlMs env, rt_revokedAt = None, rt_parentTokenId = Some k, rt_replacedByTokenId = None\<rparr>"
  have "createRefreshTokenRecord env (rt_userId t) (rt_familyId t) (Some k) seed now (se_tokens db)
      = Inr (jm_set (se_tokens db) (ss_id seed) t')"
    using seed by (auto simp: createRefreshTokenRecord_def row_create_def t'_def list_ex_iff)
  moreover have "k \<noteq> ss_id seed" using seed t by auto
  moreover define ts where "ts = jm_set (jm_set (se_tokens db) (ss_id seed) t') k (token_replaced (ss_id seed) now t)"
  ultimately have r: "refreshSession env raw seed now db =
      (Inr (session_reply_of env (rt_userId t) u (createAccessToken env (rt_userId t) u, ss_token seed)), db\<lparr>se_tokens := ts\<rparr>)"
    using f live u ne t by (simp add: refreshSession_def issueSessionTokens_def row_update_def)
  have g: "jm_get ts (ss_id seed) = Some t'" "jm_get ts k = Some (token_replaced (ss_id seed) now t)"
    using \<open>k \<noteq> ss_id seed\<close> by (simp_all add: ts_def)
  have "auth_inv (tables (db\<lparr>se_tokens := ts\<rparr>))"
    using auth_exec_inv [of db "Refresh raw seed now" env] inv seed(1) r by simp
  from find_token_unique [OF this, of k] g(2) t(2)
  have "find_token (toTokenHash env raw) (db\<lparr>se_tokens := ts\<rparr>) = Some (k, token_replaced (ss_id seed) now t)"
    by (simp add: token_replaced_def)
  then have "fst (refreshSession env raw seed' now' (db\<lparr>se_tokens := ts\<rparr>)) =
      Inl (HttpError 401 ''Refresh token reuse detected, please login again'')" for seed' now'
    using seed(1) t(2) by (simp add: refreshSession_def token_replaced_def)
  with r g show ?thesis by (auto simp: session_reply_of_def mapUserToSafeUser_def t'_def token_replaced_def)
qed


text \<open>
  A reset link works once: with the outstanding link before it expires the password becomes the new
  one and the link is used up, so the same link is refused from then on; other accounts do not
  change. The refresh tokens do not change either: every session that was open before the
  reset is still open after it.
\<close>

theorem reset_password_effect:
  assumes inv: "auth_inv (tables db)" and u: "jm_get (cu_users db) i = Some u"
    and link: "us_passwordResetToken u = Some (toTokenHash env tok)" "\<not> expired (us_passwordResetExpires u) now"
    and bcrypt: "\<forall>salt pw. cr_comparePassword (en_crypto env) pw (en_hashPassword env salt pw)"
  shows "\<exists>db' u'. resetPassword env tok pw salt now db = (Inr ''Password reset successfully'', db') \<and>
    jm_get (cu_users db') i = Some u' \<and> us_email u' = us_email u \<and> cr_comparePassword (en_crypto env) pw (us_passwordHash u') \<and>
    (\<forall>pw' salt' now'. resetPassword env tok pw' salt' now' db' = (Inl (HttpError 400 ''Invalid reset token''), db')) \<and>
    (\<forall>j. j \<noteq> i \<longrightarrow> jm_get (cu_users db') j = jm_get (cu_users db) j) \<and> se_tokens db' = se_tokens db"
proof -
  let ?u' = "password_set (en_hashPassword env salt pw) u"
  let ?db' = "db\<lparr>cu_users := jm_set (cu_users db) i ?u'\<rparr>"
  have f: "find_user (\<lambda>u. us_passwordResetToken u = Some (toTokenHash env tok)) db = Some (i, u)"
    by (rule find_user_unique [OF inv u]) (use link in \<open>auto simp: user_clash_def\<close>)
  have "user_conflict (cu_users db) i ?u' = None"
    by (rule user_conflict_keep [OF _ u]) (use inv in \<open>simp_all add: auth_inv_def\<close>)
  then have "update_user i (password_set (en_hashPassword env salt pw)) db = (Inr (), ?db')"
    using u by (simp add: update_user_def user_update_def)
  with f link have r: "resetPassword env tok pw salt now db = (Inr ''Password reset successfully'', ?db')"
    by (simp add: resetPassword_def)
  have inv': "auth_inv (tables ?db')" using auth_exec_inv [of db "Reset tok pw salt now" env] inv r by simp
  have "find_user (\<lambda>u. us_passwordResetToken u = Some (toTokenHash env tok)) ?db' = None"
  proof (rule ccontr)
    assume "\<not> ?thesis"
    then obtain j v where jv: "find_user (\<lambda>u. us_passwordResetToken u = Some (toTokenHash env tok)) ?db' = Some (j, v)" by auto
    from find_user_Some [OF users_wf [OF inv'] jv] have v: "jm_get (jm_set (cu_users db) i ?u') j = Some v"
      "us_passwordResetToken v = Some (toTokenHash env tok)" by simp_all
    then have "j \<noteq> i" "jm_get (cu_users db) j = Some v" by (auto simp: password_set_def split: if_splits)
    moreover have "user_clash u v \<noteq> None" using link v(2) by (auto simp: user_clash_def)
    ultimately show False using users_inv_clash [OF _ u, of j v] inv by (simp add: auth_inv_def)
  qed
  then have "resetPassword env tok pw' salt' now' ?db' = (Inl (HttpError 400 ''Invalid reset token''), ?db')" for pw' salt' now'
    by (simp add: resetPassword_def)
  with r bcrypt show ?thesis by (auto simp: password_set_def)
qed

text \<open>
  A social login takes over an account that somebody else prepared: when the provider reports the address
  of an account that was registered with a password and never verified, the account is linked and marked
  verified, and its old password still opens it.
\<close>

theorem social_link_keeps_password:
  assumes inv: "auth_inv (tables db)" and u: "jm_get (cu_users db) i = Some u" and pf: "validate_token p d = Inr pf"
    and email: "us_email u = normalizeEmail (pf_email pf)" and pw: "cr_comparePassword (en_crypto env) pw (us_passwordHash u)"
    and unknown: "find_user (\<lambda>u. us_provider u = Some (provider_name p) \<and> us_providerId u = Some (pf_providerId pf)) db = None"
    and db': "db' = snd (authenticateSocial env p (Inr d) r seeds session now db)"
  shows "\<exists>u'. jm_get (cu_users db') i = Some u' \<and> us_isVerified u' \<and> us_provider u' = Some (provider_name p) \<and>
    (\<forall>seed now'. fst (loginUser env (us_email u) pw seed now' db') \<noteq> Inl (HttpError 401 ''Invalid credentials''))"
proof -
  let ?db1 = "db\<lparr>cu_users := jm_set (cu_users db) i (linked p pf u)\<rparr>"
  have f: "find_user (\<lambda>v. us_email v = normalizeEmail (pf_email pf)) db = Some (i, u)"
    by (rule find_user_unique [OF inv u]) (use email in \<open>auto simp: user_clash_def\<close>)
  have "user_conflict (cu_users db) i (linked p pf u) = None"
    by (rule user_conflict_keep [OF _ u]) (use inv in \<open>simp_all add: auth_inv_def\<close>)
  then have up: "update_user i (linked p pf) db = (Inr (), ?db1)" using u by (simp add: update_user_def user_update_def)
  have d: "db' = snd (start_session env i (linked p pf u) session now ?db1)"
    using db' pf unknown f up by (simp add: authenticateSocial_def social_account_def)
  have us: "cu_users db' = jm_set (cu_users db) i (linked p pf u)"
    unfolding d by (auto simp: start_session_def issueSessionTokens_def Let_def split: sum.splits)
  have wf: "users_inv (cu_users db')" unfolding us
    using inv \<open>user_conflict (cu_users db) i (linked p pf u) = None\<close> u
    by (intro users_inv_set) (auto simp: auth_inv_def users_inv_def user_ok_def linked_def)
  have ne: "normalizeEmail (us_email u) = us_email u" using inv u by (auto simp: auth_inv_def users_inv_def user_ok_def)
  have "find_user (\<lambda>v. us_email v = us_email u) db' = Some (i, linked p pf u)"
    unfolding find_user_def
  proof (rule find_unique)
    have i: "jm_get (cu_users db') i = Some (linked p pf u)" using us by simp
    show "j = i" if "jm_get (cu_users db') j = Some v" "us_email v = us_email u" for j v
      using users_inv_clash [OF wf i that(1)] that(2) by (auto simp: user_clash_None)
  qed (use wf us in \<open>auto simp: users_inv_def linked_def\<close>)
  then have "fst (loginUser env (us_email u) pw seed now' db') = fst (start_session env i (linked p pf u) seed now' db')" for seed now'
    using pw ne by (simp add: loginUser_def linked_def)
  moreover have "fst (start_session env i (linked p pf u) seed now' db') \<noteq> Inl (HttpError 401 ''Invalid credentials'')" for seed now'
    by (auto simp: start_session_def issueSessionTokens_def createRefreshTokenRecord_def row_create_def unique_error_def Let_def
        split: sum.splits option.splits)
  ultimately show ?thesis using us by (intro exI [of _ "linked p pf u"]) (auto simp: linked_def)
qed

section \<open>Witnesses\<close>

text \<open>A player registers, asks for a reset link and refreshes the session once.\<close>

definition demo_env :: auth_env where
  "demo_env = \<lparr>en_crypto = demo_crypto, en_keys = demo_ring, en_hashPassword = (\<lambda>salt pw. CHR ''#'' # pw),
     en_sign = (\<lambda>i email name role. ''jwt:'' @ i), en_accessTokenTtl = ''15m'', en_refreshTokenTtl = ''7d'',
     en_refreshTokenTtlMs = 604800000\<rparr>"

definition demo_session :: "string \<Rightarrow> string \<Rightarrow> string \<Rightarrow> session_seed" where
  "demo_session tok i f = \<lparr>ss_token = tok, ss_id = i, ss_family = f\<rparr>"

definition demo_account :: account_seed where
  "demo_account = \<lparr>as_random = 1234, as_userId = ''u1'',
     as_wallet = \<lparr>ws_id = ''w1'', ws_publicKey = ''G1'', ws_secret = ''S1'', ws_iv = ''AA==''\<rparr>,
     as_verification = ''777'', as_session = demo_session ''111'' ''t1'' ''f1''\<rparr>"

definition demo_calls :: "auth_call list" where
  "demo_calls = [Register '' Ann@X.io'' ''pw'' None ''s'' 1234 (\<lambda>_. demo_account) 0, Forgot ''ann@x.io'' ''888'' 0,
     Refresh ''111'' (demo_session ''222'' ''t2'' ''f2'') 5]"

definition demo_auth :: auth_db where
  "demo_auth = foldl (auth_exec demo_env) new_auth_db demo_calls"

abbreviation demo_user :: user where
  "demo_user \<equiv> the (jm_get (cu_users demo_auth) ''u1'')"

abbreviation demo_token :: "string \<Rightarrow> refresh_token" where
  "demo_token k \<equiv> the (jm_get (se_tokens demo_auth) k)"

lemma demo_allowed: "allowed_run (auth_exec demo_env) call_ok new_auth_db demo_calls"
  by code_simp

lemma demo_auth_inv: "auth_inv (tables demo_auth)"
  using accounts.inv_reachable [OF demo_allowed] by (simp add: demo_auth_def)

lemma demo_rows:
  "jm_get (cu_users demo_auth) ''u1'' = Some demo_user"
  "jm_get (se_tokens demo_auth) ''t1'' = Some (demo_token ''t1'')"
  "jm_get (se_tokens demo_auth) ''t2'' = Some (demo_token ''t2'')"
proof -
  have "jm_get (cu_users demo_auth) ''u1'' \<noteq> None" "jm_get (se_tokens demo_auth) ''t1'' \<noteq> None"
    "jm_get (se_tokens demo_auth) ''t2'' \<noteq> None" by code_simp+
  then show "jm_get (cu_users demo_auth) ''u1'' = Some demo_user"
    "jm_get (se_tokens demo_auth) ''t1'' = Some (demo_token ''t1'')"
    "jm_get (se_tokens demo_auth) ''t2'' = Some (demo_token ''t2'')" by simp_all
qed

theorem accounts_well_formed_witness:
  "normalizeEmail (us_email demo_user) = us_email demo_user \<and> 3 \<le> length (us_username demo_user)"
  using accounts_well_formed [OF demo_allowed demo_auth_def] demo_rows(1) by blast

theorem one_live_token_per_family_witness:
  "rt_familyId (demo_token ''t1'') = rt_familyId (demo_token ''t2'') \<and>
   \<not> (rt_revokedAt (demo_token ''t1'') = None \<and> rt_revokedAt (demo_token ''t2'') = None)"
proof -
  have "rt_familyId (demo_token ''t1'') = rt_familyId (demo_token ''t2'')" by code_simp
  with one_live_token_per_family [OF demo_allowed demo_auth_def demo_rows(2,3)] show ?thesis by auto
qed

theorem token_reuse_ends_session_witness:
  "let db1 = snd (refreshSession demo_env ''111'' (demo_session ''333'' ''t3'' ''f3'') 7 demo_auth);
       db2 = foldl (auth_exec demo_env) db1 [Login ''ann@x.io'' ''pw'' (demo_session ''444'' ''t4'' ''f4'') 8]
   in jm_get (se_tokens db2) ''t2'' \<noteq> None \<and> rt_revokedAt (the (jm_get (se_tokens db2) ''t2'')) \<noteq> None"
proof -
  let ?db1 = "snd (refreshSession demo_env ''111'' (demo_session ''333'' ''t3'' ''f3'') 7 demo_auth)"
  let ?calls = "[Login ''ann@x.io'' ''pw'' (demo_session ''444'' ''t4'' ''f4'') 8]"
  let ?db2 = "foldl (auth_exec demo_env) ?db1 ?calls"
  have h: "rt_tokenHash (demo_token ''t1'') = toTokenHash demo_env ''111''" by code_simp
  have u: "rt_revokedAt (demo_token ''t1'') \<noteq> None" "rt_replacedByTokenId (demo_token ''t1'') \<noteq> None" by code_simp+
  have run: "allowed_run (auth_exec demo_env) call_ok ?db1 ?calls" by code_simp
  have "jm_get (se_tokens ?db2) ''t2'' \<noteq> None" by code_simp
  then obtain t where t: "jm_get (se_tokens ?db2) ''t2'' = Some t" by blast
  moreover have "rt_familyId (the (jm_get (se_tokens ?db2) ''t2'')) = rt_familyId (demo_token ''t1'')" by code_simp
  ultimately have "rt_familyId t = rt_familyId (demo_token ''t1'')" by simp
  with token_reuse_ends_session [OF demo_auth_inv demo_rows(2) h u run refl] t have "rt_revokedAt t \<noteq> None" by blast
  with t show ?thesis by (simp only: Let_def option.sel) simp
qed

theorem refresh_rotates_witness:
  "\<not> isl (fst (refreshSession demo_env ''222'' (demo_session ''333'' ''t3'' ''f3'') 7 demo_auth))"
proof -
  have "rt_tokenHash (demo_token ''t2'') = toTokenHash demo_env ''222''" "rt_revokedAt (demo_token ''t2'') = None"
    "7 < rt_expiresAt (demo_token ''t2'')" "rt_userId (demo_token ''t2'') = ''u1''"
    "ss_id (demo_session ''333'' ''t3'' ''f3'') \<noteq> []"
    "jm_get (se_tokens demo_auth) (ss_id (demo_session ''333'' ''t3'' ''f3'')) = None"
    "\<forall>t' \<in> set (jm_values (se_tokens demo_auth)). rt_tokenHash t' \<noteq> toTokenHash demo_env (ss_token (demo_session ''333'' ''t3'' ''f3''))"
    by code_simp+
  from refresh_rotates [OF demo_auth_inv demo_rows(3) this(1-3) _ this(5-7), of demo_user] this(4) demo_rows(1)
  show ?thesis by auto
qed


theorem reset_password_effect_witness:
  "\<not> isl (fst (resetPassword demo_env ''888'' ''new'' ''s'' 7 demo_auth))"
proof -
  have l: "us_passwordResetToken demo_user = Some (toTokenHash demo_env ''888'')"
    "\<not> expired (us_passwordResetExpires demo_user) 7" by code_simp+
  have "\<forall>salt pw. cr_comparePassword (en_crypto demo_env) pw (en_hashPassword demo_env salt pw)"
    by (simp add: demo_env_def demo_crypto_def)
  from reset_password_effect [OF demo_auth_inv demo_rows(1) l this, of "''new''" "''s''"] show ?thesis by auto
qed

theorem social_link_keeps_password_witness:
  "let d = \<lparr>od_email = Some ''Ann@x.io'', od_id = ''g7'', od_name = None, od_username = None\<rparr>;
       db' = snd (authenticateSocial demo_env Google (Inr d) 1234 (\<lambda>_. demo_account) (demo_session ''333'' ''t3'' ''f3'') 7 demo_auth)
   in \<exists>u'. jm_get (cu_users db') ''u1'' = Some u' \<and> us_isVerified u'"
proof -
  let ?d = "\<lparr>od_email = Some ''Ann@x.io'', od_id = ''g7'', od_name = None, od_username = None\<rparr>"
  let ?pf = "\<lparr>pf_email = ''Ann@x.io'', pf_username = ''Ann'', pf_providerId = ''g7''\<rparr>"
  have "validate_token Google ?d = Inr ?pf" "us_email demo_user = normalizeEmail (pf_email ?pf)"
    "cr_comparePassword (en_crypto demo_env) ''pw'' (us_passwordHash demo_user)"
    "find_user (\<lambda>u. us_provider u = Some (provider_name Google) \<and> us_providerId u = Some (pf_providerId ?pf)) demo_auth = None"
    by code_simp+
  from social_link_keeps_password [OF demo_auth_inv demo_rows(1) this refl] show ?thesis unfolding Let_def by blast
qed

end
