(* ===== verification/Sharding.thy ===== *)
theory Sharding
  imports Json Stores Text "HOL-Library.Word"
begin

unbundle bit_operations_syntax

text \<open>
  Sharding of the database (\<^verbatim>\<open>server/src/services/database-sharding.service.ts\<close>): the three ways to find
  the shard of a record, the router with its cached clients, and the service that keeps named
  routers.

  A client of the database is represented by the address it was created for. Whether a shard answers a
  ping, the times, and the random number of the range key are arguments. The hash is computed on 32-bit words,
  as the bit operations of JavaScript do.
\<close>

section \<open>Shard keys\<close>

datatype shard_status = ShardActive | ShardInactive | ShardMaintenance

record shard_config =
  sc_id :: string
  sc_datasourceUrl :: string
  sc_weight :: "rat option"
  sc_region :: "string option"
  sc_status :: "shard_status option"

record shard_range =
  sg_min :: int
  sg_max :: int
  sg_shardId :: string

datatype shard_key =
  UserIdShardKey "(string \<times> string list) list" string
| HashShardKey "string list"
| RangeShardKey "shard_range list" string

definition starts_with :: "string \<Rightarrow> string \<Rightarrow> bool" where
  "starts_with s p \<longleftrightarrow> take (length p) s = p"

text \<open>One step of the loop: \<^verbatim>\<open>hash = (hash << 5) - hash + code; hash |= 0\<close>.\<close>

definition hash_step :: "32 word \<Rightarrow> char \<Rightarrow> 32 word" where
  "hash_step h c = push_bit 5 h - h + of_nat (of_char c)"

definition text_hash :: "string \<Rightarrow> 32 word" where
  "text_hash raw = foldl hash_step 0 raw"

definition hash_index :: "string \<Rightarrow> nat \<Rightarrow> nat" where
  "hash_index raw n = nat (\<bar>sint (text_hash raw)\<bar>) mod n"

text \<open>
  The shard of a record; \<open>None\<close> where the code gives undefined. The user identifier must be a text
  for \<^verbatim>\<open>startsWith\<close>; the last argument is the random number of the range key.
\<close>

fun resolve :: "(rat \<Rightarrow> string) \<Rightarrow> shard_key \<Rightarrow> json \<Rightarrow> int \<Rightarrow> string option result" where
  "resolve num (UserIdShardKey mapping defaultShard) rec r =
     (let userId = json_prop rec ''userId''
      in if \<not> js_truthy userId then Inr (Some defaultShard)
         else (case userId of
             JStr u \<Rightarrow>
               (case List.find (\<lambda>(shardId, pres). list_ex (starts_with u) pres) mapping of
                  Some (shardId, pres) \<Rightarrow> Inr (Some shardId)
                | None \<Rightarrow> Inr (Some defaultShard))
           | _ \<Rightarrow> if list_ex (\<lambda>(shardId, pres). pres \<noteq> []) mapping
                  then Inl (PlainError ''userId.startsWith is not a function'') else Inr (Some defaultShard)))"
| "resolve num (HashShardKey shards) rec r =
     (let raw = write_json num (db_json rec)
      in Inr (if shards = [] then None else Some (shards ! hash_index raw (length shards))))"
| "resolve num (RangeShardKey ranges fallback) rec r =
     (let i = (case json_prop rec ''id'' of JStr s \<Rightarrow> js_parseInt s | _ \<Rightarrow> Some r)
      in case i of
           None \<Rightarrow> Inr (Some fallback)
         | Some i \<Rightarrow>
             (case List.find (\<lambda>g. sg_min g \<le> i \<and> i \<le> sg_max g) ranges of
                Some g \<Rightarrow> Inr (Some (sg_shardId g)) | None \<Rightarrow> Inr (Some fallback)))"

section \<open>Router\<close>

datatype prisma_client = PrismaClient string

record shard_health =
  sh_shardId :: string
  sh_healthy :: bool
  sh_latencyMs :: "int option"
  sh_lastChecked :: int

record shard_router =
  ro_shardKey :: shard_key
  ro_shards :: "(string, shard_config) jsmap"
  ro_clients :: "(string, prisma_client) jsmap"
  ro_health :: "(string, shard_health) jsmap"

definition new_router :: "shard_key \<Rightarrow> shard_router" where
  "new_router key = \<lparr>ro_shardKey = key, ro_shards = jm_empty, ro_clients = jm_empty, ro_health = jm_empty\<rparr>"

definition registerShard :: "shard_config \<Rightarrow> int \<Rightarrow> shard_router \<Rightarrow> shard_router" where
  "registerShard config now r = r
     \<lparr>ro_shards := jm_set (ro_shards r) (sc_id config)
        (config\<lparr>sc_status := (case sc_status config of None \<Rightarrow> Some ShardActive | Some s \<Rightarrow> Some s)\<rparr>),
      ro_health := jm_set (ro_health r) (sc_id config)
        \<lparr>sh_shardId = sc_id config, sh_healthy = True, sh_latencyMs = None, sh_lastChecked = now\<rparr>\<rparr>"

definition registerShards :: "shard_config list \<Rightarrow> int \<Rightarrow> shard_router \<Rightarrow> shard_router" where
  "registerShards configs now r = foldl (\<lambda>r config. registerShard config now r) r configs"

definition createPrismaClient :: "string \<Rightarrow> prisma_client" where
  "createPrismaClient url = PrismaClient url"

definition shard_error :: "string option \<Rightarrow> error" where
  "shard_error i = PlainError (''Shard '' @ CHR 0x22 # (case i of None \<Rightarrow> ''undefined'' | Some s \<Rightarrow> s) @ CHR 0x22 # '' not found or inactive'')"

definition route ::
  "(rat \<Rightarrow> string) \<Rightarrow> json \<Rightarrow> int \<Rightarrow> shard_router \<Rightarrow> (string \<times> prisma_client) result \<times> shard_router" where
  "route num rec rnd r =
     (case resolve num (ro_shardKey r) rec rnd of
        Inl e \<Rightarrow> (Inl e, r)
      | Inr None \<Rightarrow> (Inl (shard_error None), r)
      | Inr (Some shardId) \<Rightarrow>
          (case jm_get (ro_shards r) shardId of
             None \<Rightarrow> (Inl (shard_error (Some shardId)), r)
           | Some config \<Rightarrow>
               if sc_status config = Some ShardInactive then (Inl (shard_error (Some shardId)), r)
               else (case jm_get (ro_clients r) shardId of
                   Some client \<Rightarrow> (Inr (shardId, client), r)
                 | None \<Rightarrow>
                     (let client = createPrismaClient (sc_datasourceUrl config)
                      in (Inr (shardId, client), r\<lparr>ro_clients := jm_set (ro_clients r) shardId client\<rparr>)))))"

definition listShards :: "shard_router \<Rightarrow> shard_config list" where
  "listShards r = jm_values (ro_shards r)"

definition getActiveShardCount :: "shard_router \<Rightarrow> nat" where
  "getActiveShardCount r = length (filter (\<lambda>s. sc_status s \<noteq> Some ShardInactive) (jm_values (ro_shards r)))"

definition getHealth :: "shard_router \<Rightarrow> shard_health list" where
  "getHealth r = jm_values (ro_health r)"

fun for_each ::
  "(prisma_client \<Rightarrow> string \<Rightarrow> shard_router \<Rightarrow> 'a result \<times> shard_router) \<Rightarrow> shard_config list \<Rightarrow> shard_router
     \<Rightarrow> 'a list result \<times> shard_router" where
  "for_each fn [] r = (Inr [], r)"
| "for_each fn (config # rest) r =
     (let client = (case jm_get (ro_clients r) (sc_id config) of
            Some client \<Rightarrow> client | None \<Rightarrow> createPrismaClient (sc_datasourceUrl config));
          r1 = r\<lparr>ro_clients := jm_set (ro_clients r) (sc_id config) client\<rparr>
      in and_then (fn client (sc_id config) r1) (\<lambda>x r2.
           and_then (for_each fn rest r2) (\<lambda>xs r3. (Inr (x # xs), r3))))"

definition forEachShard ::
  "(prisma_client \<Rightarrow> string \<Rightarrow> shard_router \<Rightarrow> 'a result \<times> shard_router) \<Rightarrow> shard_router \<Rightarrow> 'a list result \<times> shard_router" where
  "forEachShard fn r =
     for_each fn (filter (\<lambda>s. sc_status s = Some ShardActive \<or> sc_status s = Some ShardMaintenance) (jm_values (ro_shards r))) r"

definition aggregateAll :: "shard_router \<Rightarrow> 'a result \<times> shard_router" where
  "aggregateAll r =
     and_then (forEachShard (\<lambda>client shardId r1. (Inr client, r1)) r)
       (\<lambda>_ r1. (Inl (PlainError ''Use forEachShard() for shard-wide aggregation.''), r1))"

definition checkHealth :: "(string \<Rightarrow> int option) \<Rightarrow> int \<Rightarrow> shard_router \<Rightarrow> shard_health list result \<times> shard_router" where
  "checkHealth ping now =
     forEachShard (\<lambda>client shardId r1.
       (let h = \<lparr>sh_shardId = shardId, sh_healthy = (ping shardId \<noteq> None), sh_latencyMs = ping shardId, sh_lastChecked = now\<rparr>
        in (Inr h, r1\<lparr>ro_health := jm_set (ro_health r1) shardId h\<rparr>)))"

record rebalance_plan =
  rp_fromShard :: string
  rp_toShard :: string
  rp_model :: string
  rp_estimatedRows :: nat

definition planRebalance :: "string \<Rightarrow> shard_router \<Rightarrow> rebalance_plan list" where
  "planRebalance model r =
     (let activeShards = filter (\<lambda>s. sc_status s = Some ShardActive) (jm_values (ro_shards r))
      in map (\<lambda>i. \<lparr>rp_fromShard = sc_id (activeShards ! i), rp_toShard = sc_id (activeShards ! (i + 1)),
                   rp_model = model, rp_estimatedRows = 0\<rparr>) [0 ..< length activeShards - 1])"

definition disconnect :: "shard_router \<Rightarrow> shard_router" where
  "disconnect r = r\<lparr>ro_clients := jm_sweep (\<lambda>i client. True) (ro_clients r)\<rparr>"

section \<open>Service\<close>

record sharding_service =
  sv_routers :: "(string, shard_router) jsmap"
  sv_defaultShardKey :: "shard_key option"

definition initRouter :: "string \<Rightarrow> shard_key \<Rightarrow> sharding_service \<Rightarrow> shard_router \<times> sharding_service" where
  "initRouter name key sv = (new_router key, sv\<lparr>sv_routers := jm_set (sv_routers sv) name (new_router key)\<rparr>)"

definition getRouter :: "string \<Rightarrow> sharding_service \<Rightarrow> shard_router result" where
  "getRouter name sv =
     (case jm_get (sv_routers sv) name of
        None \<Rightarrow> Inl (PlainError (''Shard router '' @ CHR 0x22 # name @ CHR 0x22 # '' not initialized''))
      | Some router \<Rightarrow> Inr router)"

definition setDefaultShardKey :: "shard_key \<Rightarrow> sharding_service \<Rightarrow> sharding_service" where
  "setDefaultShardKey key sv = sv\<lparr>sv_defaultShardKey := Some key\<rparr>"

fun health_all ::
  "(string \<Rightarrow> int option) \<Rightarrow> int \<Rightarrow> (string \<times> shard_router) list
     \<Rightarrow> (string \<times> shard_health list) list result \<times> (string \<times> shard_router) list" where
  "health_all ping now [] = (Inr [], [])"
| "health_all ping now ((name, router) # rest) =
     (case checkHealth ping now router of
        (Inl e, router') \<Rightarrow> (Inl e, (name, router') # rest)
      | (Inr hs, router') \<Rightarrow>
          (case health_all ping now rest of
             (Inl e, rest') \<Rightarrow> (Inl e, (name, router') # rest')
           | (Inr out, rest') \<Rightarrow> (Inr ((name, hs) # out), (name, router') # rest')))"

definition healthCheckAll ::
  "(string \<Rightarrow> int option) \<Rightarrow> int \<Rightarrow> sharding_service \<Rightarrow> (string \<times> shard_health list) list result \<times> sharding_service" where
  "healthCheckAll ping now sv =
     (case health_all ping now (sv_routers sv) of (res, rs) \<Rightarrow> (res, sv\<lparr>sv_routers := rs\<rparr>))"

definition disconnectAll :: "sharding_service \<Rightarrow> sharding_service" where
  "disconnectAll sv = sv\<lparr>sv_routers := map (\<lambda>(name, router). (name, disconnect router)) (sv_routers sv)\<rparr>"

section \<open>The hash\<close>

text \<open>The reference: the value of the text as digits to the base 31.\<close>

definition poly_hash :: "string \<Rightarrow> int" where
  "poly_hash raw = (\<Sum>i<length raw. int (of_char (raw ! i)) * 31 ^ (length raw - 1 - i))"

lemma hash_step_31: "hash_step h c = 31 * h + of_nat (of_char c)"
proof -
  have "push_bit 5 h = 32 * h" by (simp add: push_bit_eq_mult)
  then show ?thesis by (simp add: hash_step_def algebra_simps)
qed

lemma poly_hash_snoc: "poly_hash (raw @ [c]) = 31 * poly_hash raw + int (of_char c)"
proof -
  have "(\<Sum>i<length raw. int (of_char ((raw @ [c]) ! i)) * 31 ^ (length raw - i))
      = (\<Sum>i<length raw. 31 * (int (of_char (raw ! i)) * 31 ^ (length raw - 1 - i)))"
  proof (rule sum.cong [OF refl])
    fix i assume "i \<in> {..<length raw}"
    then have "length raw - i = Suc (length raw - 1 - i)" "i < length raw" by auto
    then show "int (of_char ((raw @ [c]) ! i)) * 31 ^ (length raw - i)
        = 31 * (int (of_char (raw ! i)) * 31 ^ (length raw - 1 - i))"
      by (simp add: nth_append)
  qed
  then show ?thesis by (simp add: poly_hash_def sum_distrib_left)
qed

lemma text_hash_poly: "text_hash raw = word_of_int (poly_hash raw)"
proof (induction raw rule: rev_induct)
  case Nil
  then show ?case by (simp add: text_hash_def poly_hash_def)
next
  case (snoc c raw)
  then show ?case by (simp add: text_hash_def poly_hash_snoc hash_step_31)
qed

lemma sint_word_of_int_32: "sint (word_of_int x :: 32 word) = (x + 2 ^ 31) mod 2 ^ 32 - 2 ^ 31"
  by (simp add: sint_sbintrunc' signed_take_bit_eq_take_bit_shift take_bit_eq_mod)

section \<open>The router\<close>

datatype router_op =
  Register_shard shard_config int
| Route_record json int
| Check_health "string \<Rightarrow> int option" int
| Disconnect

fun router_exec :: "(rat \<Rightarrow> string) \<Rightarrow> shard_router \<Rightarrow> router_op \<Rightarrow> shard_router" where
  "router_exec num r (Register_shard c now) = registerShard c now r"
| "router_exec num r (Route_record rec rnd) = snd (route num rec rnd r)"
| "router_exec num r (Check_health ping now) = snd (checkHealth ping now r)"
| "router_exec num r Disconnect = disconnect r"

text \<open>A shard is registered once.\<close>

fun router_ok :: "shard_router \<Rightarrow> router_op \<Rightarrow> bool" where
  "router_ok r (Register_shard c now) = (jm_get (ro_shards r) (sc_id c) = None)"
| "router_ok r _ = True"

definition router_inv :: "shard_router \<Rightarrow> bool" where
  "router_inv r \<longleftrightarrow> jm_wf (ro_shards r) \<and> jm_wf (ro_clients r) \<and>
     (\<forall>i c. jm_get (ro_shards r) i = Some c \<longrightarrow> sc_id c = i) \<and>
     (\<forall>i cl. jm_get (ro_clients r) i = Some cl \<longrightarrow>
        (\<exists>c. jm_get (ro_shards r) i = Some c \<and> cl = createPrismaClient (sc_datasourceUrl c)))"

lemma router_inv_register:
  "router_inv r \<Longrightarrow> jm_get (ro_shards r) (sc_id c) = None \<Longrightarrow> router_inv (registerShard c now r)"
  unfolding router_inv_def by (force simp: registerShard_def split: if_splits)

lemma router_client:
  "router_inv r \<Longrightarrow> jm_get (ro_clients r) i = Some cl \<Longrightarrow> jm_get (ro_shards r) i = Some c \<Longrightarrow>
     cl = createPrismaClient (sc_datasourceUrl c)"
  unfolding router_inv_def by fastforce

lemma router_inv_client:
  assumes "router_inv r" "jm_get (ro_shards r) i = Some c"
  shows "router_inv (r\<lparr>ro_clients := jm_set (ro_clients r) i (createPrismaClient (sc_datasourceUrl c))\<rparr>)"
  using assms unfolding router_inv_def by (auto split: if_splits)

lemma router_inv_route: "router_inv r \<Longrightarrow> router_inv (snd (route num rec rnd r))"
  by (auto simp: route_def Let_def split: sum.splits option.splits intro: router_inv_client)

lemma router_inv_health: "router_inv (r\<lparr>ro_health := h\<rparr>) = router_inv r"
  by (simp add: router_inv_def)

lemma for_each_inv:
  assumes "router_inv r" "ro_shards r = shards" "\<And>c. c \<in> set cs \<Longrightarrow> jm_get shards (sc_id c) = Some c"
    and fn: "\<And>cl i r. router_inv r \<Longrightarrow> ro_shards r = shards \<Longrightarrow> router_inv (snd (fn cl i r)) \<and> ro_shards (snd (fn cl i r)) = shards"
  shows "router_inv (snd (for_each fn cs r)) \<and> ro_shards (snd (for_each fn cs r)) = shards"
  using assms(1-3)
proof (induction cs arbitrary: r)
  case (Cons c cs)
  let ?cl = "case jm_get (ro_clients r) (sc_id c) of Some cl \<Rightarrow> cl | None \<Rightarrow> createPrismaClient (sc_datasourceUrl c)"
  let ?r1 = "r\<lparr>ro_clients := jm_set (ro_clients r) (sc_id c) ?cl\<rparr>"
  have c: "jm_get (ro_shards r) (sc_id c) = Some c" using Cons.prems by simp
  have "?cl = createPrismaClient (sc_datasourceUrl c)"
    using router_client [OF Cons.prems(1) _ c] by (auto split: option.splits)
  with router_inv_client [OF Cons.prems(1) c] have r1: "router_inv ?r1" by simp
  obtain x r2 where f: "fn ?cl (sc_id c) ?r1 = (x, r2)" by fastforce
  with fn [OF r1, of ?cl "sc_id c"] Cons.prems(2) have r2: "router_inv r2" "ro_shards r2 = shards" by auto
  obtain y r3 where g: "for_each fn cs r2 = (y, r3)" by fastforce
  with Cons.IH [OF r2] Cons.prems(3) have "router_inv r3" "ro_shards r3 = shards" by auto
  with f g r2 show ?case by (cases x; cases y) (auto simp: Let_def)
qed simp

lemma router_inv_check: "router_inv r \<Longrightarrow> router_inv (snd (checkHealth ping now r))"
proof -
  assume inv: "router_inv r"
  have "jm_get (ro_shards r) (sc_id c) = Some c" if "c \<in> set (jm_values (ro_shards r))" for c
    using jm_values_get [of "ro_shards r" c] inv that by (auto simp: router_inv_def)
  then show ?thesis unfolding checkHealth_def forEachShard_def
    by (intro conjunct1 [OF for_each_inv [OF inv refl]]) (auto simp: router_inv_health Let_def)
qed

lemma router_inv_disconnect: "router_inv r \<Longrightarrow> router_inv (disconnect r)"
  unfolding router_inv_def by (auto simp: disconnect_def jm_get_sweep bind_eq_Some_conv)

lemma router_exec_inv: "router_inv r \<Longrightarrow> router_ok r op \<Longrightarrow> router_inv (router_exec num r op)"
  by (cases op) (simp_all add: router_inv_register router_inv_route router_inv_check router_inv_disconnect)

interpretation routers: invariant_machine "new_router key" "router_exec num" router_ok router_inv for key num
  by unfold_locales (simp_all add: router_exec_inv, simp add: router_inv_def new_router_def jm.get_empty)

section \<open>Properties\<close>

text \<open>
  The hash key computes a polynomial: the loop on 32-bit words is the value of the text of the record to
  the base 31, reduced to a signed 32-bit number, and the shard chosen is the entry of the list at its
  absolute value modulo the length; so every record has a shard of the list, whatever it contains.
\<close>

theorem shard_hash_polynomial:
  assumes "shards \<noteq> []"
  shows "\<exists>h k. h = (poly_hash (write_json num (db_json rec)) + 2 ^ 31) mod 2 ^ 32 - 2 ^ 31 \<and>
    k = nat \<bar>h\<bar> mod length shards \<and> k < length shards \<and>
    resolve num (HashShardKey shards) rec rnd = Inr (Some (shards ! k))"
  using assms by (simp add: hash_index_def text_hash_poly sint_word_of_int_32 del: length_greater_0_conv) simp

text \<open>
  Routing is sound: in a router whose shards are registered once each, a record that is routed goes to a
  registered shard that is not inactive, with a client for the address of that shard; routing the same
  record again gives the same client and changes nothing.
\<close>

theorem route_sound:
  assumes "allowed_run (router_exec num) router_ok (new_router key) ops" and "r = foldl (router_exec num) (new_router key) ops"
    and "route num rec rnd r = (Inr (i, client), r')"
  shows "\<exists>c. jm_get (ro_shards r) i = Some c \<and> sc_status c \<noteq> Some ShardInactive \<and>
    client = createPrismaClient (sc_datasourceUrl c) \<and> ro_shards r' = ro_shards r \<and>
    route num rec rnd r' = (Inr (i, client), r')"
proof -
  have inv: "router_inv r" using routers.inv_reachable [OF assms(1)] assms(2) by simp
  from assms(3) obtain c where c: "resolve num (ro_shardKey r) rec rnd = Inr (Some i)" "jm_get (ro_shards r) i = Some c"
    "sc_status c \<noteq> Some ShardInactive"
    by (auto simp: route_def Let_def split: sum.splits option.splits if_splits)
  show ?thesis
  proof (cases "jm_get (ro_clients r) i")
    case None
    with assms(3) c have "r' = r\<lparr>ro_clients := jm_set (ro_clients r) i client\<rparr>" "client = createPrismaClient (sc_datasourceUrl c)"
      by (auto simp: route_def Let_def)
    with c show ?thesis by (auto simp: route_def)
  next
    case (Some cl)
    with assms(3) c have "r' = r" "client = cl" by (auto simp: route_def)
    with c Some router_client [OF inv Some c(2)] show ?thesis by (auto simp: route_def)
  qed
qed

text \<open>
  A shard that is registered again with another address keeps its old client: after a record was routed
  to a shard, registering the shard under a new address and routing again still gives a client for
  the old one.
\<close>

theorem reregistered_shard_keeps_client:
  assumes "route num rec rnd r = (Inr (i, client), r')" and "sc_id c = i" and "sc_status c \<noteq> Some ShardInactive"
  shows "route num rec rnd (registerShard c now r') = (Inr (i, client), registerShard c now r')"
proof -
  from assms(1) have "resolve num (ro_shardKey r') rec rnd = Inr (Some i)" "jm_get (ro_clients r') i = Some client"
    by (auto simp: route_def Let_def split: sum.splits option.splits if_splits)
  with assms(2,3) show ?thesis by (auto simp: route_def registerShard_def split: option.splits)
qed

section \<open>Witnesses\<close>

definition demo_shard :: "string \<Rightarrow> string \<Rightarrow> shard_config" where
  "demo_shard i url = \<lparr>sc_id = i, sc_datasourceUrl = url, sc_weight = None, sc_region = None, sc_status = None\<rparr>"

definition demo_record :: json where
  "demo_record = JObj [(''userId'', JStr ''u7''), (''score'', JNum 5)]"

definition demo_key :: shard_key where
  "demo_key = UserIdShardKey [(''s1'', [''u''])] ''s0''"

definition demo_ops :: "router_op list" where
  "demo_ops = [Register_shard (demo_shard ''s0'' ''db0'') 1, Register_shard (demo_shard ''s1'' ''db1'') 1]"

definition demo_router :: shard_router where
  "demo_router = foldl (router_exec demo_num) (new_router demo_key) demo_ops"

theorem shard_hash_polynomial_witness:
  "\<exists>k. k < 2 \<and> resolve demo_num (HashShardKey [''s0'', ''s1'']) demo_record 0 = Inr (Some ([''s0'', ''s1''] ! k))"
proof -
  have "[''s0'', ''s1''] \<noteq> []" by simp
  from shard_hash_polynomial [OF this, of demo_num demo_record 0]
  obtain k where "k < length [''s0'', ''s1'']"
    "resolve demo_num (HashShardKey [''s0'', ''s1'']) demo_record 0 = Inr (Some ([''s0'', ''s1''] ! k))" by blast
  moreover have "length [''s0'', ''s1''] = 2" by simp
  ultimately show ?thesis by metis
qed

lemma demo_routed: "\<exists>i client r'. route demo_num demo_record 0 demo_router = (Inr (i, client), r')"
proof -
  have "\<not> isl (fst (route demo_num demo_record 0 demo_router))" by code_simp
  then show ?thesis by (metis isl_def obj_sumE prod.exhaust_sel surj_pair)
qed

theorem route_sound_witness:
  "(case route demo_num demo_record 0 demo_router of
      (Inl e, r') \<Rightarrow> False
    | (Inr (i, client), r') \<Rightarrow> route demo_num demo_record 0 r' = (Inr (i, client), r'))"
proof -
  obtain i client r' where r: "route demo_num demo_record 0 demo_router = (Inr (i, client), r')" using demo_routed by blast
  have "allowed_run (router_exec demo_num) router_ok (new_router demo_key) demo_ops" by code_simp
  from route_sound [OF this demo_router_def r] r show ?thesis by auto
qed

theorem reregistered_shard_keeps_client_witness:
  "(case route demo_num demo_record 0 demo_router of
      (Inl e, r') \<Rightarrow> False
    | (Inr (i, client), r') \<Rightarrow> fst (route demo_num demo_record 0 (registerShard (demo_shard i ''db9'') 2 r')) = Inr (i, client))"
proof -
  obtain i client r' where r: "route demo_num demo_record 0 demo_router = (Inr (i, client), r')" using demo_routed by blast
  have "sc_id (demo_shard i ''db9'') = i" "sc_status (demo_shard i ''db9'') \<noteq> Some ShardInactive" by (simp_all add: demo_shard_def)
  from reregistered_shard_keeps_client [OF r this, of 2] r show ?thesis by simp
qed

end
