(* ===== verification/Quality.thy ===== *)
theory Quality
  imports Complex_Main Prelude Stores "HOL-Library.Multiset"
begin

text \<open>
  Quality of a match (\<^verbatim>\<open>server/src/services/matchmaking-quality.service.ts\<close>): the predictor by moving
  average and the score of a pairing between 0 and 1. Numbers are exact rationals, so the test for a
  value that is not a number never fires; the confidence of a prediction contains a square root and is
  real, the score does not use it. The predictor is an argument of the score, as in the code.
\<close>

section \<open>Players and predictions\<close>

record player_snapshot =
  ps_playerId :: string
  ps_rating :: rat
  ps_recentRatings :: "rat list option"
  ps_regionLatencyMs :: "rat option"
  ps_recentWinRate :: "rat option"
  ps_behaviourCluster :: "string option"

record skill_prediction =
  sp_playerId :: string
  sp_predictedRating :: rat
  sp_confidence :: real

record match_candidate =
  mc_teamA :: "player_snapshot list"
  mc_teamB :: "player_snapshot list"

record quality_breakdown =
  qb_skillBalance :: rat
  qb_latencyBalance :: rat
  qb_behaviourBalance :: rat
  qb_teamSizeBalance :: rat

record quality_score =
  qs_score :: rat
  qs_breakdown :: quality_breakdown

definition SKILL_TOLERANCE :: rat where "SKILL_TOLERANCE = 200"

definition LATENCY_TOLERANCE :: rat where "LATENCY_TOLERANCE = 120"

definition TEAM_IMBALANCE_TOLERANCE :: rat where "TEAM_IMBALANCE_TOLERANCE = 2"

definition WEIGHTS :: "rat \<times> rat \<times> rat \<times> rat" where
  "WEIGHTS = (55 / 100, 2 / 10, 15 / 100, 1 / 10)"

text \<open>\<^verbatim>\<open>xs.slice(-n)\<close>; for 0 that is the whole list.\<close>

definition slice_last :: "nat \<Rightarrow> 'a list \<Rightarrow> 'a list" where
  "slice_last n xs = (if n = 0 then xs else drop (length xs - n) xs)"

definition rat_mean :: "rat list \<Rightarrow> rat" where
  "rat_mean xs = sum_list xs / of_nat (length xs)"

definition predicted_rating :: "nat \<Rightarrow> player_snapshot \<Rightarrow> rat" where
  "predicted_rating windowSize p =
     (let recent = slice_last windowSize (case ps_recentRatings p of None \<Rightarrow> [] | Some rs \<Rightarrow> rs)
      in if recent = [] then ps_rating p
         else (let mean = rat_mean recent in 6 / 10 * mean + 4 / 10 * ps_rating p))"

definition predicted_confidence :: "nat \<Rightarrow> player_snapshot \<Rightarrow> real" where
  "predicted_confidence windowSize p =
     (let recent = slice_last windowSize (case ps_recentRatings p of None \<Rightarrow> [] | Some rs \<Rightarrow> rs)
      in if recent = [] then 1 / 10
         else (let mean = rat_mean recent;
                   variance = rat_mean (map (\<lambda>r. (r - mean) ^ 2) recent);
                   variance0to1 = min 1 (sqrt (of_rat variance) / 400)
               in max (1 / 10) (min 1 (real (length recent) / real windowSize) - variance0to1)))"

definition predict :: "nat \<Rightarrow> player_snapshot \<Rightarrow> skill_prediction" where
  "predict windowSize p =
     \<lparr>sp_playerId = ps_playerId p, sp_predictedRating = predicted_rating windowSize p,
      sp_confidence = predicted_confidence windowSize p\<rparr>"

section \<open>Score\<close>

definition meanRating :: "(player_snapshot \<Rightarrow> skill_prediction) \<Rightarrow> player_snapshot list \<Rightarrow> rat" where
  "meanRating predictor team = (if team = [] then 0 else rat_mean (map (\<lambda>p. sp_predictedRating (predictor p)) team))"

definition meanLatency :: "player_snapshot list \<Rightarrow> rat" where
  "meanLatency team =
     (let sampled = List.map_filter ps_regionLatencyMs team in if sampled = [] then 0 else rat_mean sampled)"

definition behaviourMix :: "player_snapshot list \<Rightarrow> (string, nat) jsmap" where
  "behaviourMix team =
     foldl (\<lambda>counts p. (let k = (case ps_behaviourCluster p of None \<Rightarrow> ''unknown'' | Some c \<Rightarrow> c)
       in jm_set counts k ((case jm_get counts k of None \<Rightarrow> 0 | Some n \<Rightarrow> n) + 1))) jm_empty team"

definition count_of :: "(string, nat) jsmap \<Rightarrow> string \<Rightarrow> nat" where
  "count_of m k = (case jm_get m k of None \<Rightarrow> 0 | Some n \<Rightarrow> n)"

definition jaccard :: "(string, nat) jsmap \<Rightarrow> (string, nat) jsmap \<Rightarrow> rat" where
  "jaccard a b =
     (let keys = js_uniq (map fst a @ map fst b);
          intersection = sum_list (map (\<lambda>k. min (count_of a k) (count_of b k)) keys);
          union = sum_list (map (\<lambda>k. max (count_of a k) (count_of b k)) keys)
      in if union = 0 then 1 else of_nat intersection / of_nat union)"

definition clamp01 :: "rat \<Rightarrow> rat" where
  "clamp01 n = max 0 (min 1 n)"

definition scoreMatchQuality :: "match_candidate \<Rightarrow> (player_snapshot \<Rightarrow> skill_prediction) \<Rightarrow> quality_score" where
  "scoreMatchQuality candidate predictor =
     (let ratingA = meanRating predictor (mc_teamA candidate);
          ratingB = meanRating predictor (mc_teamB candidate);
          skillBalance = clamp01 (1 - \<bar>ratingA - ratingB\<bar> / SKILL_TOLERANCE);
          latencyA = meanLatency (mc_teamA candidate);
          latencyB = meanLatency (mc_teamB candidate);
          latencyBalance = clamp01 (1 - \<bar>latencyA - latencyB\<bar> / LATENCY_TOLERANCE);
          behaviourBalance = clamp01 (jaccard (behaviourMix (mc_teamA candidate)) (behaviourMix (mc_teamB candidate)));
          teamSizeBalance = clamp01 (1 - \<bar>of_nat (length (mc_teamA candidate)) - of_nat (length (mc_teamB candidate))\<bar>
            / TEAM_IMBALANCE_TOLERANCE);
          (wSkill, wLatency, wBehaviour, wTeamSize) = WEIGHTS;
          score = wSkill * skillBalance + wLatency * latencyBalance + wBehaviour * behaviourBalance + wTeamSize * teamSizeBalance
      in \<lparr>qs_score = clamp01 score,
          qs_breakdown = \<lparr>qb_skillBalance = skillBalance, qb_latencyBalance = latencyBalance,
            qb_behaviourBalance = behaviourBalance, qb_teamSizeBalance = teamSizeBalance\<rparr>\<rparr>)"

section \<open>Counts and clamps\<close>

lemma clamp01_bounds: "0 \<le> clamp01 x" "clamp01 x \<le> 1"
  by (simp_all add: clamp01_def)

lemma clamp01_id: "0 \<le> x \<Longrightarrow> x \<le> 1 \<Longrightarrow> clamp01 x = x"
  by (simp add: clamp01_def)

text \<open>The clamp of the total is never needed: the weights are those of a mean.\<close>

lemma weighted_bounds:
  fixes a b c d :: rat
  assumes "0 \<le> a" "a \<le> 1" "0 \<le> b" "b \<le> 1" "0 \<le> c" "c \<le> 1" "0 \<le> d" "d \<le> 1"
  shows "0 \<le> 55 / 100 * a + 2 / 10 * b + 15 / 100 * c + 1 / 10 * d"
    and "55 / 100 * a + 2 / 10 * b + 15 / 100 * c + 1 / 10 * d \<le> 1"
  using assms by simp_all

lemma weighted_unclamped:
  "clamp01 (55 / 100 * clamp01 a + 2 / 10 * clamp01 b + 15 / 100 * clamp01 c + 1 / 10 * clamp01 d)
     = 55 / 100 * clamp01 a + 2 / 10 * clamp01 b + 15 / 100 * clamp01 c + 1 / 10 * clamp01 d"
  by (rule clamp01_id; rule weighted_bounds; rule clamp01_bounds)

definition cluster :: "player_snapshot \<Rightarrow> string" where
  "cluster p = (case ps_behaviourCluster p of None \<Rightarrow> ''unknown'' | Some c \<Rightarrow> c)"

lemma behaviourMix_snoc: "behaviourMix (team @ [p]) = jm_set (behaviourMix team) (cluster p) (count_of (behaviourMix team) (cluster p) + 1)"
  by (simp add: behaviourMix_def cluster_def count_of_def Let_def)

lemma behaviourMix_count: "count_of (behaviourMix team) k = length (filter (\<lambda>p. cluster p = k) team)"
proof (induction team rule: rev_induct)
  case Nil
  then show ?case by (simp add: behaviourMix_def count_of_def jm.get_empty)
next
  case (snoc p team)
  then show ?case by (simp add: behaviourMix_snoc) (simp add: count_of_def)
qed

lemma jaccard_sym: "jaccard a b = jaccard b a"
proof -
  let ?ab = "js_uniq (map fst a @ map fst b)" and ?ba = "js_uniq (map fst b @ map fst a)"
  have i: "sum_list (map (\<lambda>k. min (count_of a k) (count_of b k)) ?ab) = sum_list (map (\<lambda>k. min (count_of b k) (count_of a k)) ?ba)"
    by (simp add: sum_list_distinct_conv_sum_set Un_commute min.commute)
  have u: "sum_list (map (\<lambda>k. max (count_of a k) (count_of b k)) ?ab) = sum_list (map (\<lambda>k. max (count_of b k) (count_of a k)) ?ba)"
    by (simp add: sum_list_distinct_conv_sum_set Un_commute max.commute)
  show ?thesis by (simp only: jaccard_def Let_def i u)
qed

lemma ratio_bounds:
  fixes i u :: nat
  shows "i \<le> u \<Longrightarrow> 0 \<le> (if u = 0 then 1 else of_nat i / of_nat u :: rat) \<and> (if u = 0 then 1 else of_nat i / of_nat u :: rat) \<le> 1"
  by (simp add: divide_le_eq_1)

lemma jaccard_bounds: "0 \<le> jaccard a b \<and> jaccard a b \<le> 1"
  unfolding jaccard_def Let_def by (rule ratio_bounds) (rule sum_list_mono, simp)

lemma jaccard_same: "(\<And>k. count_of a k = count_of b k) \<Longrightarrow> jaccard a b = 1"
  by (simp add: jaccard_def Let_def)

text \<open>Means do not depend on the order of a team.\<close>

lemma rat_mean_mset: "mset xs = mset ys \<Longrightarrow> rat_mean xs = rat_mean ys"
  using mset_eq_length [of xs ys] by (simp add: rat_mean_def flip: sum_mset_sum_list)

lemma map_filter_mset: "mset (List.map_filter f xs) = image_mset (the \<circ> f) (filter_mset (\<lambda>x. f x \<noteq> None) (mset xs))"
  by (simp add: map_filter_def)

lemma meanRating_mset: "mset a = mset b \<Longrightarrow> meanRating predictor a = meanRating predictor b"
  using rat_mean_mset [of "map (\<lambda>p. sp_predictedRating (predictor p)) a" "map (\<lambda>p. sp_predictedRating (predictor p)) b"]
  by (cases "a = []"; cases "b = []") (auto simp: meanRating_def)

lemma meanLatency_mset: "mset a = mset b \<Longrightarrow> meanLatency a = meanLatency b"
proof -
  assume "mset a = mset b"
  then have m: "mset (List.map_filter ps_regionLatencyMs a) = mset (List.map_filter ps_regionLatencyMs b)"
    by (simp add: map_filter_mset)
  then have "List.map_filter ps_regionLatencyMs a = [] \<longleftrightarrow> List.map_filter ps_regionLatencyMs b = []"
    by (metis mset_zero_iff)
  with rat_mean_mset [OF m] show ?thesis by (simp add: meanLatency_def Let_def)
qed

lemma behaviourMix_mset: "mset a = mset b \<Longrightarrow> count_of (behaviourMix a) k = count_of (behaviourMix b) k"
  by (metis behaviourMix_count mset_filter size_mset)

lemma keys_dom: "set (map fst m) = dom (jm_get m)"
proof -
  have "jm_get m = map_of m" by (rule ext) (simp add: jm_get_def)
  then show ?thesis by (simp add: dom_map_of_conv_image_fst)
qed

lemma behaviourMix_keys: "set (map fst (behaviourMix team)) = cluster ` set team"
  unfolding keys_dom
proof (induction team rule: rev_induct)
  case Nil
  then show ?case by (simp add: behaviourMix_def jm.get_empty)
next
  case (snoc p team)
  then show ?case by (auto simp: behaviourMix_snoc dom_def split: if_splits)
qed

lemma jaccard_cong:
  assumes "\<And>k. count_of a k = count_of a' k" and "set (map fst a) = set (map fst a')"
  shows "jaccard a m = jaccard a' m"
proof -
  have "sum_list (map f (js_uniq (map fst a @ map fst m))) = sum_list (map f (js_uniq (map fst a' @ map fst m)))" for f :: "string \<Rightarrow> nat"
    using assms(2) by (simp add: sum_list_distinct_conv_sum_set)
  then show ?thesis by (simp only: jaccard_def Let_def assms(1))
qed

lemma jaccard_mset: "mset a = mset a' \<Longrightarrow> jaccard (behaviourMix a) m = jaccard (behaviourMix a') m"
  by (rule jaccard_cong) (auto simp only: behaviourMix_keys intro: behaviourMix_mset dest: mset_eq_setD)

section \<open>Properties\<close>

text \<open>
  The quality of a match is a fair measure: the score and each part of it lie between 0 and 1, so the final
  clamp never changes the weighted sum; exchanging the two teams or reordering the players of a team
  changes nothing; and a team against an equal team, in any order, scores 1.
\<close>

theorem match_quality_fair:
  fixes predictor :: "player_snapshot \<Rightarrow> skill_prediction"
  defines "q \<equiv> \<lambda>a b. scoreMatchQuality \<lparr>mc_teamA = a, mc_teamB = b\<rparr> predictor"
  shows "0 \<le> qs_score (q a b) \<and> qs_score (q a b) \<le> 1 \<and>
    qs_score (q a b) = 55 / 100 * qb_skillBalance (qs_breakdown (q a b)) + 2 / 10 * qb_latencyBalance (qs_breakdown (q a b))
      + 15 / 100 * qb_behaviourBalance (qs_breakdown (q a b)) + 1 / 10 * qb_teamSizeBalance (qs_breakdown (q a b)) \<and>
    q a b = q b a \<and> (mset a = mset a' \<longrightarrow> q a b = q a' b) \<and> (mset a = mset b \<longrightarrow> qs_score (q a b) = 1)"
proof -
  note unfold = q_def scoreMatchQuality_def Let_def WEIGHTS_def prod.case quality_score.simps quality_breakdown.simps match_candidate.simps
  have eq: "q a b = q b a"
    by (simp only: unfold abs_minus_commute [of "meanRating predictor a" "meanRating predictor b"]
        abs_minus_commute [of "meanLatency a" "meanLatency b"] abs_minus_commute [of "of_nat (length a)" "of_nat (length b)"]
        jaccard_sym [of "behaviourMix a" "behaviourMix b"])
  have "q a b = q a' b" if "mset a = mset a'"
    by (simp only: unfold mset_eq_length [OF that] meanRating_mset [OF that] meanLatency_mset [OF that] jaccard_mset [OF that])
  moreover have "qs_score (q a b) = 1" if "mset a = mset b"
  proof -
    have j: "jaccard (behaviourMix b) (behaviourMix b) = 1" by (rule jaccard_same) (rule refl)
    have one: "clamp01 (1 - \<bar>x - x\<bar> / y) = 1" "clamp01 1 = 1" for x y by (simp_all add: clamp01_def)
    have "clamp01 (55 / 100 * 1 + 2 / 10 * 1 + 15 / 100 * 1 + 1 / 10 * 1) = 1" by (simp add: clamp01_def)
    then show ?thesis
      by (simp only: unfold mset_eq_length [OF that] meanRating_mset [OF that] meanLatency_mset [OF that] jaccard_mset [OF that] j one)
  qed
  moreover have "qs_score (q a b) = 55 / 100 * qb_skillBalance (qs_breakdown (q a b)) + 2 / 10 * qb_latencyBalance (qs_breakdown (q a b))
      + 15 / 100 * qb_behaviourBalance (qs_breakdown (q a b)) + 1 / 10 * qb_teamSizeBalance (qs_breakdown (q a b))"
    by (simp only: unfold weighted_unclamped)
  moreover have "0 \<le> qs_score (q a b) \<and> qs_score (q a b) \<le> 1"
    by (simp only: unfold clamp01_bounds simp_thms)
  ultimately show ?thesis using eq by blast
qed

section \<open>Witness\<close>

definition demo_snapshot :: "string \<Rightarrow> rat \<Rightarrow> player_snapshot" where
  "demo_snapshot i r = \<lparr>ps_playerId = i, ps_rating = r, ps_recentRatings = Some [r, r + 20], ps_regionLatencyMs = Some 40,
     ps_recentWinRate = None, ps_behaviourCluster = None\<rparr>"

theorem match_quality_fair_witness:
  "let a = demo_snapshot ''a'' 1000; b = demo_snapshot ''b'' 1200
   in qs_score (scoreMatchQuality \<lparr>mc_teamA = [a, b], mc_teamB = [b, a]\<rparr> (predict 10)) = 1"
proof -
  let ?a = "[demo_snapshot ''a'' 1000, demo_snapshot ''b'' 1200]" and ?b = "[demo_snapshot ''b'' 1200, demo_snapshot ''a'' 1000]"
  have "mset ?a = mset ?b" by simp
  with match_quality_fair [where a = ?a and b = ?b and predictor = "predict 10" and a' = ?a]
  show ?thesis unfolding Let_def by blast
qed

end
