(* ===== verification/Caching.thy ===== *)
theory Caching
  imports Stores
begin

text \<open>
  The cache of the server (\<^verbatim>\<open>server/src/services/cache.service.ts\<close>): the in-memory backend, and the service
  that uses Redis while it is connected and the memory of the process otherwise.

  A cached text is represented by the value it is the JSON of; the text \<^verbatim>\<open>null\<close> is \<open>None\<close>. Redis is not part
  of the program: its commands are the argument \<open>R\<close>, a command may fail, and what the service relies on
  is the contract \<open>cache_backend\<close>, the interface \<^verbatim>\<open>ICacheBackend\<close> of the source. The contract is proved for the
  in-memory backend, and for the service on top of any Redis that meets it. Times are arguments, in
  milliseconds; lifetimes are in seconds.
\<close>

section \<open>The contract of a cache\<close>

text \<open>
  \<open>view t s k\<close> is what a reader at time \<open>t\<close> finds under \<open>k\<close>. An entry is visible before its time is over and
  gone after it; the contract leaves open which of the two holds in the last millisecond.
\<close>

locale cache_backend =
  fixes get :: "int \<Rightarrow> string \<Rightarrow> 's \<Rightarrow> 'v option \<times> 's"
    and put :: "int \<Rightarrow> string \<Rightarrow> 'v \<Rightarrow> int \<Rightarrow> 's \<Rightarrow> 's"
    and del :: "int \<Rightarrow> string \<Rightarrow> 's \<Rightarrow> 's"
    and clear :: "int \<Rightarrow> 's \<Rightarrow> 's"
    and view :: "int \<Rightarrow> 's \<Rightarrow> string \<Rightarrow> 'v option"
  assumes get_value: "fst (get t k s) = view t s k"
    and get_keeps: "t \<le> t' \<Longrightarrow> view t' (snd (get t k s)) k' = view t' s k'"
    and put_live: "t \<le> t' \<Longrightarrow> t' < t + ttl * 1000 \<Longrightarrow> view t' (put t k v ttl s) k = Some v"
    and put_only: "t \<le> t' \<Longrightarrow> view t' (put t k v ttl s) k = Some w \<Longrightarrow> w = v \<and> t' \<le> t + ttl * 1000"
    and put_other: "t \<le> t' \<Longrightarrow> k' \<noteq> k \<Longrightarrow> view t' (put t k v ttl s) k' = view t' s k'"
    and del_same: "t \<le> t' \<Longrightarrow> view t' (del t k s) k = None"
    and del_other: "t \<le> t' \<Longrightarrow> k' \<noteq> k \<Longrightarrow> view t' (del t k s) k' = view t' s k'"
    and clear_all: "t \<le> t' \<Longrightarrow> view t' (clear t s) k = None"
    and only_expires: "t \<le> t' \<Longrightarrow> view t' s k = Some v \<Longrightarrow> view t s k = Some v"

text \<open>A cache is coherent with a source of truth if everything it shows is what the source has.\<close>

definition coherent :: "(string \<Rightarrow> 'v option) \<Rightarrow> (string \<Rightarrow> 'v option) \<Rightarrow> bool" where
  "coherent src vw \<longleftrightarrow> (\<forall>k v. vw k = Some v \<longrightarrow> src k = Some v)"

lemma coherentD: "coherent src vw \<Longrightarrow> vw k = Some v \<Longrightarrow> src k = Some v"
  by (simp add: coherent_def)

context cache_backend
begin

lemma coherent_later: "coherent src (view t s) \<Longrightarrow> t \<le> t' \<Longrightarrow> coherent src (view t' s)"
  unfolding coherent_def using only_expires by blast

lemma coherent_get: "coherent src (view t s) \<Longrightarrow> coherent src (view t (snd (get t k s)))"
  by (simp add: coherent_def get_keeps)

lemma coherent_put:
  assumes "coherent src (view t s)" and "src' k = Some v" and "\<And>k'. k' \<noteq> k \<Longrightarrow> src' k' = src k'"
  shows "coherent src' (view t (put t k v ttl s))"
  unfolding coherent_def
proof (intro allI impI)
  fix k' w
  assume v: "view t (put t k v ttl s) k' = Some w"
  show "src' k' = Some w"
  proof (cases "k' = k")
    case True
    with v assms(2) put_only [of t t k v ttl s w] show ?thesis by simp
  next
    case False
    with v assms(1,3) put_other [of t t k' k v ttl s] show ?thesis by (simp add: coherent_def)
  qed
qed

lemma coherent_del:
  assumes "coherent src (view t s)" and "\<And>k'. k' \<noteq> k \<Longrightarrow> src' k' = src k'"
  shows "coherent src' (view t (del t k s))"
  unfolding coherent_def
proof (intro allI impI)
  fix k' w
  assume v: "view t (del t k s) k' = Some w"
  show "src' k' = Some w"
  proof (cases "k' = k")
    case True
    with v del_same [of t t k s] show ?thesis by simp
  next
    case False
    with v assms del_other [of t t k' k s] show ?thesis by (simp add: coherent_def)
  qed
qed

lemma coherent_read: "coherent src (view t s) \<Longrightarrow> fst (get t k s) = Some v \<Longrightarrow> src k = Some v"
  by (simp add: coherent_def get_value)

end

section \<open>What a sequence of calls leaves in a cache\<close>

text \<open>
  The abstract cache: for each key the last value written, and when it ends. Calls carry the time they are made at.
\<close>

datatype 'v cache_op = CacheRead string | CacheWrite string 'v int | CacheDrop string | CacheWipe

fun cache_exec ::
  "(int \<Rightarrow> string \<Rightarrow> 's \<Rightarrow> 'v option \<times> 's) \<Rightarrow> (int \<Rightarrow> string \<Rightarrow> 'v \<Rightarrow> int \<Rightarrow> 's \<Rightarrow> 's) \<Rightarrow> (int \<Rightarrow> string \<Rightarrow> 's \<Rightarrow> 's)
     \<Rightarrow> (int \<Rightarrow> 's \<Rightarrow> 's) \<Rightarrow> 's \<Rightarrow> int \<times> 'v cache_op \<Rightarrow> 's" where
  "cache_exec get put del clear s (t, CacheRead k) = snd (get t k s)"
| "cache_exec get put del clear s (t, CacheWrite k v ttl) = put t k v ttl s"
| "cache_exec get put del clear s (t, CacheDrop k) = del t k s"
| "cache_exec get put del clear s (t, CacheWipe) = clear t s"

fun abs_exec :: "(string \<Rightarrow> ('v \<times> int) option) \<Rightarrow> int \<times> 'v cache_op \<Rightarrow> (string \<Rightarrow> ('v \<times> int) option)" where
  "abs_exec m (t, CacheRead k) = m"
| "abs_exec m (t, CacheWrite k v ttl) = m(k \<mapsto> (v, t + ttl * 1000))"
| "abs_exec m (t, CacheDrop k) = m(k := None)"
| "abs_exec m (t, CacheWipe) = Map.empty"

text \<open>A reader at time \<open>t\<close> who sees \<open>r\<close> sees what the abstract entry \<open>e\<close> has.\<close>

definition shows_entry :: "int \<Rightarrow> 'v option \<Rightarrow> ('v \<times> int) option \<Rightarrow> bool" where
  "shows_entry t r e =
     (case e of None \<Rightarrow> r = None
      | Some (v, ends) \<Rightarrow> (t < ends \<longrightarrow> r = Some v) \<and> (ends < t \<longrightarrow> r = None) \<and> (t = ends \<longrightarrow> r = None \<or> r = Some v))"

context cache_backend
begin

lemma exec_shows:
  assumes "\<And>t' k. t \<le> t' \<Longrightarrow> shows_entry t' (view t' s k) (m k)" and "t \<le> t1" and "t1 \<le> t'"
  shows "shows_entry t' (view t' (cache_exec get put del clear s (t1, c)) k) (abs_exec m (t1, c) k)"
proof -
  from assms have old: "shows_entry t' (view t' s j) (m j)" for j by simp
  show ?thesis
  proof (cases c)
    case (CacheRead j)
    with old assms(3) show ?thesis by (simp add: get_keeps)
  next
    case (CacheWrite j v ttl)
    show ?thesis
    proof (cases "k = j")
      case True
      have "view t' (put t1 j v ttl s) j = None" if "t1 + ttl * 1000 < t'"
        using put_only [OF assms(3), of j v ttl s] that by (cases "view t' (put t1 j v ttl s) j") auto
      moreover have "view t' (put t1 j v ttl s) j \<in> {None, Some v}"
        using put_only [OF assms(3), of j v ttl s] by (cases "view t' (put t1 j v ttl s) j") auto
      ultimately show ?thesis
        using CacheWrite True put_live [OF assms(3), of ttl j v s] by (auto simp: shows_entry_def)
    qed (use CacheWrite old assms(3) in \<open>simp add: put_other\<close>)
  next
    case (CacheDrop j)
    with old assms(3) show ?thesis by (cases "k = j") (simp_all add: del_same del_other shows_entry_def)
  next
    case CacheWipe
    with assms(3) show ?thesis by (simp add: clear_all shows_entry_def)
  qed
qed

lemma run_shows:
  assumes "sorted (map fst ops)" and "\<forall>x\<in>set ops. t0 \<le> fst x \<and> fst x \<le> t" and "t0 \<le> t"
    and "\<And>t' k. t0 \<le> t' \<Longrightarrow> shows_entry t' (view t' s k) (m k)"
  shows "shows_entry t (view t (foldl (cache_exec get put del clear) s ops) k) (foldl abs_exec m ops k)"
  using assms
proof (induction ops arbitrary: s m t0)
  case (Cons x ops)
  obtain t1 c where x: "x = (t1, c)" by (cases x)
  have "shows_entry t' (view t' (cache_exec get put del clear s x) k) (abs_exec m x k)" if "t1 \<le> t'" for t' k
    unfolding x using exec_shows [of t0 s m t1 t' c k] Cons.prems(2,4) that x by simp
  with Cons.IH [of t1 "cache_exec get put del clear s x" "abs_exec m x"] Cons.prems x show ?case by simp
qed simp

end

section \<open>The in-memory backend\<close>

record 'v mem_entry =
  me_value :: 'v
  me_expiry :: int

type_synonym 'v mem_store = "(string, 'v mem_entry) jsmap"

definition mem_get :: "int \<Rightarrow> string \<Rightarrow> 'v mem_store \<Rightarrow> 'v option \<times> 'v mem_store" where
  "mem_get now k s =
     (case jm_get s k of
        None \<Rightarrow> (None, s)
      | Some entry \<Rightarrow> if me_expiry entry < now then (None, jm_delete s k) else (Some (me_value entry), s))"

definition mem_set :: "int \<Rightarrow> string \<Rightarrow> 'v \<Rightarrow> int \<Rightarrow> 'v mem_store \<Rightarrow> 'v mem_store" where
  "mem_set now k v ttlSeconds s = jm_set s k \<lparr>me_value = v, me_expiry = now + ttlSeconds * 1000\<rparr>"

definition mem_delete :: "string \<Rightarrow> 'v mem_store \<Rightarrow> 'v mem_store" where
  "mem_delete k s = jm_delete s k"

definition mem_clear :: "'v mem_store \<Rightarrow> 'v mem_store" where
  "mem_clear s = jm_empty"

text \<open>The loop deletes while it iterates, which a \<^verbatim>\<open>Map\<close> allows.\<close>

definition evictExpired :: "int \<Rightarrow> 'v mem_store \<Rightarrow> 'v mem_store" where
  "evictExpired now s = jm_sweep (\<lambda>k entry. me_expiry entry < now) s"

definition mem_view :: "int \<Rightarrow> 'v mem_store \<Rightarrow> string \<Rightarrow> 'v option" where
  "mem_view now s k =
     (case jm_get s k of None \<Rightarrow> None | Some entry \<Rightarrow> if me_expiry entry < now then None else Some (me_value entry))"

interpretation mem: cache_backend mem_get mem_set "\<lambda>t. mem_delete" "\<lambda>t. mem_clear" mem_view
  by unfold_locales
    (auto simp: mem_get_def mem_set_def mem_delete_def mem_clear_def mem_view_def jm_get_delete
      split: option.splits if_splits)

text \<open>Clearing out expired entries is not seen by any reader from then on, and frees exactly them.\<close>

lemma evict_invisible: "jm_wf s \<Longrightarrow> t \<le> t' \<Longrightarrow> mem_view t' (evictExpired t s) k = mem_view t' s k"
  by (auto simp: mem_view_def evictExpired_def jm_get_sweep split: option.splits)

lemma evict_frees: "jm_wf s \<Longrightarrow> jm_get (evictExpired t s) k = Some e \<Longrightarrow> t \<le> me_expiry e"
  by (auto simp: evictExpired_def jm_get_sweep bind_eq_Some_conv split: if_splits)

section \<open>The service\<close>

text \<open>The commands of Redis; each may fail and then leaves some state behind.\<close>

record ('r, 'v) redis_commands =
  rc_get :: "int \<Rightarrow> string \<Rightarrow> 'r \<Rightarrow> 'v option result \<times> 'r"
  rc_set :: "int \<Rightarrow> string \<Rightarrow> 'v \<Rightarrow> int \<Rightarrow> 'r \<Rightarrow> unit result \<times> 'r"
  rc_del :: "int \<Rightarrow> string \<Rightarrow> 'r \<Rightarrow> unit result \<times> 'r"
  rc_flushdb :: "int \<Rightarrow> 'r \<Rightarrow> unit result \<times> 'r"

record ('r, 'v) cache_service =
  ca_redis :: "'r option"
  ca_ready :: bool
  ca_memory :: "'v option mem_store"
  ca_defaultTTL :: int

definition new_cache :: "'r option \<Rightarrow> int \<Rightarrow> ('r, 'v) cache_service" where
  "new_cache redis defaultTTL =
     \<lparr>ca_redis = redis, ca_ready = False, ca_memory = jm_empty, ca_defaultTTL = defaultTTL\<rparr>"

text \<open>The connection events: \<^verbatim>\<open>ready\<close>, and \<^verbatim>\<open>error\<close> or \<^verbatim>\<open>close\<close>.\<close>

definition on_ready :: "('r, 'v) cache_service \<Rightarrow> ('r, 'v) cache_service" where
  "on_ready c = c\<lparr>ca_ready := True\<rparr>"

definition on_close :: "('r, 'v) cache_service \<Rightarrow> ('r, 'v) cache_service" where
  "on_close c = c\<lparr>ca_ready := False\<rparr>"

definition isRedisConnected :: "('r, 'v) cache_service \<Rightarrow> bool" where
  "isRedisConnected c \<longleftrightarrow> ca_redis c \<noteq> None \<and> ca_ready c"

definition memorySize :: "('r, 'v) cache_service \<Rightarrow> nat" where
  "memorySize c = length (ca_memory c)"

text \<open>The active backend: Redis while it is connected.\<close>

definition backend :: "('r, 'v) cache_service \<Rightarrow> 'r option" where
  "backend c = (if isRedisConnected c then ca_redis c else None)"

definition cacheGet :: "('r, 'v option) redis_commands \<Rightarrow> int \<Rightarrow> string \<Rightarrow> ('r, 'v) cache_service \<Rightarrow> 'v option \<times> ('r, 'v) cache_service" where
  "cacheGet R now k c =
     (case backend c of
        Some r \<Rightarrow>
          (case rc_get R now k r of
             (Inl e, r') \<Rightarrow> (None, c\<lparr>ca_redis := Some r'\<rparr>)
           | (Inr raw, r') \<Rightarrow> (case raw of None \<Rightarrow> None | Some v \<Rightarrow> v, c\<lparr>ca_redis := Some r'\<rparr>))
      | None \<Rightarrow>
          (let (raw, m') = mem_get now k (ca_memory c)
           in (case raw of None \<Rightarrow> None | Some v \<Rightarrow> v, c\<lparr>ca_memory := m'\<rparr>)))"

definition cacheSet ::
  "('r, 'v option) redis_commands \<Rightarrow> int \<Rightarrow> string \<Rightarrow> 'v option \<Rightarrow> int option \<Rightarrow> ('r, 'v) cache_service \<Rightarrow> ('r, 'v) cache_service" where
  "cacheSet R now k v ttl c =
     (let seconds = (case ttl of None \<Rightarrow> ca_defaultTTL c | Some n \<Rightarrow> n)
      in case backend c of
           Some r \<Rightarrow> c\<lparr>ca_redis := Some (snd (rc_set R now k v seconds r))\<rparr>
         | None \<Rightarrow> c\<lparr>ca_memory := mem_set now k v seconds (ca_memory c)\<rparr>)"

definition cacheDelete :: "('r, 'v option) redis_commands \<Rightarrow> int \<Rightarrow> string \<Rightarrow> ('r, 'v) cache_service \<Rightarrow> ('r, 'v) cache_service" where
  "cacheDelete R now k c =
     (let c1 = (case backend c of Some r \<Rightarrow> c\<lparr>ca_redis := Some (snd (rc_del R now k r))\<rparr> | None \<Rightarrow> c)
      in c1\<lparr>ca_memory := mem_delete k (ca_memory c1)\<rparr>)"

definition cacheClear :: "('r, 'v option) redis_commands \<Rightarrow> int \<Rightarrow> ('r, 'v) cache_service \<Rightarrow> ('r, 'v) cache_service" where
  "cacheClear R now c =
     (let c1 = (case backend c of Some r \<Rightarrow> c\<lparr>ca_redis := Some (snd (rc_flushdb R now r))\<rparr> | None \<Rightarrow> c)
      in c1\<lparr>ca_memory := mem_clear (ca_memory c1)\<rparr>)"

text \<open>
  Cache-aside. The loader may fail and may change other state; a value \<^verbatim>\<open>null\<close> is cached but not
  returned from the cache, so it is loaded again.
\<close>

definition getOrSet ::
  "('r, 'v option) redis_commands \<Rightarrow> int \<Rightarrow> string \<Rightarrow> 'v option result \<Rightarrow> int option \<Rightarrow> ('r, 'v) cache_service
     \<Rightarrow> 'v option result \<times> ('r, 'v) cache_service" where
  "getOrSet R now k loader ttl c =
     (case cacheGet R now k c of
        (Some v, c1) \<Rightarrow> (Inr (Some v), c1)
      | (None, c1) \<Rightarrow>
          (case loader of
             Inl e \<Rightarrow> (Inl e, c1)
           | Inr value \<Rightarrow> (Inr value, cacheSet R now k value ttl c1)))"

text \<open>The timer of the constructor.\<close>

definition evict_tick :: "int \<Rightarrow> ('r, 'v) cache_service \<Rightarrow> ('r, 'v) cache_service" where
  "evict_tick now c = c\<lparr>ca_memory := evictExpired now (ca_memory c)\<rparr>"

section \<open>The service meets the contract of a cache\<close>

text \<open>
  What Redis is relied on for: the contract, with a failed command read as a miss. \<open>vw\<close> is what a reader of
  Redis finds.
\<close>

definition redis_get :: "('r, 'v) redis_commands \<Rightarrow> int \<Rightarrow> string \<Rightarrow> 'r \<Rightarrow> 'v option \<times> 'r" where
  "redis_get R t k r = (case rc_get R t k r of (Inl e, r') \<Rightarrow> (None, r') | (Inr x, r') \<Rightarrow> (x, r'))"

definition redis_ok :: "('r, 'v) redis_commands \<Rightarrow> (int \<Rightarrow> 'r \<Rightarrow> string \<Rightarrow> 'v option) \<Rightarrow> bool" where
  "redis_ok R vw \<longleftrightarrow>
     cache_backend (redis_get R) (\<lambda>t k v ttl r. snd (rc_set R t k v ttl r)) (\<lambda>t k r. snd (rc_del R t k r))
       (\<lambda>t r. snd (rc_flushdb R t r)) vw"

definition service_view :: "(int \<Rightarrow> 'r \<Rightarrow> string \<Rightarrow> 'v option option) \<Rightarrow> int \<Rightarrow> ('r, 'v) cache_service \<Rightarrow> string \<Rightarrow> 'v option" where
  "service_view vw t c k =
     (case (case backend c of Some r \<Rightarrow> vw t r k | None \<Rightarrow> mem_view t (ca_memory c) k) of None \<Rightarrow> None | Some v \<Rightarrow> v)"

lemma cacheGet_redis:
  "backend c = Some r \<Longrightarrow>
     cacheGet R t k c = (case fst (redis_get R t k r) of None \<Rightarrow> None | Some v \<Rightarrow> v, c\<lparr>ca_redis := Some (snd (redis_get R t k r))\<rparr>)"
  by (auto simp: cacheGet_def redis_get_def split: prod.splits sum.splits)

lemma cacheGet_memory:
  "backend c = None \<Longrightarrow>
     cacheGet R t k c = (case fst (mem_get t k (ca_memory c)) of None \<Rightarrow> None | Some v \<Rightarrow> v, c\<lparr>ca_memory := snd (mem_get t k (ca_memory c))\<rparr>)"
  by (auto simp: cacheGet_def split: prod.splits)

lemma backend_redis [simp]: "backend c = Some r \<Longrightarrow> backend (c\<lparr>ca_redis := Some r'\<rparr>) = Some r'"
  by (simp add: backend_def isRedisConnected_def split: if_splits)

lemma backend_memory [simp]: "backend (c\<lparr>ca_memory := m\<rparr>) = backend c"
  by (simp add: backend_def isRedisConnected_def)

lemma service_meets_contract:
  assumes "redis_ok R vw"
  shows "cache_backend (cacheGet R) (\<lambda>t k v ttl. cacheSet R t k (Some v) (Some ttl)) (cacheDelete R) (cacheClear R)
    (service_view vw)"
proof -
  note redis = assms [unfolded redis_ok_def]
  note laws = cache_backend.get_value [OF redis] cache_backend.get_keeps [OF redis] cache_backend.put_live [OF redis]
    cache_backend.put_other [OF redis] cache_backend.del_same [OF redis]
    cache_backend.del_other [OF redis] cache_backend.clear_all [OF redis]
  note mem = mem.get_value mem.get_keeps mem.put_live mem.put_other mem.del_same mem.del_other mem.clear_all
  show ?thesis
  proof (unfold_locales, goal_cases)
    case (1 t k s)
    then show ?case
      by (cases "backend s") (simp_all add: cacheGet_redis cacheGet_memory service_view_def laws mem)
  next
    case (2 t t' k s k')
    then show ?case
      by (cases "backend s") (simp_all add: cacheGet_redis cacheGet_memory service_view_def laws mem)
  next
    case (3 t t' ttl k v s)
    then show ?case
      by (cases "backend s") (simp_all add: cacheSet_def service_view_def laws mem)
  next
    case (4 t t' k v ttl s w)
    then show ?case
      by (cases "backend s")
        (auto simp: cacheSet_def service_view_def split: option.splits
          dest: cache_backend.put_only [OF redis] mem.put_only)
  next
    case (5 t t' k' k v ttl s)
    then show ?case
      by (cases "backend s") (simp_all add: cacheSet_def service_view_def laws mem)
  next
    case (6 t t' k s)
    then show ?case
      by (cases "backend s") (simp_all add: cacheDelete_def service_view_def laws mem)
  next
    case (7 t t' k' k s)
    then show ?case
      by (cases "backend s") (simp_all add: cacheDelete_def service_view_def laws mem)
  next
    case (8 t t' s k)
    then show ?case
      by (cases "backend s") (simp_all add: cacheClear_def service_view_def laws mem)
  next
    case (9 t t' s k v)
    then show ?case
      by (cases "backend s")
        (auto simp: service_view_def split: option.splits
          dest: cache_backend.only_expires [OF redis] mem.only_expires)
  qed
qed

section \<open>Properties\<close>


text \<open>
  A value that is deleted while Redis is unreachable comes back: the deletion reaches the memory of the process only,
  and after the reconnection the service returns the old value until its lifetime is over.
\<close>

theorem deleted_value_returns:
  assumes "redis_ok R vw" and "isRedisConnected c" and "t0 \<le> t1" and "t1 \<le> t2" and "t2 < t0 + ttl * 1000"
  shows "let c1 = cacheSet R t0 k (Some v) (Some ttl) c; c2 = cacheDelete R t1 k (on_close c1)
    in fst (cacheGet R t1 k c2) = None \<and> fst (cacheGet R t2 k (on_ready c2)) = Some v"
proof -
  obtain r where r: "ca_redis c = Some r" "ca_ready c" "backend c = Some r"
    using assms(2) by (auto simp: isRedisConnected_def backend_def)
  note redis = assms(1) [unfolded redis_ok_def]
  let ?r = "snd (rc_set R t0 k (Some v) ttl r)"
  have "vw t2 ?r k = Some (Some v)"
    using cache_backend.put_live [OF redis, of t0 t2 ttl k "Some v" r] assms(3-5) by simp
  then have "fst (redis_get R t2 k ?r) = Some (Some v)"
    using cache_backend.get_value [OF redis, of t2 k ?r] by simp
  then show ?thesis
    using r by (simp add: cacheSet_def cacheDelete_def Let_def on_close_def on_ready_def backend_def isRedisConnected_def
        cacheGet_redis cacheGet_memory mem.get_value mem.del_same [OF order_refl])
qed

section \<open>Witnesses\<close>

text \<open>A Redis whose commands never fail, kept in the memory of the process.\<close>

definition demo_redis :: "('v mem_store, 'v) redis_commands" where
  "demo_redis = \<lparr>rc_get = \<lambda>t k r. (Inr (fst (mem_get t k r)), snd (mem_get t k r)),
     rc_set = \<lambda>t k v ttl r. (Inr (), mem_set t k v ttl r), rc_del = \<lambda>t k r. (Inr (), mem_delete k r),
     rc_flushdb = \<lambda>t r. (Inr (), mem_clear r)\<rparr>"

lemma demo_redis_get: "redis_get demo_redis = mem_get"
  by (auto simp: redis_get_def demo_redis_def fun_eq_iff)

lemma demo_redis_ok: "redis_ok demo_redis mem_view"
  unfolding redis_ok_def demo_redis_get using mem.cache_backend_axioms by (simp add: demo_redis_def)


theorem deleted_value_returns_witness:
  "let c = on_ready (new_cache (Some []) 300); c1 = cacheSet demo_redis 0 ''a'' (Some True) (Some 300) c;
       c2 = cacheDelete demo_redis 1000 ''a'' (on_close c1)
   in fst (cacheGet demo_redis 1000 ''a'' c2) = None \<and> fst (cacheGet demo_redis 2000 ''a'' (on_ready c2)) = Some True"
proof -
  have "isRedisConnected (on_ready (new_cache (Some []) 300))"
    by (simp add: isRedisConnected_def on_ready_def new_cache_def)
  from deleted_value_returns [OF demo_redis_ok this, of 0 1000 2000 300 "''a''" True] show ?thesis by simp
qed

end
