(* ===== verification/Flags.thy ===== *)
theory Flags
  imports Complex_Main Caching Text
begin

text \<open>
  Feature flags (\<^verbatim>\<open>server/src/services/feature-flag.service.ts\<close>,
  \<^verbatim>\<open>server/src/middleware/feature-flag.middleware.ts\<close>): flags and their audit log in the database, read through
  the cache of theory Caching, and the evaluation of the rules of a flag for a user.

  The SHA-256 digest in hexadecimal is the argument \<open>sha\<close>, the commands of Redis are the argument \<open>R\<close>; times and fresh
  identifiers are arguments. A handler that runs is not interrupted by another one.
\<close>

section \<open>Flags and rules\<close>

datatype rule_type = RulePercentage | RuleUser | RuleRole | RuleEmail

record flag_rule =
  fr_type :: rule_type
  fr_value :: "rat option"
  fr_userIds :: "string list option"
  fr_roles :: "string list option"
  fr_domains :: "string list option"

record evaluation_context =
  ec_userId :: "string option"
  ec_role :: "string option"
  ec_email :: "string option"
  ec_ip :: "string option"

record feature_flag =
  ff_id :: string
  ff_key :: string
  ff_description :: "string option"
  ff_isEnabled :: bool
  ff_rules :: "flag_rule list"
  ff_createdAt :: int
  ff_updatedAt :: int

record flag_log =
  fl_id :: string
  fl_flagId :: string
  fl_action :: string
  fl_changedBy :: string
  fl_before :: "feature_flag option"
  fl_after :: "feature_flag option"
  fl_createdAt :: int

text \<open>Flags by their unique key, the log in the order of creation.\<close>

record 'r flag_state =
  fg_flags :: "(string, feature_flag) jsmap"
  fg_logs :: "flag_log list"
  fg_cache :: "('r, feature_flag) cache_service"

definition flagCacheKey :: "string \<Rightarrow> string" where
  "flagCacheKey key = ''ff:'' @ key"

definition getFlag ::
  "('r, feature_flag option) redis_commands \<Rightarrow> int \<Rightarrow> string \<Rightarrow> 'r flag_state \<Rightarrow> feature_flag option \<times> 'r flag_state" where
  "getFlag R now key s =
     (case cacheGet R now (flagCacheKey key) (fg_cache s) of
        (Some flag, c1) \<Rightarrow> (Some flag, s\<lparr>fg_cache := c1\<rparr>)
      | (None, c1) \<Rightarrow>
          (case jm_get (fg_flags s) key of
             Some flag \<Rightarrow> (Some flag, s\<lparr>fg_cache := cacheSet R now (flagCacheKey key) (Some flag) (Some 300) c1\<rparr>)
           | None \<Rightarrow> (None, s\<lparr>fg_cache := c1\<rparr>)))"

section \<open>Evaluation\<close>

text \<open>\<^verbatim>\<open>parseInt(s, 16)\<close> of a text without blanks and sign: the digits up to the first other character.\<close>

definition hex_val :: "char \<Rightarrow> nat option" where
  "hex_val c =
     (let n = of_char c :: nat
      in if 48 \<le> n \<and> n \<le> 57 then Some (n - 48)
         else if 97 \<le> n \<and> n \<le> 102 then Some (n - 87)
         else if 65 \<le> n \<and> n \<le> 70 then Some (n - 55) else None)"

definition parse_hex :: "string \<Rightarrow> nat option" where
  "parse_hex s =
     (let ds = takeWhile (\<lambda>c. hex_val c \<noteq> None) s
      in if ds = [] then None else Some (foldl (\<lambda>a c. 16 * a + the (hex_val c)) 0 ds))"

text \<open>The place of a user in the rollout of a flag, from 0 to 99.\<close>

definition rollout_score :: "(string \<Rightarrow> string) \<Rightarrow> string \<Rightarrow> string \<Rightarrow> nat option" where
  "rollout_score sha userId key = map_option (\<lambda>n. n mod 100) (parse_hex (take 8 (sha (userId @ ''-'' @ key))))"

text \<open>\<^verbatim>\<open>email.split('@')[1]\<close>; empty where there is no such part.\<close>

definition email_domain :: "string \<Rightarrow> string" where
  "email_domain email = takeWhile (\<lambda>c. c \<noteq> CHR ''@'') (drop 1 (dropWhile (\<lambda>c. c \<noteq> CHR ''@'') email))"

definition supplied :: "string option \<Rightarrow> bool" where
  "supplied x \<longleftrightarrow> x \<noteq> None \<and> x \<noteq> Some []"

definition rule_matches :: "(string \<Rightarrow> string) \<Rightarrow> string \<Rightarrow> evaluation_context \<Rightarrow> flag_rule \<Rightarrow> bool" where
  "rule_matches sha key ctx rule =
     (case fr_type rule of
        RuleUser \<Rightarrow>
          (case fr_userIds rule of None \<Rightarrow> False
           | Some ids \<Rightarrow> supplied (ec_userId ctx) \<and> the (ec_userId ctx) \<in> set ids)
      | RuleRole \<Rightarrow>
          (case fr_roles rule of None \<Rightarrow> False
           | Some roles \<Rightarrow> supplied (ec_role ctx) \<and> the (ec_role ctx) \<in> set roles)
      | RuleEmail \<Rightarrow>
          (case fr_domains rule of None \<Rightarrow> False
           | Some domains \<Rightarrow> supplied (ec_email ctx) \<and>
               (let domain = email_domain (the (ec_email ctx)) in domain \<noteq> [] \<and> domain \<in> set domains))
      | RulePercentage \<Rightarrow>
          (case fr_value rule of None \<Rightarrow> False
           | Some v \<Rightarrow> supplied (ec_userId ctx) \<and>
               (case rollout_score sha (the (ec_userId ctx)) key of None \<Rightarrow> False | Some score \<Rightarrow> of_nat score < v)))"

text \<open>The loop returns at the first rule that matches.\<close>

definition evaluate ::
  "('r, feature_flag option) redis_commands \<Rightarrow> (string \<Rightarrow> string) \<Rightarrow> int \<Rightarrow> string \<Rightarrow> evaluation_context \<Rightarrow> 'r flag_state \<Rightarrow> bool \<times> 'r flag_state" where
  "evaluate R sha now key ctx s =
     (let (flag, s1) = getFlag R now key s
      in (case flag of
            None \<Rightarrow> False
          | Some f \<Rightarrow>
              if \<not> ff_isEnabled f then False
              else if ff_rules f = [] then True
              else list_ex (rule_matches sha key ctx) (ff_rules f), s1))"

definition requireFeatureFlag ::
  "('r, feature_flag option) redis_commands \<Rightarrow> (string \<Rightarrow> string) \<Rightarrow> int \<Rightarrow> string \<Rightarrow> evaluation_context \<Rightarrow> 'r flag_state \<Rightarrow> unit result \<times> 'r flag_state" where
  "requireFeatureFlag R sha now flagKey ctx s =
     (let (isEnabled, s1) = evaluate R sha now flagKey ctx s
      in (if \<not> isEnabled then Inl (HttpError 403 (''Feature flag '' @ CHR 0x27 # flagKey @ CHR 0x27 # '' is disabled''))
          else Inr (), s1))"

section \<open>Changing flags\<close>

definition flag_not_found :: "string \<Rightarrow> error" where
  "flag_not_found key = PlainError (''Feature flag '' @ key @ '' not found'')"

record flag_input =
  fi_description :: "string option"
  fi_isEnabled :: "bool option"
  fi_rules :: "flag_rule list option"

text \<open>Identifiers are unique too: a clash is the same error as a clash of keys.\<close>

definition createFlag ::
  "('r, feature_flag option) redis_commands \<Rightarrow> string \<Rightarrow> flag_input \<Rightarrow> string \<Rightarrow> string \<Rightarrow> string \<Rightarrow> int \<Rightarrow> 'r flag_state
     \<Rightarrow> feature_flag result \<times> 'r flag_state" where
  "createFlag R key data adminId flagId logId now s =
     (if jm_get (fg_flags s) key \<noteq> None \<or> list_ex (\<lambda>f. ff_id f = flagId) (jm_values (fg_flags s))
      then (Inl (PrismaError ''P2002''), s)
      else
        (let flag = \<lparr>ff_id = flagId, ff_key = key, ff_description = fi_description data,
               ff_isEnabled = (case fi_isEnabled data of None \<Rightarrow> False | Some b \<Rightarrow> b),
               ff_rules = (case fi_rules data of None \<Rightarrow> [] | Some rs \<Rightarrow> rs), ff_createdAt = now, ff_updatedAt = now\<rparr>;
             log = \<lparr>fl_id = logId, fl_flagId = flagId, fl_action = ''CREATE'', fl_changedBy = adminId,
               fl_before = None, fl_after = Some flag, fl_createdAt = now\<rparr>
         in (Inr flag, s\<lparr>fg_flags := jm_set (fg_flags s) key flag, fg_logs := fg_logs s @ [log],
               fg_cache := cacheSet R now (flagCacheKey key) (Some flag) (Some 300) (fg_cache s)\<rparr>)))"

definition updateFlag ::
  "('r, feature_flag option) redis_commands \<Rightarrow> string \<Rightarrow> flag_input \<Rightarrow> string \<Rightarrow> string \<Rightarrow> int \<Rightarrow> 'r flag_state
     \<Rightarrow> feature_flag result \<times> 'r flag_state" where
  "updateFlag R key data adminId logId now s =
     (case jm_get (fg_flags s) key of
        None \<Rightarrow> (Inl (flag_not_found key), s)
      | Some oldFlag \<Rightarrow>
          (let newFlag = oldFlag
                 \<lparr>ff_description := (case fi_description data of None \<Rightarrow> ff_description oldFlag | Some d \<Rightarrow> Some d),
                  ff_isEnabled := (case fi_isEnabled data of None \<Rightarrow> ff_isEnabled oldFlag | Some b \<Rightarrow> b),
                  ff_rules := (case fi_rules data of None \<Rightarrow> ff_rules oldFlag | Some rs \<Rightarrow> rs),
                  ff_updatedAt := now\<rparr>;
               log = \<lparr>fl_id = logId, fl_flagId = ff_id oldFlag, fl_action = ''UPDATE'', fl_changedBy = adminId,
                 fl_before = Some oldFlag, fl_after = Some newFlag, fl_createdAt = now\<rparr>
           in (Inr newFlag, s\<lparr>fg_flags := jm_set (fg_flags s) key newFlag, fg_logs := fg_logs s @ [log],
                 fg_cache := cacheSet R now (flagCacheKey key) (Some newFlag) (Some 300) (fg_cache s)\<rparr>)))"

text \<open>Deleting a flag deletes its log entries with it: the relation is declared \<^verbatim>\<open>onDelete: Cascade\<close>.\<close>

definition flag_row_delete :: "string \<Rightarrow> feature_flag \<Rightarrow> 'r flag_state \<Rightarrow> 'r flag_state" where
  "flag_row_delete key flag s =
     s\<lparr>fg_flags := jm_delete (fg_flags s) key, fg_logs := filter (\<lambda>l. fl_flagId l \<noteq> ff_id flag) (fg_logs s)\<rparr>"

definition deleteFlag ::
  "('r, feature_flag option) redis_commands \<Rightarrow> string \<Rightarrow> string \<Rightarrow> string \<Rightarrow> int \<Rightarrow> 'r flag_state \<Rightarrow> unit result \<times> 'r flag_state" where
  "deleteFlag R key adminId logId now s =
     (case jm_get (fg_flags s) key of
        None \<Rightarrow> (Inl (flag_not_found key), s)
      | Some flag \<Rightarrow>
          (let log = \<lparr>fl_id = logId, fl_flagId = ff_id flag, fl_action = ''DELETE'', fl_changedBy = adminId,
                 fl_before = Some flag, fl_after = None, fl_createdAt = now\<rparr>;
               s1 = s\<lparr>fg_logs := fg_logs s @ [log]\<rparr>;
               s2 = flag_row_delete key flag s1
           in (Inr (), s2\<lparr>fg_cache := cacheDelete R now (flagCacheKey key) (fg_cache s2)\<rparr>)))"

definition getAuditLogs :: "string \<Rightarrow> 'r flag_state \<Rightarrow> flag_log list result" where
  "getAuditLogs key s =
     (case jm_get (fg_flags s) key of
        None \<Rightarrow> Inl (flag_not_found key)
      | Some flag \<Rightarrow> Inr (sort_key (\<lambda>l. - fl_createdAt l) (filter (\<lambda>l. fl_flagId l = ff_id flag) (fg_logs s))))"

text \<open>\<open>collate\<close> is the order of texts of the database.\<close>

definition listFlags :: "(string \<Rightarrow> 'k :: linorder) \<Rightarrow> 'r flag_state \<Rightarrow> feature_flag list" where
  "listFlags collate s = sort_key (\<lambda>f. collate (ff_key f)) (jm_values (fg_flags s))"

section \<open>The cache agrees with the database\<close>

definition flag_source :: "(string, feature_flag) jsmap \<Rightarrow> string \<Rightarrow> feature_flag option" where
  "flag_source flags k = (if take 3 k = ''ff:'' then jm_get flags (drop 3 k) else None)"

lemma flag_source_key [simp]: "flag_source flags (flagCacheKey key) = jm_get flags key"
  by (simp add: flag_source_def flagCacheKey_def)

lemma flag_source_other:
  assumes "k \<noteq> flagCacheKey key" and "\<And>j. j \<noteq> key \<Longrightarrow> jm_get flags' j = jm_get flags j"
  shows "flag_source flags' k = flag_source flags k"
proof (cases "take 3 k = ''ff:''")
  case True
  with assms(1) have "drop 3 k \<noteq> key" by (metis append_take_drop_id flagCacheKey_def)
  with assms(2) show ?thesis by (simp add: flag_source_def)
qed (simp add: flag_source_def)

definition flags_coherent :: "(int \<Rightarrow> 'r \<Rightarrow> string \<Rightarrow> feature_flag option option) \<Rightarrow> int \<Rightarrow> 'r flag_state \<Rightarrow> bool" where
  "flags_coherent vw t s \<longleftrightarrow> coherent (flag_source (fg_flags s)) (service_view vw t (fg_cache s))"

datatype flag_call =
  FlagRead string
| FlagEvaluate string evaluation_context
| FlagCreate string flag_input string string string
| FlagUpdate string flag_input string string
| FlagDelete string string string

fun flag_exec ::
  "('r, feature_flag option) redis_commands \<Rightarrow> (string \<Rightarrow> string) \<Rightarrow> 'r flag_state \<Rightarrow> int \<times> flag_call \<Rightarrow> 'r flag_state" where
  "flag_exec R sha s (t, FlagRead key) = snd (getFlag R t key s)"
| "flag_exec R sha s (t, FlagEvaluate key ctx) = snd (evaluate R sha t key ctx s)"
| "flag_exec R sha s (t, FlagCreate key data adminId flagId logId) = snd (createFlag R key data adminId flagId logId t s)"
| "flag_exec R sha s (t, FlagUpdate key data adminId logId) = snd (updateFlag R key data adminId logId t s)"
| "flag_exec R sha s (t, FlagDelete key adminId logId) = snd (deleteFlag R key adminId logId t s)"

lemma snd_evaluate [simp]: "snd (evaluate R sha t key ctx s) = snd (getFlag R t key s)"
  by (simp add: evaluate_def split: prod.splits)

lemma flags_coherent_put:
  assumes "redis_ok R vw" and "flags_coherent vw t s" and "jm_get flags' key = Some f"
    and "\<And>j. j \<noteq> key \<Longrightarrow> jm_get flags' j = jm_get (fg_flags s) j"
  shows "coherent (flag_source flags') (service_view vw t (cacheSet R t (flagCacheKey key) (Some f) (Some ttl) (fg_cache s)))"
  using cache_backend.coherent_put [OF service_meets_contract [OF assms(1)], of "flag_source (fg_flags s)" t "fg_cache s"
      "flag_source flags'" "flagCacheKey key" f ttl] assms(2-) flag_source_other [of _ key flags' "fg_flags s"]
  by (simp add: flags_coherent_def)

lemma getFlag_current:
  assumes "redis_ok R vw" and "flags_coherent vw t s"
  shows "fst (getFlag R t key s) = jm_get (fg_flags s) key \<and> flags_coherent vw t (snd (getFlag R t key s))
    \<and> fg_flags (snd (getFlag R t key s)) = fg_flags s"
proof -
  note contract = service_meets_contract [OF assms(1)]
  obtain x c1 where get: "cacheGet R t (flagCacheKey key) (fg_cache s) = (x, c1)" by fastforce
  have keep: "flags_coherent vw t (s\<lparr>fg_cache := c1\<rparr>)"
    using cache_backend.coherent_get [OF contract, of "flag_source (fg_flags s)" t "fg_cache s" "flagCacheKey key"] assms(2) get
    by (simp add: flags_coherent_def)
  have hit: "jm_get (fg_flags s) key = Some v" if "x = Some v" for v
    using cache_backend.coherent_read [OF contract, of "flag_source (fg_flags s)" t "fg_cache s" "flagCacheKey key" v] assms(2) get that
    by (simp add: flags_coherent_def)
  have miss: "flags_coherent vw t (s\<lparr>fg_cache := cacheSet R t (flagCacheKey key) (Some f) (Some 300) c1\<rparr>)"
    if "jm_get (fg_flags s) key = Some f" for f
    using flags_coherent_put [OF assms(1) keep, of "fg_flags s" key f 300] that by (simp add: flags_coherent_def)
  show ?thesis
    using get keep hit miss by (auto simp: getFlag_def split: option.splits)
qed

lemma flag_exec_coherent:
  assumes "redis_ok R vw" and "flags_coherent vw t0 s" and "t0 \<le> t"
  shows "flags_coherent vw t (flag_exec R sha s (t, call))"
proof -
  note contract = service_meets_contract [OF assms(1)]
  have now: "flags_coherent vw t s"
    using cache_backend.coherent_later [OF contract _ assms(3)] assms(2) by (simp add: flags_coherent_def)
  note put = flags_coherent_put [OF assms(1) now]
  show ?thesis
  proof (cases call)
    case (FlagCreate key data adminId flagId logId)
    with now put [of "jm_set (fg_flags s) key _" key] show ?thesis
      by (simp add: createFlag_def Let_def flags_coherent_def)
  next
    case (FlagUpdate key data adminId logId)
    with now put [of "jm_set (fg_flags s) key _" key] show ?thesis
      by (auto simp: updateFlag_def Let_def flags_coherent_def split: option.split)
  next
    case (FlagDelete key adminId logId)
    have "coherent (flag_source (jm_delete (fg_flags s) key)) (service_view vw t (cacheDelete R t (flagCacheKey key) (fg_cache s)))"
      using cache_backend.coherent_del [OF contract, of "flag_source (fg_flags s)" t "fg_cache s" "flagCacheKey key"
          "flag_source (jm_delete (fg_flags s) key)"] now flag_source_other [of _ key "jm_delete (fg_flags s) key" "fg_flags s"]
      by (simp add: flags_coherent_def jm_get_delete)
    with FlagDelete now show ?thesis
      by (auto simp: deleteFlag_def flag_row_delete_def Let_def flags_coherent_def split: option.split)
  qed (use getFlag_current [OF assms(1) now] in simp_all)
qed

lemma flag_run_coherent:
  assumes "redis_ok R vw" and "flags_coherent vw t0 s" and "sorted (map fst calls)"
    and "\<forall>x\<in>set calls. t0 \<le> fst x \<and> fst x \<le> t" and "t0 \<le> t"
  shows "flags_coherent vw t (foldl (flag_exec R sha) s calls)"
  using assms(2-)
proof (induction calls arbitrary: s t0)
  case Nil
  then show ?case
    using cache_backend.coherent_later [OF service_meets_contract [OF assms(1)]] by (simp add: flags_coherent_def)
next
  case (Cons x calls)
  obtain t1 call where x: "x = (t1, call)" by (cases x)
  from Cons.prems x have "flags_coherent vw t1 (flag_exec R sha s x)"
    by (auto intro: flag_exec_coherent [OF assms(1)])
  with Cons.IH [of t1 "flag_exec R sha s x"] Cons.prems x show ?case by auto
qed

section \<open>Rollout by percentage\<close>

definition flag_decision :: "(string \<Rightarrow> string) \<Rightarrow> string \<Rightarrow> evaluation_context \<Rightarrow> feature_flag option \<Rightarrow> bool" where
  "flag_decision sha key ctx flag =
     (case flag of None \<Rightarrow> False
      | Some f \<Rightarrow> ff_isEnabled f \<and> (ff_rules f = [] \<or> (\<exists>rule\<in>set (ff_rules f). rule_matches sha key ctx rule)))"

lemma fst_evaluate: "fst (evaluate R sha t key ctx s) = flag_decision sha key ctx (fst (getFlag R t key s))"
  by (auto simp: evaluate_def flag_decision_def list_ex_iff split: prod.splits option.splits)

lemma rollout_score_bound: "rollout_score sha u key = Some n \<Longrightarrow> n < 100"
  by (auto simp: rollout_score_def)

section \<open>Properties\<close>


text \<open>
  A percentage rule is a stable rollout: raising the percentage never takes the feature from a user who has it, from 100 on
  every user whose digest is hexadecimal has it, at 0 nobody has it by this rule.
\<close>

theorem rollout_is_stable:
  assumes "fr_type rule = RulePercentage" and "fr_value rule = Some p" and "p \<le> q"
  shows "(rule_matches sha key ctx rule \<longrightarrow> rule_matches sha key ctx (rule\<lparr>fr_value := Some q\<rparr>)) \<and>
    (100 \<le> p \<and> supplied (ec_userId ctx) \<and> rollout_score sha (the (ec_userId ctx)) key \<noteq> None \<longrightarrow> rule_matches sha key ctx rule) \<and>
    (p \<le> 0 \<longrightarrow> \<not> rule_matches sha key ctx rule)"
proof -
  have "of_nat n < (100 :: rat)" if "rollout_score sha u key = Some n" for u n
    using rollout_score_bound [OF that] by linarith
  then show ?thesis
    using assms by (fastforce simp: rule_matches_def split: option.splits)
qed

text \<open>
  Deleting a flag erases its audit trail: the entry that records the deletion is removed together with all earlier entries of
  the flag, and the trail of the key can no longer be asked for.
\<close>

theorem deleted_flag_leaves_no_trail:
  assumes "jm_get (fg_flags s) key = Some flag"
  shows "let s' = snd (deleteFlag R key adminId logId now s)
    in fst (deleteFlag R key adminId logId now s) = Inr () \<and> (\<forall>l\<in>set (fg_logs s'). fl_flagId l \<noteq> ff_id flag) \<and>
       fg_logs s' = filter (\<lambda>l. fl_flagId l \<noteq> ff_id flag) (fg_logs s) \<and> getAuditLogs key s' = Inl (flag_not_found key)"
  using assms by (simp add: deleteFlag_def flag_row_delete_def getAuditLogs_def jm_get_delete Let_def)

section \<open>Witnesses\<close>

definition demo_flags :: "(feature_flag option mem_store) flag_state" where
  "demo_flags = \<lparr>fg_flags = jm_empty, fg_logs = [], fg_cache = on_ready (new_cache (Some jm_empty) 300)\<rparr>"

definition demo_flag_data :: flag_input where
  "demo_flag_data = \<lparr>fi_description = None, fi_isEnabled = Some True,
     fi_rules = Some [\<lparr>fr_type = RuleRole, fr_value = None, fr_userIds = None, fr_roles = Some [''ADMIN''], fr_domains = None\<rparr>]\<rparr>"

lemma demo_flags_coherent: "flags_coherent mem_view 0 demo_flags"
  by (simp add: flags_coherent_def coherent_def demo_flags_def service_view_def on_ready_def new_cache_def backend_def
      isRedisConnected_def mem_view_def)


theorem rollout_is_stable_witness:
  "let rule = \<lparr>fr_type = RulePercentage, fr_value = Some 20, fr_userIds = None, fr_roles = None, fr_domains = None\<rparr>;
       ctx = \<lparr>ec_userId = Some ''10'', ec_role = None, ec_email = None, ec_ip = None\<rparr>
   in rule_matches id ''beta'' ctx rule \<and> rule_matches id ''beta'' ctx (rule\<lparr>fr_value := Some 50\<rparr>)"
proof -
  let ?rule = "\<lparr>fr_type = RulePercentage, fr_value = Some 20, fr_userIds = None, fr_roles = None, fr_domains = None\<rparr>"
  let ?ctx = "\<lparr>ec_userId = Some ''10'', ec_role = None, ec_email = None, ec_ip = None\<rparr>"
  have "rollout_score id ''10'' ''beta'' = Some 16" by code_simp
  then have "rule_matches id ''beta'' ?ctx ?rule" by (simp add: rule_matches_def supplied_def)
  with rollout_is_stable [of ?rule 20 50 id "''beta''" ?ctx] show ?thesis by (simp add: Let_def)
qed

theorem deleted_flag_leaves_no_trail_witness:
  "let s = snd (createFlag demo_redis ''beta'' demo_flag_data ''root'' ''f1'' ''l1'' 1 demo_flags);
       s' = snd (deleteFlag demo_redis ''beta'' ''root'' ''l2'' 2 s)
   in length (fg_logs s) = 1 \<and> getAuditLogs ''beta'' s' = Inl (flag_not_found ''beta'')"
proof -
  let ?s = "snd (createFlag demo_redis ''beta'' demo_flag_data ''root'' ''f1'' ''l1'' 1 demo_flags)"
  have s: "length (fg_logs ?s) = 1" "\<exists>f. jm_get (fg_flags ?s) ''beta'' = Some f"
    by (simp_all add: createFlag_def demo_flags_def Let_def jm_values_def jm_empty_def jm_get_def jm_set_def)
  then obtain f where "jm_get (fg_flags ?s) ''beta'' = Some f" by blast
  from deleted_flag_leaves_no_trail [OF this, of demo_redis "''root''" "''l2''" 2] s show ?thesis by (simp add: Let_def)
qed

end
