(* ===== verification/GameNodes.thy ===== *)
theory GameNodes
  imports Caching Json "HOL-Library.Sublist"
begin

text \<open>
  Game sessions and maintenance (\<^verbatim>\<open>server/src/services/game-session.service.ts\<close>,
  \<^verbatim>\<open>server/src/services/maintenance.service.ts\<close>, \<^verbatim>\<open>server/src/middleware/maintenance.middleware.ts\<close>): the sessions a
  server process holds, their copies in the shared cache, and the maintenance mode that closes them.

  A process is a \<open>game_node\<close>: its sessions and its cache service. Calls on one session are queued one after the other
  (\<^verbatim>\<open>withSessionLock\<close>), so each is one step here. The commands of Redis, times and fresh identifiers are arguments.
\<close>

section \<open>Sessions\<close>

record game_action =
  ga_playerId :: string
  ga_action :: json
  ga_timestamp :: int

record game_session =
  gs_id :: string
  gs_players :: "string list"
  gs_gameMode :: string
  gs_settings :: json
  gs_state :: json
  gs_actions :: "game_action list"
  gs_startedAt :: int
  gs_finishedAt :: "int option"
  gs_replayData :: "json option"

definition STALE_TIMEOUT_MS :: int where "STALE_TIMEOUT_MS = 30 * 60 * 1000"

definition SESSION_CACHE_TTL_SECONDS :: int where "SESSION_CACHE_TTL_SECONDS = 3600"

text \<open>
  The cache holds sessions and, under keys of their own, states. \<open>gn_cleaning\<close> says whether the clean-up timer runs: it is
  started when the module is loaded.
\<close>

datatype session_value = CachedSession game_session | CachedState json

record 'r game_node =
  gn_sessions :: "(string, game_session) jsmap"
  gn_cleaning :: bool
  gn_cache :: "('r, session_value) cache_service"

definition sessionCacheKey :: "string \<Rightarrow> string" where
  "sessionCacheKey i = ''game:session:'' @ i"

definition stateCacheKey :: "string \<Rightarrow> string" where
  "stateCacheKey i = ''game:state:'' @ i"

text \<open>What JSON keeps of a session.\<close>

definition json_session :: "game_session \<Rightarrow> game_session" where
  "json_session s = s\<lparr>gs_settings := db_json (gs_settings s), gs_state := db_json (gs_state s),
     gs_actions := map (\<lambda>a. a\<lparr>ga_action := db_json (ga_action a)\<rparr>) (gs_actions s),
     gs_replayData := map_option db_json (gs_replayData s)\<rparr>"

definition persistToCache ::
  "('r, session_value option) redis_commands \<Rightarrow> int \<Rightarrow> game_session \<Rightarrow> ('r, session_value) cache_service \<Rightarrow> ('r, session_value) cache_service" where
  "persistToCache R now session c =
     (let c1 = cacheSet R now (sessionCacheKey (gs_id session)) (Some (CachedSession (json_session session))) (Some SESSION_CACHE_TTL_SECONDS) c
      in cacheSet R now (stateCacheKey (gs_id session))
           (if gs_state session = JUndef then None else Some (CachedState (db_json (gs_state session))))
           (Some SESSION_CACHE_TTL_SECONDS) c1)"

text \<open>\<^verbatim>\<open>createSession\<close> and \<^verbatim>\<open>createSessionAsync\<close> differ only in waiting for the cache.\<close>

definition createSession ::
  "('r, session_value option) redis_commands \<Rightarrow> string \<Rightarrow> string list \<Rightarrow> string \<Rightarrow> json \<Rightarrow> int \<Rightarrow> 'r game_node \<Rightarrow> game_session \<times> 'r game_node" where
  "createSession R i players gameMode settings now n =
     (let session = \<lparr>gs_id = i, gs_players = players, gs_gameMode = gameMode, gs_settings = settings, gs_state = JObj [],
            gs_actions = [], gs_startedAt = now, gs_finishedAt = None, gs_replayData = None\<rparr>
      in (session, n\<lparr>gn_sessions := jm_set (gn_sessions n) i session, gn_cache := persistToCache R now session (gn_cache n)\<rparr>))"

definition getSession :: "string \<Rightarrow> 'r game_node \<Rightarrow> game_session option" where
  "getSession i n = jm_get (gn_sessions n) i"

definition getSessionAsync ::
  "('r, session_value option) redis_commands \<Rightarrow> int \<Rightarrow> string \<Rightarrow> 'r game_node \<Rightarrow> game_session option \<times> 'r game_node" where
  "getSessionAsync R now i n =
     (case jm_get (gn_sessions n) i of
        Some local \<Rightarrow> (Some local, n)
      | None \<Rightarrow>
          (case cacheGet R now (sessionCacheKey i) (gn_cache n) of
             (Some (CachedSession cached), c1) \<Rightarrow> (Some cached, n\<lparr>gn_sessions := jm_set (gn_sessions n) i cached, gn_cache := c1\<rparr>)
           | (_, c1) \<Rightarrow> (None, n\<lparr>gn_cache := c1\<rparr>)))"

text \<open>The object spread \<^verbatim>\<open>{...a, ...b}\<close>: arrays and strings give their indices as keys.\<close>

fun spread :: "json \<Rightarrow> (string \<times> json) list" where
  "spread (JObj kvs) = kvs"
| "spread (JArr xs) = zip (map show_nat [0..<length xs]) xs"
| "spread (JStr s) = zip (map show_nat [0..<length s]) (map (\<lambda>c. JStr [c]) s)"
| "spread _ = []"

definition js_merge :: "json \<Rightarrow> json \<Rightarrow> json" where
  "js_merge a b = JObj (foldl (\<lambda>m (k, v). jm_set m k v) [] (spread a @ spread b))"

text \<open>The part the handlers share: find the session, change it, store it and its copies.\<close>

definition with_session ::
  "('r, session_value option) redis_commands \<Rightarrow> int \<Rightarrow> string \<Rightarrow> (game_session \<Rightarrow> game_session result) \<Rightarrow> 'r game_node \<Rightarrow> game_session result \<times> 'r game_node" where
  "with_session R now i f n =
     (case getSessionAsync R now i n of
        (None, n1) \<Rightarrow> (Inl (PlainError ''Session not found''), n1)
      | (Some session, n1) \<Rightarrow>
          (case f session of
             Inl e \<Rightarrow> (Inl e, n1)
           | Inr session' \<Rightarrow>
               (Inr session', n1\<lparr>gn_sessions := jm_set (gn_sessions n1) i session', gn_cache := persistToCache R now session' (gn_cache n1)\<rparr>)))"

definition updateGameState ::
  "('r, session_value option) redis_commands \<Rightarrow> string \<Rightarrow> json \<Rightarrow> int \<Rightarrow> 'r game_node \<Rightarrow> game_session result \<times> 'r game_node" where
  "updateGameState R i newState now = with_session R now i (\<lambda>s. Inr (s\<lparr>gs_state := js_merge (gs_state s) newState\<rparr>))"

definition processPlayerAction ::
  "('r, session_value option) redis_commands \<Rightarrow> string \<Rightarrow> string \<Rightarrow> json \<Rightarrow> int \<Rightarrow> 'r game_node \<Rightarrow> game_session result \<times> 'r game_node" where
  "processPlayerAction R i playerId action now = with_session R now i (\<lambda>s.
     if playerId \<notin> set (gs_players s) then Inl (PlainError ''Player not part of this session'')
     else Inr (s\<lparr>gs_actions := gs_actions s @ [\<lparr>ga_playerId = playerId, ga_action = action, ga_timestamp = now\<rparr>]\<rparr>))"

definition finishGame ::
  "('r, session_value option) redis_commands \<Rightarrow> string \<Rightarrow> json \<Rightarrow> int \<Rightarrow> 'r game_node \<Rightarrow> game_session result \<times> 'r game_node" where
  "finishGame R i results now = with_session R now i (\<lambda>s. Inr (s\<lparr>gs_finishedAt := Some now, gs_state := results\<rparr>))"

definition generateReplayData ::
  "('r, session_value option) redis_commands \<Rightarrow> string \<Rightarrow> int \<Rightarrow> 'r game_node \<Rightarrow> game_action list result \<times> 'r game_node" where
  "generateReplayData R i now n =
     (case getSessionAsync R now i n of
        (None, n1) \<Rightarrow> (Inl (PlainError ''Session not found''), n1)
      | (Some session, n1) \<Rightarrow> (Inr (gs_actions session), n1))"

definition removeSession ::
  "('r, session_value option) redis_commands \<Rightarrow> string \<Rightarrow> int \<Rightarrow> 'r game_node \<Rightarrow> 'r game_node" where
  "removeSession R i now n = n\<lparr>gn_sessions := jm_delete (gn_sessions n) i,
     gn_cache := cacheDelete R now (stateCacheKey i) (cacheDelete R now (sessionCacheKey i) (gn_cache n))\<rparr>"

text \<open>The timer that drops sessions finished long ago.\<close>

definition session_stale :: "int \<Rightarrow> game_session \<Rightarrow> bool" where
  "session_stale now s =
     (case gs_finishedAt s of None \<Rightarrow> False | Some finishedAt \<Rightarrow> finishedAt \<noteq> 0 \<and> STALE_TIMEOUT_MS < now - finishedAt)"

definition cleanup_pass :: "('r, session_value option) redis_commands \<Rightarrow> int \<Rightarrow> 'r game_node \<Rightarrow> 'r game_node" where
  "cleanup_pass R now n =
     foldl (\<lambda>n i. removeSession R i now n) n (map fst (filter (\<lambda>(i, s). session_stale now s) (gn_sessions n)))"

text \<open>The timer stops itself when it finds no session left.\<close>

definition cleanup_tick :: "('r, session_value option) redis_commands \<Rightarrow> int \<Rightarrow> 'r game_node \<Rightarrow> 'r game_node" where
  "cleanup_tick R now n =
     (if \<not> gn_cleaning n then n
      else (let n1 = cleanup_pass R now n in if gn_sessions n1 = [] then n1\<lparr>gn_cleaning := False\<rparr> else n1))"

definition clearSessionStore :: "'r game_node \<Rightarrow> 'r game_node" where
  "clearSessionStore n = n\<lparr>gn_sessions := jm_empty, gn_cleaning := False\<rparr>"

definition getActiveSessionCount :: "'r game_node \<Rightarrow> nat" where
  "getActiveSessionCount n = length (gn_sessions n)"

definition getActiveSessions :: "'r game_node \<Rightarrow> game_session list" where
  "getActiveSessions n = jm_values (gn_sessions n)"

definition closing_state :: "string \<Rightarrow> json" where
  "closing_state reason = JObj [(''error'', JStr reason), (''closedGracefully'', JBool True)]"

definition closeAllActiveSessions :: "('r, session_value option) redis_commands \<Rightarrow> string \<Rightarrow> int \<Rightarrow> 'r game_node \<Rightarrow> 'r game_node" where
  "closeAllActiveSessions R reason now n =
     foldl (\<lambda>n session. snd (finishGame R (gs_id session) (closing_state reason) now n)) n (getActiveSessions n)"

section \<open>Maintenance\<close>

datatype maintenance_event =
  MaintenanceEnded
| MaintenanceScheduled string "int option" "int option" "int option"
| MaintenanceStarted string "int option"

text \<open>\<open>mt_io\<close> says whether a socket server was set; \<open>mt_sent\<close> are the events it was given.\<close>

record 'r maintenance =
  mt_active :: bool
  mt_startTime :: "int option"
  mt_endTime :: "int option"
  mt_message :: string
  mt_io :: bool
  mt_sent :: "maintenance_event list"
  mt_node :: "'r game_node"

definition setSocketServer :: "'r maintenance \<Rightarrow> 'r maintenance" where
  "setSocketServer m = m\<lparr>mt_io := True\<rparr>"

definition isMaintenanceActive :: "int \<Rightarrow> 'r maintenance \<Rightarrow> bool" where
  "isMaintenanceActive now m =
     (if mt_active m then True
      else (case (mt_startTime m, mt_endTime m) of
          (Some st, Some en) \<Rightarrow> st \<le> now \<and> now \<le> en
        | _ \<Rightarrow> False))"

definition getStatus :: "int \<Rightarrow> 'r maintenance \<Rightarrow> bool \<times> int option \<times> int option \<times> string" where
  "getStatus now m = (isMaintenanceActive now m, mt_startTime m, mt_endTime m, mt_message m)"

definition mt_emit :: "maintenance_event \<Rightarrow> 'r maintenance \<Rightarrow> 'r maintenance" where
  "mt_emit e m = (if mt_io m then m\<lparr>mt_sent := mt_sent m @ [e]\<rparr> else m)"

definition notifyScheduledMaintenance :: "int option \<Rightarrow> 'r maintenance \<Rightarrow> 'r maintenance" where
  "notifyScheduledMaintenance minutesRemaining m =
     mt_emit (MaintenanceScheduled (mt_message m) (mt_startTime m) (mt_endTime m) minutesRemaining) m"

definition closeExistingGamesSafely :: "('r, session_value option) redis_commands \<Rightarrow> int \<Rightarrow> 'r maintenance \<Rightarrow> 'r maintenance" where
  "closeExistingGamesSafely R now m =
     (let m1 = mt_emit (MaintenanceStarted (mt_message m) (mt_endTime m)) m
      in m1\<lparr>mt_node := closeAllActiveSessions R
           (if mt_message m = [] then ''Server entering maintenance mode'' else mt_message m) now (mt_node m1)\<rparr>)"

definition scheduleMaintenance :: "int \<Rightarrow> int \<Rightarrow> string \<Rightarrow> 'r maintenance \<Rightarrow> 'r maintenance" where
  "scheduleMaintenance st en message m =
     notifyScheduledMaintenance None (m\<lparr>mt_startTime := Some st, mt_endTime := Some en, mt_message := message, mt_active := False\<rparr>)"

definition enableMaintenanceImmediately ::
  "('r, session_value option) redis_commands \<Rightarrow> int \<Rightarrow> string \<Rightarrow> int \<Rightarrow> 'r maintenance \<Rightarrow> 'r maintenance" where
  "enableMaintenanceImmediately R en message now m =
     closeExistingGamesSafely R now (notifyScheduledMaintenance None
       (m\<lparr>mt_active := True, mt_startTime := Some now, mt_endTime := Some en, mt_message := message\<rparr>))"

definition disableMaintenance :: "'r maintenance \<Rightarrow> 'r maintenance" where
  "disableMaintenance m =
     mt_emit MaintenanceEnded (m\<lparr>mt_active := False, mt_startTime := None, mt_endTime := None, mt_message := []\<rparr>)"

text \<open>
  The timer, every ten seconds. \<^verbatim>\<open>Math.round(diffMins)\<close> rounds half up; a notice goes out when the start is in more than 0 and at
  most 15 minutes.
\<close>

definition schedule_tick :: "('r, session_value option) redis_commands \<Rightarrow> int \<Rightarrow> 'r maintenance \<Rightarrow> 'r maintenance" where
  "schedule_tick R now m =
     (if isMaintenanceActive now m \<and> \<not> mt_active m then closeExistingGamesSafely R now (m\<lparr>mt_active := True\<rparr>)
      else (case mt_startTime m of
          None \<Rightarrow> m
        | Some st \<Rightarrow>
            if mt_active m then m
            else (let diffMs = st - now
                  in if 0 < diffMs \<and> diffMs \<le> 15 * 60000
                     then notifyScheduledMaintenance (Some ((diffMs + 30000) div 60000)) m else m)))"

text \<open>The middleware: administrators, administration routes and the status route stay open.\<close>

definition maintenanceMiddleware :: "int \<Rightarrow> string option \<Rightarrow> string \<Rightarrow> 'r maintenance \<Rightarrow> unit result" where
  "maintenanceMiddleware now role path m =
     (if isMaintenanceActive now m \<and> role \<noteq> Some ''ADMIN'' \<and> \<not> (prefix ''/admin'' path \<or> prefix ''/api/v1/admin'' path)
         \<and> \<not> sublist ''/maintenance/status'' path
      then Inl (HttpError 503 (if mt_message m = [] then ''Server is currently undergoing scheduled maintenance. Please try again later.''
          else mt_message m))
      else Inr ())"

section \<open>What a process keeps of a session\<close>

text \<open>The calls on a process; the session identifiers of new sessions are fresh.\<close>

datatype game_call =
  GameCreate string "string list" string json
| GameRead string
| GameState string json
| GameAction string string json
| GameFinish string json
| GameReplay string
| GameCloseAll string
| GameRemove string
| GameCleanup

fun game_exec :: "('r, session_value option) redis_commands \<Rightarrow> 'r game_node \<Rightarrow> int \<times> game_call \<Rightarrow> 'r game_node" where
  "game_exec R n (t, GameCreate i players gameMode settings) = snd (createSession R i players gameMode settings t n)"
| "game_exec R n (t, GameRead i) = snd (getSessionAsync R t i n)"
| "game_exec R n (t, GameState i st) = snd (updateGameState R i st t n)"
| "game_exec R n (t, GameAction i p a) = snd (processPlayerAction R i p a t n)"
| "game_exec R n (t, GameFinish i res) = snd (finishGame R i res t n)"
| "game_exec R n (t, GameReplay i) = snd (generateReplayData R i t n)"
| "game_exec R n (t, GameCloseAll reason) = closeAllActiveSessions R reason t n"
| "game_exec R n (t, GameRemove i) = removeSession R i t n"
| "game_exec R n (t, GameCleanup) = cleanup_tick R t n"

text \<open>
  How a session may change: players, mode, settings and start stay, actions are only appended, and only by players of
  the session.
\<close>

definition extends_session :: "game_session \<Rightarrow> game_session \<Rightarrow> bool" where
  "extends_session s s' \<longleftrightarrow> gs_id s' = gs_id s \<and> gs_players s' = gs_players s \<and> gs_gameMode s' = gs_gameMode s \<and>
     gs_settings s' = gs_settings s \<and> gs_startedAt s' = gs_startedAt s \<and>
     (\<exists>as. gs_actions s' = gs_actions s @ as \<and> (\<forall>a\<in>set as. ga_playerId a \<in> set (gs_players s)))"

lemma extends_refl [simp]: "extends_session s s"
  by (simp add: extends_session_def)

lemma extends_trans [trans]: "extends_session a b \<Longrightarrow> extends_session b c \<Longrightarrow> extends_session a c"
  by (auto simp: extends_session_def)

text \<open>Between two states of a process: every session still held extends what was held before.\<close>

definition keeps_history :: "string \<Rightarrow> game_session \<Rightarrow> 'r game_node \<Rightarrow> bool" where
  "keeps_history i s n = (case jm_get (gn_sessions n) i of None \<Rightarrow> False | Some s' \<Rightarrow> extends_session s s')"

lemma getSessionAsync_local: "jm_get (gn_sessions n) i = Some s \<Longrightarrow> getSessionAsync R t i n = (Some s, n)"
  by (simp add: getSessionAsync_def)

lemma getSessionAsync_keeps:
  "keeps_history i s n \<Longrightarrow> keeps_history i s (snd (getSessionAsync R t j n))"
  by (cases "i = j")
    (auto simp: getSessionAsync_def keeps_history_def split: option.splits prod.splits session_value.splits)

lemma with_session_keeps:
  assumes "keeps_history i s n" and "\<And>x y. f x = Inr y \<Longrightarrow> extends_session x y"
  shows "keeps_history i s (snd (with_session R t j f n))"
proof (cases "getSessionAsync R t j n")
  case (Pair x n1)
  with getSessionAsync_keeps [OF assms(1), of R t j] have n1: "keeps_history i s n1" by simp
  show ?thesis
  proof (cases "j = i")
    case True
    from assms(1) obtain s1 where "jm_get (gn_sessions n) i = Some s1" "extends_session s s1"
      by (auto simp: keeps_history_def split: option.splits)
    with True assms show ?thesis
      by (auto simp: with_session_def getSessionAsync_local keeps_history_def split: sum.split intro: extends_trans)
  next
    case False
    with Pair n1 show ?thesis
      by (auto simp: with_session_def keeps_history_def split: option.splits sum.splits)
  qed
qed

lemma finishGame_keeps: "keeps_history i s n \<Longrightarrow> keeps_history i s (snd (finishGame R j res t n))"
  unfolding finishGame_def by (rule with_session_keeps) (auto simp: extends_session_def)

lemma closeAll_keeps: "keeps_history i s n \<Longrightarrow> keeps_history i s (closeAllActiveSessions R reason t n)"
proof -
  have "keeps_history i s n \<Longrightarrow>
      keeps_history i s (foldl (\<lambda>n session. snd (finishGame R (gs_id session) (closing_state reason) t n)) n xs)" for xs
    by (induction xs arbitrary: n) (auto intro: finishGame_keeps)
  then show "keeps_history i s n \<Longrightarrow> ?thesis" by (simp add: closeAllActiveSessions_def)
qed

lemma remove_other_keeps: "keeps_history i s n \<Longrightarrow> i \<noteq> j \<Longrightarrow> keeps_history i s (removeSession R j t n)"
  by (auto simp: keeps_history_def removeSession_def jm_get_delete)

lemma cleanup_keeps:
  assumes "keeps_history i s n" and "jm_wf (gn_sessions n)" and "\<not> session_stale t (the (jm_get (gn_sessions n) i))"
  shows "keeps_history i s (cleanup_tick R t n)"
proof -
  have "keeps_history i s (foldl (\<lambda>n i. removeSession R i t n) m js)" if "keeps_history i s m" "i \<notin> set js" for m js
    using that by (induction js arbitrary: m) (simp_all add: remove_other_keeps)
  moreover have "i \<notin> set (map fst (filter (\<lambda>(i, s). session_stale t s) (gn_sessions n)))"
    using assms(2,3) by (force simp: jm_get_def jm_wf_def)
  ultimately have pass: "keeps_history i s (cleanup_pass R t n)" using assms(1) by (simp add: cleanup_pass_def)
  then have "gn_sessions (cleanup_pass R t n) \<noteq> []" by (auto simp: keeps_history_def jm_get_def)
  with pass assms(1) show ?thesis by (simp add: cleanup_tick_def Let_def)
qed

text \<open>Calls that may drop the session \<open>i\<close> or reuse its identifier are left out.\<close>

fun game_ok :: "string \<Rightarrow> 'r game_node \<Rightarrow> int \<times> game_call \<Rightarrow> bool" where
  "game_ok i n (t, GameCreate j players gameMode settings) \<longleftrightarrow> j \<noteq> i"
| "game_ok i n (t, GameRemove j) \<longleftrightarrow> j \<noteq> i"
| "game_ok i n (t, GameCleanup) \<longleftrightarrow> \<not> session_stale t (the (jm_get (gn_sessions n) i))"
| "game_ok i n (t, _) \<longleftrightarrow> True"

lemma getSessionAsync_wf: "jm_wf (gn_sessions n) \<Longrightarrow> jm_wf (gn_sessions (snd (getSessionAsync R t j n)))"
  by (auto simp: getSessionAsync_def split: option.splits prod.splits session_value.splits)

lemma with_session_wf: "jm_wf (gn_sessions n) \<Longrightarrow> jm_wf (gn_sessions (snd (with_session R t j f n)))"
  using getSessionAsync_wf [of n R t j]
  by (auto simp: with_session_def split: option.splits prod.splits sum.splits)

lemma close_all_wf: "jm_wf (gn_sessions n) \<Longrightarrow> jm_wf (gn_sessions (closeAllActiveSessions R reason t n))"
proof -
  have "jm_wf (gn_sessions n) \<Longrightarrow>
      jm_wf (gn_sessions (foldl (\<lambda>n session. snd (finishGame R (gs_id session) (closing_state reason) t n)) n xs))" for xs
    by (induction xs arbitrary: n) (auto simp: finishGame_def intro: with_session_wf)
  then show "jm_wf (gn_sessions n) \<Longrightarrow> ?thesis" by (simp add: closeAllActiveSessions_def)
qed

lemma cleanup_wf: "jm_wf (gn_sessions n) \<Longrightarrow> jm_wf (gn_sessions (cleanup_tick R t n))"
proof -
  have "jm_wf (gn_sessions n) \<Longrightarrow> jm_wf (gn_sessions (foldl (\<lambda>n i. removeSession R i t n) n js))" for js
    by (induction js arbitrary: n) (auto simp: removeSession_def)
  then show "jm_wf (gn_sessions n) \<Longrightarrow> ?thesis" by (simp add: cleanup_tick_def cleanup_pass_def Let_def jm_wf_def)
qed

lemma game_exec_wf: "jm_wf (gn_sessions n) \<Longrightarrow> jm_wf (gn_sessions (game_exec R n x))"
proof (induction R n x rule: game_exec.induct)
  case (6 R n t i)
  then show ?case
    using getSessionAsync_wf [of n R t i] by (auto simp: generateReplayData_def split: prod.split option.split)
qed (auto simp: createSession_def Let_def updateGameState_def processPlayerAction_def finishGame_def removeSession_def
    intro: getSessionAsync_wf with_session_wf close_all_wf cleanup_wf)

lemma game_exec_keeps:
  assumes "keeps_history i s n" and "jm_wf (gn_sessions n)" and "game_ok i n x"
  shows "keeps_history i s (game_exec R n x)"
  using assms
proof (induction R n x rule: game_exec.induct)
  case (1 R n t j players gameMode settings)
  then show ?case by (simp add: createSession_def Let_def keeps_history_def)
next
  case (3 R n t j st)
  then show ?case
    unfolding game_exec.simps updateGameState_def by (intro with_session_keeps) (auto simp: extends_session_def)
next
  case (4 R n t j p a)
  then show ?case
    unfolding game_exec.simps processPlayerAction_def
    by (intro with_session_keeps) (auto simp: extends_session_def split: if_splits)
next
  case (6 R n t j)
  then show ?case
    using getSessionAsync_keeps [of i s n R t j] by (auto simp: generateReplayData_def split: prod.split option.split)
qed (auto intro: getSessionAsync_keeps finishGame_keeps closeAll_keeps remove_other_keeps cleanup_keeps)

lemma game_machine:
  "keeps_history i s n \<Longrightarrow> jm_wf (gn_sessions n) \<Longrightarrow>
     invariant_machine n (game_exec R) (game_ok i) (\<lambda>n. keeps_history i s n \<and> jm_wf (gn_sessions n))"
  by unfold_locales (auto intro: game_exec_keeps game_exec_wf)

section \<open>The clean-up timer\<close>

text \<open>No call starts the timer again.\<close>

lemma getSessionAsync_cleaning [simp]: "gn_cleaning (snd (getSessionAsync R t j n)) = gn_cleaning n"
  by (auto simp: getSessionAsync_def split: option.splits prod.splits session_value.splits)

lemma with_session_cleaning [simp]: "gn_cleaning (snd (with_session R t j f n)) = gn_cleaning n"
  by (cases "getSessionAsync R t j n")
    (use getSessionAsync_cleaning [of R t j n] in \<open>simp add: with_session_def split: option.split sum.split\<close>)

lemma close_all_cleaning [simp]: "gn_cleaning (closeAllActiveSessions R reason t n) = gn_cleaning n"
proof -
  have "gn_cleaning (foldl (\<lambda>n session. snd (finishGame R (gs_id session) (closing_state reason) t n)) n xs) = gn_cleaning n" for xs
    by (induction xs arbitrary: n) (simp_all add: finishGame_def)
  then show ?thesis by (simp add: closeAllActiveSessions_def)
qed

lemma game_exec_cleaning: "\<not> gn_cleaning n \<Longrightarrow> \<not> gn_cleaning (game_exec R n x)"
proof (induction R n x rule: game_exec.induct)
  case (6 R n t i)
  then show ?case
    by (cases "getSessionAsync R t i n")
      (use getSessionAsync_cleaning [of R t i n] in \<open>simp add: generateReplayData_def split: option.split\<close>)
qed (auto simp: createSession_def Let_def updateGameState_def processPlayerAction_def finishGame_def removeSession_def
    cleanup_tick_def)

lemma game_run_cleaning: "\<not> gn_cleaning n \<Longrightarrow> \<not> gn_cleaning (foldl (game_exec R) n calls)"
  by (induction calls arbitrary: n) (auto dest: game_exec_cleaning)

section \<open>Copies in the shared cache\<close>

text \<open>Two processes use the same Redis: what one has written is what the other finds.\<close>

definition share_redis :: "'r game_node \<Rightarrow> 'r game_node \<Rightarrow> 'r game_node" where
  "share_redis a b = b\<lparr>gn_cache := (gn_cache b)\<lparr>ca_redis := ca_redis (gn_cache a)\<rparr>\<rparr>"

lemma persist_view:
  assumes "redis_ok R vw" and "isRedisConnected c" and "t \<le> t'" and "t' < t + 3600000"
  shows "isRedisConnected (persistToCache R t s c) \<and>
    service_view vw t' (persistToCache R t s c) (sessionCacheKey (gs_id s)) = Some (CachedSession (json_session s))"
proof -
  obtain r where r: "ca_redis c = Some r" "ca_ready c" using assms(2) by (auto simp: isRedisConnected_def)
  note redis = assms(1) [unfolded redis_ok_def]
  have "sessionCacheKey (gs_id s) \<noteq> stateCacheKey (gs_id s)" by (simp add: sessionCacheKey_def stateCacheKey_def)
  then show ?thesis
    using r assms(3,4) cache_backend.put_live [OF redis, of t t' 3600] cache_backend.put_other [OF redis, of t t']
    by (simp add: persistToCache_def cacheSet_def backend_def isRedisConnected_def service_view_def Let_def SESSION_CACHE_TTL_SECONDS_def)
qed

lemma shared_view:
  "isRedisConnected (gn_cache a) \<Longrightarrow> isRedisConnected (gn_cache b) \<Longrightarrow>
     isRedisConnected (gn_cache (share_redis a b)) \<and>
     service_view vw t (gn_cache (share_redis a b)) k = service_view vw t (gn_cache a) k"
  by (auto simp: share_redis_def isRedisConnected_def service_view_def backend_def)

section \<open>Closing all sessions\<close>

lemma finishGame_local:
  "jm_get (gn_sessions n) i = Some s \<Longrightarrow>
     gn_sessions (snd (finishGame R i res t n)) = jm_set (gn_sessions n) i (s\<lparr>gs_finishedAt := Some t, gs_state := res\<rparr>)"
  by (simp add: finishGame_def with_session_def getSessionAsync_local)

lemma finish_all:
  assumes "\<forall>x\<in>set xs. jm_get (gn_sessions n) (gs_id x) \<noteq> None"
  shows "jm_get (gn_sessions (foldl (\<lambda>n x. snd (finishGame R (gs_id x) res t n)) n xs)) i =
    map_option (\<lambda>s. if i \<in> gs_id ` set xs then s\<lparr>gs_finishedAt := Some t, gs_state := res\<rparr> else s) (jm_get (gn_sessions n) i)"
  using assms
proof (induction xs arbitrary: n)
  case Nil
  then show ?case by (simp add: option.map_ident)
next
  case (Cons x xs)
  then obtain s where s: "jm_get (gn_sessions n) (gs_id x) = Some s" by auto
  let ?n = "snd (finishGame R (gs_id x) res t n)"
  have "\<forall>y\<in>set xs. jm_get (gn_sessions ?n) (gs_id y) \<noteq> None"
    using Cons.prems by (simp add: finishGame_local [OF s])
  from Cons.IH [OF this] show ?case
    by (auto simp: finishGame_local [OF s] s option.map_comp comp_def intro!: option.map_cong0)
qed

lemma close_all_sessions:
  assumes "jm_wf (gn_sessions n)" and "\<And>k s. jm_get (gn_sessions n) k = Some s \<Longrightarrow> gs_id s = k"
    and "jm_get (gn_sessions n) i = Some s"
  shows "jm_get (gn_sessions (closeAllActiveSessions R reason t n)) i =
    Some (s\<lparr>gs_finishedAt := Some t, gs_state := closing_state reason\<rparr>)"
proof -
  have "\<forall>x\<in>set (getActiveSessions n). jm_get (gn_sessions n) (gs_id x) \<noteq> None"
    using jm_values_get [OF assms(1)] assms(2) by (fastforce simp: getActiveSessions_def)
  moreover have "i \<in> gs_id ` set (getActiveSessions n)"
    using jm_get_in_values [OF assms(3)] assms(2) [OF assms(3)] by (force simp: getActiveSessions_def)
  ultimately show ?thesis
    by (simp add: closeAllActiveSessions_def finish_all assms(3))
qed

lemma tick_active: "mt_active m \<Longrightarrow> schedule_tick R t m = m"
  by (simp add: schedule_tick_def isMaintenanceActive_def split: option.split)

lemma ticks_active: "mt_active m \<Longrightarrow> foldl (\<lambda>m t. schedule_tick R t m) m ts = m"
  by (induction ts arbitrary: m) (simp_all add: tick_active)

section \<open>Properties\<close>

text \<open>
  C34. As long as a process holds a session, its players, mode, settings and start never change, its actions are only appended
  to, and every new action is by a player of the session, whatever calls are made on this and other sessions.
\<close>

theorem session_history_kept:
  assumes "jm_wf (gn_sessions n)" and "jm_get (gn_sessions n) i = Some s" and "allowed_run (game_exec R) (game_ok i) n calls"
  shows "\<exists>s'. jm_get (gn_sessions (foldl (game_exec R) n calls)) i = Some s' \<and> extends_session s s'"
proof -
  from assms(2) have "keeps_history i s n" by (simp add: keeps_history_def)
  from invariant_machine.inv_run [OF game_machine [OF this assms(1)], of n R calls] this assms
  have "keeps_history i s (foldl (game_exec R) n calls)" by simp
  then show ?thesis by (auto simp: keeps_history_def split: option.splits)
qed

text \<open>
  Two processes that both hold a session lose each other's actions: an action accepted by the first is missing from the
  copy that the second writes back, so a third process reads a session without it.
\<close>

theorem stale_copy_loses_action:
  assumes "redis_ok R vw" and "\<forall>n\<in>{a, b, c}. isRedisConnected (gn_cache n)"
    and "jm_get (gn_sessions a) (gs_id s) = Some s" and "jm_get (gn_sessions b) (gs_id s) = Some s"
    and "jm_get (gn_sessions c) (gs_id s) = None"
    and "p \<in> set (gs_players s)" and "q \<in> set (gs_players s)" and "t2 \<le> t3" and "t3 < t2 + 3600000"
  shows "let (x, a1) = processPlayerAction R (gs_id s) p v t1 a;
      (y, b1) = processPlayerAction R (gs_id s) q w t2 (share_redis a1 b);
      (z, c1) = getSessionAsync R t3 (gs_id s) (share_redis b1 c)
    in x = Inr (s\<lparr>gs_actions := gs_actions s @ [\<lparr>ga_playerId = p, ga_action = v, ga_timestamp = t1\<rparr>]\<rparr>) \<and>
       z = Some (json_session (s\<lparr>gs_actions := gs_actions s @ [\<lparr>ga_playerId = q, ga_action = w, ga_timestamp = t2\<rparr>]\<rparr>))"
proof -
  define sa where "sa = s\<lparr>gs_actions := gs_actions s @ [\<lparr>ga_playerId = p, ga_action = v, ga_timestamp = t1\<rparr>]\<rparr>"
  define sb where "sb = s\<lparr>gs_actions := gs_actions s @ [\<lparr>ga_playerId = q, ga_action = w, ga_timestamp = t2\<rparr>]\<rparr>"
  define a1 where "a1 = snd (processPlayerAction R (gs_id s) p v t1 a)"
  define b1 where "b1 = snd (processPlayerAction R (gs_id s) q w t2 (share_redis a1 b))"
  have x: "fst (processPlayerAction R (gs_id s) p v t1 a) = Inr sa" and a1: "gn_cache a1 = persistToCache R t1 sa (gn_cache a)"
    using assms(3,6) by (simp_all add: a1_def processPlayerAction_def with_session_def getSessionAsync_local sa_def)
  have b1: "gn_cache b1 = persistToCache R t2 sb (gn_cache (share_redis a1 b))"
    using assms(4,7) by (simp add: b1_def processPlayerAction_def with_session_def getSessionAsync_def share_redis_def sb_def)
  have "isRedisConnected (gn_cache a1)"
    using persist_view [OF assms(1), of "gn_cache a" t1 t1 sa] assms(2) a1 by simp
  then have "isRedisConnected (gn_cache (share_redis a1 b))" using shared_view assms(2) by blast
  then have conn: "isRedisConnected (gn_cache b1)"
    and "service_view vw t3 (gn_cache b1) (sessionCacheKey (gs_id s)) = Some (CachedSession (json_session sb))"
    using persist_view [OF assms(1), of _ t2 t3 sb] assms(8,9) b1 by (simp_all add: sb_def)
  then have "service_view vw t3 (gn_cache (share_redis b1 c)) (sessionCacheKey (gs_id s)) = Some (CachedSession (json_session sb))"
    using shared_view [OF conn] assms(2) by simp
  then have "fst (cacheGet R t3 (sessionCacheKey (gs_id s)) (gn_cache (share_redis b1 c))) = Some (CachedSession (json_session sb))"
    by (simp add: cache_backend.get_value [OF service_meets_contract [OF assms(1)]])
  then have "fst (getSessionAsync R t3 (gs_id s) (share_redis b1 c)) = Some (json_session sb)"
    using assms(5) by (auto simp: getSessionAsync_def share_redis_def split: prod.splits)
  with x show ?thesis by (simp add: case_prod_unfold Let_def a1_def b1_def sa_def sb_def)
qed

text \<open>
  Entering maintenance replaces the state of every session the process still holds, also of games that were finished before:
  their results and finishing times are lost.
\<close>

theorem maintenance_overwrites_results:
  assumes "jm_wf (gn_sessions (mt_node m))" and "\<And>k s. jm_get (gn_sessions (mt_node m)) k = Some s \<Longrightarrow> gs_id s = k"
    and "jm_get (gn_sessions (mt_node m)) i = Some s" and "gs_finishedAt s = Some finished" and "message \<noteq> []"
  shows "jm_get (gn_sessions (mt_node (enableMaintenanceImmediately R en message now m))) i =
    Some (s\<lparr>gs_finishedAt := Some now, gs_state := closing_state message\<rparr>)"
  using close_all_sessions [OF assms(1,2,3)] assms(5)
  by (simp add: enableMaintenanceImmediately_def closeExistingGamesSafely_def notifyScheduledMaintenance_def mt_emit_def Let_def)

text \<open>
  Scheduled maintenance does not end: once the timer has started it, players are refused at every later time, past the
  scheduled end, until somebody disables or reschedules it.
\<close>

theorem scheduled_maintenance_never_ends:
  assumes "mt_startTime m = Some st" and "mt_endTime m = Some en" and "st \<le> now" and "now \<le> en" and "mt_message m \<noteq> []"
  shows "maintenanceMiddleware t (Some ''USER'') ''/api/v1/matches'' (foldl (\<lambda>m t. schedule_tick R t m) m (now # ts))
    = Inl (HttpError 503 (mt_message m))"
proof -
  have "mt_active (schedule_tick R now m) \<and> mt_message (schedule_tick R now m) = mt_message m"
    using assms by (auto simp: schedule_tick_def isMaintenanceActive_def closeExistingGamesSafely_def mt_emit_def Let_def)
  with assms(5) show ?thesis
    by (simp add: ticks_active maintenanceMiddleware_def isMaintenanceActive_def sublist_code)
qed

text \<open>
  The clean-up stops for good: once the timer has fired while the process held no session, it never removes a session again,
  whatever is created and finished later.
\<close>

theorem cleanup_stops_for_good:
  assumes "gn_sessions n = []"
  shows "let m = foldl (game_exec R) (cleanup_tick R t n) calls in cleanup_tick R t' m = m"
proof -
  have "\<not> gn_cleaning (cleanup_tick R t n)" using assms by (simp add: cleanup_tick_def cleanup_pass_def Let_def)
  from game_run_cleaning [OF this] show ?thesis by (simp add: Let_def cleanup_tick_def)
qed

section \<open>Witnesses\<close>

definition demo_game :: game_session where
  "demo_game = \<lparr>gs_id = ''g'', gs_players = [''p'', ''q''], gs_gameMode = ''ranked'', gs_settings = JObj [], gs_state = JObj [],
     gs_actions = [], gs_startedAt = 0, gs_finishedAt = Some 5, gs_replayData = None\<rparr>"

definition demo_node :: "bool \<Rightarrow> (session_value option mem_store) game_node" where
  "demo_node holds = \<lparr>gn_sessions = (if holds then [(''g'', demo_game)] else []), gn_cleaning = True, gn_cache = on_ready (new_cache (Some []) 300)\<rparr>"

definition demo_maintenance :: "(session_value option mem_store) maintenance" where
  "demo_maintenance = \<lparr>mt_active = False, mt_startTime = Some 100, mt_endTime = Some 200, mt_message = ''Upgrade'', mt_io = True,
     mt_sent = [], mt_node = demo_node True\<rparr>"

lemmas demo_game_defs = demo_game_def demo_node_def demo_maintenance_def jm_get_def jm_wf_def

theorem session_history_kept_witness:
  "\<exists>s'. jm_get (gn_sessions (foldl (game_exec demo_redis) (demo_node True) [(1, GameAction ''g'' ''p'' JNull), (2, GameRemove ''h'')])) ''g'' = Some s'
     \<and> extends_session demo_game s'"
  by (rule session_history_kept) (simp_all add: demo_game_defs)

theorem stale_copy_loses_action_witness:
  "let (x, a1) = processPlayerAction demo_redis ''g'' ''p'' JNull 10 (demo_node True);
       (y, b1) = processPlayerAction demo_redis ''g'' ''q'' (JBool True) 20 (share_redis a1 (demo_node True));
       (z, c1) = getSessionAsync demo_redis 30 ''g'' (share_redis b1 (demo_node False))
   in map_option gs_actions z = Some [\<lparr>ga_playerId = ''q'', ga_action = JBool True, ga_timestamp = 20\<rparr>]"
  using stale_copy_loses_action [OF demo_redis_ok, of "demo_node True" "demo_node True" "demo_node False" demo_game "''p''" "''q''" 20 30 JNull 10 "JBool True"]
  by (simp add: demo_game_defs isRedisConnected_def on_ready_def new_cache_def json_session_def case_prod_unfold Let_def)

theorem cleanup_stops_for_good_witness:
  "let m = foldl (game_exec demo_redis) (cleanup_tick demo_redis 0 (demo_node False))
     [(1, GameCreate ''h'' [''p''] ''ranked'' JNull), (2, GameFinish ''h'' JNull)]
   in cleanup_tick demo_redis 9000000 m = m"
  by (rule cleanup_stops_for_good) (simp add: demo_node_def)

theorem maintenance_overwrites_results_witness:
  "jm_get (gn_sessions (mt_node (enableMaintenanceImmediately demo_redis 500 ''Down'' 300 demo_maintenance))) ''g'' =
    Some (demo_game\<lparr>gs_finishedAt := Some 300, gs_state := closing_state ''Down''\<rparr>)"
  by (rule maintenance_overwrites_results [where finished = 5]) (auto simp: demo_game_defs split: if_splits)

theorem scheduled_maintenance_never_ends_witness:
  "maintenanceMiddleware 1000000 (Some ''USER'') ''/api/v1/matches'' (foldl (\<lambda>m t. schedule_tick demo_redis t m) demo_maintenance [150, 160, 900000])
    = Inl (HttpError 503 ''Upgrade'')"
  using scheduled_maintenance_never_ends [of demo_maintenance 100 200 150 1000000 demo_redis "[160, 900000]"]
  by (simp add: demo_maintenance_def)

end
