(* ===== verification/Admin.thy ===== *)
theory Admin
  imports Custody
begin

text \<open>
  Administration (\<^verbatim>\<open>server/src/services/admin.service.ts\<close>, \<^verbatim>\<open>server/src/services/kyc.service.ts\<close>,
  \<^verbatim>\<open>server/src/services/security-incident.service.ts\<close>): bans, the game configuration, the moderation queue,
  identity reviews and security incidents.

  Times and fresh identifiers are arguments, and so is the verdict of the content filter on a reported text. Webhook
  messages, which nothing waits for, are left out. A foreign key that is not found is the error \<open>P2003\<close>.
\<close>

section \<open>State\<close>

record ban =
  bn_id :: string
  bn_userId :: string
  bn_reason :: string
  bn_bannedAt :: int
  bn_unbannedAt :: "int option"

record ban_info =
  bi_reason :: string
  bi_unbannedAt :: "int option"

record game_config =
  gc_maintenanceMode :: bool
  gc_maxPlayersPerMatch :: int
  gc_minPlayersToStart :: int
  gc_matchTimeout :: int
  gc_dailyMatchLimit :: int

datatype moderation_status = ModPENDING | ModREVIEWED | ModACTIONED

datatype content_type = ContentChat | ContentUsername | ContentContent

record moderation_item =
  mi_id :: string
  mi_type :: content_type
  mi_reportedUserId :: string
  mi_content :: string
  mi_reportedAt :: int
  mi_status :: moderation_status
  mi_flagged :: bool
  mi_flagReason :: "string option"
  mi_severity :: string
  mi_reviewedAt :: "int option"
  mi_actionTaken :: "string option"

record admin_log =
  al_adminId :: string
  al_action :: string
  al_targetId :: string
  al_details :: json

datatype kyc_status = KycPENDING | KycAPPROVED | KycREJECTED | KycESCALATED

record kyc_review =
  ky_userId :: string
  ky_status :: kyc_status
  ky_documents :: json
  ky_notes :: "string option"
  ky_reviewerId :: "string option"
  ky_resolvedAt :: "int option"
  ky_createdAt :: int
  ky_updatedAt :: int

record admin_state =
  ad_users :: "(string, user) jsmap"
  ad_bans :: "ban list"
  ad_configRow :: "game_config option"
  ad_items :: "(string, moderation_item) jsmap"
  ad_logs :: "admin_log list"
  ad_reviews :: "(string, kyc_review) jsmap"
  ad_inMemoryGameConfig :: game_config
  ad_bannedUsers :: "(string, ban_info) jsmap"

definition default_config :: game_config where
  "default_config = \<lparr>gc_maintenanceMode = False, gc_maxPlayersPerMatch = 8, gc_minPlayersToStart = 2, gc_matchTimeout = 3600,
     gc_dailyMatchLimit = 100\<rparr>"

definition new_admin :: "(string, user) jsmap \<Rightarrow> admin_state" where
  "new_admin users = \<lparr>ad_users = users, ad_bans = [], ad_configRow = None, ad_items = jm_empty, ad_logs = [], ad_reviews = jm_empty,
     ad_inMemoryGameConfig = default_config, ad_bannedUsers = jm_empty\<rparr>"

section \<open>Bans\<close>

definition foreign_key_error :: error where
  "foreign_key_error = PrismaError ''P2003''"

text \<open>The administrator of a log entry is a foreign key into the users.\<close>

definition auditLog :: "string \<Rightarrow> string \<Rightarrow> string \<Rightarrow> json \<Rightarrow> admin_state \<Rightarrow> bool result \<times> admin_state" where
  "auditLog adminId action target details a =
     (if jm_get (ad_users a) adminId = None then (Inl foreign_key_error, a)
      else (Inr True, a\<lparr>ad_logs := ad_logs a @ [\<lparr>al_adminId = adminId, al_action = action, al_targetId = target, al_details = details\<rparr>]\<rparr>))"

text \<open>Hours until the ban ends; \<^verbatim>\<open>undefined\<close> and 0 are a permanent ban.\<close>

definition ban_end :: "int \<Rightarrow> rat option \<Rightarrow> int option" where
  "ban_end now duration =
     (case duration of None \<Rightarrow> None | Some d \<Rightarrow> if d = 0 then None else Some (\<lfloor>of_int now + d * 60 * 60 * 1000\<rfloor>))"

definition banUser :: "string \<Rightarrow> string \<Rightarrow> rat option \<Rightarrow> string \<Rightarrow> int \<Rightarrow> admin_state \<Rightarrow> bool result \<times> admin_state" where
  "banUser userId reason duration banId now a =
     (if userId = [] \<or> reason = [] then (Inl (PlainError ''userId and reason are required''), a)
      else if length (js_trim reason) < 5 then (Inl (PlainError ''reason must be at least 5 characters''), a)
      else if (case duration of None \<Rightarrow> False | Some d \<Rightarrow> 24 * 30 < d) then (Inl (PlainError ''duration cannot exceed 30 days''), a)
      else (case jm_get (ad_users a) userId of
          None \<Rightarrow> (Inl (PlainError ''user not found''), a)
        | Some target \<Rightarrow>
            if us_role target = ''ADMIN'' \<or> us_role target = ''MODERATOR''
            then (Inl (PlainError ''cannot ban a user with elevated privileges''), a)
            else
              (let unbannedAt = ban_end now duration;
                   a1 = a\<lparr>ad_bans := ad_bans a @ [\<lparr>bn_id = banId, bn_userId = userId, bn_reason = reason, bn_bannedAt = now,
                            bn_unbannedAt = unbannedAt\<rparr>],
                          ad_bannedUsers := jm_set (ad_bannedUsers a) userId \<lparr>bi_reason = reason, bi_unbannedAt = unbannedAt\<rparr>\<rparr>;
                   (_, a2) = auditLog ''system'' ''ban_user'' userId
                     (JObj [(''reason'', JStr reason), (''durationHours'', case duration of None \<Rightarrow> JNull | Some d \<Rightarrow> JNum d)]) a1
               in (Inr True, a2))))"

definition active_ban :: "int \<Rightarrow> ban \<Rightarrow> bool" where
  "active_ban now b \<longleftrightarrow> (case bn_unbannedAt b of None \<Rightarrow> True | Some t \<Rightarrow> now < t)"

text \<open>The active ban of a user that began last; of two with the same time the database may give either, here the later row.\<close>

definition latest_active_ban :: "string \<Rightarrow> int \<Rightarrow> ban list \<Rightarrow> ban option" where
  "latest_active_ban userId now bans =
     (case filter (\<lambda>b. bn_userId b = userId \<and> active_ban now b) bans of
        [] \<Rightarrow> None
      | b # bs \<Rightarrow> Some (foldl (\<lambda>m b. if bn_bannedAt m \<le> bn_bannedAt b then b else m) b bs))"

definition unbanUser :: "string \<Rightarrow> int \<Rightarrow> admin_state \<Rightarrow> bool result \<times> admin_state" where
  "unbanUser userId now a =
     (case latest_active_ban userId now (ad_bans a) of
        None \<Rightarrow> (Inl (PlainError ''User is not banned''), a)
      | Some activeBan \<Rightarrow>
          (let a1 = a\<lparr>ad_bans := map (\<lambda>b. if bn_id b = bn_id activeBan then b\<lparr>bn_unbannedAt := Some now\<rparr> else b) (ad_bans a),
                      ad_bannedUsers := jm_delete (ad_bannedUsers a) userId\<rparr>;
               (_, a2) = auditLog ''system'' ''unban_user'' userId (JObj []) a1
           in (Inr True, a2)))"

definition isUserBanned :: "string \<Rightarrow> int \<Rightarrow> admin_state \<Rightarrow> bool \<times> admin_state" where
  "isUserBanned userId now a =
     (case jm_get (ad_bannedUsers a) userId of
        None \<Rightarrow> (False, a)
      | Some info \<Rightarrow>
          (case bi_unbannedAt info of
             Some t \<Rightarrow> if t < now then (False, a\<lparr>ad_bannedUsers := jm_delete (ad_bannedUsers a) userId\<rparr>) else (True, a)
           | None \<Rightarrow> (True, a)))"

definition getBanInfo :: "string \<Rightarrow> admin_state \<Rightarrow> ban_info option" where
  "getBanInfo userId a = jm_get (ad_bannedUsers a) userId"

text \<open>The filter of the user list that selects the banned users.\<close>

definition listed_as_banned :: "string \<Rightarrow> int \<Rightarrow> admin_state \<Rightarrow> bool" where
  "listed_as_banned userId now a \<longleftrightarrow> list_ex (\<lambda>b. bn_userId b = userId \<and> active_ban now b) (ad_bans a)"

section \<open>Game configuration\<close>

record config_input =
  ci_maintenanceMode :: "bool option"
  ci_maxPlayersPerMatch :: "int option"
  ci_minPlayersToStart :: "int option"
  ci_matchTimeout :: "int option"
  ci_dailyMatchLimit :: "int option"

definition getGameConfig :: "admin_state \<Rightarrow> game_config" where
  "getGameConfig a = (case ad_configRow a of Some cfg \<Rightarrow> cfg | None \<Rightarrow> ad_inMemoryGameConfig a)"

definition or_else :: "'a option \<Rightarrow> 'a \<Rightarrow> 'a" where
  "or_else x d = (case x of None \<Rightarrow> d | Some v \<Rightarrow> v)"

definition apply_config :: "config_input \<Rightarrow> game_config \<Rightarrow> game_config" where
  "apply_config c base = \<lparr>gc_maintenanceMode = or_else (ci_maintenanceMode c) (gc_maintenanceMode base),
     gc_maxPlayersPerMatch = or_else (ci_maxPlayersPerMatch c) (gc_maxPlayersPerMatch base),
     gc_minPlayersToStart = or_else (ci_minPlayersToStart c) (gc_minPlayersToStart base),
     gc_matchTimeout = or_else (ci_matchTimeout c) (gc_matchTimeout base),
     gc_dailyMatchLimit = or_else (ci_dailyMatchLimit c) (gc_dailyMatchLimit base)\<rparr>"

text \<open>A missing row is created with the defaults of the table, which are those of \<open>default_config\<close>.\<close>

definition updateGameConfig :: "config_input \<Rightarrow> admin_state \<Rightarrow> game_config result \<times> admin_state" where
  "updateGameConfig c a =
     (if (case ci_maxPlayersPerMatch c of None \<Rightarrow> False | Some m \<Rightarrow> m \<noteq> 0 \<and> m < 2)
      then (Inl (PlainError ''maxPlayersPerMatch must be at least 2''), a)
      else
        (let maxPlayers = or_else (ci_maxPlayersPerMatch c) (gc_maxPlayersPerMatch (ad_inMemoryGameConfig a))
         in if (case ci_minPlayersToStart c of None \<Rightarrow> False | Some m \<Rightarrow> m \<noteq> 0 \<and> maxPlayers < m)
            then (Inl (PlainError ''minPlayersToStart cannot exceed maxPlayersPerMatch''), a)
            else (let cfg = apply_config c (case ad_configRow a of Some existing \<Rightarrow> existing | None \<Rightarrow> default_config)
                  in (Inr cfg, a\<lparr>ad_configRow := Some cfg\<rparr>))))"

definition toggleMaintenanceMode :: "bool \<Rightarrow> admin_state \<Rightarrow> bool result \<times> admin_state" where
  "toggleMaintenanceMode enabled a =
     (Inr True, a\<lparr>ad_inMemoryGameConfig := (ad_inMemoryGameConfig a)\<lparr>gc_maintenanceMode := enabled\<rparr>\<rparr>)"

section \<open>Moderation queue\<close>

record detection =
  de_flagged :: bool
  de_reason :: "string option"
  de_severity :: "string option"

definition getModerationQueue :: "admin_state \<Rightarrow> moderation_item list" where
  "getModerationQueue a = sort_key (\<lambda>i. - mi_reportedAt i) (filter (\<lambda>i. mi_status i = ModPENDING) (jm_values (ad_items a)))"

datatype review_action = ReviewApprove | ReviewReject | ReviewRemove

fun action_taken :: "review_action \<Rightarrow> string" where
  "action_taken ReviewRemove = ''removed''"
| "action_taken ReviewApprove = ''approve''"
| "action_taken ReviewReject = ''reject''"

definition reviewContent :: "string \<Rightarrow> review_action \<Rightarrow> int \<Rightarrow> admin_state \<Rightarrow> bool result \<times> admin_state" where
  "reviewContent contentId action now a =
     (case jm_get (ad_items a) contentId of
        None \<Rightarrow> (Inl (PlainError ''Content not found in moderation queue''), a)
      | Some existing \<Rightarrow>
          (Inr True, a\<lparr>ad_items := jm_set (ad_items a) contentId (existing\<lparr>mi_status := ModREVIEWED, mi_reviewedAt := Some now,
             mi_actionTaken := Some (action_taken action)\<rparr>)\<rparr>))"

definition reportContent ::
  "(string \<Rightarrow> detection) \<Rightarrow> string \<Rightarrow> content_type \<Rightarrow> string \<Rightarrow> string \<Rightarrow> int \<Rightarrow> admin_state \<Rightarrow> moderation_item result \<times> admin_state" where
  "reportContent detectAll userId type content itemId now a =
     (let d = detectAll content
      in if jm_get (ad_users a) userId = None then (Inl foreign_key_error, a)
         else (case row_create (ad_items a) itemId
             \<lparr>mi_id = itemId, mi_type = type, mi_reportedUserId = userId, mi_content = content, mi_reportedAt = now,
              mi_status = ModPENDING, mi_flagged = de_flagged d, mi_flagReason = de_reason d,
              mi_severity = or_else (de_severity d) ''LOW'', mi_reviewedAt = None, mi_actionTaken = None\<rparr> of
            Inl e \<Rightarrow> (Inl e, a)
          | Inr items \<Rightarrow>
              (Inr \<lparr>mi_id = itemId, mi_type = type, mi_reportedUserId = userId, mi_content = content, mi_reportedAt = now,
                 mi_status = ModPENDING, mi_flagged = de_flagged d, mi_flagReason = de_reason d,
                 mi_severity = or_else (de_severity d) ''LOW'', mi_reviewedAt = None, mi_actionTaken = None\<rparr>,
               a\<lparr>ad_items := items\<rparr>)))"

section \<open>Identity reviews\<close>

text \<open>Each user has at most one review: \<^verbatim>\<open>userId\<close> is a unique column.\<close>

definition createReview :: "string \<Rightarrow> json \<Rightarrow> string \<Rightarrow> int \<Rightarrow> admin_state \<Rightarrow> kyc_review result \<times> admin_state" where
  "createReview userId documents reviewId now a =
     (if jm_get (ad_users a) userId = None then (Inl foreign_key_error, a)
      else if jm_get (ad_reviews a) reviewId \<noteq> None \<or> list_ex (\<lambda>r. ky_userId r = userId) (jm_values (ad_reviews a))
      then (Inl (PrismaError ''P2002''), a)
      else (let r = \<lparr>ky_userId = userId, ky_status = KycPENDING, ky_documents = documents, ky_notes = None, ky_reviewerId = None,
                 ky_resolvedAt = None, ky_createdAt = now, ky_updatedAt = now\<rparr>
            in (Inr r, a\<lparr>ad_reviews := jm_set (ad_reviews a) reviewId r\<rparr>)))"

definition getReview :: "string \<Rightarrow> admin_state \<Rightarrow> kyc_review result" where
  "getReview i a = (case jm_get (ad_reviews a) i of None \<Rightarrow> Inl (PlainError ''KYC review not found'') | Some r \<Rightarrow> Inr r)"

definition listReviews :: "kyc_status option \<Rightarrow> nat \<Rightarrow> nat \<Rightarrow> admin_state \<Rightarrow> kyc_review list \<times> nat" where
  "listReviews status limit offset a =
     (let rows = filter (\<lambda>r. case status of None \<Rightarrow> True | Some st \<Rightarrow> ky_status r = st) (jm_values (ad_reviews a))
      in (take limit (drop offset (sort_key (\<lambda>r. - ky_createdAt r) rows)), length rows))"

definition processReview :: "string \<Rightarrow> string \<Rightarrow> kyc_status \<Rightarrow> string option \<Rightarrow> int \<Rightarrow> admin_state \<Rightarrow> kyc_review result \<times> admin_state" where
  "processReview i reviewerId status notes now a =
     (case jm_get (ad_reviews a) i of
        None \<Rightarrow> (Inl (PlainError ''KYC review not found''), a)
      | Some review \<Rightarrow>
          if jm_get (ad_users a) reviewerId = None then (Inl foreign_key_error, a)
          else
            (let updated = review\<lparr>ky_status := status, ky_notes := (case notes of None \<Rightarrow> ky_notes review | Some n \<Rightarrow> Some n),
                   ky_reviewerId := Some reviewerId,
                   ky_resolvedAt := (if status = KycAPPROVED \<or> status = KycREJECTED then Some now else ky_resolvedAt review),
                   ky_updatedAt := now\<rparr>;
                 a1 = a\<lparr>ad_reviews := jm_set (ad_reviews a) i updated\<rparr>
             in if status = KycAPPROVED then
                  (case row_update (ad_users a1) (ky_userId review) (\<lambda>u. u\<lparr>us_isVerified := True\<rparr>) of
                     Inl e \<Rightarrow> (Inl e, a1)
                   | Inr users \<Rightarrow> (Inr updated, a1\<lparr>ad_users := users\<rparr>))
                else (Inr updated, a1)))"

section \<open>Security incidents\<close>

datatype incident_severity = SevLOW | SevMEDIUM | SevHIGH | SevCRITICAL

datatype incident_type =
  BRUTE_FORCE | SQL_INJECTION_ATTEMPT | XSS_ATTEMPT | CSRF_ATTEMPT | UNAUTHORIZED_ACCESS | PRIVILEGE_ESCALATION
| DATA_EXFILTRATION | DDOS_ATTACK | MALICIOUS_PAYLOAD | ACCOUNT_TAKEOVER | ANOMALOUS_BEHAVIOR

datatype incident_status = IncOPEN | IncINVESTIGATING | IncCONTAINED | IncRESOLVED | IncCLOSED

record incident =
  in_id :: string
  in_type :: incident_type
  in_severity :: incident_severity
  in_status :: incident_status
  in_description :: string
  in_sourceIp :: string
  in_userId :: "string option"
  in_createdAt :: int
  in_updatedAt :: int
  in_resolvedAt :: "int option"
  in_resolvedBy :: "string option"
  in_resolution :: "string option"

type_synonym incidents = "(string, incident) jsmap"

definition createIncident ::
  "incident_type \<Rightarrow> incident_severity \<Rightarrow> string \<Rightarrow> string \<Rightarrow> string option \<Rightarrow> string \<Rightarrow> int \<Rightarrow> incidents \<Rightarrow> incident \<times> incidents" where
  "createIncident type severity description sourceIp userId i now s =
     (let inc = \<lparr>in_id = i, in_type = type, in_severity = severity, in_status = IncOPEN, in_description = description,
            in_sourceIp = sourceIp, in_userId = userId, in_createdAt = now, in_updatedAt = now, in_resolvedAt = None,
            in_resolvedBy = None, in_resolution = None\<rparr>
      in (inc, jm_set s i inc))"

definition getIncident :: "string \<Rightarrow> incidents \<Rightarrow> incident option" where
  "getIncident i s = jm_get s i"

record incident_filters =
  fl_type :: "incident_type option"
  fl_severity :: "incident_severity option"
  fl_status :: "incident_status option"
  fl_userId :: "string option"
  fl_startDate :: "int option"
  fl_endDate :: "int option"

definition matches_filter :: "incident_filters \<Rightarrow> incident \<Rightarrow> bool" where
  "matches_filter f inc \<longleftrightarrow>
     (case fl_type f of None \<Rightarrow> True | Some x \<Rightarrow> in_type inc = x) \<and>
     (case fl_severity f of None \<Rightarrow> True | Some x \<Rightarrow> in_severity inc = x) \<and>
     (case fl_status f of None \<Rightarrow> True | Some x \<Rightarrow> in_status inc = x) \<and>
     (case fl_userId f of None \<Rightarrow> True | Some x \<Rightarrow> x = [] \<or> in_userId inc = Some x) \<and>
     (case fl_startDate f of None \<Rightarrow> True | Some x \<Rightarrow> x \<le> in_createdAt inc) \<and>
     (case fl_endDate f of None \<Rightarrow> True | Some x \<Rightarrow> in_createdAt inc \<le> x)"

definition getIncidents :: "incident_filters \<Rightarrow> incidents \<Rightarrow> incident list" where
  "getIncidents f s = sort_key (\<lambda>inc. - in_createdAt inc) (filter (matches_filter f) (jm_values s))"

definition is_resolved :: "incident_status \<Rightarrow> bool" where
  "is_resolved st \<longleftrightarrow> st = IncRESOLVED \<or> st = IncCLOSED"

definition updateIncidentStatus ::
  "string \<Rightarrow> incident_status \<Rightarrow> string option \<Rightarrow> string option \<Rightarrow> int \<Rightarrow> incidents \<Rightarrow> incident result \<times> incidents" where
  "updateIncidentStatus i status resolvedBy resolution now s =
     (case jm_get s i of
        None \<Rightarrow> (Inl (HttpError 404 ''Incident not found''), s)
      | Some inc \<Rightarrow>
          (let inc1 = inc\<lparr>in_status := status, in_updatedAt := now\<rparr>;
               inc2 = (if is_resolved status
                  then inc1\<lparr>in_resolvedAt := Some now, in_resolvedBy := resolvedBy, in_resolution := resolution\<rparr> else inc1)
           in (Inr inc2, jm_set s i inc2)))"

text \<open>The statistics: the counters are updated incident by incident, as the loop does.\<close>

record incident_stats =
  sx_total :: nat
  sx_bySeverity :: "incident_severity \<Rightarrow> nat"
  sx_byType :: "incident_type \<Rightarrow> nat"
  sx_byStatus :: "incident_status \<Rightarrow> nat"
  sx_openIncidents :: nat
  sx_resolvedIncidents :: nat
  sx_totalResolutionTime :: int
  sx_resolvedCount :: nat

definition count_incident :: "incident_stats \<Rightarrow> incident \<Rightarrow> incident_stats" where
  "count_incident st inc =
     (let st1 = st\<lparr>sx_bySeverity := (sx_bySeverity st)(in_severity inc := sx_bySeverity st (in_severity inc) + 1),
                  sx_byType := (sx_byType st)(in_type inc := sx_byType st (in_type inc) + 1),
                  sx_byStatus := (sx_byStatus st)(in_status inc := sx_byStatus st (in_status inc) + 1)\<rparr>;
          st2 = (if in_status inc = IncOPEN then st1\<lparr>sx_openIncidents := sx_openIncidents st1 + 1\<rparr> else st1)
      in if is_resolved (in_status inc) then
           (let st3 = st2\<lparr>sx_resolvedIncidents := sx_resolvedIncidents st2 + 1\<rparr>
            in case in_resolvedAt inc of
                 None \<Rightarrow> st3
               | Some r \<Rightarrow> st3\<lparr>sx_totalResolutionTime := sx_totalResolutionTime st3 + (r - in_createdAt inc),
                                sx_resolvedCount := sx_resolvedCount st3 + 1\<rparr>)
         else st2)"

definition no_incidents :: "nat \<Rightarrow> incident_stats" where
  "no_incidents n = \<lparr>sx_total = n, sx_bySeverity = \<lambda>_. 0, sx_byType = \<lambda>_. 0, sx_byStatus = \<lambda>_. 0, sx_openIncidents = 0,
     sx_resolvedIncidents = 0, sx_totalResolutionTime = 0, sx_resolvedCount = 0\<rparr>"

definition getIncidentStats :: "(int \<times> int) option \<Rightarrow> incidents \<Rightarrow> incident_stats" where
  "getIncidentStats timeRange s =
     (let xs = filter (\<lambda>inc. case timeRange of None \<Rightarrow> True | Some (st, en) \<Rightarrow> st \<le> in_createdAt inc \<and> in_createdAt inc \<le> en) (jm_values s)
      in foldl count_incident (no_incidents (length xs)) xs)"

definition avgResolutionTimeMs :: "incident_stats \<Rightarrow> rat" where
  "avgResolutionTimeMs st =
     (if 0 < sx_resolvedCount st then of_int (sx_totalResolutionTime st) / of_nat (sx_resolvedCount st) else 0)"

section \<open>Bans in memory and in the database\<close>

datatype ban_call = DoBan string string "rat option" string | DoUnban string | AskBanned string

fun ban_exec :: "admin_state \<Rightarrow> int \<times> ban_call \<Rightarrow> admin_state" where
  "ban_exec a (t, DoBan u reason duration i) = snd (banUser u reason duration i t a)"
| "ban_exec a (t, DoUnban u) = snd (unbanUser u t a)"
| "ban_exec a (t, AskBanned u) = snd (isUserBanned u t a)"

text \<open>Identifiers of bans are fresh.\<close>

fun ban_ok :: "admin_state \<Rightarrow> int \<times> ban_call \<Rightarrow> bool" where
  "ban_ok a (t, DoBan u reason duration i) \<longleftrightarrow> i \<notin> bn_id ` set (ad_bans a)"
| "ban_ok a _ \<longleftrightarrow> True"

text \<open>Every ban held in memory is a row of the database with the same end.\<close>

definition bans_inv :: "admin_state \<Rightarrow> bool" where
  "bans_inv a \<longleftrightarrow> distinct (map bn_id (ad_bans a)) \<and>
     (\<forall>u info. jm_get (ad_bannedUsers a) u = Some info \<longrightarrow>
        (\<exists>b\<in>set (ad_bans a). bn_userId b = u \<and> bn_unbannedAt b = bi_unbannedAt info))"

lemma auditLog_frame [simp]:
  "ad_bans (snd (auditLog adminId action target details a)) = ad_bans a"
  "ad_bannedUsers (snd (auditLog adminId action target details a)) = ad_bannedUsers a"
  "ad_users (snd (auditLog adminId action target details a)) = ad_users a"
  by (simp_all add: auditLog_def)

text \<open>The outcomes of a ban.\<close>

lemma banUser_cases:
  obtains (refused) e where "banUser u reason duration i t a = (Inl e, a)"
  | (banned) target a2 where "jm_get (ad_users a) u = Some target" and "us_role target \<noteq> ''ADMIN''" and "us_role target \<noteq> ''MODERATOR''"
      and "5 \<le> length (js_trim reason)" and "\<forall>d. duration = Some d \<longrightarrow> d \<le> 720" and "banUser u reason duration i t a = (Inr True, a2)"
      and "ad_bans a2 = ad_bans a @ [\<lparr>bn_id = i, bn_userId = u, bn_reason = reason, bn_bannedAt = t, bn_unbannedAt = ban_end t duration\<rparr>]"
      and "ad_bannedUsers a2 = jm_set (ad_bannedUsers a) u \<lparr>bi_reason = reason, bi_unbannedAt = ban_end t duration\<rparr>"
      and "ad_users a2 = ad_users a"
proof (cases "fst (banUser u reason duration i t a)")
  case (Inl e)
  then have "banUser u reason duration i t a = (Inl e, a)"
    by (auto simp: banUser_def Let_def case_prod_unfold split: if_splits option.splits)
  then show ?thesis by (rule refused)
next
  case (Inr b)
  then show ?thesis
    by (intro banned [of "the (jm_get (ad_users a) u)" "snd (banUser u reason duration i t a)"])
      (auto simp: banUser_def Let_def case_prod_unfold split: if_splits option.splits)
qed

lemma foldl_pick_in: "foldl (\<lambda>m b. if f m b then b else m) x xs \<in> insert x (set xs)"
  by (induction xs arbitrary: x) auto

lemma latest_active_banD:
  assumes "latest_active_ban u t bans = Some b"
  shows "b \<in> set bans \<and> bn_userId b = u \<and> active_ban t b"
proof -
  from assms obtain c cs where "filter (\<lambda>b. bn_userId b = u \<and> active_ban t b) bans = c # cs"
    and "b = foldl (\<lambda>m b. if bn_bannedAt m \<le> bn_bannedAt b then b else m) c cs"
    by (auto simp: latest_active_ban_def split: list.splits)
  with foldl_pick_in [of "\<lambda>m b. bn_bannedAt m \<le> bn_bannedAt b" c cs] have "b \<in> set (filter (\<lambda>b. bn_userId b = u \<and> active_ban t b) bans)"
    by simp
  then show ?thesis by simp
qed

lemma bans_inv_ban: "bans_inv a \<Longrightarrow> i \<notin> bn_id ` set (ad_bans a) \<Longrightarrow> bans_inv (snd (banUser u reason duration i t a))"
  by (rule banUser_cases [of u reason duration i t a]) (auto simp: bans_inv_def)

lemma bans_inv_unban:
  assumes "bans_inv a"
  shows "bans_inv (snd (unbanUser u t a))"
proof (cases "latest_active_ban u t (ad_bans a)")
  case None
  with assms show ?thesis by (simp add: unbanUser_def)
next
  case (Some c)
  let ?f = "\<lambda>b. if bn_id b = bn_id c then b\<lparr>bn_unbannedAt := Some t\<rparr> else b"
  from Some have a2: "ad_bans (snd (unbanUser u t a)) = map ?f (ad_bans a)"
    "ad_bannedUsers (snd (unbanUser u t a)) = jm_delete (ad_bannedUsers a) u"
    by (simp_all add: unbanUser_def Let_def case_prod_unfold)
  have "map bn_id (map ?f (ad_bans a)) = map bn_id (ad_bans a)" by auto
  moreover have "distinct (map bn_id (ad_bans a))" using assms by (simp add: bans_inv_def)
  ultimately have ids: "distinct (map bn_id (map ?f (ad_bans a)))" by (simp only:)
  have "\<exists>b\<in>set (map ?f (ad_bans a)). bn_userId b = v \<and> bn_unbannedAt b = bi_unbannedAt info"
    if "jm_get (ad_bannedUsers a) v = Some info" and "v \<noteq> u" for v info
  proof -
    from assms that(1) obtain b where b: "b \<in> set (ad_bans a)" "bn_userId b = v" "bn_unbannedAt b = bi_unbannedAt info"
      by (auto simp: bans_inv_def)
    have "bn_id b \<noteq> bn_id c"
    proof
      assume "bn_id b = bn_id c"
      with assms b(1) latest_active_banD [OF Some] have "b = c" by (auto simp: bans_inv_def distinct_map inj_on_def)
      with b(2) that(2) latest_active_banD [OF Some] show False by simp
    qed
    then have "?f b = b" by simp
    moreover have "?f b \<in> set (map ?f (ad_bans a))" using b(1) by simp
    ultimately have "b \<in> set (map ?f (ad_bans a))" by simp
    with b(2,3) show ?thesis by blast
  qed
  then have "\<forall>v info. jm_get (jm_delete (ad_bannedUsers a) u) v = Some info \<longrightarrow>
      (\<exists>b\<in>set (map ?f (ad_bans a)). bn_userId b = v \<and> bn_unbannedAt b = bi_unbannedAt info)"
    by (simp only: jm_get_delete split: if_split) blast
  with ids show ?thesis unfolding bans_inv_def a2 by blast
qed

lemma bans_inv_ask: "bans_inv a \<Longrightarrow> bans_inv (snd (isUserBanned u t a))"
  by (auto simp: isUserBanned_def bans_inv_def jm_get_delete split: option.splits)

interpretation bans: invariant_machine "new_admin users" ban_exec ban_ok bans_inv for users
proof unfold_locales
  show "bans_inv (new_admin users)" by (simp add: bans_inv_def new_admin_def)
  fix a x
  assume "bans_inv a" and "ban_ok a x"
  then show "bans_inv (ban_exec a x)"
    by (induction a x rule: ban_exec.induct) (auto intro: bans_inv_ban bans_inv_unban bans_inv_ask)
qed

section \<open>Counting incidents\<close>

lemma count_incidents:
  "foldl count_incident st xs = st\<lparr>
     sx_bySeverity := \<lambda>v. sx_bySeverity st v + length (filter (\<lambda>x. in_severity x = v) xs),
     sx_byType := \<lambda>v. sx_byType st v + length (filter (\<lambda>x. in_type x = v) xs),
     sx_byStatus := \<lambda>v. sx_byStatus st v + length (filter (\<lambda>x. in_status x = v) xs),
     sx_openIncidents := sx_openIncidents st + length (filter (\<lambda>x. in_status x = IncOPEN) xs),
     sx_resolvedIncidents := sx_resolvedIncidents st + length (filter (\<lambda>x. is_resolved (in_status x)) xs),
     sx_totalResolutionTime := sx_totalResolutionTime st
       + sum_list (map (\<lambda>x. the (in_resolvedAt x) - in_createdAt x) (filter (\<lambda>x. is_resolved (in_status x) \<and> in_resolvedAt x \<noteq> None) xs)),
     sx_resolvedCount := sx_resolvedCount st + length (filter (\<lambda>x. is_resolved (in_status x) \<and> in_resolvedAt x \<noteq> None) xs)\<rparr>"
proof (induction xs arbitrary: st)
  case (Cons x xs)
  show ?case
    unfolding foldl_Cons Cons.IH by (auto simp: count_incident_def Let_def fun_eq_iff split: option.split)
qed simp

section \<open>Properties\<close>

text \<open>
  A ban that is accepted is of an existing user who is neither administrator nor moderator, for at most 30 days or for ever; from
  then on the user is banned up to the end of the ban and not after it, in memory and in the user list.
\<close>

theorem ban_effect:
  assumes "banUser u reason duration i now a = (Inr b, a')"
  shows "\<exists>target. jm_get (ad_users a) u = Some target \<and> us_role target \<notin> {''ADMIN'', ''MODERATOR''} \<and>
    (\<forall>d. duration = Some d \<longrightarrow> d \<le> 720) \<and>
    (\<forall>t. fst (isUserBanned u t a') = (case ban_end now duration of None \<Rightarrow> True | Some e \<Rightarrow> t \<le> e)) \<and>
    (\<forall>t. (case ban_end now duration of None \<Rightarrow> True | Some e \<Rightarrow> t < e) \<longrightarrow> listed_as_banned u t a')"
proof (rule banUser_cases [of u reason duration i now a])
  fix target a2
  assume "jm_get (ad_users a) u = Some target" "us_role target \<noteq> ''ADMIN''" "us_role target \<noteq> ''MODERATOR''"
    "\<forall>d. duration = Some d \<longrightarrow> d \<le> 720" "banUser u reason duration i now a = (Inr True, a2)"
    "ad_bans a2 = ad_bans a @ [\<lparr>bn_id = i, bn_userId = u, bn_reason = reason, bn_bannedAt = now, bn_unbannedAt = ban_end now duration\<rparr>]"
    "ad_bannedUsers a2 = jm_set (ad_bannedUsers a) u \<lparr>bi_reason = reason, bi_unbannedAt = ban_end now duration\<rparr>"
  with assms show ?thesis
    by (auto simp: isUserBanned_def listed_as_banned_def active_ban_def split: option.split)
qed (use assms in simp)

text \<open>
  What the process remembers about bans is in the database: after any calls, a user who counts as banned has a ban that has not
  ended.
\<close>

theorem ban_memory_sound:
  assumes "allowed_run ban_exec ban_ok (new_admin users) calls"
  defines "a \<equiv> foldl ban_exec (new_admin users) calls"
  shows "fst (isUserBanned u t a) \<longrightarrow>
    (\<exists>b\<in>set (ad_bans a). bn_userId b = u \<and> (case bn_unbannedAt b of None \<Rightarrow> True | Some e \<Rightarrow> t \<le> e))"
proof
  assume banned: "fst (isUserBanned u t a)"
  have inv: "bans_inv a" unfolding a_def by (rule bans.inv_reachable [OF assms(1)])
  from banned obtain info where info: "jm_get (ad_bannedUsers a) u = Some info"
      "case bi_unbannedAt info of None \<Rightarrow> True | Some e \<Rightarrow> t \<le> e"
    by (auto simp: isUserBanned_def split: option.splits if_splits)
  from inv info(1) obtain b where "b \<in> set (ad_bans a)" "bn_userId b = u" "bn_unbannedAt b = bi_unbannedAt info"
    by (auto simp: bans_inv_def)
  with info(2) show "\<exists>b\<in>set (ad_bans a). bn_userId b = u \<and> (case bn_unbannedAt b of None \<Rightarrow> True | Some e \<Rightarrow> t \<le> e)" by auto
qed

lemma ban_exec_logs:
  "jm_get (ad_users a) ''system'' = None \<Longrightarrow> ad_logs (ban_exec a x) = ad_logs a \<and> ad_users (ban_exec a x) = ad_users a"
  by (induction a x rule: ban_exec.induct)
    (auto simp: banUser_def unbanUser_def isUserBanned_def auditLog_def Let_def split: option.split)

text \<open>
  Bans are never audited: the log entry names the administrator \<^verbatim>\<open>system\<close>, which is not a user, so the database refuses
  it, and the error is dropped.
\<close>

theorem bans_never_audited:
  assumes "jm_get users ''system'' = None"
  shows "ad_logs (foldl ban_exec (new_admin users) calls) = []"
proof -
  have "ad_logs (foldl ban_exec a calls) = ad_logs a" if "jm_get (ad_users a) ''system'' = None" for a
    using that
  proof (induction calls arbitrary: a)
    case (Cons x calls)
    with ban_exec_logs [of a x] Cons.IH [of "ban_exec a x"] show ?case by simp
  qed simp
  with assms show ?thesis by (simp add: new_admin_def)
qed

lemma latest_of_two:
  assumes "bn_userId b = u" "bn_userId c = u" "active_ban t b" "active_ban t c" "bn_bannedAt b \<le> bn_bannedAt c"
    and "\<forall>x\<in>set xs. bn_userId x \<noteq> u"
  shows "latest_active_ban u t (xs @ [b, c]) = Some c"
proof -
  have "filter (\<lambda>x. bn_userId x = u \<and> active_ban t x) xs = []" using assms(6) by (simp add: filter_empty_conv)
  with assms(1-5) show ?thesis by (simp add: latest_active_ban_def)
qed

text \<open>
  Lifting a ban lifts only the latest one: a user who was banned twice is no longer banned for the process, but the older
  ban stays active in the database for ever.
\<close>

theorem unban_leaves_older_ban:
  assumes "jm_get (ad_users a) u = Some target" and "us_role target \<notin> {''ADMIN'', ''MODERATOR''}" and "u \<noteq> []"
    and "5 \<le> length (js_trim reason)" and "\<forall>b\<in>set (ad_bans a). bn_userId b \<noteq> u"
    and "i \<noteq> j" and "i \<notin> bn_id ` set (ad_bans a)" and "t1 \<le> t2"
  shows "let a1 = snd (banUser u reason None i t1 a); a2 = snd (banUser u reason None j t2 a1); (r, a3) = unbanUser u t3 a2
    in r = Inr True \<and> \<not> fst (isUserBanned u t a3) \<and> listed_as_banned u t a3"
proof -
  have r: "reason \<noteq> []" using assms(4) by (auto simp: js_trim_def)
  let ?a1 = "snd (banUser u reason None i t1 a)" and ?a2 = "snd (banUser u reason None j t2 (snd (banUser u reason None i t1 a)))"
  let ?b = "\<lparr>bn_id = i, bn_userId = u, bn_reason = reason, bn_bannedAt = t1, bn_unbannedAt = None\<rparr>"
    and ?c = "\<lparr>bn_id = j, bn_userId = u, bn_reason = reason, bn_bannedAt = t2, bn_unbannedAt = None\<rparr>"
  have bans: "ad_bans ?a2 = ad_bans a @ [?b, ?c]"
    using assms(1-4) r by (simp add: banUser_def Let_def case_prod_unfold ban_end_def)
  have "latest_active_ban u t3 (ad_bans ?a2) = Some ?c"
    unfolding bans by (rule latest_of_two) (use assms(5,8) in \<open>simp_all add: active_ban_def\<close>)
  then have "fst (unbanUser u t3 ?a2) = Inr True \<and> jm_get (ad_bannedUsers (snd (unbanUser u t3 ?a2))) u = None \<and>
      ?b \<in> set (ad_bans (snd (unbanUser u t3 ?a2)))"
    using assms(6) by (simp add: unbanUser_def Let_def case_prod_unfold bans jm_get_delete)
  then show ?thesis
    by (auto simp: Let_def case_prod_unfold isUserBanned_def listed_as_banned_def list_ex_iff active_ban_def intro!: bexI [of _ ?b])
qed

text \<open>
  The limits of a match can cross: a minimum of players is compared with the maximum kept in memory and not with the stored one,
  so a stored maximum below 8 is followed by any minimum up to 8.
\<close>

theorem config_limits_cross:
  assumes "2 \<le> m" and "m < k" and "k \<le> 8"
  shows "let (r1, a1) = updateGameConfig \<lparr>ci_maintenanceMode = None, ci_maxPlayersPerMatch = Some m, ci_minPlayersToStart = None,
      ci_matchTimeout = None, ci_dailyMatchLimit = None\<rparr> (new_admin users);
    (r2, a2) = updateGameConfig \<lparr>ci_maintenanceMode = None, ci_maxPlayersPerMatch = None, ci_minPlayersToStart = Some k,
      ci_matchTimeout = None, ci_dailyMatchLimit = None\<rparr> a1
    in gc_maxPlayersPerMatch (getGameConfig a2) = m \<and> gc_minPlayersToStart (getGameConfig a2) = k"
  using assms
  by (simp add: updateGameConfig_def new_admin_def default_config_def or_else_def apply_config_def getGameConfig_def Let_def)

text \<open>
  An approved review makes its user verified, and nothing takes it back: a later decision on the same review, even a rejection,
  leaves the user verified.
\<close>

theorem kyc_rejection_keeps_verified:
  assumes "processReview i r KycAPPROVED notes now a = (Inr rv, a1)"
    and "processReview i r2 status notes2 now2 a1 = (Inr rv2, a2)"
  shows "ky_status rv2 = status \<and> jm_get (ad_reviews a2) i = Some rv2 \<and> (\<exists>u. jm_get (ad_users a2) (ky_userId rv2) = Some u \<and> us_isVerified u)"
proof -
  from assms(1) obtain review u where 1: "jm_get (ad_reviews a) i = Some review" "jm_get (ad_users a) (ky_userId review) = Some u"
      "ky_userId rv = ky_userId review" "ad_reviews a1 = jm_set (ad_reviews a) i rv"
      "ad_users a1 = jm_set (ad_users a) (ky_userId review) (u\<lparr>us_isVerified := True\<rparr>)"
    by (auto simp: processReview_def Let_def row_update_def split: option.splits if_splits sum.splits)
  with assms(2) show ?thesis
    by (auto simp: processReview_def Let_def row_update_def split: option.splits if_splits sum.splits)
qed

text \<open>
  The statistics of incidents are exact: every counter is the number of incidents of its kind in the period, and the average is
  that of the times from creation to resolution of the resolved ones.
\<close>

theorem incident_stats_exact:
  fixes s :: incidents and st en :: int
  defines "xs \<equiv> filter (\<lambda>inc. st \<le> in_createdAt inc \<and> in_createdAt inc \<le> en) (jm_values s)"
  shows "let r = getIncidentStats (Some (st, en)) s; rs = filter (\<lambda>x. is_resolved (in_status x) \<and> in_resolvedAt x \<noteq> None) xs
    in sx_total r = length xs \<and> (\<forall>v. sx_bySeverity r v = length (filter (\<lambda>x. in_severity x = v) xs)) \<and>
       (\<forall>v. sx_byType r v = length (filter (\<lambda>x. in_type x = v) xs)) \<and> (\<forall>v. sx_byStatus r v = length (filter (\<lambda>x. in_status x = v) xs)) \<and>
       sx_openIncidents r = sx_byStatus r IncOPEN \<and> sx_resolvedIncidents r = sx_byStatus r IncRESOLVED + sx_byStatus r IncCLOSED \<and>
       (rs \<noteq> [] \<longrightarrow> avgResolutionTimeMs r * of_nat (length rs) = of_int (sum_list (map (\<lambda>x. the (in_resolvedAt x) - in_createdAt x) rs)))"
proof -
  have "length (filter (\<lambda>x. is_resolved (in_status x)) ys)
      = length (filter (\<lambda>x. in_status x = IncRESOLVED) ys) + length (filter (\<lambda>x. in_status x = IncCLOSED) ys)" for ys
    by (induction ys) (auto simp: is_resolved_def)
  then show ?thesis
    by (simp add: getIncidentStats_def count_incidents no_incidents_def xs_def Let_def avgResolutionTimeMs_def del: filter_filter)
qed

section \<open>Witnesses\<close>

definition demo_account :: "string \<Rightarrow> string \<Rightarrow> user" where
  "demo_account name role = \<lparr>us_email = name, us_username = name, us_passwordHash = [], us_role = role, us_isVerified = False,
     us_walletAddress = None, us_verificationToken = None, us_verificationTokenExpires = None, us_passwordResetToken = None,
     us_passwordResetExpires = None, us_provider = None, us_providerId = None\<rparr>"

definition demo_admin :: admin_state where
  "demo_admin = new_admin [(''u1'', demo_account ''ann'' ''USER''), (''r1'', demo_account ''rob'' ''ADMIN'')]"

lemmas demo_admin_defs = demo_admin_def new_admin_def demo_account_def jm_get_def jm_set_def jm_empty_def

lemma demo_reason: "length (js_trim ''cheating'') = 8"
  by code_simp

theorem ban_effect_witness:
  "let a' = snd (banUser ''u1'' ''cheating'' (Some 2) ''b1'' 1000 demo_admin)
   in fst (isUserBanned ''u1'' 7000000 a') \<and> \<not> fst (isUserBanned ''u1'' 7300000 a')"
proof -
  have end_at: "ban_end 1000 (Some 2) = Some 7201000" by (simp add: ban_end_def)
  have "banUser ''u1'' ''cheating'' (Some 2) ''b1'' 1000 demo_admin
      = (Inr True, snd (banUser ''u1'' ''cheating'' (Some 2) ''b1'' 1000 demo_admin))"
    by (simp add: banUser_def demo_admin_defs demo_reason Let_def case_prod_unfold)
  from ban_effect [OF this] show ?thesis by (auto simp: end_at Let_def)
qed

theorem ban_memory_sound_witness:
  "\<exists>b\<in>set (ad_bans (foldl ban_exec demo_admin [(1000, DoBan ''u1'' ''cheating'' None ''b1'')])).
     bn_userId b = ''u1'' \<and> (case bn_unbannedAt b of None \<Rightarrow> True | Some e \<Rightarrow> 2000 \<le> e)"
proof -
  let ?calls = "[(1000, DoBan ''u1'' ''cheating'' None ''b1'')]"
  have "fst (isUserBanned ''u1'' 2000 (foldl ban_exec demo_admin ?calls))"
    by (simp add: banUser_def demo_admin_defs demo_reason Let_def case_prod_unfold isUserBanned_def ban_end_def auditLog_def)
  moreover have "allowed_run ban_exec ban_ok demo_admin ?calls" by (simp add: demo_admin_def new_admin_def)
  ultimately show ?thesis
    using ban_memory_sound [of _ ?calls "''u1''" 2000] unfolding demo_admin_def by blast
qed

theorem bans_never_audited_witness:
  "ad_logs (foldl ban_exec demo_admin [(1000, DoBan ''u1'' ''cheating'' None ''b1''), (2000, DoUnban ''u1'')]) = []"
  unfolding demo_admin_def by (rule bans_never_audited) (simp add: jm_get_def)

theorem unban_leaves_older_ban_witness:
  "let a1 = snd (banUser ''u1'' ''cheating'' None ''b1'' 1000 demo_admin); a2 = snd (banUser ''u1'' ''cheating'' None ''b2'' 2000 a1);
       (r, a3) = unbanUser ''u1'' 3000 a2
   in r = Inr True \<and> \<not> fst (isUserBanned ''u1'' 4000 a3) \<and> listed_as_banned ''u1'' 4000 a3"
  by (rule unban_leaves_older_ban [of _ _ "demo_account ''ann'' ''USER''"]) (simp_all add: demo_admin_defs demo_reason)

theorem config_limits_cross_witness:
  "let (r1, a1) = updateGameConfig \<lparr>ci_maintenanceMode = None, ci_maxPlayersPerMatch = Some 4, ci_minPlayersToStart = None,
      ci_matchTimeout = None, ci_dailyMatchLimit = None\<rparr> (new_admin []);
    (r2, a2) = updateGameConfig \<lparr>ci_maintenanceMode = None, ci_maxPlayersPerMatch = None, ci_minPlayersToStart = Some 6,
      ci_matchTimeout = None, ci_dailyMatchLimit = None\<rparr> a1
    in gc_maxPlayersPerMatch (getGameConfig a2) = 4 \<and> gc_minPlayersToStart (getGameConfig a2) = 6"
  by (rule config_limits_cross) simp_all

theorem kyc_rejection_keeps_verified_witness:
  "\<exists>a u. fst (processReview ''k1'' ''r1'' KycREJECTED None 30
      (snd (processReview ''k1'' ''r1'' KycAPPROVED None 20 (snd (createReview ''u1'' JNull ''k1'' 10 demo_admin))))) = Inr a \<and>
    ky_status a = KycREJECTED \<and> jm_get (ad_users (snd (processReview ''k1'' ''r1'' KycREJECTED None 30
      (snd (processReview ''k1'' ''r1'' KycAPPROVED None 20 (snd (createReview ''u1'' JNull ''k1'' 10 demo_admin))))))) (ky_userId a) = Some u
    \<and> us_isVerified u"
proof -
  let ?a0 = "snd (createReview ''u1'' JNull ''k1'' 10 demo_admin)"
  let ?p1 = "processReview ''k1'' ''r1'' KycAPPROVED None 20 ?a0"
  let ?p2 = "processReview ''k1'' ''r1'' KycREJECTED None 30 (snd ?p1)"
  have "fst ?p1 = Inr (projr (fst ?p1))" "fst ?p2 = Inr (projr (fst ?p2))"
    by (simp_all add: createReview_def processReview_def row_update_def demo_admin_defs jm_values_def Let_def)
  then have "?p1 = (Inr (projr (fst ?p1)), snd ?p1)" "?p2 = (Inr (projr (fst ?p2)), snd ?p2)"
    by (metis prod.collapse)+
  from kyc_rejection_keeps_verified [OF this] \<open>fst ?p2 = _\<close> show ?thesis by metis
qed

theorem incident_stats_exact_witness:
  "let s = snd (createIncident XSS_ATTEMPT SevHIGH ''script'' ''10.0.0.1'' None ''i1'' 50 jm_empty);
       s2 = snd (updateIncidentStatus ''i1'' IncRESOLVED None None 80 s)
   in avgResolutionTimeMs (getIncidentStats (Some (0, 100)) s2) = 30"
  using incident_stats_exact [of 0 100
      "snd (updateIncidentStatus ''i1'' IncRESOLVED None None 80 (snd (createIncident XSS_ATTEMPT SevHIGH ''script'' ''10.0.0.1'' None ''i1'' 50 jm_empty)))"]
  by (simp add: createIncident_def updateIncidentStatus_def jm_get_def jm_set_def jm_empty_def jm_values_def Let_def is_resolved_def)

end
