(* ===== verification/Arrays.thy ===== *)
theory Arrays
  imports Json Stores "HOL-Library.Multiset" "HOL-Library.Sublist"
begin

text \<open>
  The array functions of the web client (\<^verbatim>\<open>frontend/src/lib/array.ts\<close>). Numbers are exact, comparison by \<^verbatim>\<open>===\<close> is
  equality, and a function that draws random numbers has them as an argument. \<^verbatim>\<open>Array.prototype.sort\<close> is a stable sort for the
  given comparison, which is written as an insertion sort.
\<close>

section \<open>Filtering\<close>

text \<open>The filter with a set of the keys seen so far.\<close>

fun unique_from :: "'k list \<Rightarrow> ('a \<Rightarrow> 'k) \<Rightarrow> 'a list \<Rightarrow> 'a list" where
  "unique_from seen keyFn [] = []"
| "unique_from seen keyFn (item # arr) =
     (let k = keyFn item
      in if k \<in> set seen then unique_from seen keyFn arr else item # unique_from (k # seen) keyFn arr)"

definition uniqueBy :: "'a list \<Rightarrow> ('a \<Rightarrow> 'k) \<Rightarrow> 'a list" where
  "uniqueBy arr keyFn = unique_from [] keyFn arr"

text \<open>
  \<^verbatim>\<open>typeof v === "object"\<close>. An array that starts with another value is one of primitive values, which a
  \<^verbatim>\<open>Set\<close> tells apart by equality.
\<close>

definition typeof_object :: "json \<Rightarrow> bool" where
  "typeof_object v = (case v of JNull \<Rightarrow> True | JArr xs \<Rightarrow> True | JObj kvs \<Rightarrow> True | _ \<Rightarrow> False)"

definition unique :: "(rat \<Rightarrow> string) \<Rightarrow> json list \<Rightarrow> json list" where
  "unique num arr =
     (case arr of
        [] \<Rightarrow> []
      | x # _ \<Rightarrow> if \<not> typeof_object x then js_uniq arr else uniqueBy arr (\<lambda>v. write_json num (db_json v)))"

fun partition_from :: "nat \<Rightarrow> ('a \<Rightarrow> nat \<Rightarrow> bool) \<Rightarrow> 'a list \<times> 'a list \<Rightarrow> 'a list \<Rightarrow> 'a list \<times> 'a list" where
  "partition_from i predicate acc [] = acc"
| "partition_from i predicate (pass, fail) (item # arr) =
     partition_from (Suc i) predicate (if predicate item i then (pass @ [item], fail) else (pass, fail @ [item])) arr"

definition partition_array :: "'a list \<Rightarrow> ('a \<Rightarrow> nat \<Rightarrow> bool) \<Rightarrow> 'a list \<times> 'a list" where
  "partition_array arr predicate = partition_from 0 predicate ([], []) arr"

definition compact :: "json list \<Rightarrow> json list" where
  "compact arr = filter js_truthy arr"

section \<open>Chunks and groups\<close>

function chunk_loop :: "nat \<Rightarrow> nat \<Rightarrow> 'a list \<Rightarrow> 'a list list" where
  "chunk_loop csize i arr =
     (if csize = 0 \<or> length arr \<le> i then [] else take csize (drop i arr) # chunk_loop csize (i + csize) arr)"
  by pat_completeness auto
termination by (relation "measure (\<lambda>(csize, i, arr). length arr - i)") auto

declare chunk_loop.simps [simp del]

definition chunk :: "'a list \<Rightarrow> int \<Rightarrow> 'a list list" where
  "chunk arr csize = (if csize \<le> 0 then [] else chunk_loop (nat csize) 0 arr)"

definition groupBy :: "'a list \<Rightarrow> ('a \<Rightarrow> 'k) \<Rightarrow> ('k, 'a list) jsmap" where
  "groupBy arr keyFn =
     foldl (\<lambda>m item. let k = keyFn item in jm_set m k ((case jm_get m k of None \<Rightarrow> [] | Some g \<Rightarrow> g) @ [item])) jm_empty arr"

definition groupByObject :: "'a list \<Rightarrow> ('a \<Rightarrow> string) \<Rightarrow> (string, 'a list) jsmap" where
  "groupByObject arr keyFn =
     foldl (\<lambda>m item. let k = keyFn item in jm_set m k ((case jm_get m k of None \<Rightarrow> [] | Some g \<Rightarrow> g) @ [item])) jm_empty arr"

section \<open>Sorting and shuffling\<close>

text \<open>A stable sort by a comparison: a new element goes after the elements it does not precede.\<close>

fun js_insert :: "('a \<Rightarrow> 'a \<Rightarrow> int) \<Rightarrow> 'a \<Rightarrow> 'a list \<Rightarrow> 'a list" where
  "js_insert cmp x [] = [x]"
| "js_insert cmp x (y # ys) = (if cmp x y \<le> 0 then x # y # ys else y # js_insert cmp x ys)"

definition js_sort :: "('a \<Rightarrow> 'a \<Rightarrow> int) \<Rightarrow> 'a list \<Rightarrow> 'a list" where
  "js_sort cmp xs = foldr (js_insert cmp) xs []"

definition sortBy :: "'a list \<Rightarrow> ('a \<Rightarrow> 'k :: linorder) \<Rightarrow> 'a list" where
  "sortBy arr keyFn = js_sort (\<lambda>a b. if keyFn a < keyFn b then -1 else if keyFn a > keyFn b then 1 else 0) arr"

definition sortByDesc :: "'a list \<Rightarrow> ('a \<Rightarrow> 'k :: linorder) \<Rightarrow> 'a list" where
  "sortByDesc arr keyFn = js_sort (\<lambda>a b. if keyFn a < keyFn b then 1 else if keyFn a > keyFn b then -1 else 0) arr"

definition swap :: "'a list \<Rightarrow> nat \<Rightarrow> nat \<Rightarrow> 'a list" where
  "swap c i j = c[i := c ! j, j := c ! i]"

text \<open>The loop of the shuffle from index \<open>i\<close> down to 1; \<open>rnd i\<close> is the number drawn for \<open>i\<close>.\<close>

fun shuffle_from :: "nat \<Rightarrow> (nat \<Rightarrow> nat) \<Rightarrow> 'a list \<Rightarrow> 'a list" where
  "shuffle_from 0 rnd c = c"
| "shuffle_from (Suc i) rnd c = shuffle_from i rnd (swap c (Suc i) (rnd (Suc i)))"

definition shuffle :: "(nat \<Rightarrow> nat) \<Rightarrow> 'a list \<Rightarrow> 'a list" where
  "shuffle rnd arr = shuffle_from (length arr - 1) rnd arr"

section \<open>Sets\<close>

text \<open>On arrays of primitive values, where \<^verbatim>\<open>unique\<close> is the conversion to a \<^verbatim>\<open>Set\<close> and back.\<close>

definition intersection :: "'a list \<Rightarrow> 'a list \<Rightarrow> 'a list" where
  "intersection arr1 arr2 = js_uniq (filter (\<lambda>item. item \<in> set arr2) arr1)"

definition difference :: "'a list \<Rightarrow> 'a list \<Rightarrow> 'a list" where
  "difference arr1 arr2 = filter (\<lambda>item. item \<notin> set arr2) arr1"

definition symmetricDifference :: "'a list \<Rightarrow> 'a list \<Rightarrow> 'a list" where
  "symmetricDifference arr1 arr2 = difference arr1 arr2 @ difference arr2 arr1"

definition union_array :: "'a list \<Rightarrow> 'a list \<Rightarrow> 'a list" where
  "union_array arr1 arr2 = js_uniq (arr1 @ arr2)"

section \<open>Selection and aggregation\<close>

definition sample :: "nat \<Rightarrow> 'a list \<Rightarrow> 'a option" where
  "sample r arr = nth_opt arr r"

definition sampleSize :: "(nat \<Rightarrow> nat) \<Rightarrow> 'a list \<Rightarrow> nat \<Rightarrow> 'a list" where
  "sampleSize rnd arr n = take (min n (length arr)) (shuffle rnd arr)"

definition find_array :: "'a list \<Rightarrow> ('a \<Rightarrow> bool) \<Rightarrow> 'a option" where
  "find_array arr predicate = List.find predicate arr"

fun find_last_from :: "nat \<Rightarrow> 'a list \<Rightarrow> ('a \<Rightarrow> bool) \<Rightarrow> 'a option" where
  "find_last_from 0 arr predicate = None"
| "find_last_from (Suc i) arr predicate = (if predicate (arr ! i) then Some (arr ! i) else find_last_from i arr predicate)"

definition findLast :: "'a list \<Rightarrow> ('a \<Rightarrow> bool) \<Rightarrow> 'a option" where
  "findLast arr predicate = find_last_from (length arr) arr predicate"

definition sum_array :: "rat list \<Rightarrow> rat" where
  "sum_array arr = foldl (+) 0 arr"

definition sumBy :: "'a list \<Rightarrow> ('a \<Rightarrow> rat) \<Rightarrow> rat" where
  "sumBy arr keyFn = foldl (\<lambda>acc item. acc + keyFn item) 0 arr"

text \<open>\<open>None\<close> is \<^verbatim>\<open>Infinity\<close> for the minimum and \<^verbatim>\<open>-Infinity\<close> for the maximum, the values for no arguments.\<close>

definition min_array :: "rat list \<Rightarrow> rat option" where
  "min_array arr = (case arr of [] \<Rightarrow> None | x # xs \<Rightarrow> Some (foldl min x xs))"

definition max_array :: "rat list \<Rightarrow> rat option" where
  "max_array arr = (case arr of [] \<Rightarrow> None | x # xs \<Rightarrow> Some (foldl max x xs))"

definition minBy :: "'a list \<Rightarrow> ('a \<Rightarrow> rat) \<Rightarrow> 'a option" where
  "minBy arr keyFn =
     (case arr of [] \<Rightarrow> None | x # xs \<Rightarrow> Some (foldl (\<lambda>m item. if keyFn item < keyFn m then item else m) x xs))"

definition maxBy :: "'a list \<Rightarrow> ('a \<Rightarrow> rat) \<Rightarrow> 'a option" where
  "maxBy arr keyFn =
     (case arr of [] \<Rightarrow> None | x # xs \<Rightarrow> Some (foldl (\<lambda>m item. if keyFn item > keyFn m then item else m) x xs))"

definition mean :: "rat list \<Rightarrow> rat" where
  "mean arr = (if length arr = 0 then 0 else sum_array arr / of_nat (length arr))"

definition median :: "rat list \<Rightarrow> rat" where
  "median arr =
     (if length arr = 0 then 0
      else (let sorted = js_sort (\<lambda>a b. if a - b < 0 then -1 else if a - b > 0 then 1 else 0) arr; mid = length sorted div 2
            in if length sorted mod 2 = 0 then (sorted ! (mid - 1) + sorted ! mid) / 2 else sorted ! mid))"

section \<open>Flattening, ranges and counting\<close>

definition flatten :: "('a + 'a list) list \<Rightarrow> 'a list" where
  "flatten arr = concat (map (\<lambda>x. case x of Inl v \<Rightarrow> [v] | Inr vs \<Rightarrow> vs) arr)"

fun flattenDeep :: "json list \<Rightarrow> json list" where
  "flattenDeep [] = []"
| "flattenDeep (JArr xs # arr) = flattenDeep xs @ flattenDeep arr"
| "flattenDeep (v # arr) = v # flattenDeep arr"

function range_up :: "rat \<Rightarrow> rat \<Rightarrow> rat \<Rightarrow> rat list" where
  "range_up i e step = (if 0 < step \<and> i < e then i # range_up (i + step) e step else [])"
  by pat_completeness auto
termination
proof (relation "measure (\<lambda>(i, e, step). nat \<lceil>(e - i) / step\<rceil>)")
  fix i e step :: rat
  assume a: "0 < step \<and> i < e"
  then have "(e - (i + step)) / step = (e - i) / step - 1" by (simp add: field_simps)
  moreover have "0 < \<lceil>(e - i) / step\<rceil>" using a by simp
  ultimately show "((i + step, e, step), (i, e, step)) \<in> measure (\<lambda>(i, e, step). nat \<lceil>(e - i) / step\<rceil>)" by simp
qed simp

function range_down :: "rat \<Rightarrow> rat \<Rightarrow> rat \<Rightarrow> rat list" where
  "range_down i e step = (if step < 0 \<and> e < i then i # range_down (i + step) e step else [])"
  by pat_completeness auto
termination
proof (relation "measure (\<lambda>(i, e, step). nat \<lceil>(e - i) / step\<rceil>)")
  fix i e step :: rat
  assume a: "step < 0 \<and> e < i"
  then have "(e - (i + step)) / step = (e - i) / step - 1" by (simp add: field_simps)
  moreover have "0 < \<lceil>(e - i) / step\<rceil>" using a by (simp add: divide_neg_neg)
  ultimately show "((i + step, e, step), (i, e, step)) \<in> measure (\<lambda>(i, e, step). nat \<lceil>(e - i) / step\<rceil>)" by simp
qed simp

declare range_up.simps [simp del] range_down.simps [simp del]

definition range_array :: "rat \<Rightarrow> rat \<Rightarrow> rat \<Rightarrow> rat list" where
  "range_array start e step = (if 0 < step then range_up start e step else if step < 0 then range_down start e step else [])"

definition repeat_value :: "'a \<Rightarrow> nat \<Rightarrow> 'a list" where
  "repeat_value v n = replicate n v"

definition countBy :: "'a list \<Rightarrow> ('a \<Rightarrow> bool) \<Rightarrow> nat" where
  "countBy arr predicate = length (filter predicate arr)"

definition every_array :: "'a list \<Rightarrow> ('a \<Rightarrow> bool) \<Rightarrow> bool" where
  "every_array arr predicate \<longleftrightarrow> list_all predicate arr"

definition some_array :: "'a list \<Rightarrow> ('a \<Rightarrow> bool) \<Rightarrow> bool" where
  "some_array arr predicate \<longleftrightarrow> list_ex predicate arr"

definition none_of :: "'a list \<Rightarrow> ('a \<Rightarrow> bool) \<Rightarrow> bool" where
  "none_of arr predicate \<longleftrightarrow> \<not> list_ex predicate arr"

section \<open>Facts on filtering and grouping\<close>

lemma unique_from_spec:
  "distinct (map keyFn (unique_from seen keyFn arr)) \<and> keyFn ` set (unique_from seen keyFn arr) = keyFn ` set arr - set seen \<and>
     subseq (unique_from seen keyFn arr) arr"
  by (induction arr arbitrary: seen) (auto simp: Let_def)

lemma partition_from_spec:
  "partition_from i p (a, b) arr =
     (a @ map fst (filter (\<lambda>(x, j). p x j) (zip arr [i..<i + length arr])), b @ map fst (filter (\<lambda>(x, j). \<not> p x j) (zip arr [i..<i + length arr])))"
  by (induction arr arbitrary: i a b) (auto simp: upt_conv_Cons simp del: upt_Suc)

lemma groupBy_get:
  "jm_get (groupBy arr f) k = (if k \<in> f ` set arr then Some (filter (\<lambda>x. f x = k) arr) else None)"
proof (induction arr rule: rev_induct)
  case (snoc x xs)
  have step: "groupBy (xs @ [x]) f =
      jm_set (groupBy xs f) (f x) ((case jm_get (groupBy xs f) (f x) of None \<Rightarrow> [] | Some g \<Rightarrow> g) @ [x])"
    by (simp add: groupBy_def Let_def)
  have "filter (\<lambda>y. f y = f x) xs = []" if "f x \<notin> f ` set xs"
    using that by (auto simp: filter_empty_conv image_iff eq_commute)
  with snoc show ?case unfolding step by auto
qed (simp add: groupBy_def)

lemma groupBy_wf: "jm_wf (groupBy arr f)"
  by (induction arr rule: rev_induct) (auto simp: groupBy_def Let_def)

lemma chunk_loop_concat: "0 < csize \<Longrightarrow> concat (chunk_loop csize i arr) = drop i arr"
proof (induction csize i arr rule: chunk_loop.induct)
  case (1 csize i arr)
  show ?case
  proof (cases "length arr \<le> i")
    case False
    with 1 have "concat (chunk_loop csize i arr) = take csize (drop i arr) @ drop (i + csize) arr"
      by (subst chunk_loop.simps) simp
    also have "\<dots> = drop i arr" by (metis append_take_drop_id drop_drop add.commute)
    finally show ?thesis .
  qed (simp add: chunk_loop.simps)
qed

lemma chunk_loop_sizes:
  "0 < csize \<Longrightarrow> \<forall>c\<in>set (chunk_loop csize i arr). 0 < length c \<and> length c \<le> csize"
proof (induction csize i arr rule: chunk_loop.induct)
  case (1 csize i arr)
  then show ?case by (subst chunk_loop.simps) auto
qed

lemma chunk_loop_full:
  "0 < csize \<Longrightarrow> \<forall>c\<in>set (butlast (chunk_loop csize i arr)). length c = csize"
proof (induction csize i arr rule: chunk_loop.induct)
  case (1 csize i arr)
  show ?case
  proof (cases "length arr \<le> i + csize")
    case True
    then have "chunk_loop csize (i + csize) arr = []" by (simp add: chunk_loop.simps)
    then show ?thesis by (subst chunk_loop.simps) simp
  next
    case False
    with 1 show ?thesis by (subst chunk_loop.simps) auto
  qed
qed

section \<open>Sorting\<close>

lemma js_sort_key: "sortBy arr f = sort_key f arr"
proof -
  let ?cmp = "\<lambda>a b. if f a < f b then -1 else if f a > f b then 1 else (0 :: int)"
  have "js_insert ?cmp x ys = insort_key f x ys" for x ys
    by (induction ys) auto
  then have "js_insert ?cmp = insort_key f" by (intro ext)
  then show ?thesis unfolding sortBy_def js_sort_def sort_key_def by simp
qed

text \<open>Descending: the same sort with the order of the keys turned round.\<close>

definition desc_cmp :: "('a \<Rightarrow> 'k :: linorder) \<Rightarrow> 'a \<Rightarrow> 'a \<Rightarrow> int" where
  "desc_cmp f a b = (if f a < f b then 1 else if f a > f b then -1 else 0)"

lemma desc_cmp_le [simp]: "desc_cmp f a b \<le> 0 \<longleftrightarrow> f b \<le> f a"
  by (auto simp: desc_cmp_def)

lemma mset_js_insert [simp]: "mset (js_insert cmp x ys) = add_mset x (mset ys)"
  by (induction ys) auto

lemma set_js_insert [simp]: "set (js_insert cmp x ys) = insert x (set ys)"
  by (induction ys) auto

lemma desc_insert_sorted:
  "sorted_wrt (\<lambda>a b. f b \<le> f a) ys \<Longrightarrow> sorted_wrt (\<lambda>a b. f b \<le> f a) (js_insert (desc_cmp f) x ys)"
proof (induction ys)
  case (Cons y ys)
  then show ?case by (cases "f y \<le> f x") (auto intro: order_trans)
qed simp

lemma desc_insert_stable:
  "filter (\<lambda>z. f z = k) (js_insert (desc_cmp f) x ys) = filter (\<lambda>z. f z = k) (x # ys)"
proof (induction ys)
  case (Cons y ys)
  show ?case
  proof (cases "f y \<le> f x")
    case False
    then have "f y \<noteq> f x" by auto
    with False Cons show ?thesis by auto
  qed simp
qed simp

lemma sortByDesc_spec:
  "mset (sortByDesc arr f) = mset arr \<and> sorted_wrt (\<lambda>a b. f b \<le> f a) (sortByDesc arr f) \<and>
    filter (\<lambda>x. f x = k) (sortByDesc arr f) = filter (\<lambda>x. f x = k) arr"
proof -
  have eq: "sortByDesc arr f = foldr (js_insert (desc_cmp f)) arr []"
    by (simp add: sortByDesc_def js_sort_def desc_cmp_def [abs_def])
  show ?thesis
    unfolding eq by (induction arr) (simp_all add: desc_insert_sorted desc_insert_stable)
qed

section \<open>Shuffling\<close>

lemma length_swap [simp]: "length (swap c i j) = length c"
  by (simp add: swap_def)

lemma swap_nth: "i < length c \<Longrightarrow> j < length c \<Longrightarrow> swap c i j ! k = (if k = i then c ! j else if k = j then c ! i else c ! k)"
  by (cases "k < length c") (auto simp: swap_def nth_list_update)

lemma mset_swap_array: "i < length c \<Longrightarrow> j < length c \<Longrightarrow> mset (swap c i j) = mset c"
  unfolding swap_def by (rule Multiset.mset_swap)

lemma length_shuffle_from [simp]: "length (shuffle_from i rnd c) = length c"
  by (induction i arbitrary: c) auto

text \<open>The draws are in range: \<^verbatim>\<open>Math.floor(Math.random() * (i + 1))\<close> lies between 0 and \<open>i\<close>.\<close>

definition draws_ok :: "nat \<Rightarrow> (nat \<Rightarrow> nat) \<Rightarrow> bool" where
  "draws_ok n rnd \<longleftrightarrow> (\<forall>i. 1 \<le> i \<and> i \<le> n \<longrightarrow> rnd i \<le> i)"

lemma draws_ok_Suc: "draws_ok (Suc n) rnd \<longleftrightarrow> rnd (Suc n) \<le> Suc n \<and> draws_ok n rnd"
  by (auto simp: draws_ok_def le_Suc_eq)

lemma shuffle_from_above:
  "i < length c \<Longrightarrow> draws_ok i rnd \<Longrightarrow> i < k \<Longrightarrow> shuffle_from i rnd c ! k = c ! k"
  by (induction i arbitrary: c) (auto simp: draws_ok_Suc swap_nth)

lemma shuffle_from_mset: "i < length c \<Longrightarrow> draws_ok i rnd \<Longrightarrow> mset (shuffle_from i rnd c) = mset c"
  by (induction i arbitrary: c) (auto simp: draws_ok_Suc mset_swap_array)

lemma shuffle_from_last:
  "Suc i < length c \<Longrightarrow> draws_ok (Suc i) rnd \<Longrightarrow> shuffle_from (Suc i) rnd c ! Suc i = c ! rnd (Suc i)"
  by (simp add: shuffle_from_above draws_ok_Suc swap_nth)

lemma shuffle_from_inj:
  assumes "distinct c" and "i < length c" and "draws_ok i rnd" and "draws_ok i rnd'"
    and "shuffle_from i rnd c = shuffle_from i rnd' c" and "1 \<le> k" and "k \<le> i"
  shows "rnd k = rnd' k"
  using assms
proof (induction i arbitrary: c)
  case (Suc i)
  have "c ! rnd (Suc i) = c ! rnd' (Suc i)"
    using shuffle_from_last [of i c rnd] shuffle_from_last [of i c rnd'] Suc.prems by metis
  then have eq: "rnd (Suc i) = rnd' (Suc i)"
    using Suc.prems(1-4) by (simp add: draws_ok_Suc nth_eq_iff_index_eq)
  have "distinct (swap c (Suc i) (rnd (Suc i)))"
    using mset_swap_array [of "Suc i" c "rnd (Suc i)"] Suc.prems(1-3) by (metis draws_ok_Suc le_less_trans mset_eq_imp_distinct_iff)
  with Suc.IH [of "swap c (Suc i) (rnd (Suc i))"] Suc.prems eq show ?case
    by (cases "k = Suc i") (auto simp: draws_ok_Suc)
qed simp

lemma shuffle_from_cong: "(\<And>k. 1 \<le> k \<Longrightarrow> k \<le> i \<Longrightarrow> rnd k = rnd' k) \<Longrightarrow> shuffle_from i rnd c = shuffle_from i rnd' c"
  by (induction i arbitrary: c) auto

lemma shuffle_from_surj:
  assumes "i < length c" and "mset ys = mset c" and "\<And>k. i < k \<Longrightarrow> k < length c \<Longrightarrow> ys ! k = c ! k"
  shows "\<exists>rnd. draws_ok i rnd \<and> shuffle_from i rnd c = ys"
  using assms
proof (induction i arbitrary: c)
  case 0
  have len: "length ys = length c" using 0(2) by (rule mset_eq_length)
  then obtain y ys' x c' where yc: "ys = y # ys'" "c = x # c'" using 0(1) by (cases ys; cases c) auto
  have "ys' = c'"
  proof (rule nth_equalityI)
    show "length ys' = length c'" using len yc by simp
    show "ys' ! k = c' ! k" if "k < length ys'" for k using 0(3) [of "Suc k"] len yc that by simp
  qed
  with 0(2) yc have "ys = c" by simp
  then show ?case by (auto simp: draws_ok_def)
next
  case (Suc i)
  have len: "length ys = length c" using Suc.prems(2) by (rule mset_eq_length)
  have split: "mset zs = mset (take (Suc (Suc i)) zs) + mset (drop (Suc (Suc i)) zs)" for zs :: "'a list"
    by (metis append_take_drop_id mset_append)
  have "drop (Suc (Suc i)) ys = drop (Suc (Suc i)) c"
    using len Suc.prems(3) by (intro nth_equalityI) auto
  with Suc.prems(2) split [of ys] split [of c] have "mset (take (Suc (Suc i)) ys) = mset (take (Suc (Suc i)) c)" by simp
  moreover have "ys ! Suc i \<in> set (take (Suc (Suc i)) ys)" using Suc.prems(1) len by (auto simp: in_set_conv_nth)
  ultimately have "ys ! Suc i \<in> set (take (Suc (Suc i)) c)" using mset_eq_setD by blast
  then obtain j where j: "j \<le> Suc i" "c ! j = ys ! Suc i" by (force simp: in_set_conv_nth less_Suc_eq_le)
  let ?c = "swap c (Suc i) j"
  have "ys ! k = ?c ! k" if "i < k" "k < length ?c" for k
    using Suc.prems(1,3) j that by (cases "k = Suc i") (auto simp: swap_nth)
  with Suc.IH [of ?c] Suc.prems(1,2) j obtain rnd where rnd: "draws_ok i rnd" "shuffle_from i rnd ?c = ys"
    by (auto simp: mset_swap_array)
  let ?rnd = "rnd(Suc i := j)"
  have "shuffle_from i ?rnd ?c = shuffle_from i rnd ?c" by (rule shuffle_from_cong) simp
  with rnd j have "draws_ok (Suc i) ?rnd \<and> shuffle_from (Suc i) ?rnd c = ys"
    by (auto simp: draws_ok_Suc draws_ok_def)
  then show ?case by blast
qed

section \<open>Properties\<close>

text \<open>
  Shuffling is fair: the draws are in range, the result is a rearrangement, and every rearrangement of an array of distinct elements
  arises from exactly one sequence of draws. So if the draws are equally likely, so are the rearrangements.
\<close>

theorem shuffle_fair:
  fixes arr :: "'a list"
  shows "(draws_ok (length arr - 1) rnd \<longrightarrow> mset (shuffle rnd arr) = mset arr) \<and>
    (distinct arr \<and> mset ys = mset arr \<longrightarrow>
      (\<exists>rnd. draws_ok (length arr - 1) rnd \<and> shuffle rnd arr = ys \<and>
        (\<forall>rnd'. draws_ok (length arr - 1) rnd' \<and> shuffle rnd' arr = ys \<longrightarrow> (\<forall>k\<in>{1..length arr - 1}. rnd' k = rnd k))))"
proof (cases "arr = []")
  case False
  then have len: "length arr - 1 < length arr" by simp
  have "\<exists>rnd. draws_ok (length arr - 1) rnd \<and> shuffle rnd arr = ys \<and>
      (\<forall>rnd'. draws_ok (length arr - 1) rnd' \<and> shuffle rnd' arr = ys \<longrightarrow> (\<forall>k\<in>{1..length arr - 1}. rnd' k = rnd k))"
    if d: "distinct arr" and m: "mset ys = mset arr"
  proof -
    obtain rnd where rnd: "draws_ok (length arr - 1) rnd" "shuffle_from (length arr - 1) rnd arr = ys"
      using shuffle_from_surj [OF len m] by (metis One_nat_def Suc_pred len less_Suc_eq_le not_le zero_less_iff_neq_zero not_less_zero)
    then show ?thesis
      using shuffle_from_inj [OF d len] by (intro exI [of _ rnd]) (auto simp: shuffle_def)
  qed
  then show ?thesis using shuffle_from_mset [OF len] by (auto simp: shuffle_def)
qed (auto simp: shuffle_def draws_ok_def)

text \<open>
  Chunks lose nothing: put together they are the array, each but the last has the given size, and the last is not empty.
\<close>

theorem chunk_lossless:
  assumes "0 < n"
  shows "concat (chunk arr n) = arr \<and> (\<forall>c\<in>set (butlast (chunk arr n)). int (length c) = n) \<and>
    (\<forall>c\<in>set (chunk arr n). 0 < length c \<and> int (length c) \<le> n)"
  using assms chunk_loop_concat [of "nat n" 0 arr] chunk_loop_full [of "nat n" 0 arr] chunk_loop_sizes [of "nat n" 0 arr]
  by (fastforce simp: chunk_def)

text \<open>Both sorts are stable: elements with the same key keep their order.\<close>

theorem sorts_stable:
  "sortBy arr f = sort_key f arr \<and> mset (sortByDesc arr f) = mset arr \<and> sorted_wrt (\<lambda>a b. f b \<le> f a) (sortByDesc arr f) \<and>
    (\<forall>k. filter (\<lambda>x. f x = k) (sortBy arr f) = filter (\<lambda>x. f x = k) arr \<and> filter (\<lambda>x. f x = k) (sortByDesc arr f) = filter (\<lambda>x. f x = k) arr)"
  using sortByDesc_spec [of arr f] by (simp add: js_sort_key sort_key_stable)

section \<open>Witnesses\<close>

theorem shuffle_fair_witness:
  "mset (shuffle (\<lambda>i. 0) ''abc'') = mset ''abc'' \<and> (\<exists>rnd. shuffle rnd ''abc'' = ''cab'')"
proof -
  have "mset ''cab'' = mset ''abc''" by simp
  with shuffle_fair [of "''abc''" "\<lambda>i. 0" "''cab''"] show ?thesis by (auto simp: draws_ok_def)
qed

theorem chunk_lossless_witness: "concat (chunk ''abcde'' 2) = ''abcde''"
  using chunk_lossless [of 2 "''abcde''"] by simp

end
