(* ===== verification/Gates.thy ===== *)
theory Gates
  imports Json Stores Text "HOL-Library.Word"
begin

unbundle bit_operations_syntax

text \<open>
  The gates in front of the handlers: the list of admitted addresses (\<^verbatim>\<open>server/src/middleware/ip-whitelist.middleware.ts\<close>),
  tokens against forged requests (\<^verbatim>\<open>csrf.middleware.ts\<close>), signed requests (\<^verbatim>\<open>signature.middleware.ts\<close>), confirmations of
  an administrator (\<^verbatim>\<open>server/src/services/confirmation.service.ts\<close>, \<^verbatim>\<open>confirm.middleware.ts\<close>) and the role and scope tests of
  \<^verbatim>\<open>auth.middleware.ts\<close>.

  Addresses are computed on 32-bit words, as the bit operations of JavaScript do. Random tokens, times and the environment are
  arguments, and so are the digests: \<open>hmac\<close> and \<open>sha\<close> give hexadecimal texts.
\<close>

section \<open>Texts\<close>

text \<open>
  \<^verbatim>\<open>Number(s)\<close> on decimal integers; blanks around are ignored and the empty text is 0. \<open>None\<close> is not-a-number; the fractional,
  exponential and hexadecimal forms, which a part of an address does not have, are left out.
\<close>

definition js_Number :: "string \<Rightarrow> int option" where
  "js_Number s =
     (let t = js_trim s;
          neg = (t \<noteq> [] \<and> hd t = CHR ''-'');
          u = (if t \<noteq> [] \<and> (hd t = CHR ''-'' \<or> hd t = CHR ''+'') then tl t else t)
      in if t = [] then Some 0
         else if u = [] \<or> \<not> list_all is_ascii_digit u then None
         else Some (if neg then - digits_value u else digits_value u))"

text \<open>\<^verbatim>\<open>Buffer.from(s, 'hex')\<close>: pairs of digits up to the first pair that is none.\<close>

definition hex_nibble :: "char \<Rightarrow> nat option" where
  "hex_nibble c =
     (let n = of_char c :: nat
      in if 48 \<le> n \<and> n \<le> 57 then Some (n - 48)
         else if 97 \<le> n \<and> n \<le> 102 then Some (n - 87)
         else if 65 \<le> n \<and> n \<le> 70 then Some (n - 55) else None)"

fun hex_bytes :: "string \<Rightarrow> nat list" where
  "hex_bytes (a # b # s) =
     (case (hex_nibble a, hex_nibble b) of (Some x, Some y) \<Rightarrow> (16 * x + y) # hex_bytes s | _ \<Rightarrow> [])"
| "hex_bytes _ = []"

text \<open>\<^verbatim>\<open>crypto.timingSafeEqual\<close> throws if the buffers differ in length.\<close>

definition timingSafeEqual :: "nat list \<Rightarrow> nat list \<Rightarrow> bool result" where
  "timingSafeEqual a b =
     (if length a \<noteq> length b then Inl (PlainError ''Input buffers must have the same byte length'') else Inr (a = b))"

section \<open>Admitted addresses\<close>

definition parseIpWhitelist :: "string option \<Rightarrow> string list" where
  "parseIpWhitelist env =
     (case env of None \<Rightarrow> []
      | Some s \<Rightarrow> if s = [] then [] else filter (\<lambda>ip. ip \<noteq> []) (map js_trim (js_split CHR '','' s)))"

text \<open>
  The number of an address: the first three parts are shifted, where a missing part or one that is not a number counts as 0; if the
  last part is missing or not a number, so is the sum, and the conjunction with the mask takes it for 0. The sum is not reduced
  before the conjunction, which only sees it modulo \<open>2\<^sup>3\<^sup>2\<close>.
\<close>

definition ip_part :: "string list \<Rightarrow> nat \<Rightarrow> int option" where
  "ip_part parts i = Option.bind (nth_opt parts i) js_Number"

definition ip_number :: "string \<Rightarrow> 32 word" where
  "ip_number ip =
     (let parts = js_split CHR ''.'' ip;
          part = (\<lambda>i. case ip_part parts i of None \<Rightarrow> 0 | Some n \<Rightarrow> word_of_int n)
      in if ip_part parts 3 = None then 0
         else push_bit 24 (part 0) + push_bit 16 (part 1) + push_bit 8 (part 2) + part 3)"

text \<open>\<^verbatim>\<open>0xffffffff << n\<close>: only the last five bits of the distance count, and not-a-number is 0.\<close>

definition cidr_mask :: "int option \<Rightarrow> 32 word" where
  "cidr_mask pre = push_bit (case pre of None \<Rightarrow> 0 | Some p \<Rightarrow> nat ((32 - p) mod 32)) (- 1)"

definition isIpInCidr :: "string \<Rightarrow> string \<Rightarrow> bool" where
  "isIpInCidr ip cidr =
     (let parts = js_split CHR ''/'' cidr; network = hd parts; prefixLength = nth_opt parts 1
      in if prefixLength = None \<or> prefixLength = Some [] then ip = network
         else (let m = cidr_mask (js_parseInt (the prefixLength)) in ip_number ip AND m = ip_number network AND m))"

definition isIpWhitelisted :: "bool \<Rightarrow> string \<Rightarrow> string list \<Rightarrow> bool" where
  "isIpWhitelisted production ip whitelist =
     (if whitelist = [] then \<not> production
      else list_ex (\<lambda>w. if CHR ''/'' \<in> set w then isIpInCidr ip w else ip = w) whitelist)"

definition strip_mapped :: "string \<Rightarrow> string" where
  "strip_mapped ip = (if take 7 ip = ''::ffff:'' then drop 7 ip else ip)"

definition requireIpWhitelist :: "bool \<Rightarrow> string option \<Rightarrow> string list option \<Rightarrow> string option \<Rightarrow> string option \<Rightarrow> unit result" where
  "requireIpWhitelist production env whitelist reqIp remoteAddress =
     (let effective = (case whitelist of Some w \<Rightarrow> w | None \<Rightarrow> parseIpWhitelist env);
          clientIp = (if reqIp \<noteq> None \<and> reqIp \<noteq> Some [] then the reqIp
            else if remoteAddress \<noteq> None \<and> remoteAddress \<noteq> Some [] then the remoteAddress else ''unknown'')
      in if \<not> isIpWhitelisted production (strip_mapped clientIp) effective
         then Inl (HttpError 403 ''Access denied: IP address not whitelisted'') else Inr ())"

section \<open>Tokens against forged requests\<close>

record csrf_entry =
  ct_token :: string
  ct_expiresAt :: int

type_synonym csrf_tokens = "(string, csrf_entry) jsmap"

definition generateCsrfToken :: "string \<Rightarrow> string \<Rightarrow> int \<Rightarrow> csrf_tokens \<Rightarrow> string \<times> csrf_tokens" where
  "generateCsrfToken sessionId fresh now s =
     (fresh, jm_set s sessionId \<lparr>ct_token = fresh, ct_expiresAt = now + 24 * 60 * 60 * 1000\<rparr>)"

definition validateCsrfToken :: "string \<Rightarrow> string \<Rightarrow> int \<Rightarrow> csrf_tokens \<Rightarrow> bool result \<times> csrf_tokens" where
  "validateCsrfToken sessionId token now s =
     (case jm_get s sessionId of
        None \<Rightarrow> (Inr False, s)
      | Some stored \<Rightarrow>
          if ct_expiresAt stored < now then (Inr False, jm_delete s sessionId)
          else (timingSafeEqual (hex_bytes (ct_token stored)) (hex_bytes token), s))"

record csrf_request =
  cr_method :: string
  cr_sessionId :: "string option"
  cr_requestId :: "string option"
  cr_header :: "string option"
  cr_body :: "string option option"

definition or_string :: "string option \<Rightarrow> string \<Rightarrow> string" where
  "or_string x d = (case x of None \<Rightarrow> d | Some s \<Rightarrow> if s = [] then d else s)"

definition requireCsrfToken :: "csrf_request \<Rightarrow> int \<Rightarrow> csrf_tokens \<Rightarrow> unit result \<times> csrf_tokens" where
  "requireCsrfToken req now s =
     (if cr_method req \<in> {''GET'', ''HEAD'', ''OPTIONS''} then (Inr (), s)
      else
        (let sessionId = or_string (cr_sessionId req) (or_string (cr_requestId req) ''unknown'')
         in if (cr_header req = None \<or> cr_header req = Some []) \<and> cr_body req = None
            then (Inl (PlainError ''Cannot read properties of undefined''), s)
            else
              (let csrfToken = or_string (cr_header req) (case cr_body req of Some (Some t) \<Rightarrow> t | _ \<Rightarrow> [])
               in if csrfToken = [] then (Inl (HttpError 403 ''CSRF token is required for this operation''), s)
                  else and_then (validateCsrfToken sessionId csrfToken now s) (\<lambda>valid s1.
                    (if \<not> valid then Inl (HttpError 403 ''Invalid or expired CSRF token'') else Inr (), s1)))))"

definition addCsrfToken :: "csrf_request \<Rightarrow> string \<Rightarrow> string \<Rightarrow> int \<Rightarrow> csrf_tokens \<Rightarrow> string \<times> csrf_tokens" where
  "addCsrfToken req uuid fresh now s =
     generateCsrfToken (or_string (cr_sessionId req) (or_string (cr_requestId req) uuid)) fresh now s"

definition revokeCsrfToken :: "string \<Rightarrow> csrf_tokens \<Rightarrow> csrf_tokens" where
  "revokeCsrfToken sessionId s = jm_delete s sessionId"

definition csrf_sweep :: "int \<Rightarrow> csrf_tokens \<Rightarrow> csrf_tokens" where
  "csrf_sweep now s = jm_sweep (\<lambda>k e. ct_expiresAt e < now) s"

section \<open>Signed requests\<close>

definition SIGNATURE_TOLERANCE_MS :: int where "SIGNATURE_TOLERANCE_MS = 5 * 60 * 1000"

definition generateSignature :: "(string \<Rightarrow> string \<Rightarrow> string) \<Rightarrow> string \<Rightarrow> string \<Rightarrow> int \<Rightarrow> string" where
  "generateSignature hmac payload secret timestamp = hmac secret (show_int timestamp @ ''.'' @ payload)"

definition validateSignature ::
  "(string \<Rightarrow> string \<Rightarrow> string) \<Rightarrow> string \<Rightarrow> string \<Rightarrow> string \<Rightarrow> int \<Rightarrow> int \<Rightarrow> bool result" where
  "validateSignature hmac payload signature secret timestamp now =
     (if \<bar>now - timestamp\<bar> > SIGNATURE_TOLERANCE_MS then Inr False
      else timingSafeEqual (hex_bytes signature) (hex_bytes (generateSignature hmac payload secret timestamp)))"

text \<open>\<open>body\<close> is the JSON text of the body.\<close>

definition requireSignature ::
  "(string \<Rightarrow> string \<Rightarrow> string) \<Rightarrow> string \<Rightarrow> string option \<Rightarrow> string option \<Rightarrow> string \<Rightarrow> int \<Rightarrow> unit result" where
  "requireSignature hmac secret signature timestampHeader body now =
     (if or_string signature [] = [] \<or> or_string timestampHeader [] = [] then Inl (HttpError 401 ''Missing signature headers'')
      else (case js_parseInt (the timestampHeader) of
          None \<Rightarrow> Inl (HttpError 400 ''Invalid timestamp format'')
        | Some timestamp \<Rightarrow>
            bind_res (validateSignature hmac body (the signature) secret timestamp now) (\<lambda>valid.
              if \<not> valid then Inl (HttpError 401 ''Invalid request signature'') else Inr ())))"

definition requireSensitiveOperationSignature ::
  "(string \<Rightarrow> string \<Rightarrow> string) \<Rightarrow> string option \<Rightarrow> bool \<Rightarrow> (string option \<Rightarrow> string option \<Rightarrow> string \<Rightarrow> int \<Rightarrow> unit result) result" where
  "requireSensitiveOperationSignature hmac secret production =
     (if or_string secret [] = [] then
        (if \<not> production then Inr (\<lambda>signature timestampHeader body now. Inr ())
         else Inl (PlainError ''SENSITIVE_OPERATION_SECRET environment variable is required in production''))
      else Inr (requireSignature hmac (the secret)))"

section \<open>Confirmations\<close>

record token_record =
  tr_token :: string
  tr_adminId :: string
  tr_action :: string
  tr_payloadHash :: "string option"
  tr_expiresAt :: int

type_synonym confirmations = "(string, token_record) jsmap"

definition payload_hash :: "(string \<Rightarrow> string) \<Rightarrow> (rat \<Rightarrow> string) \<Rightarrow> json \<Rightarrow> string option" where
  "payload_hash sha num payload = (if js_truthy payload then Some (sha (write_json num (db_json payload))) else None)"

definition generateConfirmation ::
  "(string \<Rightarrow> string) \<Rightarrow> (rat \<Rightarrow> string) \<Rightarrow> string \<Rightarrow> string \<Rightarrow> json \<Rightarrow> int \<Rightarrow> string \<Rightarrow> int \<Rightarrow> confirmations \<Rightarrow> (string \<times> int) \<times> confirmations" where
  "generateConfirmation sha num adminId action payload ttlMs fresh now s =
     (let r = \<lparr>tr_token = fresh, tr_adminId = adminId, tr_action = action, tr_payloadHash = payload_hash sha num payload,
            tr_expiresAt = now + ttlMs\<rparr>
      in ((fresh, tr_expiresAt r), jm_set s fresh r))"

definition validateConfirmation ::
  "(string \<Rightarrow> string) \<Rightarrow> (rat \<Rightarrow> string) \<Rightarrow> string \<Rightarrow> string \<Rightarrow> string \<Rightarrow> json \<Rightarrow> int \<Rightarrow> confirmations \<Rightarrow> bool \<times> confirmations" where
  "validateConfirmation sha num adminId token action payload now s =
     (case jm_get s token of
        None \<Rightarrow> (False, s)
      | Some r \<Rightarrow>
          if tr_adminId r \<noteq> adminId then (False, s)
          else if tr_action r \<noteq> action then (False, s)
          else if tr_expiresAt r < now then (False, jm_delete s token)
          else if or_string (tr_payloadHash r) [] \<noteq> [] \<and> payload_hash sha num payload \<noteq> tr_payloadHash r then (False, s)
          else (True, jm_delete s token))"

definition clearConfirmations :: "confirmations \<Rightarrow> confirmations" where
  "clearConfirmations s = jm_empty"

text \<open>\<open>userIds\<close> is the number of users of the request, or \<open>None\<close> if it is not an array.\<close>

definition requireConfirmationForBulk :: "nat \<Rightarrow> nat option \<Rightarrow> bool \<Rightarrow> unit result" where
  "requireConfirmationForBulk threshold userIds confirm =
     (case userIds of
        None \<Rightarrow> Inl (HttpError 400 ''userIds must be an array'')
      | Some n \<Rightarrow>
          if threshold < n \<and> \<not> confirm
          then Inl (HttpError 400 (''confirm is required to operate on more than '' @ show_nat threshold @ '' users''))
          else if n = 0 then Inl (HttpError 400 ''userIds must be non-empty'') else Inr ())"

section \<open>Roles and scopes\<close>

definition unauthorized :: error where "unauthorized = HttpError 401 ''Unauthorized''"

definition forbidden :: error where "forbidden = HttpError 403 ''Forbidden''"

text \<open>
  The outcome of \<^verbatim>\<open>passport.authenticate\<close>, an error or possibly a user, is an argument of the two authentication steps, which give the
  user the request goes on with.
\<close>

definition authenticateJWT :: "error option \<Rightarrow> 'u option \<Rightarrow> 'u result" where
  "authenticateJWT err user =
     (case err of Some e \<Rightarrow> Inl e | None \<Rightarrow> (case user of None \<Rightarrow> Inl unauthorized | Some u \<Rightarrow> Inr u))"

definition optionalAuthenticateJWT :: "error option \<Rightarrow> 'u option \<Rightarrow> 'u option \<Rightarrow> 'u option result" where
  "optionalAuthenticateJWT err user current =
     (case err of Some e \<Rightarrow> Inl e | None \<Rightarrow> Inr (case user of None \<Rightarrow> current | Some u \<Rightarrow> Some u))"

definition restrictTo :: "string list \<Rightarrow> string option \<Rightarrow> unit result" where
  "restrictTo roles role =
     (case role of None \<Rightarrow> Inl unauthorized | Some r \<Rightarrow> if r \<notin> set roles then Inl forbidden else Inr ())"

definition roleScopes :: "string \<Rightarrow> string list" where
  "roleScopes role =
     (if role = ''ADMIN'' then [''USERS:WRITE'', ''GAMES:WRITE'', ''MODERATION:REVIEW'', ''SYSTEM:READ'', ''SYSTEM:WRITE'',
        ''PAYMENTS:WRITE'', ''DISPUTES:WRITE'', ''KYC:WRITE'', ''REFUNDS:WRITE'']
      else if role = ''MODERATOR'' then [''MODERATION:REVIEW'', ''USERS:READ'']
      else if role = ''SUPPORT'' then [''USERS:READ'', ''DISPUTES:READ''] else [])"

definition restrictToScope :: "string \<Rightarrow> string option \<Rightarrow> unit result" where
  "restrictToScope requiredScope role =
     (case role of
        None \<Rightarrow> Inl unauthorized
      | Some r \<Rightarrow> if r = ''ADMIN'' then Inr () else if requiredScope \<notin> set (roleScopes r) then Inl forbidden else Inr ())"

definition restrictToScopes :: "string list \<Rightarrow> bool \<Rightarrow> string option \<Rightarrow> unit result" where
  "restrictToScopes requiredScopes requireAll role =
     (case role of
        None \<Rightarrow> Inl unauthorized
      | Some r \<Rightarrow>
          if r = ''ADMIN'' then Inr ()
          else (let scopes = roleScopes r
                in if requireAll
                   then (if list_all (\<lambda>sc. sc \<in> set scopes) requiredScopes then Inr () else Inl forbidden)
                   else (if list_ex (\<lambda>sc. sc \<in> set scopes) requiredScopes then Inr () else Inl forbidden)))"

section \<open>Printed numbers\<close>

lemma digit_char: "n < 10 \<Longrightarrow> is_ascii_digit (char_of (48 + n)) \<and> (of_char (char_of (48 + n)) :: nat) = 48 + n"
  by (simp add: is_ascii_digit_def)

lemma digits_value_append [simp]: "digits_value (ds @ [d]) = 10 * digits_value ds + (int (of_char d) - 48)"
  by (simp add: digits_value_def)

lemma show_nat_spec: "show_nat n \<noteq> [] \<and> list_all is_ascii_digit (show_nat n) \<and> digits_value (show_nat n) = int n"
proof (induction n rule: show_nat.induct)
  case (1 n)
  show ?case
  proof (cases "n < 10")
    case True
    then show ?thesis using digit_char [of n] by (subst (1 2 3) show_nat.simps) (simp add: digits_value_def)
  next
    case False
    then have "show_nat n = show_nat (n div 10) @ [char_of (48 + n mod 10)]" by (subst show_nat.simps) simp
    moreover have "10 * int (n div 10) + int (n mod 10) = int n" by (simp flip: of_nat_mult of_nat_add add: zdiv_int zmod_int)
    ultimately show ?thesis using 1 [OF False] digit_char [of "n mod 10"] by simp
  qed
qed

lemma show_nat_chars: "c \<in> set (show_nat n) \<Longrightarrow> is_ascii_digit c"
  using show_nat_spec [of n] by (simp add: list_all_iff)

lemma digit_not_space: "is_ascii_digit c \<Longrightarrow> \<not> js_space c"
  by (auto simp: is_ascii_digit_def js_space_def)

lemma digit_not_mark: "is_ascii_digit c \<Longrightarrow> c \<noteq> CHR ''-'' \<and> c \<noteq> CHR ''+'' \<and> c \<noteq> CHR ''.'' \<and> c \<noteq> CHR ''/''"
  by (auto simp: is_ascii_digit_def)

lemma show_nat_head: "is_ascii_digit (hd (show_nat n))" "is_ascii_digit (last (show_nat n))"
  using show_nat_spec [of n] by (simp_all add: list_all_iff)

lemma js_trim_show: "js_trim (show_nat n) = show_nat n"
  by (rule js_trim_fixed) (use show_nat_head [of n] in \<open>auto dest: digit_not_space\<close>)

lemma js_Number_show [simp]: "js_Number (show_nat n) = Some (int n)"
  using show_nat_spec [of n] digit_not_mark [OF show_nat_head(1) [of n]]
  by (simp add: js_Number_def js_trim_show Let_def)

lemma js_parseInt_show [simp]: "js_parseInt (show_nat n) = Some (int n)"
proof -
  have "dropWhile js_space (show_nat n) = show_nat n"
    using show_nat_head(1) [of n] by (auto simp: dropWhile_eq_self_iff dest: digit_not_space)
  moreover have digits: "takeWhile is_ascii_digit (show_nat n) = show_nat n"
    using show_nat_spec [of n] by (simp add: list_all_iff takeWhile_eq_all_conv)
  ultimately show ?thesis
    using show_nat_spec [of n] digit_not_mark [OF show_nat_head(1) [of n]]
    by (simp add: js_parseInt_def Let_def digits del: takeWhile_eq_all_conv)
qed

section \<open>Addresses as words\<close>

text \<open>An address with its four parts, its text and its number.\<close>

type_synonym quad = "nat \<times> nat \<times> nat \<times> nat"

fun show_ip :: "quad \<Rightarrow> string" where
  "show_ip (a, b, c, d) = show_nat a @ ''.'' @ show_nat b @ ''.'' @ show_nat c @ ''.'' @ show_nat d"

fun ip_word :: "quad \<Rightarrow> 32 word" where
  "ip_word (a, b, c, d) = word_of_nat (((a * 256 + b) * 256 + c) * 256 + d)"

lemma show_nat_no_mark: "CHR ''.'' \<notin> set (show_nat n)" "CHR ''/'' \<notin> set (show_nat n)"
  using show_nat_chars [of _ n] digit_not_mark by blast+

lemma split_show_ip: "js_split CHR ''.'' (show_ip (a, b, c, d)) = [show_nat a, show_nat b, show_nat c, show_nat d]"
  by (simp add: js_split_append js_split_none show_nat_no_mark)

lemma ip_number_show: "ip_number (show_ip q) = ip_word q"
proof (cases q)
  case (fields a b c d)
  show ?thesis
    unfolding fields
    by (simp add: ip_number_def split_show_ip ip_part_def nth_opt_def push_bit_eq_mult Let_def algebra_simps del: show_ip.simps)
qed

lemma show_ip_no_slash: "CHR ''/'' \<notin> set (show_ip q)"
  by (cases q) (auto simp: show_nat_no_mark)

lemma split_cidr: "js_split CHR ''/'' (show_ip q @ ''/'' @ show_nat p) = [show_ip q, show_nat p]"
  by (simp add: js_split_append js_split_none show_nat_no_mark show_ip_no_slash)

lemma and_high_bits: "w AND push_bit k (- 1) = push_bit k (drop_bit k w)" for w :: "32 word"
  by (rule bit_word_eqI) (auto simp: bit_simps)

lemma high_bits_eq: "w AND push_bit k (- 1) = v AND push_bit k (- 1) \<longleftrightarrow> drop_bit k w = drop_bit k v" for w v :: "32 word"
proof
  assume "w AND push_bit k (- 1) = v AND push_bit k (- 1)"
  then have "bit w n = bit v n" if "k \<le> n" "n < 32" for n
    using that by (auto simp: bit_eq_iff bit_simps dest!: spec [of _ n])
  moreover have len: "bit u m \<Longrightarrow> m < 32" for u :: "32 word" and m by (drule bit_imp_le_length) simp
  ultimately show "drop_bit k w = drop_bit k v" by (intro bit_word_eqI) (metis bit_drop_bit_eq comp_apply le_add1)
next
  assume "drop_bit k w = drop_bit k v"
  then show "w AND push_bit k (- 1) = v AND push_bit k (- 1)" by (simp only: and_high_bits)
qed

lemma isIpInCidr_word:
  "isIpInCidr (show_ip x) (show_ip q @ ''/'' @ show_nat p) \<longleftrightarrow>
     drop_bit (nat ((32 - int p) mod 32)) (ip_word x) = drop_bit (nat ((32 - int p) mod 32)) (ip_word q)"
proof -
  have "show_nat p \<noteq> []" using show_nat_spec by simp
  then show ?thesis
    by (simp only: isIpInCidr_def split_cidr Let_def list.sel nth_opt_simps One_nat_def option.sel option.inject option.distinct
        simp_thms if_False js_parseInt_show cidr_mask_def option.case ip_number_show high_bits_eq)
qed

section \<open>Tokens and signatures\<close>

lemma timingSafeEqual_True: "timingSafeEqual a b = Inr True \<longleftrightarrow> a = b"
  by (auto simp: timingSafeEqual_def)

text \<open>A digest in hexadecimal: its text is determined by its bytes.\<close>

definition hex_digest :: "string \<Rightarrow> bool" where
  "hex_digest s \<longleftrightarrow> even (length s) \<and> list_all (\<lambda>c. c \<in> set ''0123456789abcdef'') s"

lemma lower_hex_nibble:
  "c \<in> set ''0123456789abcdef'' \<Longrightarrow> \<exists>x < 16. hex_nibble c = Some x \<and> hex_digit x = c"
proof -
  have "list_all (\<lambda>c. case hex_nibble c of None \<Rightarrow> False | Some x \<Rightarrow> x < 16 \<and> hex_digit x = c) ''0123456789abcdef''"
    by code_simp
  then show "c \<in> set ''0123456789abcdef'' \<Longrightarrow> ?thesis" unfolding list_all_iff by (fastforce split: option.splits)
qed

definition hex_text :: "nat list \<Rightarrow> string" where
  "hex_text bs = concat (map (\<lambda>b. [hex_digit (b div 16), hex_digit (b mod 16)]) bs)"

lemma hex_text_bytes: "hex_digest s \<Longrightarrow> hex_text (hex_bytes s) = s"
proof (induction s rule: hex_bytes.induct)
  case (1 a b s)
  then have ab: "a \<in> set ''0123456789abcdef''" "b \<in> set ''0123456789abcdef''" "hex_digest s"
    by (auto simp: hex_digest_def)
  from lower_hex_nibble [OF ab(1)] lower_hex_nibble [OF ab(2)]
  obtain x y where xy: "hex_nibble a = Some x" "hex_nibble b = Some y" "x < 16" "y < 16" "hex_digit x = a" "hex_digit y = b" by blast
  moreover from xy(4) have "(16 * x + y) div 16 = x" "(16 * x + y) mod 16 = y" by simp_all
  ultimately show ?case using 1(1) [OF refl xy(1,2) ab(3)] by (simp add: hex_text_def)
qed (simp_all add: hex_text_def hex_digest_def)

lemma hex_bytes_inj: "hex_digest s \<Longrightarrow> hex_digest t \<Longrightarrow> hex_bytes s = hex_bytes t \<Longrightarrow> s = t"
  by (metis hex_text_bytes)

lemma show_int_mark: "CHR ''.'' \<notin> set (show_int i)"
  by (auto simp: show_int_def show_nat_no_mark)

lemma split_at_mark:
  assumes "a @ c # p = b @ c # q" and "c \<notin> set a" and "c \<notin> set b"
  shows "a = b \<and> p = q"
  using assms
proof (induction a arbitrary: b)
  case Nil
  then show ?case by (cases b) auto
next
  case (Cons x a)
  then obtain b' where "b = x # b'" by (cases b) auto
  with Cons show ?case by auto
qed

text \<open>A text that is signed belongs to one time and one payload.\<close>

lemma signed_text_inj: "show_int t @ ''.'' @ p = show_int t' @ ''.'' @ p' \<Longrightarrow> t = t' \<and> p = p'"
  using split_at_mark [of "show_int t" "CHR ''.''" p "show_int t'" p'] show_int_inj by (auto simp: show_int_mark)

section \<open>Confirmations are used once\<close>

datatype confirm_call = Generate string string json int string | Validate string string string json

fun issued :: "confirm_call \<Rightarrow> string list" where
  "issued (Generate adminId action payload ttl fresh) = [fresh]"
| "issued (Validate adminId token action payload) = []"

text \<open>The validations that succeed in a run of calls.\<close>

fun accepted ::
  "(string \<Rightarrow> string) \<Rightarrow> (rat \<Rightarrow> string) \<Rightarrow> confirmations \<Rightarrow> (int \<times> confirm_call) list \<Rightarrow> (string \<times> string \<times> string \<times> json) list" where
  "accepted sha num s [] = []"
| "accepted sha num s ((t, Generate adminId action payload ttl fresh) # calls) =
     accepted sha num (snd (generateConfirmation sha num adminId action payload ttl fresh t s)) calls"
| "accepted sha num s ((t, Validate adminId token action payload) # calls) =
     (case validateConfirmation sha num adminId token action payload t s of
        (True, s1) \<Rightarrow> (token, adminId, action, payload) # accepted sha num s1 calls
      | (False, s1) \<Rightarrow> accepted sha num s1 calls)"

definition issued_by :: "(int \<times> confirm_call) list \<Rightarrow> string list" where
  "issued_by calls = concat (map (issued \<circ> snd) calls)"

lemma issued_by_simps [simp]: "issued_by [] = []" "issued_by (x # calls) = issued (snd x) @ issued_by calls"
  by (simp_all add: issued_by_def)

lemma validate_cases:
  obtains (refused) s1 where "validateConfirmation sha num a k act pl t s = (False, s1)"
      and "\<And>j r. jm_get s1 j = Some r \<Longrightarrow> jm_get s j = Some r"
  | (used) r where "jm_get s k = Some r" and "tr_adminId r = a" and "tr_action r = act" and "t \<le> tr_expiresAt r"
      and "or_string (tr_payloadHash r) [] \<noteq> [] \<Longrightarrow> payload_hash sha num pl = tr_payloadHash r"
      and "validateConfirmation sha num a k act pl t s = (True, jm_delete s k)"
proof (cases "fst (validateConfirmation sha num a k act pl t s)")
  case True
  then show ?thesis
    by (intro used [of "the (jm_get s k)"]) (auto simp: validateConfirmation_def split: option.splits if_splits)
next
  case False
  then show ?thesis
    by (intro refused [of "snd (validateConfirmation sha num a k act pl t s)"])
      (auto simp: validateConfirmation_def jm_get_delete split: option.splits if_splits)
qed

lemma accepted_once:
  assumes "distinct (issued_by calls)" and "\<And>k. k \<in> set (issued_by calls) \<Longrightarrow> jm_get s k = None"
  shows "distinct (map fst (accepted sha num s calls)) \<and>
    (\<forall>x\<in>set (accepted sha num s calls). fst x \<in> set (issued_by calls) \<or> jm_get s (fst x) \<noteq> None)"
  using assms
proof (induction sha num s calls rule: accepted.induct)
  case (2 sha num s t adminId action payload ttl fresh calls)
  let ?s = "snd (generateConfirmation sha num adminId action payload ttl fresh t s)"
  have get: "jm_get ?s k = (if k = fresh then jm_get ?s fresh else jm_get s k)" for k by (simp add: generateConfirmation_def Let_def)
  have "jm_get ?s k = None" if "k \<in> set (issued_by calls)" for k
    using 2(2,3) that by (subst get) auto
  with 2 get show ?case by (fastforce split: if_splits)
next
  case (3 sha num s t adminId token action payload calls)
  show ?case
  proof (rule validate_cases [of sha num adminId token action payload t s])
    fix s1
    assume v: "validateConfirmation sha num adminId token action payload t s = (False, s1)"
      and sub: "\<And>j r. jm_get s1 j = Some r \<Longrightarrow> jm_get s j = Some r"
    have "jm_get s1 k = None" if "k \<in> set (issued_by calls)" for k
      using 3(4) [of k] that sub [of k] by (cases "jm_get s1 k") auto
    with 3(2) [OF v [symmetric] refl] 3(3) v sub show ?thesis by fastforce
  next
    fix r
    assume v: "validateConfirmation sha num adminId token action payload t s = (True, jm_delete s token)" and r: "jm_get s token = Some r"
    have "jm_get (jm_delete s token) k = None" if "k \<in> set (issued_by calls)" for k
      using 3(4) [of k] that by (simp add: jm_get_delete)
    with 3(1) [OF v [symmetric] refl] 3(3) have ih: "distinct (map fst (accepted sha num (jm_delete s token) calls))"
        "\<forall>x\<in>set (accepted sha num (jm_delete s token) calls). fst x \<in> set (issued_by calls) \<or> jm_get (jm_delete s token) (fst x) \<noteq> None"
      by simp_all
    moreover have "token \<notin> set (issued_by calls)" using 3(4) [of token] r by auto
    ultimately show ?thesis using v r by (auto simp: jm_get_delete split: if_splits)
  qed
qed simp

text \<open>Every record of the store was issued by a call of the given list.\<close>

definition from_calls :: "(string \<Rightarrow> string) \<Rightarrow> (rat \<Rightarrow> string) \<Rightarrow> confirm_call set \<Rightarrow> confirmations \<Rightarrow> bool" where
  "from_calls sha num C s \<longleftrightarrow> (\<forall>k r. jm_get s k = Some r \<longrightarrow>
     (\<exists>payload ttl. Generate (tr_adminId r) (tr_action r) payload ttl k \<in> C \<and> tr_payloadHash r = payload_hash sha num payload))"

lemma accepted_issued:
  assumes "from_calls sha num C s" and "snd ` set calls \<subseteq> C" and "\<And>x. sha x \<noteq> []"
    and "(token, adminId, action, payload) \<in> set (accepted sha num s calls)"
  shows "\<exists>payload0 ttl. Generate adminId action payload0 ttl token \<in> C \<and>
    (js_truthy payload0 \<longrightarrow> payload_hash sha num payload = payload_hash sha num payload0)"
  using assms
proof (induction sha num s calls rule: accepted.induct)
  case (2 sha num s t a act pl ttl fresh calls)
  have "from_calls sha num C (snd (generateConfirmation sha num a act pl ttl fresh t s))"
    using 2(2,3) by (auto simp: from_calls_def generateConfirmation_def Let_def)
  with 2 show ?case by auto
next
  case (3 sha num s t a k act pl calls)
  show ?case
  proof (rule validate_cases [of sha num a k act pl t s])
    fix s1
    assume v: "validateConfirmation sha num a k act pl t s = (False, s1)"
      and sub: "\<And>j r. jm_get s1 j = Some r \<Longrightarrow> jm_get s j = Some r"
    with 3(3) have "from_calls sha num C s1" unfolding from_calls_def by blast
    with 3(2) [OF v [symmetric] refl] 3(4-6) v show ?thesis by auto
  next
    fix r
    assume v: "validateConfirmation sha num a k act pl t s = (True, jm_delete s k)" and r: "jm_get s k = Some r"
      "tr_adminId r = a" "tr_action r = act" "or_string (tr_payloadHash r) [] \<noteq> [] \<Longrightarrow> payload_hash sha num pl = tr_payloadHash r"
    have "from_calls sha num C (jm_delete s k)" using 3(3) by (auto simp: from_calls_def jm_get_delete)
    moreover from 3(3) r(1-3) obtain payload0 ttl where "Generate a act payload0 ttl k \<in> C" "tr_payloadHash r = payload_hash sha num payload0"
      unfolding from_calls_def by blast
    moreover from this r(4) 3(5) have "js_truthy payload0 \<longrightarrow> payload_hash sha num pl = payload_hash sha num payload0"
      by (auto simp: payload_hash_def or_string_def)
    ultimately show ?thesis using 3(1) [OF v [symmetric] refl] 3(4-6) v by auto
  qed
qed simp

section \<open>Properties\<close>

text \<open>
  C37. The test of an address against a range is right for the lengths 1 to 32: the address is in the range exactly if it agrees with the
  network in its first \<open>p\<close> bits. For the length 0, which stands for every address, it is the test for equality: the
  shift by 32 is a shift by 0.
\<close>

theorem cidr_membership:
  assumes "p \<le> 32"
  shows "isIpInCidr (show_ip x) (show_ip q @ ''/'' @ show_nat p) \<longleftrightarrow>
    (if p = 0 then ip_word x = ip_word q else drop_bit (32 - p) (ip_word x) = drop_bit (32 - p) (ip_word q))"
proof (cases "p = 0")
  case False
  have "(32 - int p) mod 32 = 32 - int p" by (rule mod_pos_pos_trivial) (use False assms in simp_all)
  moreover have "nat (32 - int p) = 32 - p" using assms by simp
  ultimately have "nat ((32 - int p) mod 32) = 32 - p" by (simp only:)
  with False show ?thesis by (simp only: isIpInCidr_word if_False)
next
  case True
  then have "nat ((32 - int p) mod 32) = 0" by simp
  with True show ?thesis by (simp only: isIpInCidr_word drop_bit_0 id_apply simp_thms if_True)
qed

text \<open>
  C35. A signature made for one time and one payload lets through no request with another timestamp or another body, and none more
  than five minutes away from that time, unless the digest of the two signed texts collides.
\<close>

theorem signature_binding:
  assumes "\<And>m. hex_digest (hmac secret m)"
    and "hmac secret (show_int t0 @ ''.'' @ payload) = hmac secret (show_int (int t) @ ''.'' @ body) \<Longrightarrow>
      show_int t0 @ ''.'' @ payload = show_int (int t) @ ''.'' @ body"
    and "requireSignature hmac secret (Some (generateSignature hmac payload secret t0)) (Some (show_nat t)) body now = Inr ()"
  shows "int t = t0 \<and> body = payload \<and> \<bar>now - t0\<bar> \<le> 300000"
proof -
  let ?sig = "generateSignature hmac payload secret t0"
  from assms(3) have fresh: "\<bar>now - int t\<bar> \<le> 300000"
      and eq: "hex_bytes ?sig = hex_bytes (generateSignature hmac body secret (int t))"
    by (auto simp: requireSignature_def validateSignature_def SIGNATURE_TOLERANCE_MS_def bind_res_Inr_iff timingSafeEqual_True
        split: if_splits)
  have "?sig = generateSignature hmac body secret (int t)"
    using hex_bytes_inj [OF _ _ eq] assms(1) by (simp add: generateSignature_def)
  then have "show_int t0 @ ''.'' @ payload = show_int (int t) @ ''.'' @ body"
    unfolding generateSignature_def by (rule assms(2))
  with signed_text_inj fresh show ?thesis by blast
qed

text \<open>
  A token of another length than the stored one is not refused but ends in an exception, for tokens against forged requests as
  for signatures.
\<close>

theorem wrong_length_crashes:
  assumes "jm_get s sid = Some e" and "now \<le> ct_expiresAt e" and "length (hex_bytes tok) \<noteq> length (hex_bytes (ct_token e))"
    and "tok \<noteq> []" and "sid \<noteq> []"
  shows "fst (requireCsrfToken \<lparr>cr_method = ''POST'', cr_sessionId = Some sid, cr_requestId = None, cr_header = Some tok, cr_body = None\<rparr> now s)
    = Inl (PlainError ''Input buffers must have the same byte length'')"
  using assms
  by (simp add: requireCsrfToken_def or_string_def validateCsrfToken_def timingSafeEqual_def Let_def)


section \<open>Witnesses\<close>

theorem cidr_membership_witness:
  "isIpInCidr (show_ip (10, 1, 2, 3)) (show_ip (10, 0, 0, 0) @ ''/'' @ show_nat 8) \<and>
    \<not> isIpInCidr (show_ip (10, 1, 2, 3)) (show_ip (0, 0, 0, 0) @ ''/'' @ show_nat 0)"
proof -
  have "drop_bit 24 (ip_word (10, 1, 2, 3)) = drop_bit 24 (ip_word (10, 0, 0, 0))" "ip_word (10, 1, 2, 3) \<noteq> ip_word (0, 0, 0, 0)"
    by (simp_all add: drop_bit_eq_div)
  with cidr_membership [of 8 "(10, 1, 2, 3)" "(10, 0, 0, 0)"] cidr_membership [of 0 "(10, 1, 2, 3)" "(0, 0, 0, 0)"]
  show ?thesis by (simp del: show_ip.simps ip_word.simps)
qed

text \<open>A digest for the witness: every character in two digits.\<close>

definition demo_hmac :: "string \<Rightarrow> string \<Rightarrow> string" where
  "demo_hmac secret m = hex_text (map of_char m)"

lemma hex_digit_lower: "n < 16 \<Longrightarrow> hex_digit n \<in> set ''0123456789abcdef''"
proof -
  have "list_all (\<lambda>n. hex_digit n \<in> set ''0123456789abcdef'') [0..<16]" by code_simp
  then show "n < 16 \<Longrightarrow> ?thesis" by (simp add: list_all_iff)
qed

lemma hex_text_lower:
  assumes "\<And>b. b \<in> set bs \<Longrightarrow> b < 256" and "c \<in> set (hex_text bs)"
  shows "c \<in> set ''0123456789abcdef''"
proof -
  from assms(2) obtain b where b: "b \<in> set bs" "c = hex_digit (b div 16) \<or> c = hex_digit (b mod 16)" by (auto simp: hex_text_def)
  from assms(1) [OF b(1)] have "b div 16 < 16" "b mod 16 < 16" by simp_all
  with b(2) show ?thesis using hex_digit_lower by (elim disjE) (simp_all only:)
qed

lemma hex_nibble_digit:
  assumes "n < 16"
  shows "hex_nibble (hex_digit n) = Some n"
proof -
  have "of_char (hex_digit n) = (if n < 10 then 48 + n else 87 + n)" using assms by (simp add: hex_digit_def)
  with assms show ?thesis by (simp add: hex_nibble_def Let_def)
qed

lemma hex_bytes_text: "(\<And>b. b \<in> set bs \<Longrightarrow> b < 256) \<Longrightarrow> hex_bytes (hex_text bs) = bs"
proof (induction bs)
  case (Cons b bs)
  have "hex_bytes (hex_text bs) = bs" by (rule Cons.IH) (simp add: Cons.prems)
  moreover from Cons.prems [of b] have "b div 16 < 16" "b mod 16 < 16" by simp_all
  moreover have "hex_text (b # bs) = hex_digit (b div 16) # hex_digit (b mod 16) # hex_text bs" by (simp add: hex_text_def)
  ultimately show ?case by (simp add: hex_nibble_digit)
qed (simp add: hex_text_def)

lemma even_hex_text: "even (length (hex_text bs))"
  by (induction bs) (simp_all add: hex_text_def)

lemma char_bytes: "b \<in> set (map of_char m) \<Longrightarrow> b < (256 :: nat)"
  using nat_of_char_less_256 by auto

lemma hex_bytes_chars: "hex_bytes (hex_text (map of_char m)) = map of_char m"
  by (rule hex_bytes_text) (rule char_bytes)

lemma demo_hmac_digest: "hex_digest (demo_hmac secret m)"
  unfolding hex_digest_def demo_hmac_def list_all_iff
  by (intro conjI even_hex_text ballI) (rule hex_text_lower [OF char_bytes])

lemma demo_hmac_inj: "inj (demo_hmac secret)"
proof (rule injI)
  fix j k
  assume "demo_hmac secret j = demo_hmac secret k"
  then have "hex_bytes (hex_text (map of_char j)) = hex_bytes (hex_text (map of_char k))" unfolding demo_hmac_def by (rule arg_cong)
  then have "map (of_char :: char \<Rightarrow> nat) j = map of_char k"
    by (simp only: hex_bytes_chars)
  then have "map char_of (map (of_char :: char \<Rightarrow> nat) j) = map char_of (map (of_char :: char \<Rightarrow> nat) k)" by (rule arg_cong)
  then show "j = k" by (simp add: comp_def)
qed

theorem signature_binding_witness:
  "requireSignature demo_hmac ''k'' (Some (generateSignature demo_hmac ''b'' ''k'' 5)) (Some (show_nat 5)) ''b'' 9 = Inr () \<and> int 5 = 5"
proof -
  have "generateSignature demo_hmac ''b'' ''k'' 5 \<noteq> []" "show_nat 5 \<noteq> []" by code_simp+
  then have "requireSignature demo_hmac ''k'' (Some (generateSignature demo_hmac ''b'' ''k'' 5)) (Some (show_nat 5)) ''b'' 9 = Inr ()"
    by (simp add: requireSignature_def or_string_def validateSignature_def SIGNATURE_TOLERANCE_MS_def timingSafeEqual_def)
  with signature_binding [OF demo_hmac_digest injD [OF demo_hmac_inj] this] show ?thesis by blast
qed

theorem wrong_length_crashes_witness:
  "fst (requireCsrfToken \<lparr>cr_method = ''POST'', cr_sessionId = Some ''s'', cr_requestId = None, cr_header = Some ''ab'', cr_body = None\<rparr> 5
      (snd (generateCsrfToken ''s'' ''abcd'' 0 jm_empty)))
    = Inl (PlainError ''Input buffers must have the same byte length'')"
proof (rule wrong_length_crashes [of _ _ "\<lparr>ct_token = ''abcd'', ct_expiresAt = 24 * 60 * 60 * 1000\<rparr>"])
  have "length (hex_bytes ''ab'') = 1" "length (hex_bytes ''abcd'') = 2" by code_simp+
  then show "length (hex_bytes ''ab'') \<noteq> length (hex_bytes (ct_token \<lparr>ct_token = ''abcd'', ct_expiresAt = 24 * 60 * 60 * 1000\<rparr>))" by simp
qed (simp_all add: generateCsrfToken_def)


end
