(* ===== verification/SocketPool.thy ===== *)
theory SocketPool
  imports Json Stores
begin

text \<open>
  The pool of WebSocket connections of \<^verbatim>\<open>server/src/services/websocketPool.service.ts\<close>: which sockets are open, which user each
  belongs to, and the messages kept for users who are not connected.

  What the service asks of the socket library, that is to emit an event, to join or leave a room and to close a
  connection, is an output of each handler. The library answers a closed connection with the \<^verbatim>\<open>disconnect\<close> event, which is a
  step of its own. A \<^verbatim>\<open>Set\<close> is a list in the order of insertion. The memory alert, which only writes to the log, is left out.
\<close>

section \<open>Data\<close>

definition MESSAGE_TTL_MS :: int where "MESSAGE_TTL_MS = 5 * 60 * 1000"

definition MAX_QUEUE_SIZE :: nat where "MAX_QUEUE_SIZE = 100"

definition HEARTBEAT_INTERVAL_MS :: int where "HEARTBEAT_INTERVAL_MS = 30000"

definition HEARTBEAT_TIMEOUT_INTERVALS :: int where "HEARTBEAT_TIMEOUT_INTERVALS = 2"

definition MAX_CONNECTIONS_PER_USER :: nat where "MAX_CONNECTIONS_PER_USER = 10"

definition MAX_TOTAL_CONNECTIONS :: nat where "MAX_TOTAL_CONNECTIONS = 1000"

lemmas pool_limits_defs = MAX_QUEUE_SIZE_def MAX_CONNECTIONS_PER_USER_def MAX_TOTAL_CONNECTIONS_def

record queued_message =
  qm_event :: string
  qm_data :: json
  qm_queuedAt :: int

record connection_stats =
  cn_socketId :: string
  cn_userId :: "string option"
  cn_connectedAt :: int
  cn_lastSeenAt :: int
  cn_messagesSent :: nat
  cn_rooms :: "string list"

text \<open>\<open>sp_io\<close>: a server has been given; \<open>sp_handler\<close>: its connections reach the pool; \<open>sp_timers\<close>: the timers run.\<close>

record socket_pool =
  sp_offlineQueue :: "(string, queued_message list) jsmap"
  sp_connections :: "(string, connection_stats) jsmap"
  sp_userSockets :: "(string, string list) jsmap"
  sp_io :: bool
  sp_handler :: bool
  sp_timers :: bool

datatype pool_output =
    Emit string string json
  | EmitRoom string string json
  | EmitAll string json
  | JoinRoom string string
  | LeaveRoom string string
  | CloseSocket string

definition new_pool :: socket_pool where
  "new_pool = \<lparr>sp_offlineQueue = jm_empty, sp_connections = jm_empty, sp_userSockets = jm_empty, sp_io = False, sp_handler = False,
     sp_timers = False\<rparr>"

definition set_add :: "'a \<Rightarrow> 'a list \<Rightarrow> 'a list" where
  "set_add x xs = (if x \<in> set xs then xs else xs @ [x])"

definition set_delete :: "'a \<Rightarrow> 'a list \<Rightarrow> 'a list" where
  "set_delete x xs = filter (\<lambda>y. y \<noteq> x) xs"

definition error_message :: "string \<Rightarrow> json" where
  "error_message text = JObj [(''message'', JStr text)]"

section \<open>Connections\<close>

definition init_pool :: "socket_pool \<Rightarrow> socket_pool" where
  "init_pool p = p\<lparr>sp_io := True, sp_handler := True, sp_timers := True\<rparr>"

definition registerConnection :: "string \<Rightarrow> int \<Rightarrow> socket_pool \<Rightarrow> socket_pool" where
  "registerConnection sid now p =
     p\<lparr>sp_connections := jm_set (sp_connections p) sid
         \<lparr>cn_socketId = sid, cn_userId = None, cn_connectedAt = now, cn_lastSeenAt = now, cn_messagesSent = 0, cn_rooms = []\<rparr>\<rparr>"

text \<open>A change of the record of a socket, if there is one.\<close>

definition with_stats :: "string \<Rightarrow> (connection_stats \<Rightarrow> connection_stats) \<Rightarrow> socket_pool \<Rightarrow> socket_pool" where
  "with_stats sid f p =
     (case jm_get (sp_connections p) sid of
        None \<Rightarrow> p
      | Some st \<Rightarrow> p\<lparr>sp_connections := jm_set (sp_connections p) sid (f st)\<rparr>)"

definition associateUser :: "string \<Rightarrow> string \<Rightarrow> socket_pool \<Rightarrow> socket_pool" where
  "associateUser sid userId p =
     (let p1 = with_stats sid (\<lambda>st. st\<lparr>cn_userId := Some userId\<rparr>) p;
          sockets = (case jm_get (sp_userSockets p1) userId of None \<Rightarrow> [] | Some ss \<Rightarrow> ss)
      in p1\<lparr>sp_userSockets := jm_set (sp_userSockets p1) userId (set_add sid sockets)\<rparr>)"

definition deregisterConnection :: "string \<Rightarrow> socket_pool \<Rightarrow> socket_pool" where
  "deregisterConnection sid p =
     (let userId = Option.bind (jm_get (sp_connections p) sid) cn_userId;
          p1 = (case userId of
              None \<Rightarrow> p
            | Some u \<Rightarrow>
                if u = [] then p
                else (case jm_get (sp_userSockets p) u of
                    None \<Rightarrow> p
                  | Some sockets \<Rightarrow>
                      (let left = set_delete sid sockets
                       in p\<lparr>sp_userSockets :=
                           (if left = [] then jm_delete (sp_userSockets p) u else jm_set (sp_userSockets p) u left)\<rparr>)))
      in p1\<lparr>sp_connections := jm_delete (sp_connections p1) sid\<rparr>)"

section \<open>Messages\<close>

definition queue_of :: "socket_pool \<Rightarrow> string \<Rightarrow> queued_message list" where
  "queue_of p userId = (case jm_get (sp_offlineQueue p) userId of None \<Rightarrow> [] | Some q \<Rightarrow> q)"

definition enqueue :: "string \<Rightarrow> string \<Rightarrow> json \<Rightarrow> int \<Rightarrow> socket_pool \<Rightarrow> socket_pool" where
  "enqueue userId event data now p =
     (let queue = queue_of p userId;
          queue1 = (if length queue \<ge> MAX_QUEUE_SIZE then tl queue else queue)
      in p\<lparr>sp_offlineQueue := jm_set (sp_offlineQueue p) userId
             (queue1 @ [\<lparr>qm_event = event, qm_data = data, qm_queuedAt = now\<rparr>])\<rparr>)"

definition fresh_message :: "int \<Rightarrow> queued_message \<Rightarrow> bool" where
  "fresh_message now m \<longleftrightarrow> now - qm_queuedAt m < MESSAGE_TTL_MS"

definition flushOfflineQueue :: "string \<Rightarrow> string \<Rightarrow> int \<Rightarrow> socket_pool \<Rightarrow> socket_pool \<times> pool_output list" where
  "flushOfflineQueue sid userId now p =
     (let queue = queue_of p userId
      in if queue = [] then (p, [])
         else (p\<lparr>sp_offlineQueue := jm_delete (sp_offlineQueue p) userId\<rparr>,
               map (\<lambda>m. Emit sid (qm_event m) (qm_data m)) (filter (fresh_message now) queue)))"

definition count_message :: "socket_pool \<Rightarrow> string \<Rightarrow> socket_pool" where
  "count_message p sid = with_stats sid (\<lambda>st. st\<lparr>cn_messagesSent := cn_messagesSent st + 1\<rparr>) p"

definition sendToUser :: "string \<Rightarrow> string \<Rightarrow> json \<Rightarrow> int \<Rightarrow> socket_pool \<Rightarrow> bool \<times> socket_pool \<times> pool_output list" where
  "sendToUser userId event data now p =
     (case jm_get (sp_userSockets p) userId of
        Some (s # sockets) \<Rightarrow>
          (True, foldl count_message p (s # sockets),
           if sp_io p then map (\<lambda>sid. Emit sid event data) (s # sockets) else [])
      | _ \<Rightarrow> (False, enqueue userId event data now p, []))"

definition broadcastToRoom :: "string \<Rightarrow> string \<Rightarrow> json \<Rightarrow> socket_pool \<Rightarrow> pool_output list" where
  "broadcastToRoom room event data p = (if sp_io p then [EmitRoom room event data] else [])"

definition broadcastToAll :: "string \<Rightarrow> json \<Rightarrow> socket_pool \<Rightarrow> pool_output list" where
  "broadcastToAll event data p = (if sp_io p then [EmitAll event data] else [])"

section \<open>Events of a socket\<close>

definition onConnection :: "string \<Rightarrow> int \<Rightarrow> socket_pool \<Rightarrow> socket_pool \<times> pool_output list" where
  "onConnection sid now p =
     (if length (sp_connections p) \<ge> MAX_TOTAL_CONNECTIONS
      then (p, [Emit sid ''error'' (error_message ''Server at maximum capacity''), CloseSocket sid])
      else (registerConnection sid now p, []))"

definition onAuthenticate :: "string \<Rightarrow> string \<Rightarrow> int \<Rightarrow> socket_pool \<Rightarrow> socket_pool \<times> pool_output list" where
  "onAuthenticate sid userId now p =
     (case jm_get (sp_userSockets p) userId of
        Some userSockets \<Rightarrow>
          if length userSockets \<ge> MAX_CONNECTIONS_PER_USER
          then (p, [Emit sid ''error'' (error_message ''Maximum connections per user exceeded''), CloseSocket sid])
          else flushOfflineQueue sid userId now (associateUser sid userId p)
      | None \<Rightarrow> flushOfflineQueue sid userId now (associateUser sid userId p))"

definition onJoinRoom :: "string \<Rightarrow> string \<Rightarrow> socket_pool \<Rightarrow> socket_pool \<times> pool_output list" where
  "onJoinRoom sid room p = (with_stats sid (\<lambda>st. st\<lparr>cn_rooms := set_add room (cn_rooms st)\<rparr>) p, [JoinRoom sid room])"

definition onLeaveRoom :: "string \<Rightarrow> string \<Rightarrow> socket_pool \<Rightarrow> socket_pool \<times> pool_output list" where
  "onLeaveRoom sid room p = (with_stats sid (\<lambda>st. st\<lparr>cn_rooms := set_delete room (cn_rooms st)\<rparr>) p, [LeaveRoom sid room])"

definition onPong :: "string \<Rightarrow> int \<Rightarrow> socket_pool \<Rightarrow> socket_pool" where
  "onPong sid now p = with_stats sid (\<lambda>st. st\<lparr>cn_lastSeenAt := now\<rparr>) p"

section \<open>Timers\<close>

definition heartbeat_tick :: "int \<Rightarrow> socket_pool \<Rightarrow> pool_output list" where
  "heartbeat_tick now p =
     (let staleThreshold = now - HEARTBEAT_INTERVAL_MS * HEARTBEAT_TIMEOUT_INTERVALS
      in if \<not> sp_io p then []
         else map (\<lambda>(sid, st). if cn_lastSeenAt st < staleThreshold then CloseSocket sid else Emit sid ''ping'' JUndef)
                (sp_connections p))"

definition clean_entry ::
  "int \<Rightarrow> (string, queued_message list) jsmap \<Rightarrow> string \<times> queued_message list \<Rightarrow> (string, queued_message list) jsmap" where
  "clean_entry now acc = (\<lambda>(userId, queue).
     (let fresh = filter (fresh_message now) queue
      in if length fresh < length queue
         then (if fresh = [] then jm_delete acc userId else jm_set acc userId fresh) else acc))"

definition cleanupStaleQueuedMessages :: "int \<Rightarrow> socket_pool \<Rightarrow> socket_pool" where
  "cleanupStaleQueuedMessages now p =
     p\<lparr>sp_offlineQueue := foldl (clean_entry now) (sp_offlineQueue p) (sp_offlineQueue p)\<rparr>"

definition getStats :: "socket_pool \<Rightarrow> nat \<times> nat \<times> nat" where
  "getStats p =
     (length (sp_connections p), length (sp_userSockets p), sum_list (map length (jm_values (sp_offlineQueue p))))"

text \<open>Every socket of the server is closed; \<open>sockets\<close> are the server's.\<close>

definition destroy_pool :: "string list \<Rightarrow> socket_pool \<Rightarrow> socket_pool \<times> pool_output list" where
  "destroy_pool sockets p =
     (p\<lparr>sp_offlineQueue := jm_empty, sp_connections := jm_empty, sp_userSockets := jm_empty,
        sp_handler := sp_handler p \<and> \<not> sp_io p, sp_timers := False\<rparr>,
      if sp_io p then map CloseSocket sockets else [])"

section \<open>Runs\<close>

datatype pool_event =
    PInit
  | PConnect string
  | PAuthenticate string string
  | PJoin string string
  | PLeave string string
  | PPong string
  | PDisconnect string
  | PSend string string json
  | PHeartbeat
  | PCleanup
  | PDestroy "string list"

fun pool_step :: "socket_pool \<Rightarrow> int \<times> pool_event \<Rightarrow> socket_pool \<times> pool_output list" where
  "pool_step p (t, PInit) = (init_pool p, [])"
| "pool_step p (t, PConnect sid) = onConnection sid t p"
| "pool_step p (t, PAuthenticate sid u) = onAuthenticate sid u t p"
| "pool_step p (t, PJoin sid room) = onJoinRoom sid room p"
| "pool_step p (t, PLeave sid room) = onLeaveRoom sid room p"
| "pool_step p (t, PPong sid) = (onPong sid t p, [])"
| "pool_step p (t, PDisconnect sid) = (deregisterConnection sid p, [])"
| "pool_step p (t, PSend u ev d) = snd (sendToUser u ev d t p)"
| "pool_step p (t, PHeartbeat) = (p, heartbeat_tick t p)"
| "pool_step p (t, PCleanup) = (cleanupStaleQueuedMessages t p, [])"
| "pool_step p (t, PDestroy sockets) = destroy_pool sockets p"

definition pool_exec :: "socket_pool \<Rightarrow> int \<times> pool_event \<Rightarrow> socket_pool" where
  "pool_exec p e = fst (pool_step p e)"

text \<open>
  A connection comes with a socket identifier that is not in use; the listeners of a socket are there from its registration to its
  end; the timers fire while they run.
\<close>

fun pool_ok :: "socket_pool \<Rightarrow> int \<times> pool_event \<Rightarrow> bool" where
  "pool_ok p (t, PInit) \<longleftrightarrow> \<not> sp_handler p"
| "pool_ok p (t, PConnect sid) \<longleftrightarrow> sp_handler p \<and> jm_get (sp_connections p) sid = None \<and>
     sid \<notin> set (concat (jm_values (sp_userSockets p)))"
| "pool_ok p (t, PAuthenticate sid u) \<longleftrightarrow> jm_get (sp_connections p) sid \<noteq> None"
| "pool_ok p (t, PJoin sid room) \<longleftrightarrow> jm_get (sp_connections p) sid \<noteq> None"
| "pool_ok p (t, PLeave sid room) \<longleftrightarrow> jm_get (sp_connections p) sid \<noteq> None"
| "pool_ok p (t, PPong sid) \<longleftrightarrow> jm_get (sp_connections p) sid \<noteq> None"
| "pool_ok p (t, PDisconnect sid) \<longleftrightarrow> jm_get (sp_connections p) sid \<noteq> None"
| "pool_ok p (t, PSend u ev d) \<longleftrightarrow> True"
| "pool_ok p (t, PHeartbeat) \<longleftrightarrow> sp_timers p"
| "pool_ok p (t, PCleanup) \<longleftrightarrow> sp_timers p"
| "pool_ok p (t, PDestroy sockets) \<longleftrightarrow> True"

section \<open>Lemmas on the stores\<close>

lemma set_set_add [simp]: "set (set_add x xs) = insert x (set xs)"
  and distinct_set_add [simp]: "distinct (set_add x xs) = distinct xs"
  and length_set_add: "length (set_add x xs) \<le> length xs + 1" "0 < length (set_add x xs)"
  by (auto simp: set_add_def)

lemma set_set_delete [simp]: "set (set_delete x xs) = set xs - {x}"
  and distinct_set_delete [simp]: "distinct xs \<Longrightarrow> distinct (set_delete x xs)"
  and length_set_delete: "length (set_delete x xs) \<le> length xs"
  and set_delete_absent: "x \<notin> set xs \<Longrightarrow> set_delete x xs = xs"
  by (auto simp: set_delete_def filter_id_conv)

lemma with_stats_sel [simp]:
  "sp_offlineQueue (with_stats sid f p) = sp_offlineQueue p"
  "sp_userSockets (with_stats sid f p) = sp_userSockets p"
  "sp_io (with_stats sid f p) = sp_io p"
  "sp_handler (with_stats sid f p) = sp_handler p"
  "sp_timers (with_stats sid f p) = sp_timers p"
  "length (sp_connections (with_stats sid f p)) = length (sp_connections p)"
  by (simp_all add: with_stats_def length_jm_set split: option.splits)

lemma get_with_stats:
  "jm_get (sp_connections (with_stats sid f p)) k =
     (if k = sid then map_option f (jm_get (sp_connections p) k) else jm_get (sp_connections p) k)"
  by (simp add: with_stats_def split: option.splits)

lemma count_messages_sel [simp]:
  "sp_offlineQueue (foldl count_message p sids) = sp_offlineQueue p"
  "sp_userSockets (foldl count_message p sids) = sp_userSockets p"
  "length (sp_connections (foldl count_message p sids)) = length (sp_connections p)"
  by (induction sids arbitrary: p) (simp_all add: count_message_def)

text \<open>The user a socket has authenticated as last.\<close>

definition user_of :: "socket_pool \<Rightarrow> string \<Rightarrow> string option" where
  "user_of p sid = Option.bind (jm_get (sp_connections p) sid) cn_userId"

lemma user_of_with_stats: "(\<And>st. cn_userId (f st) = cn_userId st) \<Longrightarrow> user_of (with_stats sid f p) k = user_of p k"
  by (simp add: user_of_def get_with_stats split: option.splits) (auto split: bind_splits)

lemma user_of_count_messages [simp]: "user_of (foldl count_message p sids) k = user_of p k"
  by (induction sids arbitrary: p) (simp_all add: count_message_def user_of_with_stats)

lemma sendToUser_online:
  "jm_get (sp_userSockets p) u = Some (s # ss) \<Longrightarrow>
     sendToUser u ev d t p =
       (True, foldl count_message p (s # ss), if sp_io p then map (\<lambda>sid. Emit sid ev d) (s # ss) else [])"
  by (simp add: sendToUser_def)

text \<open>The clean-up filters every queue and drops those that become empty.\<close>

lemma clean_entry_get:
  "jm_get (clean_entry now acc (v, q)) u =
     (if u \<noteq> v \<or> list_all (fresh_message now) q then jm_get acc u
      else if filter (fresh_message now) q = [] then None else Some (filter (fresh_message now) q))"
proof -
  have "length (filter (fresh_message now) q) < length q \<longleftrightarrow> \<not> list_all (fresh_message now) q"
    by (metis filter_id_conv length_filter_less length_filter_le less_irrefl list_all_iff nat_less_le)
  then show ?thesis by (simp add: clean_entry_def jm_get_delete Let_def)
qed

lemma clean_entries_get:
  assumes "jm_wf l"
  shows "jm_get (foldl (clean_entry now) acc l) u =
    (case jm_get l u of
       None \<Rightarrow> jm_get acc u
     | Some q \<Rightarrow> if list_all (fresh_message now) q then jm_get acc u
         else if filter (fresh_message now) q = [] then None else Some (filter (fresh_message now) q))"
  using assms
proof (induction l arbitrary: acc)
  case (Cons x l)
  obtain v q where x: "x = (v, q)" by (cases x)
  from Cons.prems have v: "jm_get l v = None" and wf: "jm_wf l" by (auto simp: x jm_wf_def jm_get_def map_of_eq_None_iff)
  have get: "jm_get ((v, q) # l) u = (if u = v then Some q else jm_get l u)" by (simp add: jm_get_def)
  show ?case
    unfolding x foldl.simps Cons.IH [OF wf] get clean_entry_get using v by (auto split: option.splits)
qed (simp add: jm_get_def)

lemma cleanup_get:
  assumes "jm_wf (sp_offlineQueue p)"
  shows "jm_get (sp_offlineQueue (cleanupStaleQueuedMessages now p)) u =
    (case jm_get (sp_offlineQueue p) u of
       None \<Rightarrow> None
     | Some q \<Rightarrow> if filter (fresh_message now) q = [] \<and> q \<noteq> [] then None else Some (filter (fresh_message now) q))"
  using assms
  by (auto simp: cleanupStaleQueuedMessages_def clean_entries_get list_all_iff filter_id_conv filter_empty_conv split: option.splits)

lemma queue_cleanup_wf: "jm_wf (sp_offlineQueue p) \<Longrightarrow> jm_wf (sp_offlineQueue (cleanupStaleQueuedMessages now p))"
proof -
  have "jm_wf acc \<Longrightarrow> jm_wf (foldl (clean_entry now) acc l)" for acc l
    by (induction l arbitrary: acc) (auto simp: clean_entry_def Let_def)
  then show "jm_wf (sp_offlineQueue p) \<Longrightarrow> ?thesis" by (simp add: cleanupStaleQueuedMessages_def)
qed

lemma cleanup_sel [simp]:
  "sp_userSockets (cleanupStaleQueuedMessages now p) = sp_userSockets p"
  "sp_connections (cleanupStaleQueuedMessages now p) = sp_connections p"
  by (simp_all add: cleanupStaleQueuedMessages_def)

section \<open>Invariant\<close>

definition users_inv_of :: "socket_pool \<Rightarrow> bool" where
  "users_inv_of p \<longleftrightarrow>
     length (sp_connections p) \<le> MAX_TOTAL_CONNECTIONS \<and>
     (\<forall>u ss. jm_get (sp_userSockets p) u = Some ss \<longrightarrow> ss \<noteq> [] \<and> length ss \<le> MAX_CONNECTIONS_PER_USER \<and> distinct ss) \<and>
     (\<forall>sid u. user_of p sid = Some u \<longrightarrow> (\<exists>ss. jm_get (sp_userSockets p) u = Some ss \<and> sid \<in> set ss))"

definition queues_inv :: "socket_pool \<Rightarrow> bool" where
  "queues_inv p \<longleftrightarrow> jm_wf (sp_offlineQueue p) \<and>
     (\<forall>u q. jm_get (sp_offlineQueue p) u = Some q \<longrightarrow> q \<noteq> [] \<and> length q \<le> MAX_QUEUE_SIZE)"

definition pool_inv :: "socket_pool \<Rightarrow> bool" where
  "pool_inv p \<longleftrightarrow> users_inv_of p \<and> queues_inv p"

lemma users_inv_cong:
  assumes "users_inv_of p" and "length (sp_connections q) = length (sp_connections p)"
    and "sp_userSockets q = sp_userSockets p" and "\<And>sid. user_of q sid = user_of p sid"
  shows "users_inv_of q"
  using assms by (simp add: users_inv_of_def)

lemma queues_inv_cong: "queues_inv p \<Longrightarrow> sp_offlineQueue q = sp_offlineQueue p \<Longrightarrow> queues_inv q"
  by (simp add: queues_inv_def)

lemma users_inv_register:
  assumes "users_inv_of p" and "length (sp_connections p) < MAX_TOTAL_CONNECTIONS"
  shows "users_inv_of (registerConnection sid t p)"
  using assms by (auto simp: users_inv_of_def registerConnection_def user_of_def length_jm_set)

lemma user_of_associate:
  "jm_get (sp_connections p) sid \<noteq> None \<Longrightarrow> user_of (associateUser sid u p) k = (if k = sid then Some u else user_of p k)"
  by (auto simp: associateUser_def user_of_def get_with_stats Let_def)

lemma sockets_associate:
  "jm_get (sp_userSockets (associateUser sid u p)) v =
     (if v = u then Some (set_add sid (case jm_get (sp_userSockets p) u of None \<Rightarrow> [] | Some ss \<Rightarrow> ss)) else jm_get (sp_userSockets p) v)"
  by (simp add: associateUser_def Let_def)

lemma users_inv_associate:
  assumes inv: "users_inv_of p" and sid: "jm_get (sp_connections p) sid \<noteq> None"
    and room: "\<And>ss. jm_get (sp_userSockets p) u = Some ss \<Longrightarrow> length ss < MAX_CONNECTIONS_PER_USER"
  shows "users_inv_of (associateUser sid u p)"
proof -
  let ?ss = "case jm_get (sp_userSockets p) u of None \<Rightarrow> [] | Some ss \<Rightarrow> ss"
  have ss: "length ?ss < MAX_CONNECTIONS_PER_USER" "distinct ?ss"
    using inv room by (auto simp: users_inv_of_def MAX_CONNECTIONS_PER_USER_def split: option.splits)
  have len: "length (sp_connections (associateUser sid u p)) = length (sp_connections p)" by (simp add: associateUser_def Let_def)
  have "length (set_add sid ?ss) \<le> MAX_CONNECTIONS_PER_USER" "set_add sid ?ss \<noteq> []"
    using ss length_set_add [of sid ?ss] by auto
  moreover have "\<exists>zs. jm_get (sp_userSockets (associateUser sid u p)) v = Some zs \<and> k \<in> set zs"
    if "user_of (associateUser sid u p) k = Some v" for k v
    using that inv unfolding users_inv_of_def user_of_associate [OF sid] sockets_associate
    by (auto split: if_splits) (metis (no_types, lifting) option.simps(5))
  ultimately show ?thesis
    using inv ss len unfolding users_inv_of_def by (simp add: sockets_associate)
qed

lemma sockets_deregister:
  "jm_get (sp_userSockets (deregisterConnection sid p)) v =
     (if user_of p sid = Some v \<and> v \<noteq> []
      then Option.bind (jm_get (sp_userSockets p) v) (\<lambda>ss. if set_delete sid ss = [] then None else Some (set_delete sid ss))
      else jm_get (sp_userSockets p) v)"
  by (auto simp: deregisterConnection_def user_of_def jm_get_delete Let_def split: option.splits bind_splits)

lemma connections_deregister: "sp_connections (deregisterConnection sid p) = jm_delete (sp_connections p) sid"
  by (auto simp: deregisterConnection_def Let_def split: option.splits)

lemma users_inv_deregister:
  assumes inv: "users_inv_of p"
  shows "users_inv_of (deregisterConnection sid p)"
proof -
  have user: "user_of (deregisterConnection sid p) k = (if k = sid then None else user_of p k)" for k
    by (simp add: user_of_def connections_deregister jm_get_delete)
  have "length (jm_delete (sp_connections p) sid) \<le> MAX_TOTAL_CONNECTIONS"
    using inv length_jm_delete [of "sp_connections p" sid] by (simp add: users_inv_of_def)
  moreover have "ss \<noteq> [] \<and> length ss \<le> MAX_CONNECTIONS_PER_USER \<and> distinct ss"
    if ss: "jm_get (sp_userSockets (deregisterConnection sid p)) u = Some ss" for u ss
  proof -
    from ss obtain zs where zs: "jm_get (sp_userSockets p) u = Some zs" "ss = zs \<or> ss = set_delete sid zs \<and> ss \<noteq> []"
      by (auto simp: sockets_deregister split: if_splits bind_splits)
    moreover from zs(1) inv have "zs \<noteq> [] \<and> length zs \<le> MAX_CONNECTIONS_PER_USER \<and> distinct zs" by (simp add: users_inv_of_def)
    ultimately show ?thesis using length_set_delete [of sid zs] by auto
  qed
  moreover have "\<exists>ss. jm_get (sp_userSockets (deregisterConnection sid p)) u = Some ss \<and> k \<in> set ss"
    if k: "k \<noteq> sid" and u: "user_of p k = Some u" for k u
  proof -
    from inv u obtain ss where ss: "jm_get (sp_userSockets p) u = Some ss" "k \<in> set ss" unfolding users_inv_of_def by blast
    with k have "k \<in> set (set_delete sid ss)" "set_delete sid ss \<noteq> []" by (auto simp: set_delete_def filter_empty_conv)
    with ss show ?thesis by (simp add: sockets_deregister)
  qed
  ultimately show ?thesis by (simp add: users_inv_of_def connections_deregister user)
qed

lemma queues_inv_enqueue:
  assumes "queues_inv p"
  shows "queues_inv (enqueue u ev d t p)"
proof -
  from assms have "length (queue_of p u) \<le> MAX_QUEUE_SIZE" by (auto simp: queues_inv_def queue_of_def split: option.splits)
  with assms show ?thesis by (auto simp: queues_inv_def enqueue_def MAX_QUEUE_SIZE_def Let_def)
qed

lemma queues_inv_flush: "queues_inv p \<Longrightarrow> queues_inv (fst (flushOfflineQueue sid u t p))"
  by (auto simp: queues_inv_def flushOfflineQueue_def jm_get_delete Let_def)

lemma queues_inv_cleanup: "queues_inv p \<Longrightarrow> queues_inv (cleanupStaleQueuedMessages t p)"
  by (auto simp: queues_inv_def cleanup_get queue_cleanup_wf split: option.splits if_splits)
    (metis le_trans length_filter_le)

lemma flush_sel [simp]:
  "sp_connections (fst (flushOfflineQueue sid u t p)) = sp_connections p"
  "sp_userSockets (fst (flushOfflineQueue sid u t p)) = sp_userSockets p"
  by (simp_all add: flushOfflineQueue_def Let_def)

lemma pool_inv_authenticate:
  assumes inv: "pool_inv p" and sid: "jm_get (sp_connections p) sid \<noteq> None"
  shows "pool_inv (fst (onAuthenticate sid u t p))"
proof (cases "\<exists>ss. jm_get (sp_userSockets p) u = Some ss \<and> MAX_CONNECTIONS_PER_USER \<le> length ss")
  case True
  with inv show ?thesis by (auto simp: onAuthenticate_def)
next
  case False
  let ?p = "associateUser sid u p"
  from False have step: "onAuthenticate sid u t p = flushOfflineQueue sid u t ?p" by (auto simp: onAuthenticate_def split: option.splits)
  from inv sid False have "users_inv_of ?p" by (intro users_inv_associate) (auto simp: pool_inv_def not_le)
  then have "users_inv_of (fst (flushOfflineQueue sid u t ?p))" by (rule users_inv_cong) (simp_all add: user_of_def)
  moreover have "queues_inv ?p" using inv by (auto simp: pool_inv_def associateUser_def Let_def intro: queues_inv_cong)
  ultimately show ?thesis by (simp add: pool_inv_def step queues_inv_flush)
qed

lemma pool_inv_send: "pool_inv p \<Longrightarrow> pool_inv (fst (snd (sendToUser u ev d t p)))"
proof (cases "jm_get (sp_userSockets p) u = None \<or> jm_get (sp_userSockets p) u = Some []")
  case True
  moreover assume inv: "pool_inv p"
  moreover from inv have "users_inv_of (enqueue u ev d t p)"
    unfolding pool_inv_def by (elim conjE users_inv_cong) (simp_all add: enqueue_def user_of_def Let_def)
  ultimately show ?thesis by (auto simp: sendToUser_def pool_inv_def queues_inv_enqueue split: option.splits list.splits)
next
  case False
  then obtain s ss where "jm_get (sp_userSockets p) u = Some (s # ss)" by (cases "jm_get (sp_userSockets p) u") (auto simp: neq_Nil_conv)
  moreover assume "pool_inv p"
  ultimately show ?thesis
    by (auto simp: sendToUser_online pool_inv_def simp del: foldl.simps intro: users_inv_cong queues_inv_cong)
qed

lemma pool_inv_with_stats:
  assumes "pool_inv p" and "\<And>st. cn_userId (f st) = cn_userId st"
  shows "pool_inv (with_stats sid f p)"
  using assms by (auto simp: pool_inv_def user_of_with_stats intro: users_inv_cong queues_inv_cong)

lemma pool_inv_exec: "pool_inv p \<Longrightarrow> pool_ok p e \<Longrightarrow> pool_inv (pool_exec p e)"
proof (induction p e rule: pool_step.induct)
  case (1 p t)
  then show ?case by (auto simp: pool_exec_def init_pool_def pool_inv_def user_of_def intro: users_inv_cong queues_inv_cong)
next
  case (2 p t sid)
  moreover have "queues_inv (registerConnection sid t p)"
    using 2 by (auto simp: pool_inv_def registerConnection_def intro: queues_inv_cong)
  ultimately show ?case by (auto simp: pool_exec_def onConnection_def pool_inv_def users_inv_register not_le)
next
  case (7 p t sid)
  have "sp_offlineQueue (deregisterConnection sid p) = sp_offlineQueue p"
    by (simp add: deregisterConnection_def Let_def split: option.splits)
  with 7 show ?case by (auto simp: pool_exec_def pool_inv_def users_inv_deregister intro: queues_inv_cong)
next
  case (10 p t)
  moreover from 10 have "users_inv_of (cleanupStaleQueuedMessages t p)"
    unfolding pool_inv_def by (elim conjE users_inv_cong) (simp_all add: user_of_def)
  ultimately show ?case by (simp add: pool_exec_def pool_inv_def queues_inv_cleanup)
next
  case (11 p t sockets)
  show ?case by (simp add: pool_exec_def destroy_pool_def pool_inv_def users_inv_of_def queues_inv_def user_of_def)
      (simp add: jm_empty_def)
qed (simp_all add: pool_exec_def pool_inv_authenticate pool_inv_send onJoinRoom_def onLeaveRoom_def onPong_def pool_inv_with_stats)

interpretation pool: invariant_machine new_pool pool_exec pool_ok pool_inv
proof
  show "pool_inv new_pool"
    by (simp add: new_pool_def pool_inv_def users_inv_of_def queues_inv_def user_of_def) (simp add: jm_empty_def)
qed (rule pool_inv_exec)

section \<open>Messages for a user who is away\<close>

fun sent_by :: "string \<Rightarrow> int \<times> pool_event \<Rightarrow> queued_message list" where
  "sent_by u (t, PSend v ev d) = (if v = u then [\<lparr>qm_event = ev, qm_data = d, qm_queuedAt = t\<rparr>] else [])"
| "sent_by u (t, _) = []"

definition sent_to :: "string \<Rightarrow> (int \<times> pool_event) list \<Rightarrow> queued_message list" where
  "sent_to u es = concat (map (sent_by u) es)"

fun keeps_away :: "string \<Rightarrow> pool_event \<Rightarrow> bool" where
  "keeps_away u (PAuthenticate sid v) \<longleftrightarrow> v \<noteq> u"
| "keeps_away u (PDestroy sockets) \<longleftrightarrow> False"
| "keeps_away u _ \<longleftrightarrow> True"

text \<open>Messages get stale in the order in which they were queued.\<close>

lemma stale_prefix:
  "sorted (map qm_queuedAt q) \<Longrightarrow> q = takeWhile (\<lambda>m. \<not> fresh_message t m) q @ filter (fresh_message t) q"
proof (induction q)
  case (Cons m q)
  show ?case
  proof (cases "fresh_message t m")
    case True
    with Cons.prems have "filter (fresh_message t) q = q" by (fastforce simp: fresh_message_def filter_id_conv)
    with True show ?thesis by simp
  qed (use Cons in simp)
qed simp

lemma fresh_later: "fresh_message t m \<Longrightarrow> now \<le> t \<Longrightarrow> fresh_message now m"
  by (simp add: fresh_message_def)

text \<open>
  While a user is away, the queue is what is left of the latest hundred messages when some that are stale are taken away from the front.
\<close>

definition away_inv :: "string \<Rightarrow> int \<Rightarrow> queued_message list \<Rightarrow> socket_pool \<Rightarrow> bool" where
  "away_inv u now sent p \<longleftrightarrow>
     jm_wf (sp_offlineQueue p) \<and> jm_get (sp_userSockets p) u = None \<and>
     sorted (map qm_queuedAt sent) \<and> (\<forall>m\<in>set sent. qm_queuedAt m \<le> now) \<and>
     (\<exists>d. latest MAX_QUEUE_SIZE sent = d @ queue_of p u \<and> (\<forall>m\<in>set d. \<not> fresh_message now m))"

lemma away_inv_frame:
  assumes "away_inv u now sent p" and "now \<le> t" and "jm_wf (sp_offlineQueue p')" and "jm_get (sp_userSockets p') u = None"
    and "jm_get (sp_offlineQueue p') u = jm_get (sp_offlineQueue p) u"
  shows "away_inv u t sent p'"
  using assms by (fastforce simp: away_inv_def queue_of_def dest: fresh_later)

lemma away_inv_enqueue:
  assumes inv: "away_inv u now sent p" and t: "now \<le> t"
  shows "away_inv u t (sent @ [\<lparr>qm_event = ev, qm_data = d, qm_queuedAt = t\<rparr>]) (enqueue u ev d t p)"
proof -
  let ?m = "\<lparr>qm_event = ev, qm_data = d, qm_queuedAt = t\<rparr>"
  from inv obtain old where old: "latest MAX_QUEUE_SIZE sent = old @ queue_of p u" "\<forall>m\<in>set old. \<not> fresh_message now m"
    by (auto simp: away_inv_def)
  have queue: "queue_of (enqueue u ev d t p) u =
      (if length (queue_of p u) \<ge> MAX_QUEUE_SIZE then tl (queue_of p u) else queue_of p u) @ [?m]"
    by (simp add: enqueue_def Let_def queue_of_def)
  have len: "length old + length (queue_of p u) = min MAX_QUEUE_SIZE (length sent)"
    using length_latest [of MAX_QUEUE_SIZE sent] by (simp add: old(1))
  have "\<exists>x. latest MAX_QUEUE_SIZE (sent @ [?m]) = x @ queue_of (enqueue u ev d t p) u \<and> set x \<subseteq> set old"
  proof (cases "length sent < MAX_QUEUE_SIZE")
    case True
    then have "sent = old @ queue_of p u" using old(1) by (simp add: latest_def)
    moreover have "latest MAX_QUEUE_SIZE (sent @ [?m]) = sent @ [?m]" using True by (simp add: latest_snoc)
    moreover have "queue_of (enqueue u ev d t p) u = queue_of p u @ [?m]" using True len by (simp add: queue)
    ultimately have "latest MAX_QUEUE_SIZE (sent @ [?m]) = old @ queue_of (enqueue u ev d t p) u" by simp
    then show ?thesis by blast
  next
    case False
    then have "latest MAX_QUEUE_SIZE (sent @ [?m]) = tl (old @ queue_of p u) @ [?m]"
      using old(1) by (simp add: latest_snoc MAX_QUEUE_SIZE_def)
    then show ?thesis
      using len False by (cases old) (auto simp: queue MAX_QUEUE_SIZE_def)
  qed
  then obtain x where x: "latest MAX_QUEUE_SIZE (sent @ [?m]) = x @ queue_of (enqueue u ev d t p) u" "set x \<subseteq> set old" by blast
  have "\<forall>m\<in>set x. \<not> fresh_message t m" using x(2) old(2) t by (blast dest: fresh_later)
  moreover have "jm_wf (sp_offlineQueue (enqueue u ev d t p))" "jm_get (sp_userSockets (enqueue u ev d t p)) u = None"
    using inv by (simp_all add: away_inv_def enqueue_def Let_def)
  moreover have "sorted (map qm_queuedAt (sent @ [?m]))" "\<forall>m\<in>set (sent @ [?m]). qm_queuedAt m \<le> t"
    using inv t by (auto simp: away_inv_def sorted_append)
  ultimately show ?thesis using x(1) unfolding away_inv_def by blast
qed

lemma away_inv_cleanup:
  assumes inv: "away_inv u now sent p" and t: "now \<le> t"
  shows "away_inv u t sent (cleanupStaleQueuedMessages t p)"
proof -
  from inv obtain old where old: "latest MAX_QUEUE_SIZE sent = old @ queue_of p u" "\<forall>m\<in>set old. \<not> fresh_message now m"
    and wf: "jm_wf (sp_offlineQueue p)" by (auto simp: away_inv_def)
  let ?x = "takeWhile (\<lambda>m. \<not> fresh_message t m) (queue_of p u)"
  from inv sorted_latest [of qm_queuedAt sent MAX_QUEUE_SIZE] have "sorted (map qm_queuedAt (queue_of p u))"
    by (simp add: away_inv_def old(1) sorted_append)
  from stale_prefix [OF this, of t] have "latest MAX_QUEUE_SIZE sent = (old @ ?x) @ filter (fresh_message t) (queue_of p u)"
    by (simp add: old(1))
  moreover have "queue_of (cleanupStaleQueuedMessages t p) u = filter (fresh_message t) (queue_of p u)"
    using wf by (simp add: queue_of_def cleanup_get split: option.splits)
  moreover have "\<forall>m\<in>set (old @ ?x). \<not> fresh_message t m" using old(2) t by (auto dest: set_takeWhileD fresh_later)
  moreover have "jm_wf (sp_offlineQueue (cleanupStaleQueuedMessages t p))" using wf by (rule queue_cleanup_wf)
  moreover have "\<forall>m\<in>set sent. qm_queuedAt m \<le> t" using inv t by (auto simp: away_inv_def)
  ultimately show ?thesis using inv unfolding away_inv_def cleanup_sel by (metis (no_types, lifting))
qed

text \<open>The events that do not concern a user who is away leave their queue as it is.\<close>

lemma queue_authenticate_other:
  assumes "v \<noteq> u"
  shows "jm_get (sp_offlineQueue (fst (onAuthenticate sid v t p))) u = jm_get (sp_offlineQueue p) u"
    and "jm_get (sp_userSockets (fst (onAuthenticate sid v t p))) u = jm_get (sp_userSockets p) u"
    and "jm_wf (sp_offlineQueue p) \<Longrightarrow> jm_wf (sp_offlineQueue (fst (onAuthenticate sid v t p)))"
  using assms by (auto simp: onAuthenticate_def flushOfflineQueue_def associateUser_def jm_get_delete Let_def split: option.splits)

lemma queue_send_other:
  assumes "v \<noteq> u"
  shows "jm_get (sp_offlineQueue (fst (snd (sendToUser v ev d t p)))) u = jm_get (sp_offlineQueue p) u"
    and "jm_wf (sp_offlineQueue p) \<Longrightarrow> jm_wf (sp_offlineQueue (fst (snd (sendToUser v ev d t p))))"
    and "sp_userSockets (fst (snd (sendToUser v ev d t p))) = sp_userSockets p"
  using assms by (auto simp: sendToUser_def enqueue_def Let_def simp del: foldl.simps split: option.splits list.splits)

lemma away_inv_step:
  assumes inv: "away_inv u now sent p" and t: "now \<le> t" and e: "keeps_away u e"
  shows "away_inv u t (sent @ sent_by u (t, e)) (pool_exec p (t, e))"
proof -
  from inv have wf: "jm_wf (sp_offlineQueue p)" and off: "jm_get (sp_userSockets p) u = None" by (simp_all add: away_inv_def)
  note frame = away_inv_frame [OF inv t]
  show ?thesis
  proof (cases e)
    case (PAuthenticate sid v)
    with e show ?thesis using wf off by (auto simp: pool_exec_def queue_authenticate_other intro!: frame)
  next
    case (PSend v ev d)
    show ?thesis
    proof (cases "v = u")
      case True
      with off have "fst (snd (sendToUser u ev d t p)) = enqueue u ev d t p" by (simp add: sendToUser_def)
      with True PSend show ?thesis using away_inv_enqueue [OF inv t] by (simp add: pool_exec_def)
    next
      case False
      with PSend wf off show ?thesis by (auto simp: pool_exec_def queue_send_other intro!: frame)
    qed
  next
    case (PDisconnect sid)
    moreover have "sp_offlineQueue (deregisterConnection sid p) = sp_offlineQueue p"
      by (simp add: deregisterConnection_def Let_def split: option.splits)
    ultimately show ?thesis using wf off by (auto simp: pool_exec_def sockets_deregister intro!: frame)
  next
    case PCleanup
    then show ?thesis using away_inv_cleanup [OF inv t] by (simp add: pool_exec_def)
  qed (use e wf off in \<open>auto simp: pool_exec_def init_pool_def onConnection_def registerConnection_def onJoinRoom_def onLeaveRoom_def
      onPong_def intro!: frame\<close>)
qed

lemma away_inv_run:
  assumes "away_inv u now sent p" and "sorted (map fst es)" and "\<forall>x\<in>set es. now \<le> fst x \<and> fst x \<le> t \<and> keeps_away u (snd x)"
    and "now \<le> t"
  shows "away_inv u t (sent @ sent_to u es) (foldl pool_exec p es)"
  using assms
proof (induction es arbitrary: now sent p)
  case Nil
  have "away_inv u t sent p" by (rule away_inv_frame [OF Nil(1,4)]) (use Nil(1) in \<open>simp_all add: away_inv_def\<close>)
  then show ?case by (simp add: sent_to_def)
next
  case (Cons x es)
  obtain t1 e where x: "x = (t1, e)" by (cases x)
  from Cons.prems x have "away_inv u t1 (sent @ sent_by u (t1, e)) (pool_exec p (t1, e))" by (auto intro: away_inv_step)
  from Cons.IH [OF this] Cons.prems x show ?case by (auto simp: sent_to_def)
qed

section \<open>Sockets that are counted for the wrong user\<close>

text \<open>All places of a user are taken by sockets that are closed or belong to another user by now.\<close>

definition slots_lost :: "string \<Rightarrow> socket_pool \<Rightarrow> bool" where
  "slots_lost u p \<longleftrightarrow>
     (case jm_get (sp_userSockets p) u of
        None \<Rightarrow> False
      | Some ss \<Rightarrow> MAX_CONNECTIONS_PER_USER \<le> length ss \<and> list_all (\<lambda>sid. user_of p sid \<noteq> Some u) ss)"

fun is_destroy :: "pool_event \<Rightarrow> bool" where
  "is_destroy (PDestroy sockets) = True"
| "is_destroy _ = False"

lemma slots_lost_refuses:
  "slots_lost u p \<Longrightarrow> onAuthenticate sid u t p
     = (p, [Emit sid ''error'' (error_message ''Maximum connections per user exceeded''), CloseSocket sid])"
  by (auto simp: slots_lost_def onAuthenticate_def split: option.splits)

lemma slots_lost_frame:
  assumes "slots_lost u p" and "jm_get (sp_userSockets q) u = jm_get (sp_userSockets p) u"
    and "\<And>sid ss. jm_get (sp_userSockets p) u = Some ss \<Longrightarrow> sid \<in> set ss \<Longrightarrow> user_of q sid = Some u \<Longrightarrow> user_of p sid = Some u"
  shows "slots_lost u q"
  using assms by (fastforce simp: slots_lost_def list_all_iff split: option.splits)

lemma slots_lost_step:
  assumes lost: "slots_lost u p" and ok: "pool_ok p e" and e: "\<not> is_destroy (snd e)"
  shows "slots_lost u (pool_exec p e)"
proof -
  obtain t ev where te: "e = (t, ev)" by (cases e)
  from lost obtain ss where ss: "jm_get (sp_userSockets p) u = Some ss" "\<forall>sid\<in>set ss. user_of p sid \<noteq> Some u"
      "10 \<le> length ss"
    by (auto simp: slots_lost_def list_all_iff MAX_CONNECTIONS_PER_USER_def split: option.splits)
  from ss(3) have "ss \<noteq> []" by auto
  note frame = slots_lost_frame [OF lost]
  show ?thesis
  proof (cases ev)
    case PInit
    then show ?thesis by (auto simp: pool_exec_def te init_pool_def user_of_def intro!: frame)
  next
    case (PConnect sid)
    then show ?thesis
      by (auto simp: pool_exec_def te onConnection_def registerConnection_def user_of_def split: if_splits intro!: frame lost)
  next
    case (PAuthenticate sid v)
    show ?thesis
    proof (cases "v = u")
      case True
      with PAuthenticate lost show ?thesis by (simp add: pool_exec_def te slots_lost_refuses)
    next
      case False
      have "jm_get (sp_connections p) sid \<noteq> None" using ok PAuthenticate te by simp
      then have "user_of (fst (onAuthenticate sid v t p)) k = Some u \<Longrightarrow> user_of p k = Some u" for k
        using False by (auto simp: onAuthenticate_def user_of_def associateUser_def get_with_stats Let_def
            split: option.splits if_splits bind_splits)
      with PAuthenticate False show ?thesis by (auto simp: pool_exec_def te queue_authenticate_other intro!: frame)
    qed
  next
    case (PDisconnect sid)
    have "user_of (deregisterConnection sid p) k = Some u \<Longrightarrow> user_of p k = Some u" for k
      by (auto simp: user_of_def connections_deregister jm_get_delete split: if_splits)
    moreover have "jm_get (sp_userSockets (deregisterConnection sid p)) u = jm_get (sp_userSockets p) u"
      using ss \<open>ss \<noteq> []\<close> by (auto simp: sockets_deregister set_delete_absent)
    ultimately show ?thesis by (auto simp: PDisconnect pool_exec_def te intro!: frame)
  next
    case (PSend v name d)
    have "sp_userSockets (fst (snd (sendToUser v name d t p))) = sp_userSockets p"
      and "user_of (fst (snd (sendToUser v name d t p))) k = user_of p k" for k
      by (auto simp: sendToUser_def enqueue_def Let_def user_of_def [of "p\<lparr>sp_offlineQueue := _\<rparr>"] user_of_def [of p]
          simp del: foldl.simps split: option.splits list.splits)
    then show ?thesis by (auto simp: PSend pool_exec_def te intro!: frame)
  qed (use e te in \<open>auto simp: pool_exec_def te onJoinRoom_def onLeaveRoom_def onPong_def user_of_with_stats
      user_of_def [of "cleanupStaleQueuedMessages t p"] user_of_def [of p] intro!: frame\<close>)
qed

section \<open>Properties\<close>

text \<open>
  Whatever happens, at most 1000 connections are registered; a user that is listed has between one and ten different sockets;
  a queue holds between one and a hundred messages; and every socket that has authenticated is listed for its user.
\<close>

theorem pool_within_limits:
  assumes "allowed_run pool_exec pool_ok new_pool es" and "p = foldl pool_exec new_pool es"
  shows "length (sp_connections p) \<le> 1000 \<and>
    (\<forall>u ss. jm_get (sp_userSockets p) u = Some ss \<longrightarrow> ss \<noteq> [] \<and> length ss \<le> 10 \<and> distinct ss) \<and>
    (\<forall>u q. jm_get (sp_offlineQueue p) u = Some q \<longrightarrow> q \<noteq> [] \<and> length q \<le> 100) \<and>
    (\<forall>sid st u. jm_get (sp_connections p) sid = Some st \<longrightarrow> cn_userId st = Some u \<longrightarrow>
       (\<exists>ss. jm_get (sp_userSockets p) u = Some ss \<and> sid \<in> set ss))"
proof -
  from pool.inv_reachable [OF assms(1)] have inv: "users_inv_of p" "queues_inv p" by (simp_all add: assms(2) pool_inv_def)
  then show ?thesis
    unfolding users_inv_of_def queues_inv_def pool_limits_defs by (simp add: user_of_def)
qed

text \<open>
  C38. Messages sent to a user who is away arrive when the user comes back: whatever else happens in the pool meanwhile, the socket that
  authenticates is sent, in order, those of the latest hundred messages that are less than five minutes old, and the queue is empty
  afterwards.
\<close>

theorem away_messages_delivered:
  assumes start: "jm_wf (sp_offlineQueue p)" "jm_get (sp_offlineQueue p) u = None" "jm_get (sp_userSockets p) u = None"
    and times: "sorted (map fst es)" "\<forall>x\<in>set es. fst x \<le> t"
    and away: "\<forall>x\<in>set es. keeps_away u (snd x)"
    and p': "p' = foldl pool_exec p es"
  shows "snd (onAuthenticate sid u t p')
      = map (\<lambda>m. Emit sid (qm_event m) (qm_data m)) (filter (\<lambda>m. t - qm_queuedAt m < 300000) (latest 100 (sent_to u es)))
    \<and> queue_of (fst (onAuthenticate sid u t p')) u = []"
proof -
  define now where "now = (if es = [] then t else fst (hd es))"
  have "now \<le> t \<and> (\<forall>x\<in>set es. now \<le> fst x)" using times by (cases es) (auto simp: now_def)
  moreover have "away_inv u now [] p" using start by (simp add: away_inv_def queue_of_def latest_def)
  ultimately have inv: "away_inv u t (sent_to u es) p'"
    using away_inv_run [of u now "[]" p es t] times away by (simp add: p')
  then obtain d where d: "latest MAX_QUEUE_SIZE (sent_to u es) = d @ queue_of p' u" "\<forall>m\<in>set d. \<not> fresh_message t m"
    by (auto simp: away_inv_def)
  then have "filter (fresh_message t) (latest MAX_QUEUE_SIZE (sent_to u es)) = filter (fresh_message t) (queue_of p' u)"
    by (simp add: filter_False)
  moreover have "queue_of (associateUser sid u p') u = queue_of p' u" by (simp add: queue_of_def associateUser_def Let_def)
  moreover have "onAuthenticate sid u t p' = flushOfflineQueue sid u t (associateUser sid u p')"
    using inv by (simp add: away_inv_def onAuthenticate_def)
  moreover have "fresh_message t = (\<lambda>m. t - qm_queuedAt m < 300000)" by (simp add: fresh_message_def fun_eq_iff MESSAGE_TTL_MS_def)
  ultimately show ?thesis
    by (auto simp: flushOfflineQueue_def MAX_QUEUE_SIZE_def queue_of_def jm_get_delete Let_def split: option.splits)
qed

text \<open>
  A socket that authenticates as one user and then as another stays listed for the first. Once ten such sockets are listed, the
  first user is shut out for good: until the pool is shut down, no authentication as this user succeeds, and messages to this user
  are sent to those sockets and not kept.
\<close>

theorem lost_slots_shut_out:
  assumes "slots_lost u p" and "allowed_run pool_exec pool_ok p es" and "\<forall>x\<in>set es. \<not> is_destroy (snd x)"
    and "p' = foldl pool_exec p es"
  shows "onAuthenticate sid u t p'
      = (p', [Emit sid ''error'' (error_message ''Maximum connections per user exceeded''), CloseSocket sid]) \<and>
    fst (sendToUser u ev d t p') \<and>
    sp_offlineQueue (fst (snd (sendToUser u ev d t p'))) = sp_offlineQueue p' \<and>
    (\<forall>k. Emit k ev d \<in> set (snd (snd (sendToUser u ev d t p'))) \<longrightarrow> user_of p' k \<noteq> Some u)"
proof -
  have lost: "slots_lost u p'"
    using assms by (induction es arbitrary: p) (auto intro: slots_lost_step)
  then obtain s ss where "jm_get (sp_userSockets p') u = Some (s # ss)" "\<forall>k\<in>set (s # ss). user_of p' k \<noteq> Some u"
    by (auto simp: slots_lost_def list_all_iff MAX_CONNECTIONS_PER_USER_def split: option.splits)
      (metis list.size(3) neq_Nil_conv not_numeral_le_zero)
  with slots_lost_refuses [OF lost] show ?thesis by (auto simp: sendToUser_online simp del: foldl.simps)
qed

section \<open>Witnesses\<close>

theorem pool_within_limits_witness:
  "let es = [(0, PInit), (1, PConnect ''a''), (2, PAuthenticate ''a'' ''u''), (3, PSend ''v'' ''hello'' JNull)];
       p = foldl pool_exec new_pool es
   in length (sp_connections p) = 1 \<and> jm_get (sp_userSockets p) ''u'' = Some [''a''] \<and> length (queue_of p ''v'') = 1 \<and>
     length (sp_connections p) \<le> 1000"
proof -
  let ?es = "[(0, PInit), (1, PConnect ''a''), (2, PAuthenticate ''a'' ''u''), (3, PSend ''v'' ''hello'' JNull)]"
  have "allowed_run pool_exec pool_ok new_pool ?es" by code_simp
  from pool_within_limits [OF this refl] have "length (sp_connections (foldl pool_exec new_pool ?es)) \<le> 1000" by blast
  moreover have "length (sp_connections (foldl pool_exec new_pool ?es)) = 1"
    "jm_get (sp_userSockets (foldl pool_exec new_pool ?es)) ''u'' = Some [''a'']"
    "length (queue_of (foldl pool_exec new_pool ?es) ''v'') = 1"
    by code_simp+
  ultimately show ?thesis unfolding Let_def by blast
qed

theorem away_messages_delivered_witness:
  "let es = [(0, PSend ''u'' ''old'' JNull), (200000, PSend ''u'' ''new'' JNull), (250000, PConnect ''a'')];
       p = foldl pool_exec (init_pool new_pool) es
   in snd (onAuthenticate ''a'' ''u'' 300000 p) = [Emit ''a'' ''new'' JNull] \<and> queue_of (fst (onAuthenticate ''a'' ''u'' 300000 p)) ''u'' = []"
proof -
  let ?es = "[(0, PSend ''u'' ''old'' JNull), (200000, PSend ''u'' ''new'' JNull), (250000, PConnect ''a'')]"
  have "jm_wf (sp_offlineQueue (init_pool new_pool))" "jm_get (sp_offlineQueue (init_pool new_pool)) ''u'' = None"
    "jm_get (sp_userSockets (init_pool new_pool)) ''u'' = None"
    by (simp_all add: init_pool_def new_pool_def)
  from away_messages_delivered [OF this, of ?es 300000 _ "''a''"]
  show ?thesis unfolding Let_def by (simp add: sent_to_def latest_def)
qed

definition hostile_events :: "(int \<times> pool_event) list" where
  "hostile_events = (0, PInit) # concat (map (\<lambda>n. let s = [char_of (97 + n)] in
     [(1, PConnect s), (2, PAuthenticate s ''u''), (3, PAuthenticate s ''x''), (4, PDisconnect s)]) [0..<10])"

theorem lost_slots_shut_out_witness:
  "let p = foldl pool_exec new_pool (hostile_events @ [(5, PConnect ''own'')])
   in allowed_run pool_exec pool_ok new_pool (hostile_events @ [(5, PConnect ''own'')]) \<and>
     fst (onAuthenticate ''own'' ''u'' 6 p) = p \<and> fst (sendToUser ''u'' ''hello'' JNull 7 p)"
proof -
  let ?p = "foldl pool_exec new_pool hostile_events"
  have "slots_lost ''u'' ?p" "allowed_run pool_exec pool_ok ?p [(5, PConnect ''own'')]" by code_simp+
  from lost_slots_shut_out [OF this, of _ "''own''" 6] lost_slots_shut_out [OF this, of _ _ _ "''hello''" JNull]
  have "fst (onAuthenticate ''own'' ''u'' 6 (foldl pool_exec ?p [(5, PConnect ''own'')])) = foldl pool_exec ?p [(5, PConnect ''own'')]"
    "fst (sendToUser ''u'' ''hello'' JNull 7 (foldl pool_exec ?p [(5, PConnect ''own'')]))"
    by simp_all
  moreover have "allowed_run pool_exec pool_ok new_pool (hostile_events @ [(5, PConnect ''own'')])" by code_simp
  ultimately show ?thesis unfolding Let_def foldl_append by blast
qed

end
