(* ===== verification/ApiKeys.thy ===== *)
theory ApiKeys
  imports Stores Arrays
begin

text \<open>
  Access with API keys: the service \<^verbatim>\<open>server/src/services/api-gateway.service.ts\<close> with its table of keys, its cache and its
  record of usage, and the middleware \<^verbatim>\<open>api-gateway.middleware.ts\<close> with a limit on the requests of a key.

  The digest \<open>sha\<close>, the random part of a key, identifiers and times are arguments. A key is valid for whole days. A failing
  database connection is not modelled.
\<close>

section \<open>Data\<close>

record api_key =
  ak_key :: string
  ak_name :: string
  ak_userId :: string
  ak_isActive :: bool
  ak_expiresAt :: "int option"
  ak_createdAt :: int
  ak_updatedAt :: int

record api_key_data =
  kd_id :: string
  kd_keyPrefix :: string
  kd_name :: string
  kd_userId :: string
  kd_permissions :: "string list"
  kd_isActive :: bool
  kd_expiresAt :: "int option"
  kd_createdAt :: int
  kd_lastUsedAt :: "int option"

record create_options =
  co_name :: string
  co_userId :: string
  co_permissions :: "string list"
  co_expiresInDays :: int

record usage_record =
  ur_timestamp :: int
  ur_endpoint :: string
  ur_method :: string
  ur_statusCode :: int

record key_usage =
  ku_keyId :: string
  ku_totalRequests :: nat
  ku_last24h :: nat
  ku_topEndpoints :: "(string \<times> int) list"
  ku_recentRequests :: "usage_record list"

text \<open>\<open>ag_users\<close> are the identifiers the column \<^verbatim>\<open>userId\<close> may refer to.\<close>

record api_state =
  ag_rows :: "(string, api_key) jsmap"
  ag_users :: "string list"
  ag_usageStore :: "(string, usage_record list) jsmap"
  ag_keyCache :: "(string, api_key_data \<times> string) jsmap"

definition maxUsageRecords :: nat where "maxUsageRecords = 10000"

section \<open>Keys\<close>

definition generateApiKey :: "(string \<Rightarrow> string) \<Rightarrow> string \<Rightarrow> string \<times> string \<times> string" where
  "generateApiKey sha rnd = (let raw = ''ax_'' @ rnd in (raw, sha raw, take 10 raw))"

definition api_key_create :: "string \<Rightarrow> api_key \<Rightarrow> api_state \<Rightarrow> api_state result" where
  "api_key_create i r s =
     (if jm_get (ag_rows s) i \<noteq> None \<or> list_ex (\<lambda>r'. ak_key r' = ak_key r) (jm_values (ag_rows s)) then Inl (PrismaError ''P2002'')
      else if ak_userId r \<notin> set (ag_users s) then Inl (PrismaError ''P2003'')
      else Inr (s\<lparr>ag_rows := jm_set (ag_rows s) i r\<rparr>))"

definition api_key_update :: "string \<Rightarrow> (api_key \<Rightarrow> api_key) \<Rightarrow> int \<Rightarrow> api_state \<Rightarrow> unit result \<times> api_state" where
  "api_key_update i f now s =
     (case row_update (ag_rows s) i (\<lambda>r. f r\<lparr>ak_updatedAt := now\<rparr>) of
        Inl e \<Rightarrow> (Inl e, s)
      | Inr rows \<Rightarrow> (Inr (), s\<lparr>ag_rows := rows\<rparr>))"

definition cached_key :: "string \<Rightarrow> string \<Rightarrow> string list \<Rightarrow> api_key \<Rightarrow> api_key_data" where
  "cached_key i keyPrefix permissions r =
     \<lparr>kd_id = i, kd_keyPrefix = keyPrefix, kd_name = ak_name r, kd_userId = ak_userId r, kd_permissions = permissions,
      kd_isActive = ak_isActive r, kd_expiresAt = ak_expiresAt r, kd_createdAt = ak_createdAt r, kd_lastUsedAt = None\<rparr>"

text \<open>The reply holds the identifier, the key itself and the name.\<close>

definition createKey ::
  "(string \<Rightarrow> string) \<Rightarrow> create_options \<Rightarrow> string \<Rightarrow> string \<Rightarrow> int \<Rightarrow> api_state \<Rightarrow> (string \<times> string \<times> string) result \<times> api_state" where
  "createKey sha options rnd i now s =
     (let (raw, hash, keyPrefix) = generateApiKey sha rnd;
          r = \<lparr>ak_key = hash, ak_name = co_name options, ak_userId = co_userId options, ak_isActive = True,
               ak_expiresAt = (if co_expiresInDays options > 0 then Some (now + co_expiresInDays options * 86400000) else None),
               ak_createdAt = now, ak_updatedAt = now\<rparr>
      in case api_key_create i r s of
           Inl e \<Rightarrow> (Inl e, s)
         | Inr s1 \<Rightarrow>
             and_then (api_key_update i (\<lambda>r. r\<lparr>ak_key := hash\<rparr>) now
                 (s1\<lparr>ag_keyCache := jm_set (ag_keyCache s1) i (cached_key i keyPrefix (co_permissions options) r, hash)\<rparr>))
               (\<lambda>_ s2. (Inr (i, raw, co_name options), s2)))"

text \<open>What a reply says of a row: the prefix is that of the digest, and there are no permissions.\<close>

definition key_data :: "string \<Rightarrow> api_key \<Rightarrow> api_key_data" where
  "key_data i r = cached_key i (take 10 (ak_key r)) [] r"

definition find_active :: "string \<Rightarrow> api_state \<Rightarrow> (string \<times> api_key) option" where
  "find_active hash s = find (\<lambda>(i, r). ak_key r = hash \<and> ak_isActive r) (ag_rows s)"

definition validateKey :: "(string \<Rightarrow> string) \<Rightarrow> string \<Rightarrow> int \<Rightarrow> api_state \<Rightarrow> (string + api_key_data) \<times> api_state" where
  "validateKey sha rawKey now s =
     (case find_active (sha rawKey) s of
        None \<Rightarrow> (Inl ''Invalid API key'', s)
      | Some (i, r) \<Rightarrow>
          if (case ak_expiresAt r of None \<Rightarrow> False | Some e \<Rightarrow> e < now) then (Inl ''API key has expired'', s)
          else (Inr (key_data i r), snd (api_key_update i id now s)))"

definition listKeys :: "string \<Rightarrow> api_state \<Rightarrow> api_key_data list" where
  "listKeys userId s = map (\<lambda>(i, r). key_data i r) (rev (filter (\<lambda>(i, r). ak_userId r = userId \<and> ak_isActive r) (ag_rows s)))"

definition adminListAllKeys :: "api_state \<Rightarrow> api_key_data list" where
  "adminListAllKeys s = map (\<lambda>(i, r). key_data i r) (rev (filter (\<lambda>(i, r). ak_isActive r) (ag_rows s)))"

definition revokeKey :: "string \<Rightarrow> string \<Rightarrow> int \<Rightarrow> api_state \<Rightarrow> unit result \<times> api_state" where
  "revokeKey keyId userId now s =
     (case jm_get (ag_rows s) keyId of
        None \<Rightarrow> (Inl (PlainError ''API key not found''), s)
      | Some r \<Rightarrow>
          if ak_userId r \<noteq> userId then (Inl (PlainError ''API key not found''), s)
          else and_then (api_key_update keyId (\<lambda>r. r\<lparr>ak_isActive := False\<rparr>) now s) (\<lambda>_ s1.
            (Inr (), s1\<lparr>ag_keyCache := jm_delete (ag_keyCache s1) keyId\<rparr>)))"

definition rotateKey ::
  "(string \<Rightarrow> string) \<Rightarrow> string \<Rightarrow> string \<Rightarrow> string \<Rightarrow> string \<Rightarrow> int \<Rightarrow> api_state \<Rightarrow> string result \<times> api_state" where
  "rotateKey sha keyId userId rnd i now s =
     and_then (revokeKey keyId userId now s) (\<lambda>_ s1.
       (let (raw, hash, keyPrefix) = generateApiKey sha rnd
        in case jm_get (ag_rows s1) keyId of
             None \<Rightarrow> (Inl (PlainError ''Original key not found''), s1)
           | Some old \<Rightarrow>
               (let r = \<lparr>ak_key = hash, ak_name = ak_name old @ '' (rotated)'', ak_userId = ak_userId old, ak_isActive = True,
                      ak_expiresAt = ak_expiresAt old, ak_createdAt = now, ak_updatedAt = now\<rparr>
                in case api_key_create i r s1 of
                     Inl e \<Rightarrow> (Inl e, s1)
                   | Inr s2 \<Rightarrow>
                       (Inr raw, s2\<lparr>ag_keyCache := jm_set (ag_keyCache s2) i (cached_key i keyPrefix [] r, hash)\<rparr>))))"

definition adminUpdatePermissions :: "string \<Rightarrow> string list \<Rightarrow> api_state \<Rightarrow> api_state" where
  "adminUpdatePermissions keyId permissions s = s"

section \<open>Usage\<close>

definition usage_of :: "api_state \<Rightarrow> string \<Rightarrow> usage_record list" where
  "usage_of s keyId = (case jm_get (ag_usageStore s) keyId of None \<Rightarrow> [] | Some us \<Rightarrow> us)"

definition trackUsage :: "string \<Rightarrow> string \<Rightarrow> string \<Rightarrow> int \<Rightarrow> int \<Rightarrow> api_state \<Rightarrow> api_state" where
  "trackUsage keyId endpoint verb statusCode now s =
     (let records = usage_of s keyId
                @ [\<lparr>ur_timestamp = now, ur_endpoint = endpoint, ur_method = verb, ur_statusCode = statusCode\<rparr>]
      in s\<lparr>ag_usageStore := jm_set (ag_usageStore s) keyId
             (if length records > maxUsageRecords then drop (length records - maxUsageRecords) records else records)\<rparr>)"

definition count_endpoint :: "(string, int) jsmap \<Rightarrow> usage_record \<Rightarrow> (string, int) jsmap" where
  "count_endpoint m r = jm_set m (ur_endpoint r) ((case jm_get m (ur_endpoint r) of None \<Rightarrow> 0 | Some n \<Rightarrow> n) + 1)"

definition getKeyUsage :: "string \<Rightarrow> int \<Rightarrow> api_state \<Rightarrow> key_usage" where
  "getKeyUsage keyId now s =
     (let records = usage_of s keyId;
          endpointCounts = foldl count_endpoint jm_empty records
      in \<lparr>ku_keyId = keyId, ku_totalRequests = length records,
          ku_last24h = length (filter (\<lambda>r. now - ur_timestamp r < 86400000) records),
          ku_topEndpoints = take 10 (js_sort (\<lambda>a b. snd b - snd a) endpointCounts),
          ku_recentRequests = latest 50 records\<rparr>)"

text \<open>The numbers of keys, of active keys and of requests, and the requests by key.\<close>

definition getKeyAnalytics :: "api_state \<Rightarrow> nat \<times> nat \<times> nat \<times> (string, nat) jsmap" where
  "getKeyAnalytics s =
     (length (ag_keyCache s), length (ag_keyCache s), sum_list (map length (jm_values (ag_usageStore s))),
      map (\<lambda>(k, us). (k, length us)) (ag_usageStore s))"

section \<open>The middleware\<close>

definition RATE_LIMIT_WINDOW :: int where "RATE_LIMIT_WINDOW = 60000"

definition RATE_LIMIT_MAX :: nat where "RATE_LIMIT_MAX = 100"

record api_key_info =
  ki_keyId :: string
  ki_keyPrefix :: string
  ki_name :: string
  ki_userId :: string
  ki_permissions :: "string list"

record window_entry =
  we_count :: nat
  we_windowStart :: int

type_synonym rate_store = "(string, window_entry) jsmap"

definition apiKeyAuth :: "(string \<Rightarrow> string) \<Rightarrow> string option \<Rightarrow> int \<Rightarrow> api_state \<Rightarrow> api_key_info result \<times> api_state" where
  "apiKeyAuth sha header now s =
     (if header = None \<or> header = Some [] then (Inl (HttpError 401 ''API key is required. Provide it via the X-API-Key header.''), s)
      else (case validateKey sha (the header) now s of
          (Inl e, s1) \<Rightarrow> (Inl (HttpError 401 e), s1)
        | (Inr k, s1) \<Rightarrow>
            (Inr \<lparr>ki_keyId = kd_id k, ki_keyPrefix = kd_keyPrefix k, ki_name = kd_name k, ki_userId = kd_userId k,
                  ki_permissions = kd_permissions k\<rparr>, s1)))"

text \<open>\<^verbatim>\<open>Math.ceil(n / 1000)\<close> for a whole number.\<close>

definition ceil_seconds :: "int \<Rightarrow> int" where
  "ceil_seconds n = - ((- n) div 1000)"

definition current_window :: "string \<Rightarrow> int \<Rightarrow> rate_store \<Rightarrow> window_entry" where
  "current_window keyId now store =
     (case jm_get store keyId of
        None \<Rightarrow> \<lparr>we_count = 0, we_windowStart = now\<rparr>
      | Some e \<Rightarrow> if now - we_windowStart e \<ge> RATE_LIMIT_WINDOW then \<lparr>we_count = 0, we_windowStart = now\<rparr> else e)"

definition apiKeyRateLimiter :: "string option \<Rightarrow> int \<Rightarrow> rate_store \<Rightarrow> unit result \<times> rate_store" where
  "apiKeyRateLimiter keyId now store =
     (if keyId = None \<or> keyId = Some [] then (Inr (), store)
      else
        (let k = the keyId;
             entry = current_window k now store;
             entry1 = entry\<lparr>we_count := we_count entry + 1\<rparr>;
             store1 = jm_set store k entry1
         in if we_count entry1 > RATE_LIMIT_MAX
            then (Inl (HttpError 429 (''Rate limit exceeded. Retry after ''
                    @ show_int (ceil_seconds (we_windowStart entry1 + RATE_LIMIT_WINDOW - now)) @ '' seconds.'')), store1)
            else (Inr (), store1)))"

definition requireApiPermission :: "string list \<Rightarrow> api_key_info option \<Rightarrow> unit result" where
  "requireApiPermission permissions info =
     (if info = None then Inl (HttpError 401 ''API key authentication required'') else Inr ())"

text \<open>When the response is finished, the request is recorded if it came with a key.\<close>

definition trackApiUsage :: "api_key_info option \<Rightarrow> string \<Rightarrow> string \<Rightarrow> int \<Rightarrow> int \<Rightarrow> api_state \<Rightarrow> api_state" where
  "trackApiUsage info originalUrl verb statusCode now s =
     (case info of
        None \<Rightarrow> s
      | Some k \<Rightarrow> if ki_keyId k = [] then s else trackUsage (ki_keyId k) originalUrl verb statusCode now s)"

section \<open>The life of a key\<close>

datatype api_call =
    CreateKey create_options string string
  | ValidateKey string
  | RevokeKey string string
  | RotateKey string string string string
  | TrackUsage string string string int

fun api_exec :: "(string \<Rightarrow> string) \<Rightarrow> api_state \<Rightarrow> int \<times> api_call \<Rightarrow> api_state" where
  "api_exec sha s (t, CreateKey options rnd i) = snd (createKey sha options rnd i t s)"
| "api_exec sha s (t, ValidateKey raw) = snd (validateKey sha raw t s)"
| "api_exec sha s (t, RevokeKey keyId userId) = snd (revokeKey keyId userId t s)"
| "api_exec sha s (t, RotateKey keyId userId rnd i) = snd (rotateKey sha keyId userId rnd i t s)"
| "api_exec sha s (t, TrackUsage keyId endpoint verb statusCode) = trackUsage keyId endpoint verb statusCode t s"

text \<open>The calls that end the life of a key of a user.\<close>

fun ends_key :: "string \<Rightarrow> string \<Rightarrow> api_call \<Rightarrow> bool" where
  "ends_key i u (RevokeKey keyId userId) \<longleftrightarrow> keyId = i \<and> userId = u"
| "ends_key i u (RotateKey keyId userId rnd j) \<longleftrightarrow> keyId = i \<and> userId = u"
| "ends_key i u _ \<longleftrightarrow> False"

definition keys_unique :: "(string, api_key) jsmap \<Rightarrow> bool" where
  "keys_unique rows \<longleftrightarrow> jm_wf rows \<and>
     (\<forall>i j r r'. jm_get rows i = Some r \<longrightarrow> jm_get rows j = Some r' \<longrightarrow> ak_key r = ak_key r' \<longrightarrow> i = j)"

text \<open>What a row says of its key, without the time of the last change.\<close>

definition key_view :: "api_key \<Rightarrow> string \<times> string \<times> string \<times> bool \<times> int option \<times> int" where
  "key_view r = (ak_key r, ak_name r, ak_userId r, ak_isActive r, ak_expiresAt r, ak_createdAt r)"

definition view_of :: "api_state \<Rightarrow> string \<Rightarrow> (string \<times> string \<times> string \<times> bool \<times> int option \<times> int) option" where
  "view_of s i = map_option key_view (jm_get (ag_rows s) i)"

definition ended :: "bool \<Rightarrow> string \<times> string \<times> string \<times> bool \<times> int option \<times> int \<Rightarrow> string \<times> string \<times> string \<times> bool \<times> int option \<times> int" where
  "ended b = (\<lambda>(k, n, u, a, e, c). (k, n, u, a \<and> \<not> b, e, c))"

lemma keys_unique_view:
  assumes "keys_unique (ag_rows s)" and "jm_wf (ag_rows s')"
    and "\<And>i. map_option fst (view_of s' i) = map_option fst (view_of s i)"
  shows "keys_unique (ag_rows s')"
proof -
  have "\<exists>r. jm_get (ag_rows s) i = Some r \<and> ak_key r = ak_key r'" if "jm_get (ag_rows s') i = Some r'" for i r'
    using assms(3) [of i] that by (cases "jm_get (ag_rows s) i") (auto simp: view_of_def key_view_def)
  then show ?thesis using assms(1,2) unfolding keys_unique_def by metis
qed

lemma api_key_update_view:
  assumes "\<And>r. key_view (f r) = g (key_view r)" and "\<And>r. ak_key (f r) = ak_key r"
  shows "view_of (snd (api_key_update i f t s)) j = (if j = i then map_option g (view_of s j) else view_of s j)"
    and "keys_unique (ag_rows s) \<Longrightarrow> keys_unique (ag_rows (snd (api_key_update i f t s)))"
proof -
  have fr: "key_view (f r\<lparr>ak_updatedAt := t\<rparr>) = g (key_view r)" "fst (g (key_view r)) = fst (key_view r)" for r
    using assms(1) [of r, symmetric] assms(2) [of r] by (simp_all add: key_view_def)
  show view: "view_of (snd (api_key_update i f t s)) j = (if j = i then map_option g (view_of s j) else view_of s j)" for j
    by (cases "jm_get (ag_rows s) i") (simp_all add: api_key_update_def row_update_def view_of_def fr)
  assume u: "keys_unique (ag_rows s)"
  then have "jm_wf (ag_rows (snd (api_key_update i f t s)))"
    by (cases "jm_get (ag_rows s) i") (simp_all add: api_key_update_def row_update_def keys_unique_def)
  with u show "keys_unique (ag_rows (snd (api_key_update i f t s)))"
  proof (rule keys_unique_view)
    show "map_option fst (view_of (snd (api_key_update i f t s)) k) = map_option fst (view_of s k)" for k
      by (simp add: view) (simp add: view_of_def option.map_comp comp_def fr)
  qed
qed

lemma api_key_create_Inr:
  assumes "api_key_create i r s = Inr s'" and u: "keys_unique (ag_rows s)"
  shows "keys_unique (ag_rows s') \<and> view_of s i = None \<and> view_of s' j = (if j = i then Some (key_view r) else view_of s j)"
proof -
  from assms(1) have s': "s' = s\<lparr>ag_rows := jm_set (ag_rows s) i r\<rparr>" and i: "jm_get (ag_rows s) i = None"
    and new: "\<And>r'. r' \<in> set (jm_values (ag_rows s)) \<Longrightarrow> ak_key r' \<noteq> ak_key r"
    by (auto simp: api_key_create_def list_ex_iff split: if_splits)
  have "ak_key r' \<noteq> ak_key r \<and> ak_key r \<noteq> ak_key r'" if "jm_get (ag_rows s) k = Some r'" for k r'
    using new [OF jm_get_in_values [OF that]] by auto
  with u have "keys_unique (ag_rows s')" by (auto simp: s' keys_unique_def)
  with i show ?thesis by (simp add: s' view_of_def)
qed

lemma view_of_cache [simp]: "view_of (s\<lparr>ag_keyCache := c\<rparr>) = view_of s" "view_of (s\<lparr>ag_usageStore := u\<rparr>) = view_of s"
  by (simp_all add: view_of_def fun_eq_iff)

lemma revokeKey_view:
  assumes "view_of s i = Some v" and u: "keys_unique (ag_rows s)"
  shows "view_of (snd (revokeKey keyId userId t s)) i = Some (ended (keyId = i \<and> userId = fst (snd (snd v))) v) \<and>
    keys_unique (ag_rows (snd (revokeKey keyId userId t s)))"
proof (cases "fst (revokeKey keyId userId t s)")
  case (Inl e)
  with assms show ?thesis
    by (auto simp: revokeKey_def api_key_update_def row_update_def ended_def view_of_def key_view_def split: option.splits if_splits)
next
  case (Inr a)
  let ?f = "\<lambda>r. r\<lparr>ak_isActive := False\<rparr>"
  have upd: "key_view (?f r) = ended True (key_view r)" "ak_key (?f r) = ak_key r" for r by (simp_all add: key_view_def ended_def)
  from Inr obtain r where r: "jm_get (ag_rows s) keyId = Some r" "ak_userId r = userId"
    by (auto simp: revokeKey_def split: option.splits if_splits)
  then have step: "snd (revokeKey keyId userId t s)
      = (snd (api_key_update keyId ?f t s))\<lparr>ag_keyCache := jm_delete (ag_keyCache (snd (api_key_update keyId ?f t s))) keyId\<rparr>"
    by (simp add: revokeKey_def api_key_update_def row_update_def)
  from api_key_update_view(2) [OF upd u, of keyId t] have "keys_unique (ag_rows (snd (revokeKey keyId userId t s)))" by (simp add: step)
  moreover have "view_of (snd (revokeKey keyId userId t s)) i = Some (ended (keyId = i \<and> userId = fst (snd (snd v))) v)"
  proof -
    have "view_of (snd (revokeKey keyId userId t s)) i = (if i = keyId then map_option (ended True) (view_of s i) else view_of s i)"
      unfolding step view_of_cache by (rule api_key_update_view(1) [OF upd])
    moreover have "fst (snd (snd v)) = userId" if "i = keyId" using that r assms(1) by (auto simp: view_of_def key_view_def)
    ultimately show ?thesis using assms(1) by (cases v) (auto simp: ended_def)
  qed
  ultimately show ?thesis by blast
qed

lemma api_exec_view:
  assumes v: "view_of s i = Some v" and u: "keys_unique (ag_rows s)"
  shows "view_of (api_exec sha s (t, c)) i = Some (ended (ends_key i (fst (snd (snd v))) c) v) \<and> keys_unique (ag_rows (api_exec sha s (t, c)))"
proof (cases c)
  case (CreateKey options rnd j)
  show ?thesis
  proof (cases "fst (createKey sha options rnd j t s)")
    case (Inl e)
    then have "snd (createKey sha options rnd j t s) = s"
      by (auto simp: createKey_def api_key_update_def row_update_def api_key_create_def Let_def split: prod.splits if_splits)
    with CreateKey v u show ?thesis by (cases v) (simp add: ended_def)
  next
    case (Inr a)
    let ?r = "\<lparr>ak_key = fst (snd (generateApiKey sha rnd)), ak_name = co_name options, ak_userId = co_userId options, ak_isActive = True,
               ak_expiresAt = (if co_expiresInDays options > 0 then Some (t + co_expiresInDays options * 86400000) else None),
               ak_createdAt = t, ak_updatedAt = t\<rparr>"
    from Inr obtain s1 where s1: "api_key_create j ?r s = Inr s1" by (auto simp: createKey_def Let_def split: prod.splits sum.splits)
    note c1 = api_key_create_Inr [OF s1 u]
    have "jm_get (ag_rows s1) j = Some ?r" using s1 by (auto simp: api_key_create_def split: if_splits)
    then have rows: "ag_rows (snd (createKey sha options rnd j t s)) = jm_set (ag_rows s1) j ?r"
      using s1 by (auto simp: createKey_def api_key_update_def row_update_def Let_def split: prod.splits)
    then have "view_of (snd (createKey sha options rnd j t s)) k = view_of s1 k" for k
      using \<open>jm_get (ag_rows s1) j = Some ?r\<close> by (simp add: view_of_def)
    moreover have "keys_unique (jm_set (ag_rows s1) j ?r)"
      using c1 \<open>jm_get (ag_rows s1) j = Some ?r\<close> by (auto simp: keys_unique_def)
    moreover have "i \<noteq> j" using c1 v by auto
    ultimately show ?thesis using CreateKey c1 v rows by (cases v) (simp add: ended_def)
  qed
next
  case (ValidateKey raw)
  have "view_of (snd (api_key_update k id t s)) j = view_of s j" for k j
    using api_key_update_view(1) [of id id k t s j] by (simp add: option.map_id)
  moreover have "keys_unique (ag_rows (snd (api_key_update k id t s)))" for k
    using api_key_update_view(2) [of id id, OF _ _ u] by simp
  ultimately show ?thesis
    using v u unfolding ValidateKey by (cases v) (auto simp: validateKey_def ended_def split: option.splits prod.splits if_splits)
next
  case (RevokeKey keyId userId)
  with revokeKey_view [OF v u] show ?thesis by simp
next
  case (RotateKey keyId userId rnd j)
  let ?s1 = "snd (revokeKey keyId userId t s)" and ?v1 = "ended (keyId = i \<and> userId = fst (snd (snd v))) v"
  have s1: "view_of ?s1 i = Some ?v1" "keys_unique (ag_rows ?s1)" using revokeKey_view [OF v u] by blast+
  have "view_of (snd (rotateKey sha keyId userId rnd j t s)) i = Some ?v1 \<and> keys_unique (ag_rows (snd (rotateKey sha keyId userId rnd j t s)))"
  proof (cases "fst (rotateKey sha keyId userId rnd j t s)")
    case (Inl e)
    then have "snd (rotateKey sha keyId userId rnd j t s) = ?s1"
      by (auto simp: rotateKey_def and_then_def Let_def split: prod.splits sum.splits option.splits)
    with s1 show ?thesis by simp
  next
    case (Inr a)
    then obtain r s2 c where "api_key_create j r ?s1 = Inr s2" "snd (rotateKey sha keyId userId rnd j t s) = s2\<lparr>ag_keyCache := c\<rparr>"
      by (auto simp: rotateKey_def and_then_def Let_def split: prod.splits sum.splits option.splits)
    with api_key_create_Inr [OF this(1) s1(2), of i] s1(1) show ?thesis by auto
  qed
  with RotateKey show ?thesis by simp
next
  case (TrackUsage keyId endpoint verb statusCode)
  with v u show ?thesis by (cases v) (simp add: trackUsage_def ended_def Let_def)
qed

lemma api_run_view:
  assumes "view_of s i = Some v" and "keys_unique (ag_rows s)"
  shows "view_of (foldl (api_exec sha) s calls) i = Some (ended (list_ex (\<lambda>c. ends_key i (fst (snd (snd v))) (snd c)) calls) v) \<and>
    keys_unique (ag_rows (foldl (api_exec sha) s calls))"
  using assms
proof (induction calls arbitrary: s v)
  case Nil
  then show ?case by (cases v) (simp add: ended_def)
next
  case (Cons x calls)
  obtain t c where x: "x = (t, c)" by (cases x)
  let ?v = "ended (ends_key i (fst (snd (snd v))) c) v"
  have "fst (snd (snd ?v)) = fst (snd (snd v))" by (cases v) (simp add: ended_def)
  moreover have "ended b ?v = ended (ends_key i (fst (snd (snd v))) c \<or> b) v" for b by (cases v) (auto simp: ended_def)
  ultimately show ?case using Cons.IH [of "api_exec sha s x" ?v] api_exec_view [OF Cons.prems] by (simp add: x)
qed

lemma find_active_unique:
  assumes u: "keys_unique (ag_rows s)" and r: "jm_get (ag_rows s) i = Some r"
  shows "find_active (ak_key r) s = (if ak_isActive r then Some (i, r) else None)"
proof -
  have only: "j = i \<and> r' = r" if "(j, r') \<in> set (ag_rows s)" "ak_key r' = ak_key r" for j r'
  proof -
    from that(1) u have "jm_get (ag_rows s) j = Some r'" by (simp add: keys_unique_def jm_get_def jm_wf_def)
    with u r that(2) show ?thesis unfolding keys_unique_def by (metis option.inject)
  qed
  show ?thesis
  proof (cases "find_active (ak_key r) s")
    case None
    then have "\<not> (\<exists>x. x \<in> set (ag_rows s) \<and> (case x of (j, r') \<Rightarrow> ak_key r' = ak_key r \<and> ak_isActive r'))"
      by (simp add: find_active_def find_None_iff)
    moreover from r have "(i, r) \<in> set (ag_rows s)" by (auto simp: jm_get_def dest: map_of_SomeD)
    ultimately show ?thesis using None by auto
  next
    case (Some x)
    obtain j r' where x: "x = (j, r')" by (cases x)
    from Some have "x \<in> set (ag_rows s) \<and> ak_key r' = ak_key r \<and> ak_isActive r'"
      by (auto simp: find_active_def x dest: find_SomeD)
    with only x Some show ?thesis by auto
  qed
qed

section \<open>Requests of a key over time\<close>

text \<open>The requests, each a time and a key, that the limiter lets through.\<close>

fun admitted_requests :: "rate_store \<Rightarrow> (int \<times> string) list \<Rightarrow> (int \<times> string) list" where
  "admitted_requests store [] = []"
| "admitted_requests store ((t, k) # reqs) =
     (case apiKeyRateLimiter (Some k) t store of
        (Inr _, store1) \<Rightarrow> (t, k) # admitted_requests store1 reqs
      | (Inl _, store1) \<Rightarrow> admitted_requests store1 reqs)"

definition places_left :: "string \<Rightarrow> rate_store \<Rightarrow> nat" where
  "places_left k store = (case jm_get store k of None \<Rightarrow> 0 | Some e \<Rightarrow> RATE_LIMIT_MAX - we_count e)"

definition let_through :: "string \<Rightarrow> (int \<Rightarrow> bool) \<Rightarrow> rate_store \<Rightarrow> (int \<times> string) list \<Rightarrow> nat" where
  "let_through k P store reqs = length (filter (\<lambda>(t, j). j = k \<and> P t) (admitted_requests store reqs))"

lemma admitted_requests_Cons:
  "admitted_requests store ((t, k) # reqs) =
     (if isl (fst (apiKeyRateLimiter (Some k) t store)) then [] else [(t, k)]) @ admitted_requests (snd (apiKeyRateLimiter (Some k) t store)) reqs"
  by (auto split: prod.splits sum.splits)

lemma let_through_Cons:
  assumes "k \<noteq> []"
  shows "let_through k P store ((t, j) # reqs) =
    (if j = k \<and> P t \<and> we_count (current_window k t store) < RATE_LIMIT_MAX then 1 else 0)
      + let_through k P (snd (apiKeyRateLimiter (Some j) t store)) reqs"
  using assms
  by (auto simp: let_through_def admitted_requests_Cons apiKeyRateLimiter_def Let_def simp del: admitted_requests.simps(2))

lemma limiter_window:
  assumes "j \<noteq> []"
  shows "jm_get (snd (apiKeyRateLimiter (Some j) t store)) k =
    (if k = j then Some ((current_window j t store)\<lparr>we_count := we_count (current_window j t store) + 1\<rparr>) else jm_get store k)"
  using assms by (simp add: apiKeyRateLimiter_def Let_def)

lemma limiter_no_key: "apiKeyRateLimiter (Some []) t store = (Inr (), store)"
  by (simp add: apiKeyRateLimiter_def)

lemma let_through_none: "(\<And>x. x \<in> set reqs \<Longrightarrow> \<not> P (fst x)) \<Longrightarrow> let_through k P store reqs = 0"
proof -
  have "set (admitted_requests store reqs) \<subseteq> set reqs"
  proof (induction reqs arbitrary: store)
    case (Cons x reqs)
    from Cons [of "snd (apiKeyRateLimiter (Some (snd x)) (fst x) store)"] show ?case
      by (cases x) (simp add: admitted_requests_Cons subset_insertI2 del: admitted_requests.simps(2))
  qed simp
  moreover assume "\<And>x. x \<in> set reqs \<Longrightarrow> \<not> P (fst x)"
  ultimately show ?thesis by (auto simp: let_through_def filter_empty_conv)
qed

lemma let_through_mono:
  assumes "\<And>t. P t \<Longrightarrow> Q t"
  shows "let_through k P store reqs \<le> let_through k Q store reqs"
proof -
  have "length (filter (\<lambda>(t, j). j = k \<and> P t) xs) \<le> length (filter (\<lambda>(t, j). j = k \<and> Q t) xs)" for xs
    using assms by (induction xs) auto
  then show ?thesis by (simp add: let_through_def)
qed

text \<open>Within one window a key gets the places that are left in it.\<close>

lemma let_through_window:
  assumes "k \<noteq> []" and "sorted (map fst reqs)" and "jm_get store k = Some e"
  shows "let_through k (\<lambda>t. t < we_windowStart e + RATE_LIMIT_WINDOW) store reqs \<le> RATE_LIMIT_MAX - we_count e"
  using assms(2,3)
proof (induction reqs arbitrary: store e)
  case (Cons x reqs)
  obtain t j where x: "x = (t, j)" by (cases x)
  let ?P = "\<lambda>e t. t < we_windowStart e + RATE_LIMIT_WINDOW" and ?s = "snd (apiKeyRateLimiter (Some j) t store)"
  from Cons.prems have sorted: "sorted (map fst reqs)" by simp
  show ?case
  proof (cases "?P e t")
    case False
    with Cons.prems have "let_through k (?P e) store (x # reqs) = 0" by (intro let_through_none) (auto simp: x)
    then show ?thesis by simp
  next
    case True
    show ?thesis
    proof (cases "j = k")
      case jk: True
      from True Cons.prems(2) have w: "current_window k t store = e" by (simp add: current_window_def)
      have "jm_get ?s k = Some (e\<lparr>we_count := we_count e + 1\<rparr>)" using limiter_window [of j t store k] assms(1) jk w by simp
      from Cons.IH [OF sorted this] have "let_through k (?P e) ?s reqs \<le> RATE_LIMIT_MAX - (we_count e + 1)" by simp
      then show ?thesis using assms(1) jk True w by (auto simp: x let_through_Cons)
    next
      case False
      have "jm_get ?s k = Some e" using Cons.prems(2) False by (cases "j = []") (simp_all add: limiter_window limiter_no_key)
      from Cons.IH [OF sorted this] show ?thesis using assms(1) False by (simp add: x let_through_Cons)
    qed
  qed
qed (simp add: let_through_def)

lemma let_through_after:
  assumes "k \<noteq> []" and "sorted (map fst reqs)" and "\<And>x. x \<in> set reqs \<Longrightarrow> a \<le> fst x"
  shows "let_through k (\<lambda>t. t < a + RATE_LIMIT_WINDOW) store reqs \<le> places_left k store + RATE_LIMIT_MAX"
  using assms(2,3)
proof (induction reqs arbitrary: store)
  case (Cons x reqs)
  obtain t j where x: "x = (t, j)" by (cases x)
  let ?P = "\<lambda>t. t < a + RATE_LIMIT_WINDOW" and ?s = "snd (apiKeyRateLimiter (Some j) t store)"
  from Cons have sorted: "sorted (map fst reqs)" and ih: "let_through k ?P ?s reqs \<le> places_left k ?s + RATE_LIMIT_MAX"
    by auto
  from Cons.prems(2) [of x] have at: "a \<le> t" by (simp add: x)
  show ?case
  proof (cases "j = k")
    case False
    then have "places_left k ?s = places_left k store" by (cases "j = []") (simp_all add: places_left_def limiter_window limiter_no_key)
    with ih False assms(1) show ?thesis by (simp add: x let_through_Cons)
  next
    case jk: True
    let ?e = "current_window k t store"
    have get: "jm_get ?s k = Some (?e\<lparr>we_count := we_count ?e + 1\<rparr>)" using limiter_window [of j t store k] assms(1) jk by simp
    show ?thesis
    proof (cases "jm_get store k = Some ?e")
      case True
      with get have "places_left k store = RATE_LIMIT_MAX - we_count ?e" "places_left k ?s = RATE_LIMIT_MAX - (we_count ?e + 1)"
        by (simp_all add: places_left_def)
      with ih jk assms(1) show ?thesis by (auto simp: x let_through_Cons)
    next
      case False
      then have e: "?e = \<lparr>we_count = 0, we_windowStart = t\<rparr>" by (auto simp: current_window_def split: option.splits)
      have "let_through k ?P ?s reqs \<le> let_through k (\<lambda>u. u < t + RATE_LIMIT_WINDOW) ?s reqs"
        using at by (intro let_through_mono) simp
      also have "\<dots> \<le> RATE_LIMIT_MAX - 1" using let_through_window [OF assms(1) sorted get] by (simp add: e)
      finally show ?thesis using jk assms(1) by (simp add: x let_through_Cons RATE_LIMIT_MAX_def)
    qed
  qed
qed (simp add: let_through_def)

lemma let_through_interval:
  assumes "k \<noteq> []" and "sorted (map fst reqs)"
  shows "let_through k (\<lambda>t. a \<le> t \<and> t < a + RATE_LIMIT_WINDOW) store reqs \<le> 2 * RATE_LIMIT_MAX"
  using assms(2)
proof (induction reqs arbitrary: store)
  case (Cons x reqs)
  obtain t j where x: "x = (t, j)" by (cases x)
  show ?case
  proof (cases "t < a")
    case True
    with Cons assms(1) show ?thesis by (simp add: x let_through_Cons)
  next
    case False
    with Cons.prems have after: "\<And>y. y \<in> set (x # reqs) \<Longrightarrow> a \<le> fst y" by (auto simp: x)
    have "let_through k (\<lambda>t. a \<le> t \<and> t < a + RATE_LIMIT_WINDOW) store (x # reqs)
        \<le> let_through k (\<lambda>t. t < a + RATE_LIMIT_WINDOW) store (x # reqs)"
      by (rule let_through_mono) simp
    also have "\<dots> \<le> places_left k store + RATE_LIMIT_MAX" by (rule let_through_after [OF assms(1) Cons.prems after])
    also have "places_left k store \<le> RATE_LIMIT_MAX" by (simp add: places_left_def split: option.splits)
    finally show ?thesis by simp
  qed
qed (simp add: let_through_def)

section \<open>Properties\<close>

text \<open>
  C39. The answer to a key after any calls is determined by its row: a key whose row is inactive, or that its owner has revoked or
  rotated since, is invalid for ever; otherwise it is accepted up to its end, for its owner, and refused as expired after it.
  Other calls, also attempts of other users to revoke it, make no difference.
\<close>

theorem api_key_life:
  assumes "keys_unique (ag_rows s)" and "jm_get (ag_rows s) i = Some r" and "sha raw = ak_key r"
    and "s' = foldl (api_exec sha) s calls"
  shows "fst (validateKey sha raw now s') =
    (if \<not> ak_isActive r \<or> list_ex (\<lambda>c. ends_key i (ak_userId r) (snd c)) calls then Inl ''Invalid API key''
     else if ak_expiresAt r \<noteq> None \<and> the (ak_expiresAt r) < now then Inl ''API key has expired''
     else Inr (key_data i r))"
proof -
  let ?b = "list_ex (\<lambda>c. ends_key i (ak_userId r) (snd c)) calls"
  have "view_of s i = Some (key_view r)" by (simp add: view_of_def assms(2))
  from api_run_view [OF this assms(1), of sha calls]
  have v: "view_of s' i = Some (ended ?b (key_view r))" and u: "keys_unique (ag_rows s')" by (simp_all add: assms(4) key_view_def)
  from v obtain r' where r': "jm_get (ag_rows s') i = Some r'" "key_view r' = ended ?b (key_view r)" by (auto simp: view_of_def)
  from r'(2) have eq: "ak_key r' = ak_key r" "ak_isActive r' \<longleftrightarrow> ak_isActive r \<and> \<not> ?b" "ak_expiresAt r' = ak_expiresAt r"
    by (simp_all add: key_view_def ended_def)
  from find_active_unique [OF u r'(1)] have "find_active (sha raw) s' = (if ak_isActive r' then Some (i, r') else None)"
    by (simp add: assms(3) eq(1))
  moreover have "key_data i r' = key_data i r" if "ak_isActive r'"
    using r'(2) that by (simp add: key_view_def ended_def key_data_def cached_key_def)
  ultimately show ?thesis by (simp add: validateKey_def eq(2,3) split: option.splits)
qed

text \<open>
  In no minute does a key get more than two hundred requests through, however its requests and those of other keys fall: the
  limit is one hundred requests in a window that starts with the first request, and a minute meets at most two windows.
\<close>

theorem api_rate_bound:
  assumes "k \<noteq> []" and "sorted (map fst reqs)"
  shows "length (filter (\<lambda>(t, j). j = k \<and> a \<le> t \<and> t < a + 60000) (admitted_requests store reqs)) \<le> 200"
  using let_through_interval [OF assms, of a store] by (simp add: let_through_def RATE_LIMIT_WINDOW_def RATE_LIMIT_MAX_def)

text \<open>
  Permissions have no effect: a new key authenticates with an empty list of permissions, whatever list it was created with, and
  passes every permission test, and so does any other key that authenticates.
\<close>

theorem api_permissions_ignored:
  assumes "apiKeyAuth sha header now s = (Inr info, s')"
  shows "ki_permissions info = [] \<and> requireApiPermission needed (Some info) = Inr () \<and>
    fst (apiKeyAuth sha header now (adminUpdatePermissions (ki_keyId info) granted s)) = Inr info"
proof -
  from assms obtain k s1 where "validateKey sha (the header) now s = (Inr k, s1)" "ki_permissions info = kd_permissions k"
    by (auto simp: apiKeyAuth_def split: if_splits prod.splits sum.splits)
  then have "ki_permissions info = []"
    by (auto simp: validateKey_def key_data_def cached_key_def split: option.splits if_splits)
  with assms show ?thesis by (simp add: requireApiPermission_def adminUpdatePermissions_def)
qed

section \<open>Witnesses\<close>

definition demo_api :: api_state where
  "demo_api = snd (createKey (\<lambda>x. x) \<lparr>co_name = ''n'', co_userId = ''u'', co_permissions = [''read''], co_expiresInDays = 1\<rparr> ''r1'' ''i'' 0
     \<lparr>ag_rows = jm_empty, ag_users = [''u'', ''v''], ag_usageStore = jm_empty, ag_keyCache = jm_empty\<rparr>)"

definition demo_row :: api_key where
  "demo_row = \<lparr>ak_key = ''ax_r1'', ak_name = ''n'', ak_userId = ''u'', ak_isActive = True, ak_expiresAt = Some 86400000,
     ak_createdAt = 0, ak_updatedAt = 0\<rparr>"

lemma demo_api_rows: "ag_rows demo_api = [(''i'', demo_row)]"
  by code_simp

theorem api_key_life_witness:
  "let s1 = foldl (api_exec (\<lambda>x. x)) demo_api [(1, RevokeKey ''i'' ''v''), (2, ValidateKey ''ax_r1'')];
       s2 = foldl (api_exec (\<lambda>x. x)) demo_api [(1, RotateKey ''i'' ''u'' ''r2'' ''j'')]
   in fst (validateKey (\<lambda>x. x) ''ax_r1'' 3 s1) = Inr (key_data ''i'' demo_row) \<and>
     fst (validateKey (\<lambda>x. x) ''ax_r1'' 86400001 s1) = Inl ''API key has expired'' \<and>
     fst (validateKey (\<lambda>x. x) ''ax_r1'' 3 s2) = Inl ''Invalid API key''"
proof -
  have "keys_unique (ag_rows demo_api)" "jm_get (ag_rows demo_api) ''i'' = Some demo_row" "(\<lambda>x. x) ''ax_r1'' = ak_key demo_row"
    by (simp_all add: demo_api_rows keys_unique_def jm_wf_def jm_get_def demo_row_def)
  note life = api_key_life [where sha = "\<lambda>x. x" and raw = "''ax_r1''", OF this refl]
  show ?thesis unfolding Let_def life by (simp add: demo_row_def)
qed

theorem api_rate_bound_witness:
  "let reqs = [(0, ''k''), (1, ''j''), (2, ''k'')]
   in length (filter (\<lambda>(t, j). j = ''k'' \<and> 0 \<le> t \<and> t < 0 + 60000) (admitted_requests jm_empty reqs)) = 2 \<and>
     length (filter (\<lambda>(t, j). j = ''k'' \<and> 0 \<le> t \<and> t < 0 + 60000) (admitted_requests jm_empty reqs)) \<le> 200"
proof -
  let ?reqs = "[(0, ''k''), (1, ''j''), (2, ''k'')] :: (int \<times> string) list"
  have "length (filter (\<lambda>(t, j). j = ''k'' \<and> 0 \<le> t \<and> t < 0 + 60000) (admitted_requests jm_empty ?reqs)) = 2" by code_simp
  moreover have "length (filter (\<lambda>(t, j). j = ''k'' \<and> 0 \<le> t \<and> t < 0 + 60000) (admitted_requests jm_empty ?reqs)) \<le> 200"
    by (rule api_rate_bound) simp_all
  ultimately show ?thesis unfolding Let_def by blast
qed

theorem api_permissions_ignored_witness:
  "\<exists>info s'. apiKeyAuth (\<lambda>x. x) (Some ''ax_r1'') 3 demo_api = (Inr info, s') \<and> ki_permissions info = [] \<and>
     requireApiPermission [''admin''] (Some info) = Inr ()"
proof -
  have "\<not> isl (fst (apiKeyAuth (\<lambda>x. x) (Some ''ax_r1'') 3 demo_api))" by code_simp
  then obtain info s' where a: "apiKeyAuth (\<lambda>x. x) (Some ''ax_r1'') 3 demo_api = (Inr info, s')"
    by (cases "apiKeyAuth (\<lambda>x. x) (Some ''ax_r1'') 3 demo_api") (auto simp: isl_def not_le split: sum.splits, metis sum.exhaust)
  from api_permissions_ignored [OF a, of "[''admin'']"] a show ?thesis by blast
qed

end
