(* ===== verification/Resilience.thy ===== *)
theory Resilience
  imports Stores Text Complex_Main
begin

text \<open>
  How the server copes with failing parts: routing of reads to database replicas
  (\<^verbatim>\<open>server/src/services/read-replica.service.ts\<close>), readiness (\<^verbatim>\<open>dependency-health.service.ts\<close>), the statistics of the circuit
  breakers (\<^verbatim>\<open>circuit-breaker.service.ts\<close>), the store of rate limits that falls back to memory
  (\<^verbatim>\<open>server/src/middleware/rate-limit-failover.ts\<close>), and limits that adapt to the load (\<^verbatim>\<open>adaptiveRateLimit.middleware.ts\<close>,
  \<^verbatim>\<open>redis-ip-reputation.store.ts\<close>).

  The outcome of a query, of a probe and of a command of Redis is an argument, and so are the stores of the rate limiter and the
  events of a breaker, which belong to libraries. Numbers are exact.
\<close>

section \<open>Replicas\<close>

definition PROBE_INTERVAL_MS :: int where "PROBE_INTERVAL_MS = 30000"

definition OFFLINE_PROBE_MS :: int where "OFFLINE_PROBE_MS = 60000"

record replica =
  rp_url :: string
  rp_healthy :: bool
  rp_lastProbeAt :: int
  rp_lagMs :: "int option"

text \<open>
  \<open>rr_probes\<close> holds the timers by address, each as the place of the replica it will probe and its delay. \<open>rr_flying\<close> are the probes
  whose query is under way, with their starting times.
\<close>

record replica_router =
  rr_primary :: string
  rr_replicas :: "replica list"
  rr_writePin :: int
  rr_cursor :: nat
  rr_probes :: "(string, nat \<times> int) jsmap"
  rr_flying :: "(nat \<times> int) list"

datatype db_target = Primary | ReplicaAt nat

definition parseReplicaUrls :: "string option \<Rightarrow> string list" where
  "parseReplicaUrls raw =
     (case raw of None \<Rightarrow> []
      | Some s \<Rightarrow> if s = [] then [] else filter (\<lambda>u. u \<noteq> []) (map js_trim (js_split CHR '','' s)))"

definition startProbe :: "replica_router \<Rightarrow> nat \<times> replica \<Rightarrow> replica_router" where
  "startProbe r = (\<lambda>(i, rep).
     if jm_get (rr_probes r) (rp_url rep) \<noteq> None then r
     else r\<lparr>rr_probes := jm_set (rr_probes r) (rp_url rep) (i, 0)\<rparr>)"

definition buildReadReplicaRouter :: "string \<Rightarrow> string list \<Rightarrow> replica_router" where
  "buildReadReplicaRouter primary replicaUrls =
     (let replicas = map (\<lambda>u. \<lparr>rp_url = u, rp_healthy = True, rp_lastProbeAt = 0, rp_lagMs = None\<rparr>) replicaUrls
      in foldl startProbe
           \<lparr>rr_primary = primary, rr_replicas = replicas, rr_writePin = 0, rr_cursor = 0, rr_probes = jm_empty, rr_flying = []\<rparr>
           (enumerate 0 replicas))"

text \<open>A timer fires: the query is sent. Its answer, good or bad, sets the health and the next timer.\<close>

definition tick_begins :: "string \<Rightarrow> int \<Rightarrow> replica_router \<Rightarrow> replica_router" where
  "tick_begins url now r =
     (case jm_get (rr_probes r) url of None \<Rightarrow> r | Some (i, delay) \<Rightarrow> r\<lparr>rr_flying := rr_flying r @ [(i, now)]\<rparr>)"

definition tick_ends :: "nat \<Rightarrow> int \<Rightarrow> bool \<Rightarrow> int \<Rightarrow> replica_router \<Rightarrow> replica_router" where
  "tick_ends i startedAt answered now r =
     (let rep = rr_replicas r ! i;
          rep1 = (if answered then rep\<lparr>rp_healthy := True, rp_lagMs := Some (now - startedAt)\<rparr> else rep\<lparr>rp_healthy := False\<rparr>);
          rep2 = rep1\<lparr>rp_lastProbeAt := now\<rparr>
      in if (i, startedAt) \<notin> set (rr_flying r) \<or> length (rr_replicas r) \<le> i then r
         else r\<lparr>rr_replicas := (rr_replicas r)[i := rep2],
                rr_flying := remove1 (i, startedAt) (rr_flying r),
                rr_probes := jm_set (rr_probes r) (rp_url rep2) (i, if rp_healthy rep2 then PROBE_INTERVAL_MS else OFFLINE_PROBE_MS)\<rparr>)"

definition healthy_places :: "replica_router \<Rightarrow> nat list" where
  "healthy_places r = map fst (filter (\<lambda>(i, rep). rp_healthy rep) (enumerate 0 (rr_replicas r)))"

definition read_client :: "replica_router \<Rightarrow> db_target \<times> replica_router" where
  "read_client r =
     (if rr_writePin r > 0 then (Primary, r)
      else (let healthy = healthy_places r
            in if length healthy = 0 then (Primary, r)
               else (ReplicaAt (healthy ! (rr_cursor r mod length healthy)),
                     r\<lparr>rr_cursor := (rr_cursor r + 1) mod length healthy\<rparr>)))"

definition write_client :: "replica_router \<Rightarrow> db_target" where
  "write_client r = Primary"

text \<open>The beginning and the end of \<^verbatim>\<open>withWritePin\<close>; other requests are served in between.\<close>

definition pin_begins :: "replica_router \<Rightarrow> replica_router" where
  "pin_begins r = r\<lparr>rr_writePin := rr_writePin r + 1\<rparr>"

definition pin_ends :: "replica_router \<Rightarrow> replica_router" where
  "pin_ends r = r\<lparr>rr_writePin := rr_writePin r - 1\<rparr>"

definition disconnectAll_replicas :: "replica_router \<Rightarrow> replica_router" where
  "disconnectAll_replicas r = r\<lparr>rr_probes := jm_empty\<rparr>"

definition snapshot_replicas :: "replica_router \<Rightarrow> string \<times> (string \<times> bool \<times> int option) list" where
  "snapshot_replicas r = (rr_primary r, map (\<lambda>rep. (rp_url rep, rp_healthy rep, rp_lagMs rep)) (rr_replicas r))"

section \<open>Readiness\<close>

datatype probe_status = Pass | Warn | Fail

text \<open>What the check of a dependency does: answer or throw after some time, or neither.\<close>

datatype probe_outcome = Answers int probe_status "string option" | Throws int string | Hangs

record dependency_probe =
  dp_name :: string
  dp_required :: bool
  dp_timeoutMs :: int

record probe_result =
  pr_name :: string
  pr_status :: probe_status
  pr_latencyMs :: int
  pr_message :: "string option"
  pr_required :: bool

record readiness =
  rd_status :: probe_status
  rd_checkedAt :: int
  rd_probes :: "probe_result list"

definition register_probe :: "dependency_probe \<Rightarrow> (string, dependency_probe) jsmap \<Rightarrow> (string, dependency_probe) jsmap result" where
  "register_probe p probes =
     (if dp_timeoutMs p \<le> 0 then Inl (PlainError ''dependency-health: timeoutMs must be positive'')
      else Inr (jm_set probes (dp_name p) p))"

definition unregister_probe :: "string \<Rightarrow> (string, dependency_probe) jsmap \<Rightarrow> (string, dependency_probe) jsmap" where
  "unregister_probe name probes = jm_delete probes name"

fun race :: "probe_outcome \<Rightarrow> int \<Rightarrow> int \<times> probe_status \<times> string option" where
  "race (Answers t st msg) limit = (if t < limit then (t, st, msg) else (limit, Fail, Some ''probe timed out''))"
| "race (Throws t msg) limit = (if t < limit then (t, Fail, Some msg) else (limit, Fail, Some ''probe timed out''))"
| "race Hangs limit = (limit, Fail, Some ''probe timed out'')"

definition runOne :: "(string \<Rightarrow> probe_outcome) \<Rightarrow> dependency_probe \<Rightarrow> probe_result" where
  "runOne check p =
     (let (latency, st, msg) = race (check (dp_name p)) (dp_timeoutMs p)
      in \<lparr>pr_name = dp_name p, pr_status = st, pr_latencyMs = latency, pr_message = msg, pr_required = dp_required p\<rparr>)"

definition runAll :: "(string \<Rightarrow> probe_outcome) \<Rightarrow> int \<Rightarrow> (string, dependency_probe) jsmap \<Rightarrow> readiness" where
  "runAll check now registry =
     (let probes = map (runOne check) (jm_values registry);
          requiredFailed = list_ex (\<lambda>p. pr_required p \<and> pr_status p = Fail) probes;
          anyFailed = list_ex (\<lambda>p. pr_status p = Fail) probes;
          anyWarn = list_ex (\<lambda>p. pr_status p = Warn) probes
      in \<lparr>rd_status = (if requiredFailed then Fail else if anyFailed \<or> anyWarn then Warn else Pass),
          rd_checkedAt = now, rd_probes = probes\<rparr>)"

definition buildDatabaseProbe :: dependency_probe where
  "buildDatabaseProbe = \<lparr>dp_name = ''database'', dp_required = True, dp_timeoutMs = 1000\<rparr>"

definition buildRedisProbe :: dependency_probe where
  "buildRedisProbe = \<lparr>dp_name = ''redis'', dp_required = False, dp_timeoutMs = 500\<rparr>"

definition buildBlockchainRpcProbe :: "bool option \<Rightarrow> dependency_probe" where
  "buildBlockchainRpcProbe required =
     \<lparr>dp_name = ''blockchain-rpc'', dp_required = (case required of None \<Rightarrow> False | Some b \<Rightarrow> b), dp_timeoutMs = 1500\<rparr>"

section \<open>Circuit breakers\<close>

datatype circuit_state = CLOSED | OPEN | HALF_OPEN

record circuit_stats =
  cs_state :: circuit_state
  cs_failures :: nat
  cs_successes :: nat
  cs_timeouts :: nat
  cs_rejects :: nat
  cs_fallbacks :: nat
  cs_percentageError :: int

text \<open>The library's breaker is known by its own state; the service keeps its statistics beside it.\<close>

record breaker_service =
  bs_breakers :: "(string, circuit_state) jsmap"
  bs_stats :: "(string, circuit_stats) jsmap"

definition initializeStats :: circuit_stats where
  "initializeStats = \<lparr>cs_state = CLOSED, cs_failures = 0, cs_successes = 0, cs_timeouts = 0, cs_rejects = 0, cs_fallbacks = 0,
     cs_percentageError = 0\<rparr>"

text \<open>\<^verbatim>\<open>Math.round(f / n * 100)\<close>.\<close>

definition round_percent :: "nat \<Rightarrow> nat \<Rightarrow> int" where
  "round_percent f n = (200 * int f + int n) div (2 * int n)"

definition updatePercentageError :: "circuit_stats \<Rightarrow> circuit_stats" where
  "updatePercentageError st =
     (let n = cs_successes st + cs_failures st
      in st\<lparr>cs_percentageError := (if n = 0 then 0 else round_percent (cs_failures st) n)\<rparr>)"

definition recordSuccess :: "circuit_stats \<Rightarrow> circuit_stats" where
  "recordSuccess st = updatePercentageError (st\<lparr>cs_successes := cs_successes st + 1\<rparr>)"

definition recordFailure :: "circuit_stats \<Rightarrow> circuit_stats" where
  "recordFailure st = updatePercentageError (st\<lparr>cs_failures := cs_failures st + 1\<rparr>)"

definition recordTimeout :: "circuit_stats \<Rightarrow> circuit_stats" where
  "recordTimeout st = updatePercentageError (st\<lparr>cs_timeouts := cs_timeouts st + 1, cs_failures := cs_failures st + 1\<rparr>)"

definition recordReject :: "circuit_stats \<Rightarrow> circuit_stats" where
  "recordReject st = st\<lparr>cs_rejects := cs_rejects st + 1\<rparr>"

text \<open>The events a breaker emits. Opening, half-opening and closing only write to the log.\<close>

datatype breaker_event = EvSuccess | EvFailure | EvTimeout | EvReject | EvOpen | EvHalfOpen | EvClose

fun listener :: "breaker_event \<Rightarrow> circuit_stats \<Rightarrow> circuit_stats" where
  "listener EvSuccess st = recordSuccess st"
| "listener EvFailure st = recordFailure st"
| "listener EvTimeout st = recordTimeout st"
| "listener EvReject st = recordReject st"
| "listener EvOpen st = st"
| "listener EvHalfOpen st = st"
| "listener EvClose st = st"

text \<open>An event of the library with the state the breaker is in after it.\<close>

definition on_event :: "string \<Rightarrow> breaker_event \<Rightarrow> circuit_state \<Rightarrow> breaker_service \<Rightarrow> breaker_service" where
  "on_event name ev after s =
     (case jm_get (bs_breakers s) name of
        None \<Rightarrow> s
      | Some _ \<Rightarrow> s\<lparr>bs_breakers := jm_set (bs_breakers s) name after,
          bs_stats := (case jm_get (bs_stats s) name of None \<Rightarrow> bs_stats s | Some st \<Rightarrow> jm_set (bs_stats s) name (listener ev st))\<rparr>)"

definition create_breaker :: "string \<Rightarrow> breaker_service \<Rightarrow> breaker_service" where
  "create_breaker name s =
     (if jm_get (bs_breakers s) name \<noteq> None then s
      else s\<lparr>bs_breakers := jm_set (bs_breakers s) name CLOSED, bs_stats := jm_set (bs_stats s) name initializeStats\<rparr>)"

definition breaker_missing :: "string \<Rightarrow> string \<Rightarrow> error" where
  "breaker_missing name rest = PlainError (''Circuit breaker '' @ [CHR 0x22] @ name @ [CHR 0x22] @ '' not found.'' @ rest)"

text \<open>\<open>call\<close> is what the library's \<^verbatim>\<open>fire\<close> does.\<close>

definition fire_breaker :: "(circuit_state \<Rightarrow> 'a result) \<Rightarrow> string \<Rightarrow> breaker_service \<Rightarrow> 'a result" where
  "fire_breaker call name s =
     (case jm_get (bs_breakers s) name of None \<Rightarrow> Inl (breaker_missing name '' Create it first.'') | Some st \<Rightarrow> call st)"

definition trip :: "string \<Rightarrow> breaker_service \<Rightarrow> breaker_service result" where
  "trip name s =
     (if jm_get (bs_breakers s) name = None then Inl (breaker_missing name [])
      else Inr (on_event name EvOpen OPEN s))"

definition close_breaker :: "string \<Rightarrow> breaker_service \<Rightarrow> breaker_service result" where
  "close_breaker name s =
     (if jm_get (bs_breakers s) name = None then Inl (breaker_missing name [])
      else Inr (on_event name EvClose CLOSED s))"

definition getStats_breaker :: "string \<Rightarrow> breaker_service \<Rightarrow> circuit_stats result" where
  "getStats_breaker name s =
     (case jm_get (bs_stats s) name of None \<Rightarrow> Inl (breaker_missing name []) | Some st \<Rightarrow> Inr st)"

definition getAllStats :: "breaker_service \<Rightarrow> (string \<times> circuit_stats result) list" where
  "getAllStats s = map (\<lambda>(name, _). (name, getStats_breaker name s)) (bs_breakers s)"

definition destroy_breaker :: "string \<Rightarrow> breaker_service \<Rightarrow> breaker_service" where
  "destroy_breaker name s =
     (if jm_get (bs_breakers s) name = None then s
      else s\<lparr>bs_breakers := jm_delete (bs_breakers s) name, bs_stats := jm_delete (bs_stats s) name\<rparr>)"

section \<open>The store of the rate limiter with a fallback\<close>

record ('p, 'f) failover_store =
  fo_primary :: 'p
  fo_fallback :: 'f
  fo_isPrimaryHealthy :: bool
  fo_lastHealthCheck :: int

text \<open>\<open>check\<close> is the outcome of the health check, if one is configured.\<close>

definition ensurePrimaryHealthy ::
  "int \<Rightarrow> bool result option \<Rightarrow> int \<Rightarrow> ('p, 'f) failover_store \<Rightarrow> ('p, 'f) failover_store" where
  "ensurePrimaryHealthy interval check now s =
     (if now - fo_lastHealthCheck s < interval then s
      else (let s1 = s\<lparr>fo_lastHealthCheck := now\<rparr>
            in case check of
                 None \<Rightarrow> s1
               | Some (Inr b) \<Rightarrow> s1\<lparr>fo_isPrimaryHealthy := b\<rparr>
               | Some (Inl e) \<Rightarrow> s1\<lparr>fo_isPrimaryHealthy := False\<rparr>))"

text \<open>The frame that the four operations share, for a call of the primary store and the same call of the fallback.\<close>

definition fallback_call ::
  "('f \<Rightarrow> 'a result \<times> 'f) \<Rightarrow> ('p, 'f) failover_store \<Rightarrow> 'a result \<times> ('p, 'f) failover_store" where
  "fallback_call cf s = (case cf (fo_fallback s) of (r, f) \<Rightarrow> (r, s\<lparr>fo_fallback := f\<rparr>))"

definition failover_call ::
  "('p \<Rightarrow> 'a result \<times> 'p) \<Rightarrow> ('f \<Rightarrow> 'a result \<times> 'f) \<Rightarrow> ('p, 'f) failover_store \<Rightarrow> 'a result \<times> ('p, 'f) failover_store" where
  "failover_call cp cf s =
     (if fo_isPrimaryHealthy s
      then (case cp (fo_primary s) of
          (Inr r, p) \<Rightarrow> (Inr r, s\<lparr>fo_primary := p, fo_isPrimaryHealthy := True\<rparr>)
        | (Inl e, p) \<Rightarrow> fallback_call cf (s\<lparr>fo_primary := p, fo_isPrimaryHealthy := False\<rparr>))
      else (case fallback_call cf s of
          (Inr r, s1) \<Rightarrow> (Inr r, s1\<lparr>fo_isPrimaryHealthy := True\<rparr>)
        | (Inl e, s1) \<Rightarrow> fallback_call cf s1))"

definition increment_failover ::
  "(string \<Rightarrow> 'p \<Rightarrow> 'a result \<times> 'p) \<Rightarrow> (string \<Rightarrow> 'f \<Rightarrow> 'a result \<times> 'f) \<Rightarrow> int \<Rightarrow> bool result option \<Rightarrow> string \<Rightarrow> int
     \<Rightarrow> ('p, 'f) failover_store \<Rightarrow> 'a result \<times> ('p, 'f) failover_store" where
  "increment_failover inc_p inc_f interval check key now s =
     failover_call (inc_p key) (inc_f key) (ensurePrimaryHealthy interval check now s)"

definition decrement_failover ::
  "(string \<Rightarrow> 'p \<Rightarrow> unit result \<times> 'p) \<Rightarrow> (string \<Rightarrow> 'f \<Rightarrow> unit result \<times> 'f) \<Rightarrow> int \<Rightarrow> bool result option \<Rightarrow> string \<Rightarrow> int
     \<Rightarrow> ('p, 'f) failover_store \<Rightarrow> unit result \<times> ('p, 'f) failover_store" where
  "decrement_failover dec_p dec_f interval check key now s =
     failover_call (dec_p key) (dec_f key) (ensurePrimaryHealthy interval check now s)"

definition resetKey_failover ::
  "(string \<Rightarrow> 'p \<Rightarrow> unit result \<times> 'p) \<Rightarrow> (string \<Rightarrow> 'f \<Rightarrow> unit result \<times> 'f) \<Rightarrow> int \<Rightarrow> bool result option \<Rightarrow> string \<Rightarrow> int
     \<Rightarrow> ('p, 'f) failover_store \<Rightarrow> unit result \<times> ('p, 'f) failover_store" where
  "resetKey_failover reset_p reset_f interval check key now s =
     failover_call (reset_p key) (reset_f key) (ensurePrimaryHealthy interval check now s)"

text \<open>A store need not have \<^verbatim>\<open>resetAll\<close>.\<close>

definition optional_call :: "('s \<Rightarrow> unit result \<times> 's) option \<Rightarrow> 's \<Rightarrow> unit result \<times> 's" where
  "optional_call f s = (case f of None \<Rightarrow> (Inr (), s) | Some g \<Rightarrow> g s)"

definition resetAll_failover ::
  "('p \<Rightarrow> unit result \<times> 'p) option \<Rightarrow> ('f \<Rightarrow> unit result \<times> 'f) option \<Rightarrow> int \<Rightarrow> bool result option \<Rightarrow> int
     \<Rightarrow> ('p, 'f) failover_store \<Rightarrow> unit result \<times> ('p, 'f) failover_store" where
  "resetAll_failover reset_p reset_f interval check now s =
     failover_call (optional_call reset_p) (optional_call reset_f) (ensurePrimaryHealthy interval check now s)"

section \<open>Limits that adapt\<close>

definition HIGH_LOAD_THRESHOLD_RPS :: nat where "HIGH_LOAD_THRESHOLD_RPS = 5000"

definition CRITICAL_LOAD_THRESHOLD_RPS :: nat where "CRITICAL_LOAD_THRESHOLD_RPS = 15000"

definition HIGH_LOAD_MULTIPLIER :: rat where "HIGH_LOAD_MULTIPLIER = 5 / 10"

definition CRITICAL_LOAD_MULTIPLIER :: rat where "CRITICAL_LOAD_MULTIPLIER = 2 / 10"

definition NORMAL_MULTIPLIER :: rat where "NORMAL_MULTIPLIER = 1"

definition ABUSE_THRESHOLD :: rat where "ABUSE_THRESHOLD = 4 / 10"

definition ABUSE_PENALTY_MULTIPLIER :: rat where "ABUSE_PENALTY_MULTIPLIER = 3 / 10"

definition TIER_MULTIPLIERS :: "string \<Rightarrow> rat option" where
  "TIER_MULTIPLIERS tier =
     (if tier = ''enterprise'' then Some 10 else if tier = ''premium'' then Some 3 else if tier = ''free'' then Some 1 else None)"

record adaptive_state =
  as_requestCount :: nat
  as_currentLoadMultiplier :: rat
  as_currentRps :: nat
  as_hasReputationStore :: bool
  as_reputationFallback :: "(string, rat) jsmap"

definition load_tick :: "adaptive_state \<Rightarrow> adaptive_state" where
  "load_tick s =
     (let rps = as_requestCount s
      in s\<lparr>as_currentRps := rps, as_requestCount := 0,
           as_currentLoadMultiplier :=
             (if rps \<ge> CRITICAL_LOAD_THRESHOLD_RPS then CRITICAL_LOAD_MULTIPLIER
              else if rps \<ge> HIGH_LOAD_THRESHOLD_RPS then HIGH_LOAD_MULTIPLIER else NORMAL_MULTIPLIER)\<rparr>)"

definition clamp_score :: "rat \<Rightarrow> rat" where
  "clamp_score x = max 0 (min 1 x)"

text \<open>
  The store of reputations in Redis: \<open>get\<close> is the outcome of the command, \<open>parse\<close> is \<^verbatim>\<open>parseFloat\<close>; the value written is
  \<open>print\<close> of the clamped score.
\<close>

definition reputation_key :: "string \<Rightarrow> string" where
  "reputation_key ip = ''iprep:'' @ ip"

definition getReputation :: "(string \<Rightarrow> string option result) \<Rightarrow> (string \<Rightarrow> rat option) \<Rightarrow> string \<Rightarrow> rat" where
  "getReputation get parse ip =
     (case get (reputation_key ip) of
        Inl e \<Rightarrow> 1
      | Inr None \<Rightarrow> 1
      | Inr (Some raw) \<Rightarrow> (case parse raw of None \<Rightarrow> 1 | Some score \<Rightarrow> clamp_score score))"

definition setReputation :: "(string \<Rightarrow> string \<Rightarrow> nat \<Rightarrow> 'r \<Rightarrow> 'r) \<Rightarrow> (rat \<Rightarrow> string) \<Rightarrow> string \<Rightarrow> rat \<Rightarrow> 'r \<Rightarrow> 'r" where
  "setReputation put print ip score r = put (reputation_key ip) (print (clamp_score score)) 86400 r"

definition setIpReputation ::
  "(string \<Rightarrow> string \<Rightarrow> nat \<Rightarrow> 'r \<Rightarrow> 'r) \<Rightarrow> (rat \<Rightarrow> string) \<Rightarrow> string \<Rightarrow> rat \<Rightarrow> adaptive_state \<times> 'r \<Rightarrow> adaptive_state \<times> 'r" where
  "setIpReputation put print ip score = (\<lambda>(s, r).
     (let clamped = clamp_score score
      in (s\<lparr>as_reputationFallback := jm_set (as_reputationFallback s) ip clamped\<rparr>,
          if as_hasReputationStore s then setReputation put print ip clamped r else r)))"

text \<open>An \<^verbatim>\<open>async\<close> function gives a promise of its result, and a promise compared with a number is neither less nor greater.\<close>

datatype js_number = Number rat | PromiseOf rat

fun js_less :: "js_number \<Rightarrow> rat \<Rightarrow> bool" where
  "js_less (Number x) y = (x < y)"
| "js_less (PromiseOf x) y = False"

definition getIpReputation :: "(string \<Rightarrow> string option result) \<Rightarrow> (string \<Rightarrow> rat option) \<Rightarrow> string \<Rightarrow> adaptive_state \<Rightarrow> js_number" where
  "getIpReputation get parse ip s =
     PromiseOf (if as_hasReputationStore s then getReputation get parse ip
                else (case jm_get (as_reputationFallback s) ip of None \<Rightarrow> 1 | Some x \<Rightarrow> x))"

definition initAdaptiveRateLimitRedis :: "adaptive_state \<Rightarrow> adaptive_state" where
  "initAdaptiveRateLimitRedis s = s\<lparr>as_hasReputationStore := True\<rparr>"

definition load_tier :: "adaptive_state \<Rightarrow> string" where
  "load_tier s =
     (if as_currentLoadMultiplier s = CRITICAL_LOAD_MULTIPLIER then ''critical''
      else if as_currentLoadMultiplier s = HIGH_LOAD_MULTIPLIER then ''high'' else ''normal'')"

definition getRateLimitStats :: "adaptive_state \<Rightarrow> nat \<times> rat \<times> string" where
  "getRateLimitStats s = (as_currentRps s, as_currentLoadMultiplier s, load_tier s)"

record limited_request =
  lr_userId :: "string option"
  lr_tier :: "string option"
  lr_role :: "string option"
  lr_ip :: "string option"

definition adaptive_limit ::
  "(string \<Rightarrow> string option result) \<Rightarrow> (string \<Rightarrow> rat option) \<Rightarrow> rat \<Rightarrow> limited_request \<Rightarrow> adaptive_state \<Rightarrow> int \<times> adaptive_state" where
  "adaptive_limit get parse baseLimit req s =
     (let s1 = s\<lparr>as_requestCount := as_requestCount s + 1\<rparr>;
          tierKey = (case lr_tier req of None \<Rightarrow> ''free'' | Some t \<Rightarrow> t);
          tierMult = (case TIER_MULTIPLIERS tierKey of None \<Rightarrow> 1 | Some x \<Rightarrow> x);
          ip = (case lr_ip req of None \<Rightarrow> [] | Some i \<Rightarrow> i);
          repScore = getIpReputation get parse ip s1;
          repMult = (if js_less repScore ABUSE_THRESHOLD then ABUSE_PENALTY_MULTIPLIER else 1)
      in (max 1 \<lfloor>baseLimit * as_currentLoadMultiplier s1 * tierMult * repMult\<rfloor>, s1))"

definition limit_key :: "limited_request \<Rightarrow> string" where
  "limit_key req =
     (case lr_userId req of
        Some (c # cs) \<Rightarrow> ''user:'' @ c # cs
      | _ \<Rightarrow> ''ip:'' @ (case lr_ip req of None \<Rightarrow> ''unknown'' | Some i \<Rightarrow> i))"

definition limit_skip :: "limited_request \<Rightarrow> bool" where
  "limit_skip req \<longleftrightarrow> lr_role req = Some ''ADMIN''"

text \<open>The body of the refusal: the seconds to wait and the load.\<close>

definition limit_reply :: "int \<Rightarrow> adaptive_state \<Rightarrow> int \<times> string" where
  "limit_reply windowMs s = (- ((- windowMs) div 1000), load_tier s)"

section \<open>Lemmas\<close>

lemma fallback_call_sel:
  "fst (fallback_call cf s) = fst (cf (fo_fallback s))"
  "fo_fallback (snd (fallback_call cf s)) = snd (cf (fo_fallback s))"
  "fo_primary (snd (fallback_call cf s)) = fo_primary s"
  "fo_isPrimaryHealthy (snd (fallback_call cf s)) = fo_isPrimaryHealthy s"
  "fo_lastHealthCheck (snd (fallback_call cf s)) = fo_lastHealthCheck s"
  by (simp_all add: fallback_call_def split: prod.splits)

lemma failover_unhealthy:
  assumes "\<not> fo_isPrimaryHealthy s" and "\<not> isl (fst (cf (fo_fallback s)))"
  shows "fst (failover_call cp cf s) = fst (cf (fo_fallback s))"
    and "snd (failover_call cp cf s) = (snd (fallback_call cf s))\<lparr>fo_isPrimaryHealthy := True\<rparr>"
  using assms by (auto simp: failover_call_def fallback_call_def split: prod.splits sum.splits)

text \<open>The targets of consecutive reads.\<close>

fun reads :: "nat \<Rightarrow> replica_router \<Rightarrow> db_target list" where
  "reads 0 r = []"
| "reads (Suc n) r = (case read_client r of (t, r1) \<Rightarrow> t # reads n r1)"

lemma length_reads [simp]: "length (reads n r) = n"
  by (induction n arbitrary: r) (simp_all split: prod.splits)

lemma reads_nth:
  assumes "rr_writePin r \<le> 0" and "healthy_places r = hs" and "hs \<noteq> []" and "k < n"
  shows "reads n r ! k = ReplicaAt (hs ! ((rr_cursor r + k) mod length hs))"
  using assms
proof (induction n arbitrary: r k)
  case (Suc n)
  let ?r = "r\<lparr>rr_cursor := (rr_cursor r + 1) mod length hs\<rparr>"
  have r: "read_client r = (ReplicaAt (hs ! (rr_cursor r mod length hs)), ?r)" using Suc.prems by (simp add: read_client_def)
  show ?case
  proof (cases k)
    case (Suc j)
    have "reads n ?r ! j = ReplicaAt (hs ! ((rr_cursor ?r + j) mod length hs))"
      using Suc Suc.prems by (intro Suc.IH) (simp_all add: healthy_places_def)
    then show ?thesis by (simp add: r Suc mod_simps)
  qed (simp add: r)
qed simp

text \<open>The address of a replica never changes, and a timer belongs to the replica it was first set for.\<close>

definition other_probed :: "nat \<Rightarrow> replica_router \<Rightarrow> bool" where
  "other_probed i r \<longleftrightarrow>
     (\<forall>u d. jm_get (rr_probes r) u \<noteq> Some (i, d)) \<and> (\<forall>t. (i, t) \<notin> set (rr_flying r))"

datatype router_event = TickBegins string | TickEnds nat int bool | Read | PinBegins | PinEnds

fun router_step :: "replica_router \<Rightarrow> int \<times> router_event \<Rightarrow> replica_router" where
  "router_step r (now, TickBegins u) = tick_begins u now r"
| "router_step r (now, TickEnds i startedAt answered) = tick_ends i startedAt answered now r"
| "router_step r (now, Read) = snd (read_client r)"
| "router_step r (now, PinBegins) = pin_begins r"
| "router_step r (now, PinEnds) = pin_ends r"

lemma other_probed_step:
  assumes "other_probed i r"
  shows "other_probed i (router_step r e) \<and> (i < length (rr_replicas r) \<longrightarrow> rr_replicas (router_step r e) ! i = rr_replicas r ! i) \<and>
    length (rr_replicas (router_step r e)) = length (rr_replicas r)"
  using assms
  by (induction r e rule: router_step.induct)
    (auto simp: other_probed_def tick_begins_def tick_ends_def read_client_def pin_begins_def pin_ends_def Let_def nth_list_update
      dest: in_set_remove1 notin_set_remove1 split: option.splits)

lemma other_probed_run:
  assumes "other_probed i r" and "i < length (rr_replicas r)"
  shows "rr_replicas (foldl router_step r es) ! i = rr_replicas r ! i"
  using assms
proof (induction es arbitrary: r)
  case (Cons e es)
  from other_probed_step [OF Cons.prems(1), of e] Cons.prems(2) show ?case using Cons.IH [of "router_step r e"] by simp
qed simp

section \<open>Properties\<close>

text \<open>
  Reads go round: while nothing is pinned and the health of the replicas does not change, as many reads as there are healthy
  replicas go to each of them once, in order from the current place, and to no other. While a write is pinned, every read goes to
  the primary database.
\<close>

theorem reads_round_robin:
  assumes "rr_writePin r = 0" and "healthy_places r \<noteq> []"
  shows "reads (length (healthy_places r)) r = rotate (rr_cursor r) (map ReplicaAt (healthy_places r)) \<and>
    (\<forall>i\<in>set (healthy_places r). i < length (rr_replicas r) \<and> rp_healthy (rr_replicas r ! i)) \<and>
    reads n (pin_begins r) = replicate n Primary"
proof (intro conjI)
  show "reads (length (healthy_places r)) r = rotate (rr_cursor r) (map ReplicaAt (healthy_places r))"
    using assms by (intro nth_equalityI) (auto simp: reads_nth [OF _ refl] nth_rotate)
  show "\<forall>i\<in>set (healthy_places r). i < length (rr_replicas r) \<and> rp_healthy (rr_replicas r ! i)"
    by (auto simp: healthy_places_def in_set_enumerate_eq)
  have "read_client (pin_begins r) = (Primary, pin_begins r)" using assms(1) by (simp add: pin_begins_def read_client_def)
  then show "reads n (pin_begins r) = replicate n Primary" by (induction n) simp_all
qed

text \<open>
  If an address is configured twice, the second replica is never probed: whatever happens, it counts as healthy, and reads go to it
  although its database does not answer.
\<close>

theorem repeated_replica_unprobed:
  assumes "r = foldl router_step (buildReadReplicaRouter primary [u, u]) es"
  shows "rp_healthy (rr_replicas r ! 1)"
proof -
  let ?r = "buildReadReplicaRouter primary [u, u]"
  have "other_probed 1 ?r" "1 < length (rr_replicas ?r)" "rp_healthy (rr_replicas ?r ! 1)"
    by (simp_all add: buildReadReplicaRouter_def startProbe_def other_probed_def Let_def)
  with other_probed_run [of 1 ?r es] show ?thesis by (simp add: assms)
qed

text \<open>A probe whose answer comes after all connections have been closed sets its timer again, so probing goes on.\<close>

theorem disconnected_router_probes:
  assumes "(i, t0) \<in> set (rr_flying r)" and "i < length (rr_replicas r)"
  shows "jm_get (rr_probes (tick_ends i t0 answered now (disconnectAll_replicas r))) (rp_url (rr_replicas r ! i)) \<noteq> None"
  using assms by (simp add: tick_ends_def disconnectAll_replicas_def Let_def)

text \<open>
  The readiness is \<open>Fail\<close> exactly if a required dependency does not answer with success or a warning within its time, and \<open>Pass\<close>
  exactly if every dependency answers with success within its time.
\<close>

theorem readiness_exact:
  "(rd_status (runAll check now registry) = Fail \<longleftrightarrow>
     list_ex (\<lambda>p. dp_required p \<and> \<not> (\<exists>t st msg. check (dp_name p) = Answers t st msg \<and> st \<noteq> Fail \<and> t < dp_timeoutMs p)) (jm_values registry)) \<and>
   (rd_status (runAll check now registry) = Pass \<longleftrightarrow>
     list_all (\<lambda>p. \<exists>t msg. check (dp_name p) = Answers t Pass msg \<and> t < dp_timeoutMs p) (jm_values registry))"
proof -
  have one: "pr_status (runOne check p) = Fail \<longleftrightarrow>
      \<not> (\<exists>t st msg. check (dp_name p) = Answers t st msg \<and> st \<noteq> Fail \<and> t < dp_timeoutMs p)"
    "pr_status (runOne check p) = Pass \<longleftrightarrow> (\<exists>t msg. check (dp_name p) = Answers t Pass msg \<and> t < dp_timeoutMs p)"
    "pr_required (runOne check p) = dp_required p" for p
    by (cases "check (dp_name p)"; simp add: runOne_def)+
  have pass: "st = Pass \<longleftrightarrow> st \<noteq> Fail \<and> st \<noteq> Warn" for st by (cases st) simp_all
  have "rd_status (runAll check now registry) = Fail \<longleftrightarrow>
      list_ex (\<lambda>p. dp_required p \<and> pr_status (runOne check p) = Fail) (jm_values registry)"
    by (auto simp: runAll_def Let_def list_ex_iff one(3))
  moreover have "rd_status (runAll check now registry) = Pass \<longleftrightarrow> list_all (\<lambda>p. pr_status (runOne check p) = Pass) (jm_values registry)"
    unfolding pass [of "pr_status _"] by (auto simp: runAll_def Let_def list_ex_iff list_all_iff)
  ultimately show ?thesis by (simp only: one(1,2))
qed


text \<open>
  The verdict on the primary store is not kept: a success of the fallback marks the primary store as healthy. Of \<open>n\<close> requests within one
  interval of the health check, half are sent to a primary store that always fails, also if the check has just found it dead.
\<close>

definition dead_store :: "nat \<Rightarrow> unit result \<times> nat" where
  "dead_store tries = (Inl (PlainError ''ECONNREFUSED''), tries + 1)"

theorem dead_primary_retried:
  assumes "fo_isPrimaryHealthy s" and "now - fo_lastHealthCheck s < interval"
    and "\<And>f. fst (inc_f key f) = Inr ()"
  shows "fo_primary (((\<lambda>s. snd (increment_failover (\<lambda>k. dead_store) inc_f interval check key now s)) ^^ n) s)
    = fo_primary s + (n + 1) div 2"
proof -
  let ?step = "\<lambda>s. snd (increment_failover (\<lambda>k. dead_store) inc_f interval check key now s)"
  define step where "step = ?step"
  have keep: "ensurePrimaryHealthy interval check now x = x" if "fo_lastHealthCheck x = fo_lastHealthCheck s" for x
    using assms(2) that by (simp add: ensurePrimaryHealthy_def)
  have dies: "fo_primary (step x) = fo_primary x + 1 \<and> \<not> fo_isPrimaryHealthy (step x) \<and> fo_lastHealthCheck (step x) = fo_lastHealthCheck x"
    if "fo_lastHealthCheck x = fo_lastHealthCheck s" "fo_isPrimaryHealthy x" for x
    using that by (simp add: step_def increment_failover_def keep failover_call_def dead_store_def fallback_call_sel)
  have revives: "fo_primary (step x) = fo_primary x \<and> fo_isPrimaryHealthy (step x) \<and> fo_lastHealthCheck (step x) = fo_lastHealthCheck x"
    if "fo_lastHealthCheck x = fo_lastHealthCheck s" "\<not> fo_isPrimaryHealthy x" for x
    using that assms(3) by (simp add: step_def increment_failover_def keep failover_unhealthy(2) fallback_call_sel)
  have "fo_primary ((step ^^ n) s) = fo_primary s + (n + 1) div 2 \<and> fo_isPrimaryHealthy ((step ^^ n) s) = even n \<and>
      fo_lastHealthCheck ((step ^^ n) s) = fo_lastHealthCheck s" for n
  proof (induction n)
    case (Suc n)
    then show ?case using dies [of "(step ^^ n) s"] revives [of "(step ^^ n) s"] by (cases "even n") auto
  qed (use assms(1) in simp)
  then show ?thesis unfolding step_def by blast
qed

text \<open>Whatever a breaker does, its statistics say that it is closed and that no fallback was used; the error rate is between 0 and 100.\<close>

theorem breaker_state_never_reported:
  assumes "getStats_breaker name (foldl (\<lambda>s (ev, after). on_event name ev after s) (create_breaker name s) evs) = Inr st"
    and "jm_get (bs_breakers s) name = None"
  shows "cs_state st = CLOSED \<and> cs_fallbacks st = 0 \<and> 0 \<le> cs_percentageError st \<and> cs_percentageError st \<le> 100"
proof -
  let ?ok = "\<lambda>st. cs_state st = CLOSED \<and> cs_fallbacks st = 0 \<and> 0 \<le> cs_percentageError st \<and> cs_percentageError st \<le> 100"
  have percent: "0 \<le> round_percent f n \<and> round_percent f n \<le> 100" if "f \<le> n" "0 < n" for f n
  proof -
    have "round_percent f n \<le> (201 * int n) div (2 * int n)" unfolding round_percent_def using that by (intro zdiv_mono1) simp_all
    also have "\<dots> = 100" using that by simp
    finally have "round_percent f n \<le> 100" .
    moreover have "0 \<le> round_percent f n" unfolding round_percent_def using that by (simp add: pos_imp_zdiv_nonneg_iff)
    ultimately show ?thesis by simp
  qed
  have step: "?ok (listener ev st)" if "?ok st" for ev st
    using that percent
    by (cases ev) (auto simp: recordSuccess_def recordFailure_def recordTimeout_def recordReject_def updatePercentageError_def Let_def)
  have "\<exists>st. jm_get (bs_stats x) name = Some st \<and> ?ok st \<Longrightarrow>
      \<exists>st. jm_get (bs_stats (foldl (\<lambda>s (ev, after). on_event name ev after s) x evs)) name = Some st \<and> ?ok st" for x
  proof (induction evs arbitrary: x)
    case (Cons e evs)
    from Cons.prems obtain st where st: "jm_get (bs_stats x) name = Some st" "?ok st" by blast
    have "\<exists>st. jm_get (bs_stats (on_event name (fst e) (snd e) x)) name = Some st \<and> ?ok st"
      using st step [OF st(2), of "fst e"] by (auto simp: on_event_def split: option.splits)
    from Cons.IH [OF this] show ?case by (simp add: case_prod_unfold)
  qed simp
  from this [of "create_breaker name s"]
  have "\<exists>st. jm_get (bs_stats (foldl (\<lambda>s (ev, after). on_event name ev after s) (create_breaker name s) evs)) name = Some st \<and> ?ok st"
    using assms(2) by (simp add: create_breaker_def initializeStats_def)
  then show ?thesis using assms(1) by (auto simp: getStats_breaker_def)
qed

text \<open>
  The limit of a request is the base limit scaled by the load and by the tier of the user, and at least 1. The reputation of the
  address has no part in it, whatever the stores say.
\<close>

theorem adaptive_limit_exact:
  assumes "as_currentLoadMultiplier s \<in> {NORMAL_MULTIPLIER, HIGH_LOAD_MULTIPLIER, CRITICAL_LOAD_MULTIPLIER}" and "0 \<le> base"
  shows "fst (adaptive_limit get parse (of_int base) req s) =
      max 1 (base * (if lr_tier req = Some ''enterprise'' then 10 else if lr_tier req = Some ''premium'' then 3 else 1)
        div (if load_tier s = ''normal'' then 1 else if load_tier s = ''high'' then 2 else 5)) \<and>
    fst (adaptive_limit get parse (of_int base) req (fst (setIpReputation put print ip score (s, r))))
      = fst (adaptive_limit get' parse' (of_int base) req s)"
proof -
  let ?tier = "if lr_tier req = Some ''enterprise'' then 10 else if lr_tier req = Some ''premium'' then 3 else (1 :: int)"
  have tier: "(case TIER_MULTIPLIERS (case lr_tier req of None \<Rightarrow> ''free'' | Some t \<Rightarrow> t) of None \<Rightarrow> 1 | Some x \<Rightarrow> x) = of_int ?tier"
    by (simp add: TIER_MULTIPLIERS_def split: option.splits)
  have limit: "fst (adaptive_limit get parse (of_int base) req s) = max 1 \<lfloor>of_int (base * ?tier) * as_currentLoadMultiplier s\<rfloor>" for get parse s
    by (simp only: adaptive_limit_def Let_def tier getIpReputation_def js_less.simps if_False fst_conv) (simp add: mult_ac)
  have div: "\<lfloor>of_int x / of_int y :: rat\<rfloor> = x div y" for x y by (rule floor_divide_of_int_eq)
  have "\<lfloor>of_int x * as_currentLoadMultiplier s\<rfloor> = x div (if load_tier s = ''normal'' then 1 else if load_tier s = ''high'' then 2 else 5)" for x
  proof -
    note defs = load_tier_def NORMAL_MULTIPLIER_def HIGH_LOAD_MULTIPLIER_def CRITICAL_LOAD_MULTIPLIER_def
    from assms(1) consider "as_currentLoadMultiplier s = 1" | "as_currentLoadMultiplier s = 1 / 2" | "as_currentLoadMultiplier s = 1 / 5"
      unfolding defs by auto
    then show ?thesis
    proof cases
      case 1
      have "load_tier s = ''normal''" unfolding defs 1 by simp
      then show ?thesis unfolding 1 by simp
    next
      case 2
      have "load_tier s = ''high''" unfolding defs 2 by simp
      then show ?thesis unfolding 2 using div [of x 2] by simp
    next
      case 3
      have "load_tier s = ''critical''" unfolding defs 3 by simp
      then show ?thesis unfolding 3 using div [of x 5] by simp
    qed
  qed
  moreover have "as_currentLoadMultiplier (fst (setIpReputation put print ip score (s, r))) = as_currentLoadMultiplier s"
    by (simp add: setIpReputation_def Let_def)
  ultimately show ?thesis by (simp only: limit)
qed

section \<open>Witnesses\<close>

definition demo_replicas :: replica_router where
  "demo_replicas = buildReadReplicaRouter ''p'' [''a'', ''b'']"

theorem reads_round_robin_witness:
  "reads 2 demo_replicas = [ReplicaAt 0, ReplicaAt 1] \<and> reads 3 (pin_begins demo_replicas) = [Primary, Primary, Primary]"
proof -
  have "rr_writePin demo_replicas = 0" "healthy_places demo_replicas \<noteq> []" "length (healthy_places demo_replicas) = 2" by code_simp+
  with reads_round_robin [of demo_replicas 3] have "reads 3 (pin_begins demo_replicas) = replicate 3 Primary"
    "reads 2 demo_replicas = rotate (rr_cursor demo_replicas) (map ReplicaAt (healthy_places demo_replicas))" by simp_all
  moreover have "rotate (rr_cursor demo_replicas) (map ReplicaAt (healthy_places demo_replicas)) = [ReplicaAt 0, ReplicaAt 1]" by code_simp
  ultimately show ?thesis by (simp add: numeral_3_eq_3)
qed

theorem repeated_replica_unprobed_witness:
  "rp_healthy (rr_replicas (foldl router_step (buildReadReplicaRouter ''p'' [''a'', ''a'']) [(1, TickBegins ''a''), (2, TickEnds 0 1 False)]) ! 1)"
  by (rule repeated_replica_unprobed [OF refl])

theorem disconnected_router_probes_witness:
  "jm_get (rr_probes (tick_ends 0 5 True 7 (disconnectAll_replicas (tick_begins ''a'' 5 demo_replicas)))) ''a'' \<noteq> None"
proof -
  have "(0, 5) \<in> set (rr_flying (tick_begins ''a'' 5 demo_replicas))" "0 < length (rr_replicas (tick_begins ''a'' 5 demo_replicas))"
    "rp_url (rr_replicas (tick_begins ''a'' 5 demo_replicas) ! 0) = ''a''" by code_simp+
  with disconnected_router_probes [OF this(1,2), of True 7] show ?thesis by simp
qed

definition counting_store :: "nat \<Rightarrow> unit result \<times> nat" where
  "counting_store n = (Inr (), n + 1)"

definition refusing_store :: "nat \<Rightarrow> unit result \<times> nat" where
  "refusing_store n = (Inl (PlainError ''ECONNREFUSED''), n)"

definition demo_failover :: "(nat, nat) failover_store" where
  "demo_failover = \<lparr>fo_primary = 0, fo_fallback = 0, fo_isPrimaryHealthy = True, fo_lastHealthCheck = 0\<rparr>"


theorem dead_primary_retried_witness:
  "fo_primary (((\<lambda>s. snd (increment_failover (\<lambda>k. dead_store) (\<lambda>k. counting_store) 30000 None ''k'' 5 s)) ^^ 7) demo_failover) = 4"
proof -
  have "fo_primary (((\<lambda>s. snd (increment_failover (\<lambda>k. dead_store) (\<lambda>k. counting_store) 30000 None ''k'' 5 s)) ^^ 7) demo_failover)
      = fo_primary demo_failover + (7 + 1) div 2"
    by (rule dead_primary_retried) (simp_all add: demo_failover_def counting_store_def)
  then show ?thesis by (simp add: demo_failover_def)
qed

theorem breaker_state_never_reported_witness:
  "\<exists>st. getStats_breaker ''b'' (foldl (\<lambda>s (ev, after). on_event ''b'' ev after s)
      (create_breaker ''b'' \<lparr>bs_breakers = jm_empty, bs_stats = jm_empty\<rparr>) [(EvFailure, OPEN), (EvOpen, OPEN)]) = Inr st \<and>
    cs_state st = CLOSED \<and> cs_failures st = 1"
proof -
  let ?r = "getStats_breaker ''b'' (foldl (\<lambda>s (ev, after). on_event ''b'' ev after s)
      (create_breaker ''b'' \<lparr>bs_breakers = jm_empty, bs_stats = jm_empty\<rparr>) [(EvFailure, OPEN), (EvOpen, OPEN)])"
  have "map_sum id cs_failures ?r = Inr 1" by code_simp
  then obtain st where st: "?r = Inr st" "cs_failures st = 1" by (cases ?r) auto
  from breaker_state_never_reported [OF st(1)] st show ?thesis by simp
qed

theorem adaptive_limit_exact_witness:
  "fst (adaptive_limit (\<lambda>k. Inr (Some ''0'')) (\<lambda>x. Some 0) (of_int 200) \<lparr>lr_userId = None, lr_tier = Some ''premium'', lr_role = None, lr_ip = Some ''i''\<rparr>
      \<lparr>as_requestCount = 0, as_currentLoadMultiplier = HIGH_LOAD_MULTIPLIER, as_currentRps = 6000, as_hasReputationStore = True,
       as_reputationFallback = jm_empty\<rparr>) = 300"
proof -
  let ?s = "\<lparr>as_requestCount = 0, as_currentLoadMultiplier = HIGH_LOAD_MULTIPLIER, as_currentRps = 6000, as_hasReputationStore = True,
       as_reputationFallback = jm_empty\<rparr>"
  have "load_tier ?s = ''high''" by (simp add: load_tier_def HIGH_LOAD_MULTIPLIER_def CRITICAL_LOAD_MULTIPLIER_def)
  moreover have "as_currentLoadMultiplier ?s \<in> {NORMAL_MULTIPLIER, HIGH_LOAD_MULTIPLIER, CRITICAL_LOAD_MULTIPLIER}" by simp
  note adaptive_limit_exact [OF this, of 200 "\<lambda>k. Inr (Some ''0'')" "\<lambda>x. Some 0"
      "\<lparr>lr_userId = None, lr_tier = Some ''premium'', lr_role = None, lr_ip = Some ''i''\<rparr>", THEN conjunct1]
  ultimately show ?thesis by simp
qed

end
