(* ===== verification/Spec2Isabelle.thy ===== *)
theory Spec2Isabelle
  imports Prelude Stores Wallet Assets Access Lockout RateLimit Brackets Tournaments Payments Governance Matches Achievements
    Json AuditTrail Anchors Text Custody Sessions Sharding Quality Caching Flags GameNodes Admin Arrays Gates SocketPool ApiKeys Resilience
begin

text \<open>
  Verification library of the ArenaX server.
\<close>

end
